(* ===== verification/Prelude.thy ===== *)
theory Prelude
  imports Main "HOL-Library.Word"
begin

section \<open>Prelude: results, faults, console output and shared lemmas\<close>

text \<open>
  What the component theories share: the ways a C++ operation of the program can fail to
  return (\<open>fault\<close>), the result type of an operation that may fail (\<open>'a res\<close>, with
  sequencing \<open>res_bind\<close>), the console stream, C strings, the arithmetic of \<open>size_t\<close> and of
  C's truncating division, and generic lemmas on lists and words.
\<close>

subsection \<open>Results\<close>

text \<open>
  A fault is an abnormal end of an operation: a null or dangling pointer is followed, a debug
  check of \<^verbatim>\<open>rtc_base/checks.h\<close> fails, jsoncpp throws, an exception leaves a function that
  does not catch it, a shift has an amount outside the width of its operand, memory outside a
  block is accessed, a value is read that was never written, a signed operation has a result
  outside its type, or an integer is divided by zero.
\<close>

datatype fault =
    NullDeref
  | UseAfterFree
  | DcheckFailed
  | JsonLogicError
  | UncaughtException
  | ShiftOutOfRange
  | OutOfBounds
  | UninitRead
  | SignedOverflow
  | DivisionByZero

type_synonym 'a res = "fault + 'a"

definition res_bind :: "'a res \<Rightarrow> ('a \<Rightarrow> 'b res) \<Rightarrow> 'b res" where
  "res_bind m f = (case m of Inl e \<Rightarrow> Inl e | Inr x \<Rightarrow> f x)"

text \<open>
  A C++ function with result type \<open>bool\<close> that runs off its end returns no value: the result is
  \<open>NoReturn\<close>, which no caller may read.
\<close>

datatype retval = Ret bool | NoReturn

subsection \<open>The console\<close>

text \<open>
  The values a function inserts into \<^verbatim>\<open>std::cout\<close>, in order. \<open>Tid\<close> stands for
  \<^verbatim>\<open>std::this_thread::get_id()\<close>, \<open>Ptr\<close> for a pointer (\<open>None\<close> is null), \<open>Endl\<close> for
  \<^verbatim>\<open>std::endl\<close>.
\<close>

datatype cout_item = Str string | Num int | Ptr "nat option" | Tid | Endl

record process =
  cout :: "cout_item list"

definition cout_print :: "cout_item list \<Rightarrow> 'a process_scheme \<Rightarrow> 'a process_scheme" where
  "cout_print xs s = s\<lparr>cout := cout s @ xs\<rparr>"

subsection \<open>Strings and machine arithmetic\<close>

text \<open>\<^verbatim>\<open>s.c_str()\<close> read back as a string stops at the first NUL.\<close>

definition c_str :: "string \<Rightarrow> string" where
  "c_str s = takeWhile (\<lambda>c. c \<noteq> CHR 0x00) s"

text \<open>\<^verbatim>\<open>size_t\<close> has 64 bits: sums wrap around.\<close>

definition size_add :: "nat \<Rightarrow> nat \<Rightarrow> nat" where
  "size_add a b = (a + b) mod 2 ^ 64"

text \<open>C's \<^verbatim>\<open>/\<close> and \<^verbatim>\<open>%\<close> on signed integers truncate towards zero.\<close>

definition c_div :: "int \<Rightarrow> int \<Rightarrow> int" where
  "c_div a b = (if (a < 0) = (b < 0) then \<bar>a\<bar> div \<bar>b\<bar> else - (\<bar>a\<bar> div \<bar>b\<bar>))"

definition c_mod :: "int \<Rightarrow> int \<Rightarrow> int" where
  "c_mod a b = a - b * c_div a b"

subsection \<open>Arrays and counting loops\<close>

text \<open>Reading and writing an array at an index that is computed.\<close>

definition arr_at :: "'a list \<Rightarrow> nat \<Rightarrow> 'a res" where
  "arr_at xs i = (if i < length xs then Inr (xs ! i) else Inl OutOfBounds)"

definition arr_put :: "'a list \<Rightarrow> nat \<Rightarrow> 'a \<Rightarrow> 'a list res" where
  "arr_put xs i x = (if i < length xs then Inr (xs[i := x]) else Inl OutOfBounds)"

text \<open>\<^verbatim>\<open>for (k = i; k < i + n; ++k)\<close> with a body that changes the state and may fail.\<close>

fun for_range :: "nat \<Rightarrow> nat \<Rightarrow> (nat \<Rightarrow> 's \<Rightarrow> 's res) \<Rightarrow> 's \<Rightarrow> 's res" where
  "for_range 0 i f s = Inr s"
| "for_range (Suc n) i f s = res_bind (f i s) (for_range n (Suc i) f)"

subsection \<open>Lemmas\<close>

named_theorems res_simps \<open>sequencing of results\<close>

lemma res_bind_Inl [simp, res_simps]: "res_bind (Inl e) f = Inl e"
  by (simp add: res_bind_def)

lemma res_bind_Inr [simp, res_simps]: "res_bind (Inr x) f = f x"
  by (simp add: res_bind_def)

lemma res_bind_eq_Inr [res_simps]:
  "res_bind m f = Inr y \<longleftrightarrow> (\<exists>x. m = Inr x \<and> f x = Inr y)"
  by (cases m) auto

lemma res_bind_eq_Inl [res_simps]:
  "res_bind m f = Inl e \<longleftrightarrow> m = Inl e \<or> (\<exists>x. m = Inr x \<and> f x = Inl e)"
  by (cases m) auto

lemma res_bind_assoc: "res_bind (res_bind m f) g = res_bind m (\<lambda>x. res_bind (f x) g)"
  by (cases m) auto

lemma res_bindE [elim]:
  assumes "res_bind m f = Inr y"
  obtains x where "m = Inr x" and "f x = Inr y"
  using assms by (auto simp: res_bind_eq_Inr)

lemma arr_simps [simp]:
  "i < length xs \<Longrightarrow> arr_at xs i = Inr (xs ! i)" "i < length xs \<Longrightarrow> arr_put xs i x = Inr (xs[i := x])"
  "length xs \<le> i \<Longrightarrow> arr_at xs i = Inl OutOfBounds"
  by (simp_all add: arr_at_def arr_put_def)

text \<open>The rule for counting loops: an invariant that holds before and that every round keeps.\<close>

lemma for_range_inv:
  assumes "P i s"
    and "\<And>k s. i \<le> k \<Longrightarrow> k < i + n \<Longrightarrow> P k s \<Longrightarrow> \<exists>s'. f k s = Inr s' \<and> P (Suc k) s'"
  shows "\<exists>s'. for_range n i f s = Inr s' \<and> P (i + n) s'"
  using assms
proof (induction n arbitrary: i s)
  case (Suc n)
  from Suc.prems(2) [of i s] Suc.prems(1) obtain s1 where s1: "f i s = Inr s1" "P (Suc i) s1" by auto
  have "\<exists>s'. for_range n (Suc i) f s1 = Inr s' \<and> P (Suc i + n) s'"
    by (rule Suc.IH [OF s1(2)]) (use Suc.prems(2) in simp)
  then show ?case using s1(1) by simp
qed simp

lemma list_all_update: "list_all P xs \<Longrightarrow> P x \<Longrightarrow> list_all P (xs[i := x])"
  by (induction xs arbitrary: i) (auto split: nat.splits)

lemma cout_print_simps [simp]:
  "cout (cout_print xs s) = cout s @ xs"
  "process.more (cout_print xs s) = process.more s"
  by (simp_all add: cout_print_def)

lemma cout_print_append: "cout_print ys (cout_print xs s) = cout_print (xs @ ys) s"
  by (simp add: cout_print_def)

lemma size_add_small [simp]: "a + b < 2 ^ 64 \<Longrightarrow> size_add a b = a + b"
  by (simp add: size_add_def)

lemma c_div_mod: "b * c_div a b + c_mod a b = a"
  by (simp add: c_mod_def)

lemma c_div_nonneg: "0 \<le> a \<Longrightarrow> 0 < b \<Longrightarrow> c_div a b = a div b"
  by (simp add: c_div_def)

lemma c_mod_nonneg: "0 \<le> a \<Longrightarrow> 0 < b \<Longrightarrow> c_mod a b = a mod b"
  by (simp add: c_mod_def c_div_nonneg minus_mult_div_eq_mod)

lemma c_div_neg: "a < 0 \<Longrightarrow> 0 < b \<Longrightarrow> c_div a b = - ((- a) div b)"
  by (simp add: c_div_def)

lemma c_mod_neg:
  assumes "a < 0" and "0 < b"
  shows "c_mod a b = - ((- a) mod b)"
proof -
  have "b * ((- a) div b) + (- a) mod b = - a" by (rule mult_div_mod_eq)
  then show ?thesis
    unfolding c_mod_def c_div_neg [OF assms] mult_minus_right by linarith
qed

lemma c_mod_bounds:
  assumes "0 < b"
  shows "- b < c_mod a b" and "c_mod a b < b"
    and "0 \<le> a \<Longrightarrow> 0 \<le> c_mod a b" and "a \<le> 0 \<Longrightarrow> c_mod a b \<le> 0"
proof -
  have pos: "0 \<le> x mod b" "x mod b < b" for x
    using assms by simp_all
  have "- b < c_mod a b \<and> c_mod a b < b \<and> (0 \<le> a \<longrightarrow> 0 \<le> c_mod a b) \<and> (a \<le> 0 \<longrightarrow> c_mod a b \<le> 0)"
  proof (cases "a < 0")
    case True
    then show ?thesis
      unfolding c_mod_neg [OF True assms] using pos [of "- a"] by linarith
  next
    case False
    then have "c_mod a b = a mod b" using assms by (simp add: c_mod_nonneg)
    moreover have "a \<le> 0 \<Longrightarrow> a mod b = 0" using False by simp
    ultimately show ?thesis using pos [of a] False by linarith
  qed
  then show "- b < c_mod a b" "c_mod a b < b"
    "0 \<le> a \<Longrightarrow> 0 \<le> c_mod a b" "a \<le> 0 \<Longrightarrow> c_mod a b \<le> 0"
    by blast+
qed

end
