(* ===== verification/RefCount.thy ===== *)
theory RefCount
  imports Prelude
begin

section \<open>Reference counting: \<^verbatim>\<open>RefCounter\<close>, \<^verbatim>\<open>RefCountedObject\<close>, \<^verbatim>\<open>scoped_refptr\<close>\<close>

text \<open>
  \<^verbatim>\<open>rtc_base/ref_counter.h\<close>, \<^verbatim>\<open>rtc_base/ref_counted_object.h\<close> and \<^verbatim>\<open>api/scoped_refptr.h\<close>.
  A heap of reference-counted objects maps addresses to payload and counter; the counter is the
  \<^verbatim>\<open>std::atomic<int>\<close>, a 32-bit word whose \<^verbatim>\<open>fetch_add\<close> wraps around. Smart pointers are
  variables that hold an address or null. The locale \<open>ref_counted\<close> is the contract between the
  counted objects and whoever owns references to them; its lemmas say that an owner who calls
  \<open>AddRef\<close> for every reference it takes and \<open>Release\<close> for every reference it drops never
  follows a dangling pointer.
\<close>

subsection \<open>The counter\<close>

datatype RefCountReleaseStatus = kDroppedLastRef | kOtherRefsRemained

definition IncRef :: "32 word \<Rightarrow> 32 word" where
  "IncRef c = c + 1"

definition DecRef :: "32 word \<Rightarrow> RefCountReleaseStatus \<times> 32 word" where
  "DecRef c =
     (let ref_count_after_subtract = c - 1
      in (if ref_count_after_subtract = 0 then kDroppedLastRef else kOtherRefsRemained,
          ref_count_after_subtract))"

definition HasOneRef :: "32 word \<Rightarrow> bool" where
  "HasOneRef c \<longleftrightarrow> c = 1"

subsection \<open>Counted objects\<close>

record 'o rc_object =
  payload :: 'o
  ref_count :: "32 word"

type_synonym 'o rheap = "nat \<Rightarrow> 'o rc_object option"

text \<open>\<^verbatim>\<open>new RefCountedObject<T>(args)\<close> at a fresh address: the counter starts at zero.\<close>

definition new_object :: "nat \<Rightarrow> 'o \<Rightarrow> 'o rheap \<Rightarrow> 'o rheap" where
  "new_object p x h = h(p \<mapsto> \<lparr>payload = x, ref_count = 0\<rparr>)"

definition AddRef :: "nat \<Rightarrow> 'o rheap \<Rightarrow> 'o rheap res" where
  "AddRef p h =
     (case h p of
        None \<Rightarrow> Inl UseAfterFree
      | Some ob \<Rightarrow> Inr (h(p \<mapsto> ob\<lparr>ref_count := IncRef (ref_count ob)\<rparr>)))"

definition Release :: "nat \<Rightarrow> 'o rheap \<Rightarrow> (RefCountReleaseStatus \<times> 'o rheap) res" where
  "Release p h =
     (case h p of
        None \<Rightarrow> Inl UseAfterFree
      | Some ob \<Rightarrow>
          (case DecRef (ref_count ob) of
             (kDroppedLastRef, c) \<Rightarrow> Inr (kDroppedLastRef, h(p := None))
           | (status, c) \<Rightarrow> Inr (status, h(p \<mapsto> ob\<lparr>ref_count := c\<rparr>))))"

definition alive :: "'o rheap \<Rightarrow> nat \<Rightarrow> bool" where
  "alive h p \<longleftrightarrow> h p \<noteq> None"

definition count :: "'o rheap \<Rightarrow> nat \<Rightarrow> nat" where
  "count h p = (case h p of None \<Rightarrow> 0 | Some ob \<Rightarrow> unat (ref_count ob))"

subsection \<open>Smart pointers\<close>

text \<open>
  \<open>rp_vars\<close> holds the \<^verbatim>\<open>ptr_\<close> member of every \<^verbatim>\<open>scoped_refptr\<close> in scope; \<open>rp_raw p\<close> counts the
  references to \<open>p\<close> that \<^verbatim>\<open>release()\<close> handed to the program as raw pointers.
\<close>

record 'o rp_state =
  rp_heap :: "'o rheap"
  rp_vars :: "nat \<Rightarrow> nat option option"
  rp_raw :: "nat \<Rightarrow> nat"

definition ptr_AddRef :: "nat option \<Rightarrow> 'o rheap \<Rightarrow> 'o rheap res" where
  "ptr_AddRef p h = (case p of None \<Rightarrow> Inr h | Some a \<Rightarrow> AddRef a h)"

definition ptr_Release :: "nat option \<Rightarrow> 'o rheap \<Rightarrow> 'o rheap res" where
  "ptr_Release p h =
     (case p of None \<Rightarrow> Inr h | Some a \<Rightarrow> res_bind (Release a h) (\<lambda>(_, h'). Inr h'))"

definition rp_get :: "nat \<Rightarrow> 'o rp_state \<Rightarrow> nat option" where
  "rp_get v s = (case rp_vars s v of None \<Rightarrow> None | Some p \<Rightarrow> p)"

definition rp_default :: "nat \<Rightarrow> 'o rp_state \<Rightarrow> 'o rp_state" where
  "rp_default v s = s\<lparr>rp_vars := (rp_vars s)(v \<mapsto> None)\<rparr>"

definition rp_from_raw :: "nat \<Rightarrow> nat option \<Rightarrow> 'o rp_state \<Rightarrow> 'o rp_state res" where
  "rp_from_raw v p s =
     res_bind (ptr_AddRef p (rp_heap s))
       (\<lambda>h. Inr (s\<lparr>rp_heap := h, rp_vars := (rp_vars s)(v \<mapsto> p)\<rparr>))"

definition rp_copy :: "nat \<Rightarrow> nat \<Rightarrow> 'o rp_state \<Rightarrow> 'o rp_state res" where
  "rp_copy v r s = rp_from_raw v (rp_get r s) s"

text \<open>The move constructor takes the pointer of \<^verbatim>\<open>r.release()\<close>; no counter changes.\<close>

definition rp_move :: "nat \<Rightarrow> nat \<Rightarrow> 'o rp_state \<Rightarrow> 'o rp_state" where
  "rp_move v r s = s\<lparr>rp_vars := (rp_vars s)(r \<mapsto> None, v \<mapsto> rp_get r s)\<rparr>"

definition rp_destroy :: "nat \<Rightarrow> 'o rp_state \<Rightarrow> 'o rp_state res" where
  "rp_destroy v s =
     res_bind (ptr_Release (rp_get v s) (rp_heap s))
       (\<lambda>h. Inr (s\<lparr>rp_heap := h, rp_vars := (rp_vars s)(v := None)\<rparr>))"

definition rp_release :: "nat \<Rightarrow> 'o rp_state \<Rightarrow> nat option \<times> 'o rp_state" where
  "rp_release v s =
     (case rp_get v s of
        None \<Rightarrow> (None, s\<lparr>rp_vars := (rp_vars s)(v \<mapsto> None)\<rparr>)
      | Some a \<Rightarrow>
          (Some a, s\<lparr>rp_vars := (rp_vars s)(v \<mapsto> None),
                     rp_raw := (rp_raw s)(a := Suc (rp_raw s a))\<rparr>))"

definition rp_assign_raw :: "nat \<Rightarrow> nat option \<Rightarrow> 'o rp_state \<Rightarrow> 'o rp_state res" where
  "rp_assign_raw v p s =
     res_bind (ptr_AddRef p (rp_heap s))
       (\<lambda>h1. res_bind (ptr_Release (rp_get v s) h1)
         (\<lambda>h2. Inr (s\<lparr>rp_heap := h2, rp_vars := (rp_vars s)(v \<mapsto> p)\<rparr>)))"

definition rp_assign_copy :: "nat \<Rightarrow> nat \<Rightarrow> 'o rp_state \<Rightarrow> 'o rp_state res" where
  "rp_assign_copy v r s = rp_assign_raw v (rp_get r s) s"

definition rp_swap :: "nat \<Rightarrow> nat \<Rightarrow> 'o rp_state \<Rightarrow> 'o rp_state" where
  "rp_swap v r s = s\<lparr>rp_vars := (rp_vars s)(v \<mapsto> rp_get r s, r \<mapsto> rp_get v s)\<rparr>"

text \<open>Move assignment: a temporary takes the source, is swapped with the target and destroyed.\<close>

definition rp_assign_move :: "nat \<Rightarrow> nat \<Rightarrow> nat \<Rightarrow> 'o rp_state \<Rightarrow> 'o rp_state res" where
  "rp_assign_move tmp v r s = rp_destroy tmp (rp_swap tmp v (rp_move tmp r s))"

subsection \<open>The contract of counted objects\<close>

locale ref_counted =
  fixes addref :: "nat \<Rightarrow> 'h \<Rightarrow> 'h res"
    and release :: "nat \<Rightarrow> 'h \<Rightarrow> (RefCountReleaseStatus \<times> 'h) res"
    and live :: "'h \<Rightarrow> nat \<Rightarrow> bool"
    and refs :: "'h \<Rightarrow> nat \<Rightarrow> nat"
  assumes addref_law:
      "live h p \<Longrightarrow> refs h p + 1 < 2 ^ 32 \<Longrightarrow>
         \<exists>h'. addref p h = Inr h' \<and> live h' = live h \<and> refs h' = (refs h)(p := refs h p + 1)"
    and release_more:
      "live h p \<Longrightarrow> 1 < refs h p \<Longrightarrow>
         \<exists>h'. release p h = Inr (kOtherRefsRemained, h') \<and> live h' = live h \<and>
              refs h' = (refs h)(p := refs h p - 1)"
    and release_last:
      "live h p \<Longrightarrow> refs h p = 1 \<Longrightarrow>
         \<exists>h'. release p h = Inr (kDroppedLastRef, h') \<and> live h' = (live h)(p := False) \<and>
              (\<forall>q. q \<noteq> p \<longrightarrow> refs h' q = refs h q)"
begin

definition owned :: "(nat \<Rightarrow> nat) \<Rightarrow> 'h \<Rightarrow> bool" where
  "owned own h \<longleftrightarrow> (\<forall>p. (live h p \<longrightarrow> refs h p = own p) \<and> (\<not> live h p \<longrightarrow> own p = 0))"

lemma owned_live: "owned own h \<Longrightarrow> 0 < own p \<Longrightarrow> live h p"
  unfolding owned_def by (metis less_irrefl)

lemma owned_addref:
  assumes "owned own h" and "live h p" and "own p + 1 < 2 ^ 32"
  shows "\<exists>h'. addref p h = Inr h' \<and> owned (own(p := own p + 1)) h' \<and> live h' = live h"
proof -
  from assms have "refs h p + 1 < 2 ^ 32" by (simp add: owned_def)
  with assms(2) obtain h' where "addref p h = Inr h'" "live h' = live h"
    "refs h' = (refs h)(p := refs h p + 1)"
    using addref_law by blast
  with assms show ?thesis by (auto simp: owned_def)
qed

lemma owned_release:
  assumes "owned own h" and "0 < own p"
  shows "\<exists>st h'. release p h = Inr (st, h') \<and> owned (own(p := own p - 1)) h' \<and>
    (st = kDroppedLastRef \<longleftrightarrow> own p = 1) \<and>
    live h' = (if own p = 1 then (live h)(p := False) else live h)"
proof (cases "own p = 1")
  case True
  have l: "live h p" using owned_live assms by blast
  with True assms have "refs h p = 1" by (simp add: owned_def)
  with l obtain h' where "release p h = Inr (kDroppedLastRef, h')" "live h' = (live h)(p := False)"
    "\<forall>q. q \<noteq> p \<longrightarrow> refs h' q = refs h q"
    using release_last by blast
  with True assms show ?thesis by (auto simp: owned_def)
next
  case False
  have l: "live h p" using owned_live assms by blast
  with False assms have "1 < refs h p" by (simp add: owned_def)
  with l obtain h' where "release p h = Inr (kOtherRefsRemained, h')" "live h' = live h"
    "refs h' = (refs h)(p := refs h p - 1)"
    using release_more by blast
  with False assms show ?thesis by (auto simp: owned_def)
qed

end

lemma unat_plus_one: "unat c + 1 < 2 ^ 32 \<Longrightarrow> unat (c + 1 :: 32 word) = unat c + 1"
  by (simp add: unat_word_ariths)

lemma unat_minus_one_32: "0 < unat c \<Longrightarrow> unat (c - 1 :: 32 word) = unat c - 1"
  by (simp add: unat_minus_one unat_gt_0)

lemma alive_upd [simp]:
  "alive (h(p \<mapsto> ob)) = (alive h)(p := True)" "alive (h(p := None)) = (alive h)(p := False)"
  by (simp_all add: alive_def fun_eq_iff)

lemma count_upd [simp]: "count (h(p \<mapsto> ob)) = (count h)(p := unat (ref_count ob))"
  by (simp add: count_def fun_eq_iff)

lemma aliveE:
  assumes "alive h p"
  obtains ob where "h p = Some ob" and "(alive h)(p := True) = alive h"
    and "count h p = unat (ref_count ob)"
  using assms by (auto simp: alive_def count_def fun_eq_iff)

interpretation rc: ref_counted AddRef Release alive count
proof unfold_locales
  fix h :: "'o rheap" and p
  assume "alive h p" and le: "count h p + 1 < 2 ^ 32"
  then show "\<exists>h'. AddRef p h = Inr h' \<and> alive h' = alive h \<and>
      count h' = (count h)(p := count h p + 1)"
    by (auto elim!: aliveE simp: AddRef_def IncRef_def unat_plus_one)
next
  fix h :: "'o rheap" and p
  assume al: "alive h p" and gt: "1 < count h p"
  from al obtain ob where ob: "h p = Some ob" "(alive h)(p := True) = alive h"
    "count h p = unat (ref_count ob)" by (rule aliveE)
  with gt have "ref_count ob \<noteq> 1" by auto
  with ob gt show "\<exists>h'. Release p h = Inr (kOtherRefsRemained, h') \<and> alive h' = alive h \<and>
      count h' = (count h)(p := count h p - 1)"
    by (simp add: Release_def DecRef_def Let_def unat_minus_one_32)
next
  fix h :: "'o rheap" and p
  assume al: "alive h p" and one: "count h p = 1"
  from al obtain ob where ob: "h p = Some ob" "count h p = unat (ref_count ob)"
    by (rule aliveE)
  with one have "ref_count ob = 1" by (metis unat_1 word_unat_eq_iff)
  with ob show "\<exists>h'. Release p h = Inr (kDroppedLastRef, h') \<and> alive h' = (alive h)(p := False) \<and>
      (\<forall>q. q \<noteq> p \<longrightarrow> count h' q = count h q)"
    by (simp add: Release_def DecRef_def Let_def) (simp add: count_def)
qed

subsection \<open>Programs over smart pointers\<close>

text \<open>
  The statements a program can make about its smart pointers, and when C++ scoping allows them: a
  constructed variable is not yet in scope, an assigned, copied or destroyed one is, a raw pointer
  is released only by whoever owns it. \<open>RpNew v a x\<close> is
  \<^verbatim>\<open>scoped_refptr<T> v = new RefCountedObject<T>(x)\<close> at the fresh address \<open>a\<close>.
\<close>

datatype 'o rp_op =
    RpDefault nat
  | RpNew nat nat 'o
  | RpCopy nat nat
  | RpMove nat nat
  | RpDestroy nat
  | RpRelease nat
  | RpRawRelease nat
  | RpAssignNull nat
  | RpAssignCopy nat nat
  | RpAssignMove nat nat nat
  | RpSwap nat nat

fun rp_step :: "'o rp_op \<Rightarrow> 'o rp_state \<Rightarrow> 'o rp_state res" where
  "rp_step (RpDefault v) s = Inr (rp_default v s)"
| "rp_step (RpNew v a x) s = rp_from_raw v (Some a) (s\<lparr>rp_heap := new_object a x (rp_heap s)\<rparr>)"
| "rp_step (RpCopy v r) s = rp_copy v r s"
| "rp_step (RpMove v r) s = Inr (rp_move v r s)"
| "rp_step (RpDestroy v) s = rp_destroy v s"
| "rp_step (RpRelease v) s = Inr (snd (rp_release v s))"
| "rp_step (RpRawRelease a) s =
     res_bind (Release a (rp_heap s))
       (\<lambda>(_, h). Inr (s\<lparr>rp_heap := h, rp_raw := (rp_raw s)(a := rp_raw s a - 1)\<rparr>))"
| "rp_step (RpAssignNull v) s = rp_assign_raw v None s"
| "rp_step (RpAssignCopy v r) s = rp_assign_copy v r s"
| "rp_step (RpAssignMove tmp v r) s = rp_assign_move tmp v r s"
| "rp_step (RpSwap v r) s = Inr (rp_swap v r s)"

fun rp_run :: "'o rp_op list \<Rightarrow> 'o rp_state \<Rightarrow> 'o rp_state res" where
  "rp_run [] s = Inr s"
| "rp_run (x # xs) s = res_bind (rp_step x s) (rp_run xs)"

definition own_vars :: "(nat \<Rightarrow> nat option option) \<Rightarrow> nat \<Rightarrow> nat" where
  "own_vars vars q = card {v. vars v = Some (Some q)}"

definition rp_owners :: "'o rp_state \<Rightarrow> nat \<Rightarrow> nat" where
  "rp_owners s q = rp_raw s q + own_vars (rp_vars s) q"

text \<open>The counters have room for one more reference to the object \<open>p\<close> points to.\<close>

definition rp_room :: "nat option \<Rightarrow> 'o rp_state \<Rightarrow> bool" where
  "rp_room p s \<longleftrightarrow> (case p of None \<Rightarrow> True | Some a \<Rightarrow> rp_owners s a + 1 < 2 ^ 32)"

fun rp_allowed :: "'o rp_op \<Rightarrow> 'o rp_state \<Rightarrow> bool" where
  "rp_allowed (RpDefault v) s \<longleftrightarrow> rp_vars s v = None"
| "rp_allowed (RpNew v a x) s \<longleftrightarrow> rp_vars s v = None \<and> rp_heap s a = None"
| "rp_allowed (RpCopy v r) s \<longleftrightarrow> rp_vars s v = None \<and> rp_vars s r \<noteq> None \<and> rp_room (rp_get r s) s"
| "rp_allowed (RpMove v r) s \<longleftrightarrow> rp_vars s v = None \<and> rp_vars s r \<noteq> None"
| "rp_allowed (RpDestroy v) s \<longleftrightarrow> rp_vars s v \<noteq> None"
| "rp_allowed (RpRelease v) s \<longleftrightarrow> rp_vars s v \<noteq> None"
| "rp_allowed (RpRawRelease a) s \<longleftrightarrow> 0 < rp_raw s a"
| "rp_allowed (RpAssignNull v) s \<longleftrightarrow> rp_vars s v \<noteq> None"
| "rp_allowed (RpAssignCopy v r) s \<longleftrightarrow>
     rp_vars s v \<noteq> None \<and> rp_vars s r \<noteq> None \<and> rp_room (rp_get r s) s"
| "rp_allowed (RpAssignMove tmp v r) s \<longleftrightarrow>
     rp_vars s tmp = None \<and> rp_vars s v \<noteq> None \<and> rp_vars s r \<noteq> None"
| "rp_allowed (RpSwap v r) s \<longleftrightarrow> rp_vars s v \<noteq> None \<and> rp_vars s r \<noteq> None"

fun rp_allowed_run :: "'o rp_op list \<Rightarrow> 'o rp_state \<Rightarrow> bool" where
  "rp_allowed_run [] s \<longleftrightarrow> True"
| "rp_allowed_run (x # xs) s \<longleftrightarrow>
     rp_allowed x s \<and> (case rp_step x s of Inl e \<Rightarrow> True | Inr s' \<Rightarrow> rp_allowed_run xs s')"

definition rp_inv :: "'o rp_state \<Rightarrow> bool" where
  "rp_inv s \<longleftrightarrow> finite (dom (rp_vars s)) \<and> rc.owned (rp_owners s) (rp_heap s)"

lemma own_vars_finite: "finite (dom vars) \<Longrightarrow> finite {v. vars v = Some (Some q)}"
  by (rule finite_subset [of _ "dom vars"]) auto

lemma own_vars_upd:
  assumes "finite (dom vars)"
  shows "own_vars (vars(v := w)) q =
    own_vars vars q - of_bool (vars v = Some (Some q)) + of_bool (w = Some (Some q))"
proof -
  have "{x. (vars(v := w)) x = Some (Some q)} =
      ({x. vars x = Some (Some q)} - {v}) \<union> (if w = Some (Some q) then {v} else {})"
    by auto
  then show ?thesis
    using own_vars_finite [OF assms, of q]
    by (auto simp: own_vars_def card_Diff_singleton_if card.insert_remove)
qed

lemma own_vars_pos: "finite (dom vars) \<Longrightarrow> vars v = Some (Some q) \<Longrightarrow> 0 < own_vars vars q"
  using own_vars_finite [of vars q] by (auto simp: own_vars_def card_gt_0_iff)

lemma rp_get_own:
  "rp_inv s \<Longrightarrow> rp_get v s = Some q \<Longrightarrow> 0 < own_vars (rp_vars s) q \<and> 0 < rp_owners s q"
  by (auto simp: rp_inv_def rp_get_def rp_owners_def own_vars_pos split: option.splits)

lemma ptr_AddRef_owned:
  assumes "rc.owned own h" and "\<And>a. p = Some a \<Longrightarrow> alive h a \<and> own a + 1 < 2 ^ 32"
  shows "\<exists>h'. ptr_AddRef p h = Inr h' \<and> rc.owned (\<lambda>q. own q + of_bool (p = Some q)) h' \<and>
    alive h' = alive h"
proof (cases p)
  case None
  with assms show ?thesis by (simp add: ptr_AddRef_def)
next
  case (Some a)
  with assms obtain h' where "AddRef a h = Inr h'" "rc.owned (own(a := own a + 1)) h'"
    "alive h' = alive h"
    using rc.owned_addref by blast
  moreover have "own(a := own a + 1) = (\<lambda>q. own q + of_bool (p = Some q))"
    using Some by auto
  ultimately show ?thesis using Some by (simp add: ptr_AddRef_def)
qed

lemma ptr_Release_owned:
  assumes "rc.owned own h" and "\<And>a. p = Some a \<Longrightarrow> 0 < own a"
  shows "\<exists>h'. ptr_Release p h = Inr h' \<and> rc.owned (\<lambda>q. own q - of_bool (p = Some q)) h' \<and>
    (\<forall>q. alive h' q \<longleftrightarrow> alive h q \<and> \<not> (p = Some q \<and> own q = 1))"
proof (cases p)
  case None
  with assms show ?thesis by (simp add: ptr_Release_def)
next
  case (Some a)
  with assms obtain st h' where "Release a h = Inr (st, h')" "rc.owned (own(a := own a - 1)) h'"
    "alive h' = (if own a = 1 then (alive h)(a := False) else alive h)"
    using rc.owned_release by blast
  moreover have "own(a := own a - 1) = (\<lambda>q. own q - of_bool (p = Some q))"
    using Some by auto
  ultimately show ?thesis using Some by (auto simp: ptr_Release_def)
qed

lemma rp_get_Some [simp]: "rp_get v s = Some q \<longleftrightarrow> rp_vars s v = Some (Some q)"
  by (auto simp: rp_get_def split: option.splits)

lemma own_vars_ge: "finite (dom vars) \<Longrightarrow> of_bool (vars v = Some (Some q)) \<le> own_vars vars q"
  using own_vars_pos [of vars v q] by auto

lemma rp_owners_upd:
  assumes "finite (dom (rp_vars s))"
  shows "rp_owners (s\<lparr>rp_heap := h, rp_vars := (rp_vars s)(v := w)\<rparr>) =
    (\<lambda>q. rp_owners s q - of_bool (rp_get v s = Some q) + of_bool (w = Some (Some q)))"
proof
  fix q
  show "rp_owners (s\<lparr>rp_heap := h, rp_vars := (rp_vars s)(v := w)\<rparr>) q =
    rp_owners s q - of_bool (rp_get v s = Some q) + of_bool (w = Some (Some q))"
    using own_vars_pos [OF assms, of v q]
    by (cases "rp_vars s v = Some (Some q)") (simp_all add: rp_owners_def own_vars_upd [OF assms])
qed

lemma rp_inv_alive: "rp_inv s \<Longrightarrow> 0 < rp_owners s q \<Longrightarrow> alive (rp_heap s) q"
  unfolding rp_inv_def using rc.owned_live by blast

lemma rp_inv_finite: "rp_inv s \<Longrightarrow> finite (dom (rp_vars s))"
  by (simp add: rp_inv_def)

lemma rp_new_inv:
  assumes "rp_inv s" and "rp_heap s a = None"
  shows "rp_inv (s\<lparr>rp_heap := new_object a x (rp_heap s)\<rparr>)"
    and "rp_owners s a = 0"
proof -
  show "rp_owners s a = 0"
    using assms rp_inv_alive [of s a] by (auto simp: alive_def)
  with assms show "rp_inv (s\<lparr>rp_heap := new_object a x (rp_heap s)\<rparr>)"
    by (auto simp: rp_inv_def rp_owners_def new_object_def rc.owned_def)
qed

text \<open>Taking one more reference: the constructors from a raw pointer and from another variable.\<close>

lemma rp_from_raw_inv:
  assumes inv: "rp_inv s" and fresh: "rp_vars s v = None"
    and ok: "\<And>a. p = Some a \<Longrightarrow> alive (rp_heap s) a" and room: "rp_room p s"
  shows "\<exists>s'. rp_from_raw v p s = Inr s' \<and> rp_inv s'"
proof -
  from inv have ow: "rc.owned (rp_owners s) (rp_heap s)" and fin: "finite (dom (rp_vars s))"
    by (simp_all add: rp_inv_def)
  obtain h where h: "ptr_AddRef p (rp_heap s) = Inr h"
    "rc.owned (\<lambda>q. rp_owners s q + of_bool (p = Some q)) h"
    using ptr_AddRef_owned [OF ow, of p] ok room by (auto simp: rp_room_def split: option.splits)
  have "rp_owners (s\<lparr>rp_heap := h, rp_vars := (rp_vars s)(v \<mapsto> p)\<rparr>) =
      (\<lambda>q. rp_owners s q + of_bool (p = Some q))"
    using fresh by (simp add: rp_owners_upd [OF fin])
  with h fin show ?thesis by (simp add: rp_from_raw_def rp_inv_def)
qed

text \<open>Replacing the pointer of a variable: take the new reference first, then drop the old one.\<close>

lemma rp_assign_raw_inv:
  assumes inv: "rp_inv s" and ok: "\<And>a. p = Some a \<Longrightarrow> alive (rp_heap s) a"
    and room: "rp_room p s"
  shows "\<exists>s'. rp_assign_raw v p s = Inr s' \<and> rp_inv s'"
proof -
  from inv have ow: "rc.owned (rp_owners s) (rp_heap s)" and fin: "finite (dom (rp_vars s))"
    by (simp_all add: rp_inv_def)
  obtain h1 where h1: "ptr_AddRef p (rp_heap s) = Inr h1"
    "rc.owned (\<lambda>q. rp_owners s q + of_bool (p = Some q)) h1"
    using ptr_AddRef_owned [OF ow, of p] ok room by (auto simp: rp_room_def split: option.splits)
  obtain h2 where h2: "ptr_Release (rp_get v s) h1 = Inr h2"
    "rc.owned (\<lambda>q. rp_owners s q + of_bool (p = Some q) - of_bool (rp_get v s = Some q)) h2"
    using ptr_Release_owned [OF h1(2), of "rp_get v s"] rp_get_own [OF inv, of v] by auto
  have "rp_owners (s\<lparr>rp_heap := h2, rp_vars := (rp_vars s)(v \<mapsto> p)\<rparr>) =
      (\<lambda>q. rp_owners s q + of_bool (p = Some q) - of_bool (rp_get v s = Some q))"
    using rp_get_own [OF inv, of v] by (fastforce simp: rp_owners_upd [OF fin])
  with h1(1) h2 fin show ?thesis by (simp add: rp_assign_raw_def rp_inv_def)
qed

lemma rp_destroy_inv:
  assumes inv: "rp_inv s"
  shows "\<exists>s'. rp_destroy v s = Inr s' \<and> rp_inv s'"
proof -
  from inv have ow: "rc.owned (rp_owners s) (rp_heap s)" and fin: "finite (dom (rp_vars s))"
    by (simp_all add: rp_inv_def)
  obtain h where h: "ptr_Release (rp_get v s) (rp_heap s) = Inr h"
    "rc.owned (\<lambda>q. rp_owners s q - of_bool (rp_get v s = Some q)) h"
    using ptr_Release_owned [OF ow, of "rp_get v s"] rp_get_own [OF inv, of v] by auto
  with fin show ?thesis by (simp add: rp_destroy_def rp_inv_def rp_owners_upd [OF fin])
qed

text \<open>Moves and swaps permute the pointers among the variables, so no owner count changes.\<close>

lemma rp_inv_same_owners:
  "rp_inv s \<Longrightarrow> finite (dom (rp_vars s')) \<Longrightarrow> rp_heap s' = rp_heap s \<Longrightarrow>
     (\<And>q. rp_owners s' q = rp_owners s q) \<Longrightarrow> rp_inv s'"
  by (simp add: rp_inv_def rc.owned_def)

lemma rp_move_inv:
  assumes inv: "rp_inv s" and "rp_vars s v = None"
  shows "rp_inv (rp_move v r s)"
proof (rule rp_inv_same_owners [OF inv])
  have fin: "finite (dom (rp_vars s))" using inv by (rule rp_inv_finite)
  then show "finite (dom (rp_vars (rp_move v r s)))" by (simp add: rp_move_def)
  show "rp_heap (rp_move v r s) = rp_heap s" by (simp add: rp_move_def)
  fix q
  have "of_bool (rp_vars s r = Some (Some q)) \<le> own_vars (rp_vars s) q"
    by (rule own_vars_ge [OF fin])
  then show "rp_owners (rp_move v r s) q = rp_owners s q"
    using assms fin by (auto simp: rp_move_def rp_owners_def own_vars_upd)
qed

lemma rp_swap_inv:
  assumes inv: "rp_inv s"
  shows "rp_inv (rp_swap v r s)"
proof (rule rp_inv_same_owners [OF inv])
  have fin: "finite (dom (rp_vars s))" using inv by (rule rp_inv_finite)
  then show "finite (dom (rp_vars (rp_swap v r s)))" by (simp add: rp_swap_def)
  show "rp_heap (rp_swap v r s) = rp_heap s" by (simp add: rp_swap_def)
  fix q
  have "of_bool (rp_vars s r = Some (Some q)) \<le> own_vars (rp_vars s) q"
    "of_bool (rp_vars s v = Some (Some q)) \<le> own_vars (rp_vars s) q"
    by (rule own_vars_ge [OF fin])+
  then show "rp_owners (rp_swap v r s) q = rp_owners s q"
    using fin by (auto simp: rp_swap_def rp_owners_def own_vars_upd)
qed

lemma rp_release_inv:
  assumes inv: "rp_inv s"
  shows "rp_inv (snd (rp_release v s))"
proof (rule rp_inv_same_owners [OF inv])
  have fin: "finite (dom (rp_vars s))" using inv by (rule rp_inv_finite)
  then show "finite (dom (rp_vars (snd (rp_release v s))))"
    by (simp add: rp_release_def split: option.splits)
  show "rp_heap (snd (rp_release v s)) = rp_heap s"
    by (simp add: rp_release_def split: option.splits)
  fix q
  show "rp_owners (snd (rp_release v s)) q = rp_owners s q"
    using own_vars_pos [OF fin, of v q]
    by (auto simp: rp_release_def rp_owners_def own_vars_upd [OF fin] rp_get_def
        split: option.splits)
qed

lemma rp_raw_release_inv:
  assumes inv: "rp_inv s" and raw: "0 < rp_raw s a"
  shows "\<exists>s'. rp_step (RpRawRelease a) s = Inr s' \<and> rp_inv s'"
proof -
  from inv have ow: "rc.owned (rp_owners s) (rp_heap s)" and fin: "finite (dom (rp_vars s))"
    by (simp_all add: rp_inv_def)
  from raw have "0 < rp_owners s a" by (simp add: rp_owners_def)
  with ow obtain st h where h: "Release a (rp_heap s) = Inr (st, h)"
    "rc.owned ((rp_owners s)(a := rp_owners s a - 1)) h"
    using rc.owned_release by blast
  have "rp_owners (s\<lparr>rp_heap := h, rp_raw := (rp_raw s)(a := rp_raw s a - 1)\<rparr>) =
      (rp_owners s)(a := rp_owners s a - 1)"
    using raw by (auto simp: rp_owners_def)
  with h fin show ?thesis by (simp add: rp_inv_def)
qed

lemma rp_step_inv:
  assumes inv: "rp_inv s" and ok: "rp_allowed x s"
  shows "\<exists>s'. rp_step x s = Inr s' \<and> rp_inv s'"
proof (cases x)
  case (RpDefault v)
  have "rp_inv (rp_default v s)"
  proof (rule rp_inv_same_owners [OF inv])
    show "finite (dom (rp_vars (rp_default v s)))"
      using rp_inv_finite [OF inv] by (simp add: rp_default_def)
    show "rp_owners (rp_default v s) q = rp_owners s q" for q
      using ok RpDefault rp_inv_finite [OF inv]
      by (simp add: rp_default_def rp_owners_def own_vars_upd)
  qed (simp add: rp_default_def)
  with RpDefault show ?thesis by simp
next
  case (RpNew v a x)
  let ?s = "s\<lparr>rp_heap := new_object a x (rp_heap s)\<rparr>"
  from ok RpNew have a: "rp_heap s a = None" and v: "rp_vars s v = None" by simp_all
  have "rp_owners ?s a = 0" using rp_new_inv(2) [OF inv a] by (simp add: rp_owners_def)
  then have "rp_room (Some a) ?s" by (simp add: rp_room_def)
  moreover have "alive (rp_heap ?s) a" by (simp add: new_object_def)
  ultimately show ?thesis
    using rp_from_raw_inv [OF rp_new_inv(1) [OF inv a, of x], of v "Some a"] v RpNew by simp
next
  case (RpCopy v r)
  with ok show ?thesis
    using rp_from_raw_inv [OF inv, of v "rp_get r s"] rp_get_own [OF inv, of r] rp_inv_alive [OF inv]
    by (auto simp: rp_copy_def)
next
  case (RpAssignNull v)
  then show ?thesis using rp_assign_raw_inv [OF inv, of None v] by (simp add: rp_room_def)
next
  case (RpAssignCopy v r)
  with ok show ?thesis
    using rp_assign_raw_inv [OF inv, of "rp_get r s" v] rp_get_own [OF inv, of r] rp_inv_alive [OF inv]
    by (auto simp: rp_assign_copy_def)
next
  case (RpAssignMove tmp v r)
  with ok have "rp_inv (rp_swap tmp v (rp_move tmp r s))"
    by (intro rp_swap_inv rp_move_inv inv) simp
  with RpAssignMove show ?thesis using rp_destroy_inv by (simp add: rp_assign_move_def)
next
  case (RpMove v r)
  with ok show ?thesis using rp_move_inv [OF inv] by simp
next
  case (RpRawRelease a)
  with ok show ?thesis using rp_raw_release_inv [OF inv, of a] by simp
qed (use inv in \<open>auto intro: rp_destroy_inv rp_release_inv rp_swap_inv\<close>)

subsection \<open>Properties\<close>

definition rp_init :: "'o rp_state" where
  "rp_init = \<lparr>rp_heap = Map.empty, rp_vars = Map.empty, rp_raw = (\<lambda>_. 0)\<rparr>"

lemma rp_inv_init: "rp_inv rp_init"
  by (simp add: rp_inv_def rp_init_def rp_owners_def own_vars_def rc.owned_def alive_def)

lemma rp_run_inv:
  "rp_inv s \<Longrightarrow> rp_allowed_run xs s \<Longrightarrow> \<exists>s'. rp_run xs s = Inr s' \<and> rp_inv s'"
proof (induction xs arbitrary: s)
  case Nil
  then show ?case by simp
next
  case (Cons x xs)
  then obtain s1 where "rp_step x s = Inr s1" "rp_inv s1"
    using rp_step_inv [of s x] by auto
  with Cons show ?case by auto
qed

text \<open>
  C11. Smart pointers never dangle: a program whose statements respect C++ scoping runs without
  touching freed memory, and at its end every reference counter is the number of smart pointers
  and raw references that own the object, so every non-null smart pointer points to a live object.
\<close>

theorem scoped_refptr_safe:
  assumes "rp_inv s" and "rp_allowed_run xs s"
  shows "\<exists>s'. rp_run xs s = Inr s' \<and>
    (\<forall>p. alive (rp_heap s') p \<longrightarrow> count (rp_heap s') p = rp_owners s' p) \<and>
    (\<forall>v p. rp_vars s' v = Some (Some p) \<longrightarrow> alive (rp_heap s') p)"
proof -
  obtain s' where s': "rp_run xs s = Inr s'" "rp_inv s'"
    using rp_run_inv [OF assms] by blast
  from s'(2) have "\<forall>p. alive (rp_heap s') p \<longrightarrow> count (rp_heap s') p = rp_owners s' p"
    by (simp add: rp_inv_def rc.owned_def)
  moreover have "alive (rp_heap s') p" if "rp_vars s' v = Some (Some p)" for v p
    using that rp_get_own [OF s'(2), of v p] rp_inv_alive [OF s'(2)] by simp
  ultimately show ?thesis using s'(1) by blast
qed

definition rp_example :: "string rp_op list" where
  "rp_example = [RpNew 0 7 ''obj'', RpCopy 1 0, RpAssignMove 9 0 1, RpAssignCopy 0 0,
     RpRelease 0, RpDestroy 0, RpRawRelease 7]"

lemma own_vars_empty [simp]: "own_vars Map.empty q = 0"
  by (simp add: own_vars_def)

lemmas rp_eval = rp_init_def rp_from_raw_def rp_copy_def rp_move_def rp_destroy_def rp_release_def
  rp_assign_raw_def rp_assign_copy_def rp_assign_move_def rp_swap_def rp_default_def rp_get_def
  rp_room_def rp_owners_def ptr_AddRef_def ptr_Release_def new_object_def AddRef_def Release_def
  IncRef_def DecRef_def own_vars_upd

theorem scoped_refptr_safe_witness:
  "rp_inv (rp_init :: string rp_state) \<and> rp_allowed_run rp_example rp_init \<and>
   (\<exists>s'. rp_run rp_example rp_init = Inr s' \<and>
      (\<forall>p. alive (rp_heap s') p \<longrightarrow> count (rp_heap s') p = rp_owners s' p) \<and>
      (\<forall>v p. rp_vars s' v = Some (Some p) \<longrightarrow> alive (rp_heap s') p))"
proof -
  have "rp_allowed_run rp_example rp_init"
    by (simp add: rp_example_def rp_eval)
  with rp_inv_init show ?thesis
    using scoped_refptr_safe [OF rp_inv_init, of rp_example] by blast
qed

text \<open>
  Assigning a smart pointer to itself changes nothing: the new reference is taken before the
  old one is dropped, so the counter never reaches zero on the way.
\<close>

theorem scoped_refptr_self_assignment:
  assumes "rp_inv s" and "rp_vars s v = Some p" and "rp_room p s"
  shows "rp_assign_copy v v s = Inr s"
proof (cases p)
  case None
  with assms(2) show ?thesis
    by (simp add: rp_assign_copy_def rp_assign_raw_def ptr_AddRef_def ptr_Release_def rp_get_def
        fun_upd_idem)
next
  case (Some a)
  with assms have own: "0 < rp_owners s a" using rp_get_own [of s v a] by simp
  then have "alive (rp_heap s) a" by (rule rp_inv_alive [OF assms(1)])
  then obtain ob where ob: "rp_heap s a = Some ob" "count (rp_heap s) a = unat (ref_count ob)"
    by (rule aliveE)
  moreover have "count (rp_heap s) a = rp_owners s a"
    using assms(1) \<open>alive (rp_heap s) a\<close> by (simp add: rp_inv_def rc.owned_def)
  ultimately have "ref_count ob \<noteq> 0" using own by auto
  then show ?thesis
    using assms(2) Some ob
    by (simp add: rp_assign_copy_def rp_assign_raw_def ptr_AddRef_def ptr_Release_def rp_get_def
        AddRef_def Release_def IncRef_def DecRef_def fun_upd_idem)
qed

definition rp_one :: "string rp_state" where
  "rp_one = \<lparr>rp_heap = Map.empty(7 \<mapsto> \<lparr>payload = ''obj'', ref_count = 1\<rparr>),
     rp_vars = Map.empty(0 \<mapsto> Some 7), rp_raw = (\<lambda>_. 0)\<rparr>"

lemma rp_inv_one: "rp_inv rp_one"
  by (simp add: rp_inv_def rp_one_def rc.owned_def rp_owners_def own_vars_upd alive_def)

theorem scoped_refptr_self_assignment_witness:
  "rp_inv rp_one \<and> rp_vars rp_one 0 = Some (Some 7) \<and> rp_room (Some 7) rp_one \<and>
   rp_assign_copy 0 0 rp_one = Inr rp_one"
proof -
  have v: "rp_vars rp_one 0 = Some (Some 7)" by (simp add: rp_one_def)
  have r: "rp_room (Some 7) rp_one" by (simp add: rp_one_def rp_eval)
  show ?thesis using scoped_refptr_self_assignment [OF rp_inv_one v r] rp_inv_one v r by blast
qed

text \<open>
  Destroying a smart pointer frees its object exactly when it was the last owner, and leaves
  every other object as it was.
\<close>

theorem scoped_refptr_destroy:
  assumes "rp_inv s" and "rp_vars s v = Some (Some q)"
  shows "\<exists>s'. rp_destroy v s = Inr s' \<and> (alive (rp_heap s') q \<longleftrightarrow> 1 < rp_owners s q) \<and>
    (\<forall>p. p \<noteq> q \<longrightarrow> rp_heap s' p = rp_heap s p)"
proof -
  from assms have own: "0 < rp_owners s q" using rp_get_own [of s v q] by simp
  then have al: "alive (rp_heap s) q" by (rule rp_inv_alive [OF assms(1)])
  from assms(1) have "rc.owned (rp_owners s) (rp_heap s)" by (simp add: rp_inv_def)
  with own obtain st h where h: "Release q (rp_heap s) = Inr (st, h)"
    "alive h = (if rp_owners s q = 1 then (alive (rp_heap s))(q := False) else alive (rp_heap s))"
    using rc.owned_release by blast
  from h(1) have "\<forall>p. p \<noteq> q \<longrightarrow> h p = rp_heap s p"
    by (auto simp: Release_def split: option.splits prod.splits RefCountReleaseStatus.splits)
  with h al own assms(2) show ?thesis
    by (auto simp: rp_destroy_def ptr_Release_def rp_get_def)
qed

theorem scoped_refptr_destroy_witness:
  "rp_inv rp_one \<and> rp_vars rp_one 0 = Some (Some 7) \<and>
   (\<exists>s'. rp_destroy 0 rp_one = Inr s' \<and> (alive (rp_heap s') 7 \<longleftrightarrow> 1 < rp_owners rp_one 7) \<and>
    (\<forall>p. p \<noteq> 7 \<longrightarrow> rp_heap s' p = rp_heap rp_one p))"
proof -
  have v: "rp_vars rp_one 0 = Some (Some 7)" by (simp add: rp_one_def)
  show ?thesis using scoped_refptr_destroy [OF rp_inv_one v] rp_inv_one v by blast
qed

end
