(* ===== verification/Websocket.thy ===== *)
theory Websocket
  imports Prelude
begin

section \<open>The class \<^verbatim>\<open>Websocket\<close>\<close>

text \<open>
  \<^verbatim>\<open>include/websocket.h\<close> and \<^verbatim>\<open>src/websocket.cpp\<close>: a wrapper around cpprestsdk's
  \<^verbatim>\<open>websocket_callback_client\<close>. The client library is a parameter: \<open>ws_lib\<close> says how each
  \<^verbatim>\<open>connect().wait()\<close> and \<^verbatim>\<open>close().wait()\<close> ends, as a function of all calls made on the client so
  far. What the code does to the client is the list \<open>client_calls\<close>. The program has one object
  of the class, the static \<^verbatim>\<open>ws_\<close> of \<^verbatim>\<open>network.cpp\<close>, so its members are fields of the process
  state.
\<close>

subsection \<open>State and operations\<close>

datatype ws_outcome = WsDone | WsException string | WsOtherException

datatype ws_call = WsConnect string | WsSend string | WsSetMessageHandler | WsClose

record ws_lib =
  connect_outcome :: "ws_call list \<Rightarrow> ws_outcome"
  close_outcome :: "ws_call list \<Rightarrow> ws_outcome"

record websocket = process +
  iswebsocketconnected :: bool
  client_calls :: "ws_call list"

definition client_call :: "ws_call \<Rightarrow> 'a websocket_scheme \<Rightarrow> 'a websocket_scheme" where
  "client_call c s = s\<lparr>client_calls := client_calls s @ [c]\<rparr>"

text \<open>The constructor of an object created in the process state \<open>s\<close>.\<close>

definition ws_construct :: "'a websocket_scheme \<Rightarrow> 'a websocket_scheme" where
  "ws_construct s = s\<lparr>iswebsocketconnected := False\<rparr>"

definition ws_connect :: "ws_lib \<Rightarrow> string \<Rightarrow> 'a websocket_scheme \<Rightarrow> (bool \<times> 'a websocket_scheme) res"
where
  "ws_connect L url s =
     (let s1 = client_call (WsConnect (''ws://'' @ url)) (cout_print [Str (''ws://'' @ url), Endl] s)
      in case connect_outcome L (client_calls s1) of
           WsDone \<Rightarrow>
             Inr (True, cout_print [Str ''Connected to the signalling server'', Endl]
                          (s1\<lparr>iswebsocketconnected := True\<rparr>))
         | WsException what \<Rightarrow>
             Inr (False, cout_print [Str what, Endl] (s1\<lparr>iswebsocketconnected := False\<rparr>))
         | WsOtherException \<Rightarrow> Inl UncaughtException)"

text \<open>
  The task that \<^verbatim>\<open>client.send\<close> returns gets a continuation that does nothing (the call of
  \<^verbatim>\<open>t.get()\<close> is commented out), so the outcome of the transmission is never looked at.
\<close>

definition ws_send :: "string \<Rightarrow> 'a websocket_scheme \<Rightarrow> bool \<times> 'a websocket_scheme" where
  "ws_send data s =
     (if \<not> iswebsocketconnected s then (False, s) else (True, client_call (WsSend data) s))"

definition ws_setreceivehandler :: "'a websocket_scheme \<Rightarrow> 'a websocket_scheme" where
  "ws_setreceivehandler s = client_call WsSetMessageHandler s"

definition ws_close :: "ws_lib \<Rightarrow> 'a websocket_scheme \<Rightarrow> (bool \<times> 'a websocket_scheme) res" where
  "ws_close L s =
     (if \<not> iswebsocketconnected s then Inr (False, s)
      else
        (let s1 = client_call WsClose s
         in case close_outcome L (client_calls s1) of
              WsDone \<Rightarrow> Inr (True, s1\<lparr>iswebsocketconnected := False\<rparr>)
            | WsException what \<Rightarrow> Inr (False, cout_print [Str what, Endl] s1)
            | WsOtherException \<Rightarrow> Inl UncaughtException))"

subsection \<open>Clients of the class\<close>

text \<open>The public operations, and a run of them that collects the returned flags.\<close>

datatype ws_op = OpConnect string | OpSend string | OpSetHandler | OpClose

fun ws_step :: "ws_lib \<Rightarrow> ws_op \<Rightarrow> websocket \<Rightarrow> (bool \<times> websocket) res" where
  "ws_step L (OpConnect url) s = ws_connect L url s"
| "ws_step L (OpSend data) s = Inr (ws_send data s)"
| "ws_step L OpSetHandler s = Inr (True, ws_setreceivehandler s)"
| "ws_step L OpClose s = ws_close L s"

fun ws_run :: "ws_lib \<Rightarrow> ws_op list \<Rightarrow> websocket \<Rightarrow> (bool list \<times> websocket) res" where
  "ws_run L [] s = Inr ([], s)"
| "ws_run L (x # xs) s =
     res_bind (ws_step L x s)
       (\<lambda>(b, s1). res_bind (ws_run L xs s1) (\<lambda>(bs, s2). Inr (b # bs, s2)))"

subsection \<open>Abstract specification: a line that is up or down\<close>

text \<open>
  What the class promises: a line that is up or down, and the messages accepted for it. A
  \<open>connect\<close> brings the line up exactly when it returns true and down when it returns false, a
  \<open>close\<close> takes an open line down exactly when it returns true, a \<open>send\<close> is accepted
  exactly when the line is up.
\<close>

record line =
  up :: bool
  accepted :: "string list"

fun line_step :: "ws_op \<Rightarrow> bool \<Rightarrow> line \<Rightarrow> line option" where
  "line_step (OpConnect url) b l = Some (l\<lparr>up := b\<rparr>)"
| "line_step (OpSend data) b l =
     (if b = up l then Some (if b then l\<lparr>accepted := accepted l @ [data]\<rparr> else l) else None)"
| "line_step OpSetHandler b l = (if b then Some l else None)"
| "line_step OpClose b l =
     (if b then (if up l then Some (l\<lparr>up := False\<rparr>) else None) else Some l)"

fun line_run :: "ws_op list \<Rightarrow> bool list \<Rightarrow> line \<Rightarrow> line option" where
  "line_run [] [] l = Some l"
| "line_run (x # xs) (b # bs) l =
     (case line_step x b l of None \<Rightarrow> None | Some l' \<Rightarrow> line_run xs bs l')"
| "line_run _ _ l = None"

fun sent :: "ws_call list \<Rightarrow> string list" where
  "sent [] = []"
| "sent (WsSend d # cs) = d # sent cs"
| "sent (_ # cs) = sent cs"

definition ws_abs :: "'a websocket_scheme \<Rightarrow> line" where
  "ws_abs s = \<lparr>up = iswebsocketconnected s, accepted = sent (client_calls s)\<rparr>"

subsection \<open>Lemmas\<close>

named_theorems ws_defs \<open>operations of the class Websocket\<close>

declare ws_connect_def [ws_defs] ws_send_def [ws_defs] ws_setreceivehandler_def [ws_defs]
  ws_close_def [ws_defs] client_call_def [ws_defs] cout_print_def [ws_defs]

lemma sent_append [simp]: "sent (cs @ ds) = sent cs @ sent ds"
  by (induction cs rule: sent.induct) simp_all

lemma client_call_simps [simp]:
  "client_calls (client_call c s) = client_calls s @ [c]"
  "iswebsocketconnected (client_call c s) = iswebsocketconnected s"
  "cout (client_call c s) = cout s"
  "websocket.more (client_call c s) = websocket.more s"
  by (simp_all add: client_call_def)

lemma cout_print_ws [simp]:
  "client_calls (cout_print xs s) = client_calls (s :: 'a websocket_scheme)"
  "iswebsocketconnected (cout_print xs s) = iswebsocketconnected (s :: 'a websocket_scheme)"
  "websocket.more (cout_print xs s) = websocket.more (s :: 'a websocket_scheme)"
  by (simp_all add: cout_print_def)

lemma ws_step_refines:
  "ws_step L x s = Inr (b, s') \<Longrightarrow> line_step x b (ws_abs s) = Some (ws_abs s')"
  by (cases x) (auto simp: ws_defs ws_abs_def Let_def split: ws_outcome.splits if_splits)

subsection \<open>Properties\<close>

text \<open>
  C12. Refinement: every run of the class's operations that returns, returns flags that the
  abstract line allows, and leaves the line up or down and the accepted messages as the
  specification says. So messages reach the client only while it is connected, in order, and a
  \<open>true\<close> of \<open>send\<close> means one more message handed to the client.
\<close>

theorem websocket_refines_line:
  assumes "ws_run L xs s = Inr (bs, s')"
  shows "line_run xs bs (ws_abs s) = Some (ws_abs s')"
  using assms
proof (induction xs arbitrary: s bs)
  case Nil
  then show ?case by simp
next
  case (Cons x xs)
  then obtain b bs1 s1 where "ws_step L x s = Inr (b, s1)" "ws_run L xs s1 = Inr (bs1, s')"
    "bs = b # bs1"
    by (auto simp: res_simps)
  with Cons.IH ws_step_refines show ?case by fastforce
qed

definition ws_up_lib :: ws_lib where
  "ws_up_lib = \<lparr>connect_outcome = (\<lambda>_. WsDone), close_outcome = (\<lambda>_. WsException ''lost'')\<rparr>"

definition ws_fresh :: websocket where
  "ws_fresh = \<lparr>cout = [], iswebsocketconnected = False, client_calls = []\<rparr>"

theorem websocket_refines_line_witness:
  "\<exists>s'. ws_run ws_up_lib [OpSend ''a'', OpConnect ''h'', OpSend ''b'', OpClose, OpSend ''c''] ws_fresh =
       Inr ([False, True, True, False, True], s') \<and>
     line_run [OpSend ''a'', OpConnect ''h'', OpSend ''b'', OpClose, OpSend ''c'']
       [False, True, True, False, True] (ws_abs ws_fresh) = Some (ws_abs s') \<and>
     accepted (ws_abs s') = [''b'', ''c'']"
proof -
  let ?xs = "[OpSend ''a'', OpConnect ''h'', OpSend ''b'', OpClose, OpSend ''c'']"
  obtain s' where s': "ws_run ws_up_lib ?xs ws_fresh = Inr ([False, True, True, False, True], s')"
    "sent (client_calls s') = [''b'', ''c'']"
    by (simp add: ws_defs ws_up_lib_def ws_fresh_def)
  show ?thesis using s' websocket_refines_line [OF s'(1)] by (auto simp: ws_abs_def)
qed

end
