(* ===== verification/Jsoncpp.thy ===== *)
theory Jsoncpp
  imports Prelude
begin

section \<open>jsoncpp: a parameter\<close>

text \<open>
  \<^verbatim>\<open>network.cpp\<close> builds and reads its messages with jsoncpp, which is not part of the repository.
  The library is the parameter \<open>json_lib\<close>: a type \<open>'j\<close> of \<^verbatim>\<open>Json::Value\<close>s and the functions
  the program calls. \<open>jsoncpp_laws\<close> collects the documented behaviour the theorems rely on:
  a value keeps what was stored in it, a member that is absent reads as null, null reads as the
  empty string and as zero, and an object cannot be read as a string (\<^verbatim>\<open>asString\<close> throws a
  \<^verbatim>\<open>Json::LogicError\<close>). No law relates \<^verbatim>\<open>Reader::parse\<close> to \<^verbatim>\<open>StyledWriter::write\<close>; theorems about
  received texts say what the text parses to.
\<close>

record 'j json_lib =
  jnull :: 'j                                        \<comment> \<open>\<^verbatim>\<open>Json::Value()\<close>\<close>
  jget :: "'j \<Rightarrow> string \<Rightarrow> 'j res"                     \<comment> \<open>\<^verbatim>\<open>root[key]\<close>, read\<close>
  jset :: "'j \<Rightarrow> string \<Rightarrow> 'j \<Rightarrow> 'j"                   \<comment> \<open>\<^verbatim>\<open>root[key] = v\<close>\<close>
  jstring :: "string \<Rightarrow> 'j"
  jint :: "int \<Rightarrow> 'j"
  asString :: "'j \<Rightarrow> string res"
  asInt :: "'j \<Rightarrow> int res"
  jparse :: "string \<Rightarrow> 'j option"                    \<comment> \<open>\<^verbatim>\<open>Json::Reader::parse\<close>; \<open>None\<close> is false\<close>
  jwrite :: "'j \<Rightarrow> string"                           \<comment> \<open>\<^verbatim>\<open>Json::StyledWriter::write\<close>\<close>

text \<open>The objects the program builds: members stored one after the other into a null value.\<close>

fun jobject :: "'j json_lib \<Rightarrow> (string \<times> 'j) list \<Rightarrow> 'j" where
  "jobject J [] = jnull J"
| "jobject J ((k, v) # ms) = jset J (jobject J ms) k v"

definition jsoncpp_laws :: "'j json_lib \<Rightarrow> bool" where
  "jsoncpp_laws J \<longleftrightarrow>
     (\<forall>s. asString J (jstring J s) = Inr s) \<and>
     (\<forall>i. asInt J (jint J i) = Inr i) \<and>
     asString J (jnull J) = Inr '''' \<and>
     (\<forall>k. jget J (jnull J) k = Inr (jnull J)) \<and>
     (\<forall>ms k v. jget J (jset J (jobject J ms) k v) k = Inr v) \<and>
     (\<forall>ms k v k'. k' \<noteq> k \<longrightarrow> jget J (jset J (jobject J ms) k v) k' = jget J (jobject J ms) k') \<and>
     (\<forall>ms k v. asString J (jset J (jobject J ms) k v) = Inl JsonLogicError)"

lemma jsoncpp_lawsD:
  assumes "jsoncpp_laws J"
  shows asString_jstring: "asString J (jstring J s) = Inr s"
    and asInt_jint: "asInt J (jint J i) = Inr i"
    and asString_jnull: "asString J (jnull J) = Inr ''''"
    and asString_jset: "asString J (jset J (jobject J ms) k v) = Inl JsonLogicError"
  using assms by (simp_all add: jsoncpp_laws_def)

lemma jget_jobject:
  "jsoncpp_laws J \<Longrightarrow> jget J (jobject J ms) k =
     Inr (case map_of ms k of None \<Rightarrow> jnull J | Some v \<Rightarrow> v)"
  by (induction J ms rule: jobject.induct) (auto simp: jsoncpp_laws_def)

lemma asString_jobject:
  "jsoncpp_laws J \<Longrightarrow> ms \<noteq> [] \<Longrightarrow> asString J (jobject J ms) = Inl JsonLogicError"
  by (cases ms) (auto simp: jsoncpp_laws_def)

subsection \<open>A library that satisfies the laws\<close>

text \<open>
  A small JSON library: enough of a value type for the program's messages, with a table for the
  texts that parse. It shows that the laws can hold.
\<close>

datatype jdoc = JNull | JInt int | JStr string | JObj "(string \<times> jdoc) list"

fun doc_get :: "jdoc \<Rightarrow> string \<Rightarrow> jdoc res" where
  "doc_get JNull k = Inr JNull"
| "doc_get (JObj ms) k = Inr (case map_of ms k of None \<Rightarrow> JNull | Some v \<Rightarrow> v)"
| "doc_get _ k = Inl JsonLogicError"

fun doc_set :: "jdoc \<Rightarrow> string \<Rightarrow> jdoc \<Rightarrow> jdoc" where
  "doc_set (JObj ms) k v = JObj ((k, v) # ms)"
| "doc_set _ k v = JObj [(k, v)]"

fun doc_asString :: "jdoc \<Rightarrow> string res" where
  "doc_asString JNull = Inr ''''"
| "doc_asString (JStr s) = Inr s"
| "doc_asString _ = Inl JsonLogicError"

fun doc_asInt :: "jdoc \<Rightarrow> int res" where
  "doc_asInt JNull = Inr 0"
| "doc_asInt (JInt i) = Inr i"
| "doc_asInt _ = Inl JsonLogicError"

definition doc_lib :: "(string \<times> jdoc) list \<Rightarrow> jdoc json_lib" where
  "doc_lib texts =
     \<lparr>jnull = JNull, jget = doc_get, jset = doc_set, jstring = JStr, jint = JInt,
      asString = doc_asString, asInt = doc_asInt, jparse = map_of texts,
      jwrite = (\<lambda>_. ''json'')\<rparr>"

lemma jobject_doc: "jobject (doc_lib t) ms = (if ms = [] then JNull else JObj ms)"
proof (induction ms)
  case Nil
  then show ?case by (simp add: doc_lib_def)
next
  case (Cons m ms)
  then show ?case by (cases m; cases ms) (auto simp: doc_lib_def)
qed

lemma doc_lib_laws: "jsoncpp_laws (doc_lib t)"
  unfolding jsoncpp_laws_def jobject_doc by (simp add: doc_lib_def)

end
