(* ===== verification/DataChannel.thy ===== *)
theory DataChannel
  imports Prelude
begin

section \<open>Data channels: \<^verbatim>\<open>api/data_channel_interface.h\<close>\<close>

text \<open>
  The value types of the data channel interface: the options of a new channel, the buffer that is
  sent, and the states of a channel with their names. The channel itself is an abstract interface
  whose implementation is in the prebuilt library; the program's calls on it are recorded in
  \<open>WebrtcNetwork\<close>. The bytes of a \<open>DataBuffer\<close> are those of its \<^verbatim>\<open>rtc::CopyOnWriteBuffer\<close>, which
  \<open>CowBuffer\<close> models in full.
\<close>

type_synonym byte = "8 word"

definition bytes_of :: "string \<Rightarrow> byte list" where
  "bytes_of s = map of_char s"

record DataChannelInit =
  reliable :: bool
  ordered :: bool
  maxRetransmitTime :: "int option"
  maxRetransmits :: "int option"
  protocol :: string
  negotiated :: bool
  sid :: int

definition DataChannelInit_default :: DataChannelInit where
  "DataChannelInit_default =
     \<lparr>reliable = False, ordered = True, maxRetransmitTime = None, maxRetransmits = None,
      protocol = '''', negotiated = False, sid = - 1\<rparr>"

record DataBuffer =
  db_data :: "byte list"
  db_binary :: bool

definition DataBuffer_of_data :: "byte list \<Rightarrow> bool \<Rightarrow> DataBuffer" where
  "DataBuffer_of_data d b = \<lparr>db_data = d, db_binary = b\<rparr>"

definition DataBuffer_of_text :: "string \<Rightarrow> DataBuffer" where
  "DataBuffer_of_text text = \<lparr>db_data = bytes_of text, db_binary = False\<rparr>"

definition DataBuffer_size :: "DataBuffer \<Rightarrow> nat" where
  "DataBuffer_size b = length (db_data b)"

datatype DataState = kConnecting | kOpen | kClosing | kClosed

fun DataStateString :: "DataState \<Rightarrow> string" where
  "DataStateString kConnecting = ''connecting''"
| "DataStateString kOpen = ''open''"
| "DataStateString kClosing = ''closing''"
| "DataStateString kClosed = ''closed''"

lemma bytes_of_inj: "bytes_of s = bytes_of t \<longleftrightarrow> s = t"
proof
  assume "bytes_of s = bytes_of t"
  moreover have "inj (of_char :: char \<Rightarrow> byte)"
  proof (rule injI)
    fix c d :: char
    assume "(of_char c :: byte) = of_char d"
    then have "unat (of_nat (of_char c) :: byte) = unat (of_nat (of_char d) :: byte)"
      by (simp add: of_nat_of_char)
    moreover have "of_char x < (256 :: nat)" for x by simp
    ultimately have "of_char c = (of_char d :: nat)" by (simp add: unat_of_nat)
    then show "c = d" by simp
  qed
  ultimately show "s = t"
    by (simp add: bytes_of_def inj_map_eq_map)
qed simp

end
