(* ===== verification/WebrtcNetwork.thy ===== *)
theory WebrtcNetwork
  imports RefCount Websocket Jsoncpp DataChannel
begin

section \<open>The class \<^verbatim>\<open>WebrtcNetwork\<close>\<close>

text \<open>
  One peer connection of the game (\<^verbatim>\<open>src/network.cpp\<close>, lines 12 to 451): the object that owns a
  \<^verbatim>\<open>PeerConnection\<close> and its data channel, makes offers and answers, and is the observer of all
  events of the WebRTC library. The library is a prebuilt archive: it is the parameter \<open>rtc_lib\<close>,
  whose results depend on all calls made before. What the code does to the library is the list
  \<open>rtc_calls\<close>. Objects live on the heap of \<open>RefCount\<close>; \<open>this\<close> is an address there.
\<close>

subsection \<open>Data\<close>

datatype SdpType = kOffer | kPrAnswer | kAnswer | kRollback

record SdpParseError =
  err_line :: string
  err_description :: string

text \<open>A session description and a candidate, as far as their interfaces are used.\<close>

record SessionDescription =
  desc_addr :: nat
  GetType :: SdpType
  desc_ToString :: "string option"     \<comment> \<open>\<open>None\<close>: returns false and writes nothing\<close>

record IceCandidate =
  cand_sdp_mid :: string
  cand_sdp_mline_index :: int
  cand_ToString :: "string option"

datatype rtc_thread = network_thread | worker_thread | signaling_thread

datatype thread_state = NoThread | ThreadRunning | ThreadStopped

text \<open>The calls into the WebRTC library; \<open>nat\<close>s are addresses of its objects or of observers.\<close>

datatype rtc_call =
    InitializeSSL
  | CleanupSSL
  | ThreadCreate rtc_thread
  | ThreadStart rtc_thread
  | ThreadStop rtc_thread
  | ThreadDestroy rtc_thread
  | CreateModularPeerConnectionFactory
  | FactoryRelease
  | CreatePeerConnection "string list" nat
  | CreateDataChannel nat string DataChannelInit
  | PcCreateOffer nat nat
  | PcCreateAnswer nat nat
  | PcSetRemoteDescription nat nat SessionDescription
  | PcSetLocalDescription nat nat SessionDescription
  | PcAddIceCandidate nat "IceCandidate option"
  | PcClose nat
  | PcRelease nat
  | DcAddRef nat
  | DcRelease nat
  | DcRegisterObserver nat nat
  | DcUnregisterObserver nat
  | DcClose nat
  | DcSend nat DataBuffer
  | DeleteSessionDescription SessionDescription
  | DeleteIceCandidate IceCandidate

record rtc_lib =
  create_factory :: "rtc_call list \<Rightarrow> bool"
  create_peer_connection :: "rtc_call list \<Rightarrow> nat option"
  create_data_channel :: "rtc_call list \<Rightarrow> nat option"
  CreateSessionDescription :: "string \<Rightarrow> string \<Rightarrow> SessionDescription option \<times> SdpParseError"
  CreateIceCandidate :: "string \<Rightarrow> int \<Rightarrow> string \<Rightarrow> IceCandidate option \<times> SdpParseError"

record Ice =
  ice_candidate :: string
  ice_sdp_mid :: string
  ice_sdp_mline_index :: int

record WebrtcNetwork =
  wn_name :: string
  peer_connection :: "nat option"
  data_channel :: "nat option"

text \<open>
  The process: the object \<^verbatim>\<open>ws_\<close>, the map \<^verbatim>\<open>connections\<close> (a key may be bound to a null pointer),
  the heap of \<^verbatim>\<open>WebrtcNetwork\<close> objects, and the static members of the class.
\<close>

record net = websocket +
  connections :: "string \<Rightarrow> nat option option"
  objects :: "WebrtcNetwork rheap"
  next_obj :: nat
  peer_connection_factory :: bool      \<comment> \<open>not null\<close>
  config_servers :: "string list"
  rtc_threads :: "rtc_thread \<Rightarrow> thread_state"
  rtc_calls :: "rtc_call list"

definition rtc :: "rtc_call \<Rightarrow> net \<Rightarrow> net" where
  "rtc c s = s\<lparr>rtc_calls := rtc_calls s @ [c]\<rparr>"

definition nonnull :: "'a option \<Rightarrow> 'a res" where
  "nonnull p = (case p of None \<Rightarrow> Inl NullDeref | Some x \<Rightarrow> Inr x)"

definition this_obj :: "nat \<Rightarrow> net \<Rightarrow> WebrtcNetwork res" where
  "this_obj this s = (case objects s this of None \<Rightarrow> Inl UseAfterFree | Some ob \<Rightarrow> Inr (payload ob))"

definition upd_obj :: "nat \<Rightarrow> (WebrtcNetwork \<Rightarrow> WebrtcNetwork) \<Rightarrow> net \<Rightarrow> net" where
  "upd_obj this f s =
     s\<lparr>objects := (objects s)(this := map_option (\<lambda>ob. ob\<lparr>payload := f (payload ob)\<rparr>) (objects s this))\<rparr>"

text \<open>Assignments to the members \<^verbatim>\<open>peer_connection_\<close> and \<^verbatim>\<open>data_channel_\<close> release the old pointer.\<close>

definition assign_pc :: "nat \<Rightarrow> nat option \<Rightarrow> net \<Rightarrow> net res" where
  "assign_pc this p s =
     res_bind (this_obj this s) (\<lambda>ob.
       let s1 = upd_obj this (\<lambda>x. x\<lparr>peer_connection := p\<rparr>) s
       in Inr (case peer_connection ob of None \<Rightarrow> s1 | Some old \<Rightarrow> rtc (PcRelease old) s1))"

definition assign_dc :: "nat \<Rightarrow> nat option \<Rightarrow> net \<Rightarrow> net res" where
  "assign_dc this p s =
     res_bind (this_obj this s) (\<lambda>ob.
       let s1 = upd_obj this (\<lambda>x. x\<lparr>data_channel := p\<rparr>) s
       in Inr (case data_channel ob of None \<Rightarrow> s1 | Some old \<Rightarrow> rtc (DcRelease old) s1))"

text \<open>\<^verbatim>\<open>peer_connection_->\<close> and \<^verbatim>\<open>data_channel_->\<close>.\<close>

definition this_pc :: "nat \<Rightarrow> net \<Rightarrow> nat res" where
  "this_pc this s = res_bind (this_obj this s) (\<lambda>ob. nonnull (peer_connection ob))"

definition this_dc :: "nat \<Rightarrow> net \<Rightarrow> nat res" where
  "this_dc this s = res_bind (this_obj this s) (\<lambda>ob. nonnull (data_channel ob))"

definition log_prefix :: "WebrtcNetwork \<Rightarrow> cout_item list" where
  "log_prefix ob = [Str (wn_name ob), Str '':'', Tid, Str '':'']"

subsection \<open>Construction, destruction, static initialisation\<close>

definition WebrtcNetwork_new :: "string \<Rightarrow> WebrtcNetwork" where
  "WebrtcNetwork_new name = \<lparr>wn_name = name, peer_connection = None, data_channel = None\<rparr>"

definition stop_thread :: "rtc_thread \<Rightarrow> net \<Rightarrow> net res" where
  "stop_thread t s =
     (if rtc_threads s t = NoThread then Inl NullDeref
      else Inr (rtc (ThreadStop t) (s\<lparr>rtc_threads := (rtc_threads s)(t := ThreadStopped)\<rparr>)))"

text \<open>The body of the destructor, then the destruction of the members in reverse order.\<close>

definition WebrtcNetwork_destroy :: "WebrtcNetwork \<Rightarrow> net \<Rightarrow> net res" where
  "WebrtcNetwork_destroy ob s =
     res_bind (stop_thread network_thread s) (\<lambda>s1.
     res_bind (stop_thread worker_thread s1) (\<lambda>s2.
     res_bind (stop_thread signaling_thread s2) (\<lambda>s3.
       let s4 = rtc CleanupSSL s3;
           s5 = (case data_channel ob of None \<Rightarrow> s4 | Some dc \<Rightarrow> rtc (DcRelease dc) s4)
       in Inr (case peer_connection ob of None \<Rightarrow> s5 | Some pc \<Rightarrow> rtc (PcRelease pc) s5))))"

text \<open>\<^verbatim>\<open>RefCountedObject<WebrtcNetwork>::Release\<close>: the last release deletes the object.\<close>

definition wn_Release :: "nat \<Rightarrow> net \<Rightarrow> net res" where
  "wn_Release p s =
     res_bind (this_obj p s) (\<lambda>ob.
     res_bind (Release p (objects s)) (\<lambda>(status, h).
       if status = kDroppedLastRef
       then res_bind (WebrtcNetwork_destroy ob s) (\<lambda>s1. Inr (s1\<lparr>objects := h\<rparr>))
       else Inr (s\<lparr>objects := h\<rparr>)))"

definition create_thread :: "rtc_thread \<Rightarrow> net \<Rightarrow> net" where
  "create_thread t s =
     (let s1 = rtc (ThreadCreate t) s;
          s2 = (if rtc_threads s t = NoThread then s1 else rtc (ThreadDestroy t) s1)
      in rtc (ThreadStart t) (s2\<lparr>rtc_threads := (rtc_threads s2)(t := ThreadRunning)\<rparr>))"

definition InitializePeerConnection :: "rtc_lib \<Rightarrow> net \<Rightarrow> retval \<times> net" where
  "InitializePeerConnection L s =
     (let s1 = cout_print [Str '':'', Tid, Str '':'', Str ''init Main thread'', Endl] s
      in if \<not> peer_connection_factory s1
         then
           (let s2 = rtc InitializeSSL s1;
                s3 = s2\<lparr>config_servers := config_servers s2 @ [''stun:stun.l.google.com:19302'']\<rparr>;
                s4 = create_thread signaling_thread
                       (create_thread worker_thread (create_thread network_thread s3));
                s5 = rtc CreateModularPeerConnectionFactory s4;
                s6 = s5\<lparr>peer_connection_factory := create_factory L (rtc_calls s5)\<rparr>
            in if \<not> peer_connection_factory s6
               then (Ret False,
                     cout_print [Str '':'', Tid, Str '':'',
                       Str ''Error on CreateModularPeerConnectionFactory.'', Endl] s6)
               else (NoReturn,
                     cout_print [Str ''PeerConnectionfactory created with the config'', Endl] s6))
         else (NoReturn, s1))"

subsection \<open>Operations\<close>

definition drop_factory :: "net \<Rightarrow> net" where
  "drop_factory s =
     (let s1 = s\<lparr>peer_connection_factory := False\<rparr>
      in if peer_connection_factory s then rtc FactoryRelease s1 else s1)"

definition CloseDataChannel :: "nat \<Rightarrow> net \<Rightarrow> net res" where
  "CloseDataChannel this s =
     res_bind (this_obj this s) (\<lambda>ob.
       case data_channel ob of
         None \<Rightarrow> assign_dc this None s
       | Some dc \<Rightarrow> assign_dc this None (rtc (DcClose dc) (rtc (DcUnregisterObserver dc) s)))"

definition DeletePeerConnection :: "nat \<Rightarrow> net \<Rightarrow> net res" where
  "DeletePeerConnection this s =
     res_bind (CloseDataChannel this s) (\<lambda>s1.
     res_bind (this_pc this s1) (\<lambda>pc.
       assign_pc this None (rtc (PcClose pc) s1)))"

text \<open>
  \<^verbatim>\<open>peer_connection_\<close> is dereferenced (line 218) before it is tested (line 221). The final
  \<^verbatim>\<open>return\<close> is missing.
\<close>

definition CreateOffer :: "rtc_lib \<Rightarrow> nat \<Rightarrow> net \<Rightarrow> (retval \<times> net) res" where
  "CreateOffer L this s =
     res_bind (this_obj this s) (\<lambda>ob.
       let s1 = cout_print (log_prefix ob @ [Str ''create_offer_sdp'', Endl]) s
       in if \<not> peer_connection_factory s1 then Inl NullDeref
          else
            let s2 = rtc (CreatePeerConnection (config_servers s1) this) s1
            in res_bind (assign_pc this (create_peer_connection L (rtc_calls s2)) s2) (\<lambda>s3.
               res_bind (this_pc this s3) (\<lambda>pc.
                 let s4 = rtc (CreateDataChannel pc ''data_channel'' DataChannelInit_default) s3
                 in res_bind (assign_dc this (create_data_channel L (rtc_calls s4)) s4) (\<lambda>s5.
                    res_bind (this_dc this s5) (\<lambda>dc.
                      let s6 = rtc (DcRegisterObserver dc this) s5
                      in res_bind (this_obj this s6) (\<lambda>ob'.
                           case peer_connection ob' of
                             None \<Rightarrow>
                               Inr (Ret False,
                                 cout_print (log_prefix ob @ [Str ''Error on CreatePeerConnection.'', Endl])
                                   (drop_factory s6))
                           | Some pc' \<Rightarrow> Inr (NoReturn, rtc (PcCreateOffer pc' this) s6)))))))"

definition CreateAnswer :: "rtc_lib \<Rightarrow> nat \<Rightarrow> string \<Rightarrow> net \<Rightarrow> (retval \<times> net) res" where
  "CreateAnswer L this parameter s =
     res_bind (this_obj this s) (\<lambda>ob.
       let s1 = cout_print (log_prefix ob @ [Str ''create_answer_sdp'', Endl]) s
       in if \<not> peer_connection_factory s1 then Inl NullDeref
          else
            let s2 = rtc (CreatePeerConnection (config_servers s1) this) s1
            in res_bind (assign_pc this (create_peer_connection L (rtc_calls s2)) s2) (\<lambda>s3.
               res_bind (this_obj this s3) (\<lambda>ob'.
                 case peer_connection ob' of
                   None \<Rightarrow>
                     Inr (Ret False,
                       cout_print (log_prefix ob @ [Str ''Error on CreatePeerConnection.'', Endl])
                         (drop_factory s3))
                 | Some pc \<Rightarrow>
                     (case CreateSessionDescription L ''offer'' parameter of
                        (None, error) \<Rightarrow>
                          Inr (Ret False,
                            cout_print (log_prefix ob @ [Str ''Error on CreateSessionDescription.'', Endl,
                                Str (err_line error), Endl, Str (err_description error), Endl]
                                @ log_prefix ob @ [Str ''Offer SDP:begin'', Endl, Str parameter, Endl,
                                Str ''Offer SDP:end'', Endl]) s3)
                      | (Some session_description, error) \<Rightarrow>
                          Inr (Ret True,
                            rtc (DeleteSessionDescription session_description)
                              (rtc (PcCreateAnswer pc this)
                                (rtc (PcSetRemoteDescription pc this session_description) s3)))))))"

definition SendDataViaDataChannel :: "nat \<Rightarrow> string \<Rightarrow> net \<Rightarrow> (retval \<times> net) res" where
  "SendDataViaDataChannel this data s =
     res_bind (this_obj this s) (\<lambda>ob.
       case data_channel ob of
         None \<Rightarrow> Inr (Ret False, cout_print [Str ''Data channel is not established'', Endl] s)
       | Some dc \<Rightarrow> Inr (Ret True, rtc (DcSend dc (DataBuffer_of_text data)) s))"

definition SetRemoteDescription :: "rtc_lib \<Rightarrow> nat \<Rightarrow> string \<Rightarrow> net \<Rightarrow> (retval \<times> net) res" where
  "SetRemoteDescription L this parameter s =
     res_bind (this_obj this s) (\<lambda>ob.
       case CreateSessionDescription L ''anwer'' parameter of
         (None, error) \<Rightarrow>
           Inr (Ret False,
             cout_print (log_prefix ob @ [Str ''Error on CreateSessionDescription.'', Endl,
               Str (err_line error), Endl, Str (err_description error), Endl]) s)
       | (Some session_description, error) \<Rightarrow>
           res_bind (this_pc this s) (\<lambda>pc.
             Inr (Ret True,
               rtc (DeleteSessionDescription session_description)
                 (rtc (PcSetRemoteDescription pc this session_description) s))))"

definition AddIceCandidate :: "rtc_lib \<Rightarrow> nat \<Rightarrow> string \<Rightarrow> int \<Rightarrow> string \<Rightarrow> net \<Rightarrow> (retval \<times> net) res"
where
  "AddIceCandidate L this sdp_mid sdp_mline_index candidate s =
     res_bind (this_obj this s) (\<lambda>ob.
       let s1 = cout_print (log_prefix ob @ [Str ''AddIceCandidate'', Endl]) s
       in case CreateIceCandidate L sdp_mid sdp_mline_index candidate of
            (ice, err_sdp) \<Rightarrow>
              if err_line err_sdp \<noteq> [] \<and> err_description err_sdp \<noteq> [] \<and> ice = None
              then Inr (Ret False,
                     cout_print (log_prefix ob @ [Str ''Error on CreateIceCandidate'', Endl,
                       Str (err_line err_sdp), Endl, Str (err_description err_sdp), Endl]) s1)
              else res_bind (this_pc this s1) (\<lambda>pc.
                     let s2 = rtc (PcAddIceCandidate pc ice) s1
                     in Inr (NoReturn,
                          case ice of None \<Rightarrow> s2 | Some c \<Rightarrow> rtc (DeleteIceCandidate c) s2)))"

subsection \<open>Callbacks of the WebRTC library\<close>

definition OnSignalingChange :: "int \<Rightarrow> net \<Rightarrow> net" where
  "OnSignalingChange new_state s =
     cout_print [Tid, Str '':'', Str ''PeerConnectionObserver::SignalingChange('', Num new_state,
       Str '')'', Endl] s"

definition OnAddStream :: "nat \<Rightarrow> net \<Rightarrow> net res" where
  "OnAddStream this s =
     res_bind (this_obj this s) (\<lambda>ob.
       Inr (cout_print (log_prefix ob @ [Str ''PeerConnectionObserver::AddStream'', Endl]) s))"

definition OnRemoveStream :: "nat \<Rightarrow> net \<Rightarrow> net res" where
  "OnRemoveStream this s =
     res_bind (this_obj this s) (\<lambda>ob.
       Inr (cout_print (log_prefix ob @ [Str ''PeerConnectionObserver::RemoveStream'', Endl]) s))"

text \<open>The new reference is taken before the old one is released (copy assignment).\<close>

definition OnDataChannel :: "nat \<Rightarrow> nat option \<Rightarrow> net \<Rightarrow> net res" where
  "OnDataChannel this channel s =
     (let s1 = cout_print [Str '':'', Tid, Str '':'', Str ''PeerConnectionObserver::DataChannel('',
                 Ptr channel, Str '', '', Ptr channel, Str '')'', Endl] s;
          s2 = (case channel of None \<Rightarrow> s1 | Some dc \<Rightarrow> rtc (DcAddRef dc) s1)
      in res_bind (assign_dc this channel s2) (\<lambda>s3.
         res_bind (this_dc this s3) (\<lambda>dc. Inr (rtc (DcRegisterObserver dc this) s3))))"

definition OnRenegotiationNeeded :: "net \<Rightarrow> net" where
  "OnRenegotiationNeeded s =
     cout_print [Tid, Str '':'', Str ''PeerConnectionObserver::RenegotiationNeeded'', Endl] s"

definition OnIceConnectionChange :: "nat \<Rightarrow> int \<Rightarrow> net \<Rightarrow> net res" where
  "OnIceConnectionChange this new_state s =
     res_bind (this_obj this s) (\<lambda>ob.
       Inr (cout_print (log_prefix ob @ [Str ''PeerConnectionObserver::IceConnectionChange('',
         Num new_state, Str '')'', Endl]) s))"

definition OnIceGatheringChange :: "int \<Rightarrow> net \<Rightarrow> net" where
  "OnIceGatheringChange new_state s =
     cout_print [Tid, Str '':'', Str ''PeerConnectionObserver::IceGatheringChange('', Num new_state,
       Str '')'', Endl] s"

definition OnIceCandidate :: "'j json_lib \<Rightarrow> nat \<Rightarrow> IceCandidate \<Rightarrow> net \<Rightarrow> net res" where
  "OnIceCandidate J this candidate s =
     (let s1 = cout_print [Tid, Str '':'', Str ''PeerConnectionObserver::IceCandidate'', Endl] s;
          ice = \<lparr>ice_candidate = (case cand_ToString candidate of None \<Rightarrow> '''' | Some t \<Rightarrow> t),
                 ice_sdp_mid = cand_sdp_mid candidate,
                 ice_sdp_mline_index = cand_sdp_mline_index candidate\<rparr>
      in res_bind (this_obj this s1) (\<lambda>ob.
           let icedata = jset J (jset J (jnull J) ''type'' (jstring J ''candidate''))
                           ''name'' (jstring J (wn_name ob));
               candidatedata =
                 jset J (jset J (jset J (jnull J)
                   ''candidate'' (jstring J (ice_candidate ice)))
                   ''sdpMid'' (jstring J (ice_sdp_mid ice)))
                   ''sdpMLineIndex'' (jint J (ice_sdp_mline_index ice));
               strJson = jwrite J (jset J icedata ''candidate'' candidatedata)
           in Inr (snd (ws_send strJson
                (cout_print [Str ''JSON icecandidate'', Endl, Str strJson, Endl] s1)))))"

definition OnIceConnectionReceivingChange :: "bool \<Rightarrow> net \<Rightarrow> net" where
  "OnIceConnectionReceivingChange receiving s = s"

text \<open>\<^verbatim>\<open>OnSuccess(SessionDescriptionInterface*)\<close>: an offer or answer was created.\<close>

definition OnCreateSuccess :: "'j json_lib \<Rightarrow> nat \<Rightarrow> SessionDescription \<Rightarrow> net \<Rightarrow> net res" where
  "OnCreateSuccess J this desc s =
     res_bind (this_pc this s) (\<lambda>pc.
     res_bind (this_obj this s) (\<lambda>ob.
       let s1 = rtc (PcSetLocalDescription pc this desc) s;
           sdp = (case desc_ToString desc of None \<Rightarrow> '''' | Some t \<Rightarrow> t);
           s2 = cout_print [Str '' sdp:begin'', Endl, Str sdp, Str '' sdp:end'', Endl] s1;
           sessiontype = (if GetType desc = kOffer then ''offer'' else ''answer'');
           sessiondata =
             jset J (jset J (jset J (jnull J)
               ''type'' (jstring J sessiontype))
               ''name'' (jstring J (wn_name ob)))
               sessiontype (jstring J sdp);
           strJson = jwrite J sessiondata
       in Inr (snd (ws_send strJson
            (cout_print [Str ''JSON WriteTest'', Endl, Str strJson, Endl] s2)))))"

definition OnFailure :: "nat \<Rightarrow> string \<Rightarrow> net \<Rightarrow> net res" where
  "OnFailure this message s =
     res_bind (this_obj this s) (\<lambda>ob.
       Inr (cout_print (log_prefix ob @ [Str ''CreateSessionDescriptionObserver::OnFailure'', Endl,
         Str message, Endl]) s))"

text \<open>\<^verbatim>\<open>OnSuccess()\<close>: a description was set.\<close>

definition OnSetSuccess :: "nat \<Rightarrow> net \<Rightarrow> net res" where
  "OnSetSuccess this s =
     res_bind (this_obj this s) (\<lambda>ob.
       Inr (cout_print (log_prefix ob @ [Str ''SetSessionDescriptionObserver::OnSuccess'', Endl]) s))"

definition OnStateChange :: "nat \<Rightarrow> net \<Rightarrow> net res" where
  "OnStateChange this s =
     res_bind (this_obj this s) (\<lambda>ob.
       Inr (cout_print (log_prefix ob @ [Str ''DataChannelObserver::StateChange'', Endl]) s))"

definition OnMessage :: "nat \<Rightarrow> DataBuffer \<Rightarrow> net \<Rightarrow> net res" where
  "OnMessage this buffer s =
     res_bind (this_obj this s) (\<lambda>ob.
       Inr (cout_print (log_prefix ob @ [Str ''DataChannelObserver::Message'', Endl]) s))"

end
