(* ===== verification/GameNetwork.thy ===== *)
theory GameNetwork
  imports WebrtcNetwork
begin

section \<open>The namespace \<^verbatim>\<open>GameNetwork\<close> and the message handlers\<close>

text \<open>
  The functions of \<^verbatim>\<open>src/network.cpp\<close> outside the class (lines 86 to 149 and 453 to 496): the
  handlers for the messages of the signalling server, which create and look up entries of the map
  \<^verbatim>\<open>connections\<close>, and the four entry points of the game. \<^verbatim>\<open>apps/app.cpp\<close> calls the first two.
\<close>

subsection \<open>The map of connections\<close>

text \<open>\<^verbatim>\<open>connections[name]\<close>: a missing key is bound to a null pointer first.\<close>

definition conn_index :: "string \<Rightarrow> net \<Rightarrow> nat option \<times> net" where
  "conn_index name s =
     (case connections s name of
        None \<Rightarrow> (None, s\<lparr>connections := (connections s)(name \<mapsto> None)\<rparr>)
      | Some p \<Rightarrow> (p, s))"

text \<open>\<^verbatim>\<open>connections[name]->\<close>.\<close>

definition conn_arrow :: "string \<Rightarrow> net \<Rightarrow> (nat \<times> net) res" where
  "conn_arrow name s =
     (case conn_index name s of (p, s1) \<Rightarrow> res_bind (nonnull p) (\<lambda>q. Inr (q, s1)))"

text \<open>
  \<^verbatim>\<open>connections[name] = new rtc::RefCountedObject<WebrtcNetwork>(name)\<close>: the assignment takes a
  reference to the new object, then releases the one the entry held.
\<close>

definition new_connection :: "string \<Rightarrow> net \<Rightarrow> net res" where
  "new_connection name s =
     (let p = next_obj s;
          s1 = s\<lparr>objects := new_object p (WebrtcNetwork_new name) (objects s), next_obj := Suc p\<rparr>
      in case conn_index name s1 of
           (old, s2) \<Rightarrow>
             res_bind (AddRef p (objects s2)) (\<lambda>h.
               let s3 = s2\<lparr>objects := h\<rparr>
               in res_bind (case old of None \<Rightarrow> Inr s3 | Some q \<Rightarrow> wn_Release q s3) (\<lambda>s4.
                    Inr (s4\<lparr>connections := (connections s4)(name \<mapsto> Some p)\<rparr>))))"

subsection \<open>Messages from the signalling server\<close>

definition NewConnectionmessage :: "rtc_lib \<Rightarrow> string \<Rightarrow> string \<Rightarrow> net \<Rightarrow> net res" where
  "NewConnectionmessage L name offerdata s =
     res_bind (new_connection name (cout_print [Str ''offer from = '', Str name, Endl] s)) (\<lambda>s1.
     res_bind (conn_arrow name s1) (\<lambda>(p, s2).
     res_bind (CreateAnswer L p offerdata s2) (\<lambda>(_, s3). Inr s3)))"

definition Addcandidatemessage :: "'j json_lib \<Rightarrow> rtc_lib \<Rightarrow> string \<Rightarrow> string \<Rightarrow> net \<Rightarrow> net res" where
  "Addcandidatemessage J L name candidatedata s =
     (case jparse J (c_str candidatedata) of
        None \<Rightarrow> Inr (cout_print [Str ''Bad parsing 1'', Endl] s)
      | Some root \<Rightarrow>
          (let s1 = cout_print [Str candidatedata, Endl] s
           in res_bind (res_bind (jget J root ''candidate'') (asString J)) (\<lambda>sdp.
              res_bind (res_bind (jget J root ''sdpMid'') (asString J)) (\<lambda>sdp_mid.
              res_bind (res_bind (jget J root ''sdpMLineIndex'') (asInt J)) (\<lambda>sdp_mlineindex.
              res_bind (conn_arrow name s1) (\<lambda>(p, s2).
              res_bind (AddIceCandidate L p sdp sdp_mlineindex sdp_mid s2) (\<lambda>(_, s3). Inr s3)))))))"

definition AnswerRecieved :: "rtc_lib \<Rightarrow> string \<Rightarrow> string \<Rightarrow> net \<Rightarrow> net res" where
  "AnswerRecieved L name answerdata s =
     res_bind (conn_arrow name s) (\<lambda>(p, s1).
     res_bind (SetRemoteDescription L p answerdata s1) (\<lambda>(_, s2). Inr s2))"

definition OnWebSocketMessage :: "'j json_lib \<Rightarrow> rtc_lib \<Rightarrow> string \<Rightarrow> net \<Rightarrow> net res" where
  "OnWebSocketMessage J L strJson s =
     (case jparse J (c_str strJson) of
        None \<Rightarrow> Inr (cout_print [Str ''Bad parsing '', Endl] s)
      | Some root \<Rightarrow>
          (let s1 = cout_print [Str strJson, Endl] s
           in res_bind (res_bind (jget J root ''type'') (asString J)) (\<lambda>type.
              res_bind (res_bind (jget J root ''name'') (asString J)) (\<lambda>name.
                if type = ''offer''
                then res_bind (res_bind (jget J root ''data'') (asString J)) (\<lambda>offerdata.
                       NewConnectionmessage L name offerdata s1)
                else if type = ''candidate''
                then res_bind (res_bind (jget J root ''candidate'') (asString J)) (\<lambda>candidates.
                       Addcandidatemessage J L name candidates s1)
                else if type = ''answer''
                then res_bind (res_bind (jget J root ''answer'') (asString J)) (\<lambda>answerdata.
                       AnswerRecieved L name answerdata s1)
                else Inr s1))))"

subsection \<open>Entry points of the game\<close>

definition NetworkInit :: "'j json_lib \<Rightarrow> ws_lib \<Rightarrow> rtc_lib \<Rightarrow> string \<Rightarrow> net \<Rightarrow> (retval \<times> net) res" where
  "NetworkInit J W L player1name s =
     res_bind (ws_connect W ''localhost:9090'' (ws_setreceivehandler s)) (\<lambda>(ok, s1).
       if \<not> ok then Inr (Ret False, cout_print [Str ''Failure to connect to server'', Endl] s1)
       else
         let login = jset J (jset J (jnull J) ''type'' (jstring J ''login''))
                       ''name'' (jstring J player1name);
             strJson = jwrite J login;
             s2 = cout_print [Str ''JSON WriteTest'', Endl, Str strJson, Endl] s1;
             s3 = snd (ws_send strJson s2)
         in Inr (InitializePeerConnection L s3))"

text \<open>The result of \<^verbatim>\<open>Connect\<close> is never set: the \<^verbatim>\<open>return\<close> is missing.\<close>

fun Connect :: "rtc_lib \<Rightarrow> string list \<Rightarrow> net \<Rightarrow> (retval \<times> net) res" where
  "Connect L [] s = Inr (NoReturn, s)"
| "Connect L (name # peers) s =
     res_bind (new_connection name s) (\<lambda>s1.
     res_bind (conn_arrow name s1) (\<lambda>(p, s2).
     res_bind (CreateOffer L p s2) (\<lambda>(_, s3). Connect L peers s3)))"

definition Senddata :: "string \<Rightarrow> string \<Rightarrow> net \<Rightarrow> net res" where
  "Senddata name data s =
     (if connections s name \<noteq> None
      then res_bind (conn_arrow name s) (\<lambda>(p, s1).
           res_bind (SendDataViaDataChannel p data s1) (\<lambda>(_, s2). Inr s2))
      else Inr s)"

fun Disconnect :: "string list \<Rightarrow> net \<Rightarrow> net res" where
  "Disconnect [] s = Inr s"
| "Disconnect (name # peers) s =
     res_bind
       (if connections s name \<noteq> None
        then res_bind (conn_arrow name s) (\<lambda>(p, s1). DeletePeerConnection p s1)
        else Inr s)
       (Disconnect peers)"

text \<open>The process before \<^verbatim>\<open>main\<close>: the static objects are constructed.\<close>

definition net_init :: net where
  "net_init =
     \<lparr>cout = [], iswebsocketconnected = False, client_calls = [],
      connections = Map.empty, objects = Map.empty, next_obj = 0,
      peer_connection_factory = False, config_servers = [], rtc_threads = (\<lambda>_. NoThread),
      rtc_calls = []\<rparr>"

text \<open>\<^verbatim>\<open>main\<close> of \<^verbatim>\<open>apps/app.cpp\<close> up to its final endless loop.\<close>

definition app_main :: "'j json_lib \<Rightarrow> ws_lib \<Rightarrow> rtc_lib \<Rightarrow> net res" where
  "app_main J W L =
     res_bind (NetworkInit J W L ''Punit'' net_init) (\<lambda>(_, s1).
     res_bind (Connect L [''John''] s1) (\<lambda>(_, s2). Inr s2))"

subsection \<open>Events\<close>

text \<open>
  What can happen to the running process: the game calls an entry point, a text arrives from the
  signalling server, the WebRTC library calls a callback of an observer. The library also holds
  counted references to observers it was given (\<open>ExtAddRef\<close>, \<open>ExtRelease\<close>).
\<close>

datatype event =
    EvNetworkInit string
  | EvConnect "string list"
  | EvSenddata string string
  | EvDisconnect "string list"
  | EvText string
  | EvSignalingChange int
  | EvAddStream nat
  | EvRemoveStream nat
  | EvDataChannel nat "nat option"
  | EvRenegotiationNeeded
  | EvIceConnectionChange nat int
  | EvIceGatheringChange int
  | EvIceCandidate nat IceCandidate
  | EvIceConnectionReceivingChange bool
  | EvCreateSuccess nat SessionDescription
  | EvFailure nat string
  | EvSetSuccess nat
  | EvStateChange nat
  | EvMessage nat DataBuffer

fun handle :: "'j json_lib \<Rightarrow> ws_lib \<Rightarrow> rtc_lib \<Rightarrow> event \<Rightarrow> net \<Rightarrow> net res" where
  "handle J W L (EvNetworkInit n) s = res_bind (NetworkInit J W L n s) (\<lambda>(_, s'). Inr s')"
| "handle J W L (EvConnect ps) s = res_bind (Connect L ps s) (\<lambda>(_, s'). Inr s')"
| "handle J W L (EvSenddata n d) s = Senddata n d s"
| "handle J W L (EvDisconnect ps) s = Disconnect ps s"
| "handle J W L (EvText t) s = OnWebSocketMessage J L t s"
| "handle J W L (EvSignalingChange i) s = Inr (OnSignalingChange i s)"
| "handle J W L (EvAddStream p) s = OnAddStream p s"
| "handle J W L (EvRemoveStream p) s = OnRemoveStream p s"
| "handle J W L (EvDataChannel p c) s = OnDataChannel p c s"
| "handle J W L EvRenegotiationNeeded s = Inr (OnRenegotiationNeeded s)"
| "handle J W L (EvIceConnectionChange p i) s = OnIceConnectionChange p i s"
| "handle J W L (EvIceGatheringChange i) s = Inr (OnIceGatheringChange i s)"
| "handle J W L (EvIceCandidate p c) s = OnIceCandidate J p c s"
| "handle J W L (EvIceConnectionReceivingChange b) s = Inr (OnIceConnectionReceivingChange b s)"
| "handle J W L (EvCreateSuccess p d) s = OnCreateSuccess J p d s"
| "handle J W L (EvFailure p m) s = OnFailure p m s"
| "handle J W L (EvSetSuccess p) s = OnSetSuccess p s"
| "handle J W L (EvStateChange p) s = OnStateChange p s"
| "handle J W L (EvMessage p b) s = OnMessage p b s"

text \<open>
  The reachable states, with the number of references the library holds to each observer. An
  external release is a \<^verbatim>\<open>Release\<close> of the object and may delete it.
\<close>

inductive reachable :: "'j json_lib \<Rightarrow> ws_lib \<Rightarrow> rtc_lib \<Rightarrow> (nat \<Rightarrow> nat) \<Rightarrow> net \<Rightarrow> bool"
  for J W L where
  start: "reachable J W L (\<lambda>_. 0) net_init"
| event: "reachable J W L ext s \<Longrightarrow> handle J W L ev s = Inr s' \<Longrightarrow> reachable J W L ext s'"
| ext_addref: "reachable J W L ext s \<Longrightarrow> AddRef p (objects s) = Inr h \<Longrightarrow> ext p + 2 < 2 ^ 32 \<Longrightarrow>
    reachable J W L (ext(p := ext p + 1)) (s\<lparr>objects := h\<rparr>)"
| ext_release: "reachable J W L ext s \<Longrightarrow> 0 < ext p \<Longrightarrow> wn_Release p s = Inr s' \<Longrightarrow>
    reachable J W L (ext(p := ext p - 1)) s'"

end
