(* ===== verification/NetworkInvariant.thy ===== *)
theory NetworkInvariant
  imports GameNetwork
begin

section \<open>The invariant of the connection table\<close>

text \<open>
  Every event keeps three things true: the counter of each \<^verbatim>\<open>WebrtcNetwork\<close> object is the number
  of references the WebRTC library holds to it plus one if an entry of \<^verbatim>\<open>connections\<close> holds it; an
  entry under a name holds a live object with that name; addresses not yet handed out are unused.
  Operations that only work on the members of one object leave all of this alone: \<open>frame\<close>.
\<close>

subsection \<open>Frames\<close>

definition obj_shape :: "net \<Rightarrow> nat \<Rightarrow> (32 word \<times> string) option" where
  "obj_shape s p = map_option (\<lambda>ob. (ref_count ob, wn_name (payload ob))) (objects s p)"

definition frame :: "net \<Rightarrow> net \<Rightarrow> bool" where
  "frame s s' \<longleftrightarrow>
     connections s' = connections s \<and> next_obj s' = next_obj s \<and> obj_shape s' = obj_shape s"

text \<open>A computation that leaves the table alone whenever it returns; \<open>g\<close> reads the state of a result.\<close>

definition keeps :: "('a \<Rightarrow> net) \<Rightarrow> net \<Rightarrow> 'a res \<Rightarrow> bool" where
  "keeps g s m \<longleftrightarrow> (\<forall>x. m = Inr x \<longrightarrow> frame s (g x))"

lemma frame_refl [simp]: "frame s s"
  by (simp add: frame_def)

lemma frame_trans: "frame s s1 \<Longrightarrow> frame s1 s2 \<Longrightarrow> frame s s2"
  by (simp add: frame_def)

lemma frame_sym: "frame s s' \<longleftrightarrow> frame s' s"
  by (auto simp: frame_def)

lemma frame_rtc [simp]: "frame s (rtc c s') \<longleftrightarrow> frame s s'"
  by (simp add: frame_def rtc_def obj_shape_def fun_eq_iff)

lemma frame_cout [simp]: "frame s (cout_print xs s') \<longleftrightarrow> frame s s'"
  by (simp add: frame_def cout_print_def obj_shape_def fun_eq_iff)

lemma frame_client_call [simp]: "frame s (client_call c s') \<longleftrightarrow> frame s s'"
  by (simp add: frame_def client_call_def obj_shape_def fun_eq_iff)

lemma frame_upd_fields [simp]:
  "frame s (s'\<lparr>iswebsocketconnected := b\<rparr>) \<longleftrightarrow> frame s s'"
  "frame s (s'\<lparr>peer_connection_factory := f\<rparr>) \<longleftrightarrow> frame s s'"
  "frame s (s'\<lparr>config_servers := c\<rparr>) \<longleftrightarrow> frame s s'"
  "frame s (s'\<lparr>rtc_threads := t\<rparr>) \<longleftrightarrow> frame s s'"
  by (simp_all add: frame_def obj_shape_def fun_eq_iff)

lemma frame_upd_obj:
  "(\<And>x. wn_name (f x) = wn_name x) \<Longrightarrow> frame s (upd_obj p f s') \<longleftrightarrow> frame s s'"
  by (auto simp: frame_def upd_obj_def obj_shape_def fun_eq_iff option.map_comp comp_def)

lemma frame_upd_members [simp]:
  "frame s (upd_obj p (\<lambda>x. x\<lparr>peer_connection := c\<rparr>) s') \<longleftrightarrow> frame s s'"
  "frame s (upd_obj p (\<lambda>x. x\<lparr>data_channel := c\<rparr>) s') \<longleftrightarrow> frame s s'"
  by (simp_all add: frame_upd_obj)

lemma frame_ws_send [simp]: "frame s (snd (ws_send d s')) \<longleftrightarrow> frame s s'"
  by (simp add: ws_send_def)

lemma frame_drop_factory [simp]: "frame s (drop_factory s') \<longleftrightarrow> frame s s'"
  by (simp add: drop_factory_def Let_def)

lemma frame_create_thread [simp]: "frame s (create_thread t s') \<longleftrightarrow> frame s s'"
  by (simp add: create_thread_def Let_def)

lemma frame_InitializePeerConnection [simp]:
  "frame s (snd (InitializePeerConnection L s')) \<longleftrightarrow> frame s s'"
  by (simp add: InitializePeerConnection_def Let_def)

lemma keeps_Inr [simp]: "keeps g s (Inr x) \<longleftrightarrow> frame s (g x)"
  by (simp add: keeps_def)

lemma keeps_Inl [simp]: "keeps g s (Inl e)"
  by (simp add: keeps_def)

lemma keeps_Let [intro!]: "frame s t \<Longrightarrow> (\<And>x. frame s x \<Longrightarrow> keeps g s (f x)) \<Longrightarrow> keeps g s (Let t f)"
  by (simp add: Let_def)

text \<open>A step that only reads the state, and a step that may change it.\<close>

lemma keeps_read: "(\<And>x. keeps g s (f x)) \<Longrightarrow> keeps g s (res_bind m f)"
  by (cases m) auto

lemma keeps_bind: "keeps g' s m \<Longrightarrow> (\<And>x. frame s (g' x) \<Longrightarrow> keeps g s (f x)) \<Longrightarrow> keeps g s (res_bind m f)"
  by (cases m) auto

lemma keeps_assign:
  "frame s s1 \<Longrightarrow> keeps id s (assign_pc p c s1)"
  "frame s s1 \<Longrightarrow> keeps id s (assign_dc p c s1)"
  by (auto simp: assign_pc_def assign_dc_def Let_def split: option.splits intro!: keeps_read)

lemma keeps_this [intro!]:
  "(\<And>x. keeps g s (f x)) \<Longrightarrow> keeps g s (res_bind (this_obj p s1) f)"
  "(\<And>x. keeps g s (f' x)) \<Longrightarrow> keeps g s (res_bind (this_pc p s1) f')"
  "(\<And>x. keeps g s (f' x)) \<Longrightarrow> keeps g s (res_bind (this_dc p s1) f')"
  by (rule keeps_read, blast)+

lemma keeps_bind_assign [intro!]:
  "frame s s1 \<Longrightarrow> (\<And>x. frame s x \<Longrightarrow> keeps g s (f x)) \<Longrightarrow> keeps g s (res_bind (assign_pc p c s1) f)"
  "frame s s1 \<Longrightarrow> (\<And>x. frame s x \<Longrightarrow> keeps g s (f x)) \<Longrightarrow> keeps g s (res_bind (assign_dc p c s1) f)"
  by (rule keeps_bind, erule keeps_assign, simp)+

subsection \<open>Operations on one object\<close>

lemma keeps_CloseDataChannel: "frame s s1 \<Longrightarrow> keeps id s (CloseDataChannel p s1)"
  by (auto simp: CloseDataChannel_def split: option.split intro!: keeps_assign)

lemma keeps_DeletePeerConnection: "frame s s1 \<Longrightarrow> keeps id s (DeletePeerConnection p s1)"
  unfolding DeletePeerConnection_def
  by (rule keeps_bind, erule keeps_CloseDataChannel) (auto intro: keeps_assign)

lemma keeps_CreateOffer: "frame s s1 \<Longrightarrow> keeps snd s (CreateOffer L p s1)"
  by (auto simp: CreateOffer_def split: option.split)

lemma keeps_CreateAnswer: "frame s s1 \<Longrightarrow> keeps snd s (CreateAnswer L p d s1)"
  by (auto simp: CreateAnswer_def split: option.split prod.split)

lemma keeps_SendData: "frame s s1 \<Longrightarrow> keeps snd s (SendDataViaDataChannel p d s1)"
  by (auto simp: SendDataViaDataChannel_def split: option.split)

lemma keeps_SetRemoteDescription: "frame s s1 \<Longrightarrow> keeps snd s (SetRemoteDescription L p d s1)"
  by (auto simp: SetRemoteDescription_def split: option.split prod.split)

lemma keeps_AddIceCandidate: "frame s s1 \<Longrightarrow> keeps snd s (AddIceCandidate L p m i c s1)"
  by (auto simp: AddIceCandidate_def split: option.split prod.split)

lemma keeps_stop_thread: "frame s s1 \<Longrightarrow> keeps id s (stop_thread t s1)"
  by (simp add: stop_thread_def)

lemma keeps_destroy: "frame s s1 \<Longrightarrow> keeps id s (WebrtcNetwork_destroy ob s1)"
  unfolding WebrtcNetwork_destroy_def
  by (intro keeps_bind [where g' = id] keeps_stop_thread) (auto simp: Let_def split: option.split)

lemma keeps_ws_connect: "frame s s1 \<Longrightarrow> keeps snd s (ws_connect W u s1)"
  by (auto simp: ws_connect_def Let_def split: ws_outcome.split)

lemma keeps_NetworkInit: "keeps snd s (NetworkInit J W L n s)"
  unfolding NetworkInit_def
  by (rule keeps_bind, rule keeps_ws_connect) (auto simp: ws_setreceivehandler_def Let_def)

lemma keeps_callbacks:
  "keeps id s (OnAddStream p s)"
  "keeps id s (OnRemoveStream p s)"
  "keeps id s (OnIceConnectionChange p i s)"
  "keeps id s (OnFailure p m s)"
  "keeps id s (OnSetSuccess p s)"
  "keeps id s (OnStateChange p s)"
  "keeps id s (OnMessage p b s)"
  by (auto simp: OnAddStream_def OnRemoveStream_def OnIceConnectionChange_def OnFailure_def
      OnSetSuccess_def OnStateChange_def OnMessage_def)

lemma keeps_OnDataChannel: "keeps id s (OnDataChannel p c s)"
  by (auto simp: OnDataChannel_def Let_def split: option.split)

lemma keeps_OnIceCandidate: "keeps id s (OnIceCandidate J p c s)"
  by (auto simp: OnIceCandidate_def Let_def)

lemma keeps_OnCreateSuccess: "keeps id s (OnCreateSuccess J p d s)"
  by (auto simp: OnCreateSuccess_def Let_def)

subsection \<open>The invariant\<close>

text \<open>The references an object should have: the library's, and one if an entry holds it.\<close>

definition conn_holds :: "net \<Rightarrow> nat \<Rightarrow> bool" where
  "conn_holds s p \<longleftrightarrow> (\<exists>k. connections s k = Some (Some p))"

definition owners :: "(nat \<Rightarrow> nat) \<Rightarrow> net \<Rightarrow> nat \<Rightarrow> nat" where
  "owners ext s p = ext p + (if conn_holds s p then 1 else 0)"

definition named :: "net \<Rightarrow> bool" where
  "named s \<longleftrightarrow>
     (\<forall>k p. connections s k = Some (Some p) \<longrightarrow>
        (\<exists>ob. objects s p = Some ob \<and> wn_name (payload ob) = k))"

definition net_inv :: "(nat \<Rightarrow> nat) \<Rightarrow> net \<Rightarrow> bool" where
  "net_inv ext s \<longleftrightarrow>
     rc.owned (owners ext s) (objects s) \<and> named s \<and>
     (\<forall>p. objects s p \<noteq> None \<longrightarrow> 0 < owners ext s p) \<and>
     (\<forall>p. next_obj s \<le> p \<longrightarrow> objects s p = None) \<and> (\<forall>p. ext p + 1 < 2 ^ 32)"

lemma net_inv_pos: "net_inv ext s \<Longrightarrow> objects s p \<noteq> None \<Longrightarrow> 0 < owners ext s p"
  by (simp add: net_inv_def)

lemma frame_owned: "frame s s' \<Longrightarrow> rc.owned own (objects s') = rc.owned own (objects s)"
proof -
  assume "frame s s'"
  then have *: "map_option (\<lambda>ob. (ref_count ob, wn_name (payload ob))) (objects s' p) =
      map_option (\<lambda>ob. (ref_count ob, wn_name (payload ob))) (objects s p)" for p
    by (simp add: frame_def obj_shape_def fun_eq_iff)
  have "alive (objects s') p = alive (objects s) p \<and> count (objects s') p = count (objects s) p" for p
    using * [of p] by (cases "objects s p"; cases "objects s' p") (simp_all add: alive_def count_def)
  then show ?thesis by (simp add: rc.owned_def)
qed

lemma frame_objects:
  "frame s s' \<Longrightarrow> objects s p = Some ob \<Longrightarrow>
     \<exists>ob'. objects s' p = Some ob' \<and> wn_name (payload ob') = wn_name (payload ob)"
  "frame s s' \<Longrightarrow> objects s p = None \<Longrightarrow> objects s' p = None"
  by (auto simp: frame_def obj_shape_def fun_eq_iff map_option_case dest!: spec [of _ p]
      split: option.splits)

lemma net_inv_frame: "net_inv ext s \<Longrightarrow> frame s s' \<Longrightarrow> net_inv ext s'"
proof -
  assume inv: "net_inv ext s" and f: "frame s s'"
  have eq: "connections s' = connections s" "next_obj s' = next_obj s"
    using f by (simp_all add: frame_def)
  have own: "owners ext s' = owners ext s"
    by (simp add: owners_def conn_holds_def eq fun_eq_iff)
  have "named s'"
    using inv frame_objects(1) [OF f] unfolding net_inv_def named_def eq by metis
  with inv show ?thesis
    unfolding net_inv_def own eq frame_owned [OF f] using frame_objects(2) [OF f] by metis
qed

lemma net_inv_keeps: "net_inv ext s \<Longrightarrow> keeps g s m \<Longrightarrow> m = Inr x \<Longrightarrow> net_inv ext (g x)"
  by (auto simp: keeps_def intro: net_inv_frame)

subsection \<open>Entries come and go\<close>

lemma net_init_inv: "net_inv (\<lambda>_. 0) net_init"
  by (simp add: net_inv_def net_init_def rc.owned_def alive_def owners_def conn_holds_def named_def)

text \<open>Entries hold different objects, because an object has one name.\<close>

lemma named_inj:
  "named s \<Longrightarrow> connections s k = Some (Some p) \<Longrightarrow> connections s k' = Some (Some p) \<Longrightarrow> k' = k"
  unfolding named_def by (metis option.inject)

lemma Release_other:
  assumes "Release p h = Inr (st, h')"
  shows "q \<noteq> p \<Longrightarrow> h' q = h q"
    and "h p = Some ob \<Longrightarrow> h' p = Some ob' \<Longrightarrow> payload ob' = payload ob"
    and "h p = None \<Longrightarrow> h' p = None"
  using assms by (auto simp: Release_def DecRef_def Let_def split: option.splits if_splits prod.splits
      RefCountReleaseStatus.splits)

lemma wn_Release_owned:
  assumes own: "rc.owned own (objects s)" and pos: "0 < own p" and res: "wn_Release p s = Inr s'"
  shows "rc.owned (own(p := own p - 1)) (objects s')"
    and "connections s' = connections s" and "next_obj s' = next_obj s"
    and "\<And>q. q \<noteq> p \<Longrightarrow> objects s' q = objects s q"
    and "\<And>ob'. objects s' p = Some ob' \<Longrightarrow>
      \<exists>ob. objects s p = Some ob \<and> wn_name (payload ob') = wn_name (payload ob)"
    and "1 < own p \<Longrightarrow> objects s' p \<noteq> None"
    and "own p = 1 \<Longrightarrow> objects s' p = None"
proof -
  obtain st h where r: "Release p (objects s) = Inr (st, h)" "rc.owned (own(p := own p - 1)) h"
    "alive h = (if own p = 1 then (alive (objects s))(p := False) else alive (objects s))"
    using rc.owned_release [OF own pos] by blast
  have d: "frame s s1" if "WebrtcNetwork_destroy ob s = Inr s1" for ob s1
    using that keeps_destroy [of s s ob] by (simp add: keeps_def)
  have "objects s' = h \<and> connections s' = connections s \<and> next_obj s' = next_obj s"
    using res r(1) by (auto simp: wn_Release_def res_bind_eq_Inr frame_def split: if_splits dest!: d)
  then have eq: "objects s' = h" "connections s' = connections s" "next_obj s' = next_obj s"
    by simp_all
  have live: "alive (objects s) p" by (rule rc.owned_live [OF own pos])
  show "rc.owned (own(p := own p - 1)) (objects s')"
    "connections s' = connections s" "next_obj s' = next_obj s"
    using r(2) eq by simp_all
  show "objects s' q = objects s q" if "q \<noteq> p" for q
    using that Release_other(1) [OF r(1)] eq(1) by simp
  show "\<exists>ob. objects s p = Some ob \<and> wn_name (payload ob') = wn_name (payload ob)"
    if "objects s' p = Some ob'" for ob'
  proof -
    obtain ob where ob: "objects s p = Some ob" using live by (auto simp: alive_def)
    have "payload ob' = payload ob" using Release_other(2) [OF r(1) ob] that eq(1) by blast
    then show ?thesis using ob by simp
  qed
  show "objects s' p \<noteq> None" if "1 < own p"
  proof -
    have "alive h p" using r(3) live that by simp
    then show ?thesis using eq(1) by (simp add: alive_def)
  qed
  show "objects s' p = None" if "own p = 1"
  proof -
    have "\<not> alive h p" using r(3) that by simp
    then show ?thesis using eq(1) by (simp add: alive_def)
  qed
qed

lemma conn_holds_upd:
  "conn_holds (s\<lparr>connections := (connections s)(k \<mapsto> v)\<rparr>) q \<longleftrightarrow>
     v = Some q \<or> (\<exists>k'. k' \<noteq> k \<and> connections s k' = Some (Some q))"
  by (auto simp: conn_holds_def)

lemma conn_holds_cong: "connections s' = connections s \<Longrightarrow> conn_holds s' q = conn_holds s q"
  by (simp add: conn_holds_def)

lemma ext_addref_inv:
  assumes inv: "net_inv ext s" and r: "AddRef p (objects s) = Inr h" and room: "ext p + 2 < 2 ^ 32"
  shows "net_inv (ext(p := ext p + 1)) (s\<lparr>objects := h\<rparr>)"
proof -
  have own: "rc.owned (owners ext s) (objects s)" using inv by (simp add: net_inv_def)
  have live: "alive (objects s) p" using r by (auto simp: AddRef_def alive_def split: option.splits)
  have "owners ext s p + 1 < 2 ^ 32" using room by (simp add: owners_def)
  with rc.owned_addref [OF own live] r
  have "rc.owned ((owners ext s)(p := owners ext s p + 1)) h" by auto
  moreover have "(owners ext s)(p := owners ext s p + 1) =
      owners (ext(p := ext p + 1)) (s\<lparr>objects := h\<rparr>)"
    by (rule HOL.ext) (simp add: owners_def conn_holds_def)
  moreover have "0 < owners (ext(p := ext p + 1)) (s\<lparr>objects := h\<rparr>) q" if "h q \<noteq> None" for q
  proof -
    have "objects s q \<noteq> None" using that r by (auto simp: AddRef_def split: option.splits if_splits)
    from net_inv_pos [OF inv this] show ?thesis by (auto simp: owners_def conn_holds_def)
  qed
  moreover have "named (s\<lparr>objects := h\<rparr>)"
    using inv r unfolding net_inv_def named_def AddRef_def by (auto split: option.splits) (metis option.inject)
  ultimately show ?thesis
    using inv r room unfolding net_inv_def AddRef_def by (auto split: option.splits)
qed

lemma ext_release_inv:
  assumes inv: "net_inv ext s" and pos: "0 < ext p" and r: "wn_Release p s = Inr s'"
  shows "net_inv (ext(p := ext p - 1)) s'"
proof -
  have own: "rc.owned (owners ext s) (objects s)" using inv by (simp add: net_inv_def)
  have pos': "0 < owners ext s p" using pos by (simp add: owners_def)
  note R = wn_Release_owned [OF own pos' r]
  have "owners (ext(p := ext p - 1)) s' = (owners ext s)(p := owners ext s p - 1)"
    using pos by (auto simp: owners_def conn_holds_cong [OF R(2)])
  moreover have "named s'"
    unfolding named_def R(2)
  proof (intro allI impI)
    fix k q assume c: "connections s k = Some (Some q)"
    then obtain ob where ob: "objects s q = Some ob" "wn_name (payload ob) = k"
      using inv by (auto simp: net_inv_def named_def)
    have "1 < owners ext s p" if "q = p"
    proof -
      have "conn_holds s p" using that c by (auto simp: conn_holds_def)
      then show ?thesis using pos by (simp add: owners_def)
    qed
    then show "\<exists>ob. objects s' q = Some ob \<and> wn_name (payload ob) = k"
      using ob R(4) [of q] R(5,6) by (cases "q = p") auto
  qed
  moreover have "0 < ((owners ext s)(p := owners ext s p - 1)) q" if "objects s' q \<noteq> None" for q
  proof (cases "q = p")
    case True
    then have "owners ext s p \<noteq> 1" using that R(7) by auto
    with True pos' show ?thesis by simp
  next
    case False
    with that R(4) net_inv_pos [OF inv, of q] show ?thesis by simp
  qed
  moreover have "objects s' q = None" if "next_obj s' \<le> q" for q
  proof -
    have "objects s q = None" using that inv R(3) by (simp add: net_inv_def)
    then show ?thesis using R(4) [of q] R(5) by (cases "q = p"; cases "objects s' q") auto
  qed
  moreover have "(ext(p := ext p - 1)) q + 1 < 2 ^ 32" for q
  proof -
    have "ext q + 1 < 2 ^ 32" using inv by (simp add: net_inv_def)
    then show ?thesis by (cases "q = p") auto
  qed
  ultimately show ?thesis using R(1) by (simp add: net_inv_def)
qed

text \<open>\<open>connections[name]\<close> may add a null entry, which owns nothing.\<close>

lemma conn_index_frame:
  assumes "conn_index name s = (p, s')"
  shows "objects s' = objects s" and "next_obj s' = next_obj s"
    and "p = Option.bind (connections s name) id"
    and "connections s' = (connections s)(name \<mapsto> p)"
  using assms by (auto simp: conn_index_def split: option.splits)

lemma conn_index_inv:
  assumes "net_inv ext s" and "conn_index name s = (p, s')"
  shows "net_inv ext s'"
proof -
  note F = conn_index_frame [OF assms(2)]
  have "connections s' k = Some (Some q) \<longleftrightarrow> connections s k = Some (Some q)" for k q
    using F(3,4) by (cases "connections s name") auto
  then have "named s' = named s" "owners ext s' = owners ext s"
    using F(1) by (auto simp: named_def owners_def conn_holds_def fun_eq_iff)
  with assms(1) F(1,2) show ?thesis by (simp add: net_inv_def)
qed

lemma conn_arrow_inv: "net_inv ext s \<Longrightarrow> conn_arrow name s = Inr (p, s') \<Longrightarrow> net_inv ext s'"
  by (auto simp: conn_arrow_def nonnull_def split: prod.splits option.splits intro: conn_index_inv)

text \<open>A fresh object has no owner, so \<open>new\<close> keeps the count right, and the assignment gives it one.\<close>

lemma fresh_owned:
  assumes "net_inv ext s"
  defines "p \<equiv> next_obj s"
  shows "owners ext s p = 0"
    and "\<exists>h. AddRef p (new_object p x (objects s)) = Inr h \<and> rc.owned ((owners ext s)(p := 1)) h \<and>
      (\<forall>q. q \<noteq> p \<longrightarrow> h q = objects s q) \<and> (\<exists>c. h p = Some \<lparr>payload = x, ref_count = c\<rparr>)"
proof -
  have own: "rc.owned (owners ext s) (objects s)" and n: "objects s p = None"
    using assms by (simp_all add: net_inv_def)
  then show z: "owners ext s p = 0" by (simp add: rc.owned_def alive_def)
  have "rc.owned ((owners ext s)(p := 1)) ((objects s)(p \<mapsto> \<lparr>payload = x, ref_count = 1\<rparr>))"
    using own by (auto simp: rc.owned_def)
  then show "\<exists>h. AddRef p (new_object p x (objects s)) = Inr h \<and> rc.owned ((owners ext s)(p := 1)) h \<and>
      (\<forall>q. q \<noteq> p \<longrightarrow> h q = objects s q) \<and> (\<exists>c. h p = Some \<lparr>payload = x, ref_count = c\<rparr>)"
    by (simp add: AddRef_def new_object_def IncRef_def)
qed

lemma new_connection_unfold:
  fixes s :: net and name :: string
  assumes inv: "net_inv ext s"
  defines "p \<equiv> next_obj s" and "old \<equiv> Option.bind (connections s name) id"
  obtains h c s3 where "rc.owned ((owners ext s)(p := 1)) h" "\<And>q. q \<noteq> p \<Longrightarrow> h q = objects s q"
    "h p = Some \<lparr>payload = WebrtcNetwork_new name, ref_count = c\<rparr>"
    "s3 = s\<lparr>next_obj := Suc p, objects := h, connections := (connections s)(name \<mapsto> old)\<rparr>"
    "new_connection name s =
      res_bind (case old of None \<Rightarrow> Inr s3 | Some q \<Rightarrow> wn_Release q s3)
        (\<lambda>s4. Inr (s4\<lparr>connections := (connections s4)(name \<mapsto> Some p)\<rparr>))"
proof -
  obtain h c where h: "AddRef p (new_object p (WebrtcNetwork_new name) (objects s)) = Inr h"
    "rc.owned ((owners ext s)(p := 1)) h" "\<And>q. q \<noteq> p \<Longrightarrow> h q = objects s q"
    "h p = Some \<lparr>payload = WebrtcNetwork_new name, ref_count = c\<rparr>"
    using fresh_owned(2) [OF inv, of "WebrtcNetwork_new name"] unfolding p_def by blast
  define s3 where "s3 = s\<lparr>next_obj := Suc p, objects := h, connections := (connections s)(name \<mapsto> old)\<rparr>"
  have s3_Some: "s3 = s\<lparr>next_obj := Suc p, objects := h\<rparr>" if "connections s name = Some a" for a
    using that by (cases s) (simp add: s3_def old_def fun_upd_idem)
  have "new_connection name s =
      res_bind (case old of None \<Rightarrow> Inr s3 | Some q \<Rightarrow> wn_Release q s3)
        (\<lambda>s4. Inr (s4\<lparr>connections := (connections s4)(name \<mapsto> Some p)\<rparr>))"
  proof (cases "connections s name")
    case None
    then show ?thesis
      using h(1) by (simp add: new_connection_def conn_index_def old_def s3_def p_def Let_def)
  next
    case (Some a)
    then show ?thesis
      unfolding s3_Some [OF Some]
      using h(1) by (cases a) (simp_all add: new_connection_def conn_index_def old_def p_def Let_def)
  qed
  from that [OF h(2-4) s3_def this] show ?thesis .
qed

lemma old_owner:
  assumes inv: "net_inv ext s" and old: "Option.bind (connections s name) id = Some q"
  shows "q \<noteq> next_obj s" and "0 < owners ext s q"
proof -
  have "connections s name = Some (Some q)" using old by (cases "connections s name") simp_all
  then show "0 < owners ext s q" by (auto simp: owners_def conn_holds_def)
  then show "q \<noteq> next_obj s" using fresh_owned(1) [OF inv] by auto
qed

lemma new_connection_step:
  assumes inv: "net_inv ext s" and res: "new_connection name s = Inr s'"
  defines "p \<equiv> next_obj s" and "old \<equiv> Option.bind (connections s name) id"
  shows "connections s' = (connections s)(name \<mapsto> Some p)" and "next_obj s' = Suc p"
    and "\<exists>c. objects s' p = Some \<lparr>payload = WebrtcNetwork_new name, ref_count = c\<rparr>"
    and "\<And>r. r \<noteq> p \<Longrightarrow> Some r \<noteq> old \<Longrightarrow> objects s' r = objects s r"
    and "\<And>r. r \<noteq> p \<Longrightarrow> objects s r = None \<Longrightarrow> objects s' r = None"
    and "rc.owned (case old of None \<Rightarrow> (owners ext s)(p := 1)
        | Some q \<Rightarrow> (owners ext s)(p := 1, q := owners ext s q - 1)) (objects s')"
    and "\<And>q. old = Some q \<Longrightarrow> owners ext s q = 1 \<Longrightarrow> objects s' q = None"
proof -
  obtain h c s3 where h: "rc.owned ((owners ext s)(p := 1)) h" "\<And>q. q \<noteq> p \<Longrightarrow> h q = objects s q"
    "h p = Some \<lparr>payload = WebrtcNetwork_new name, ref_count = c\<rparr>"
    and s3_def: "s3 = s\<lparr>next_obj := Suc p, objects := h, connections := (connections s)(name \<mapsto> old)\<rparr>"
    and "new_connection name s =
      res_bind (case old of None \<Rightarrow> Inr s3 | Some q \<Rightarrow> wn_Release q s3)
        (\<lambda>s4. Inr (s4\<lparr>connections := (connections s4)(name \<mapsto> Some p)\<rparr>))"
    using new_connection_unfold [OF inv, of name] unfolding p_def old_def by blast
  with res have "res_bind (case old of None \<Rightarrow> Inr s3 | Some q \<Rightarrow> wn_Release q s3)
        (\<lambda>s4. Inr (s4\<lparr>connections := (connections s4)(name \<mapsto> Some p)\<rparr>)) = Inr s'"
    by simp
  then obtain s4 where s4: "(case old of None \<Rightarrow> Inr s3 | Some q \<Rightarrow> wn_Release q s3) = Inr s4"
    "s' = s4\<lparr>connections := (connections s4)(name \<mapsto> Some p)\<rparr>"
    by (elim res_bindE) simp
  have s3: "rc.owned ((owners ext s)(p := 1)) (objects s3)" "objects s3 = h" "next_obj s3 = Suc p"
    "connections s3 = (connections s)(name \<mapsto> old)"
    using h(1) by (simp_all add: s3_def)
  have qp: "q \<noteq> p \<and> 0 < owners ext s q" if "old = Some q" for q
    using old_owner [OF inv, of name q] that by (simp add: p_def old_def)
  have s4': "connections s4 = (connections s)(name \<mapsto> old) \<and> next_obj s4 = Suc p \<and> objects s4 p = h p \<and>
      (\<forall>r. Some r \<noteq> old \<longrightarrow> objects s4 r = h r) \<and> (\<forall>r. h r = None \<longrightarrow> objects s4 r = None) \<and>
      rc.owned (case old of None \<Rightarrow> (owners ext s)(p := 1)
        | Some q \<Rightarrow> (owners ext s)(p := 1, q := owners ext s q - 1)) (objects s4) \<and>
      (\<forall>q. old = Some q \<longrightarrow> owners ext s q = 1 \<longrightarrow> objects s4 q = None)"
  proof (cases old)
    case None
    then show ?thesis using s4(1) s3 by auto
  next
    case (Some q)
    have pos: "0 < ((owners ext s)(p := 1)) q" using qp [OF Some] by simp
    have "wn_Release q s3 = Inr s4" using s4(1) Some by simp
    note R = wn_Release_owned [OF s3(1) pos this, unfolded s3(2)]
    have "objects s4 r = None" if "h r = None" for r
      using that R(4) [of r] R(5) by (cases "r = q"; cases "objects s4 r") auto
    moreover have "((owners ext s)(p := 1)) q = owners ext s q" using qp [OF Some] by simp
    ultimately show ?thesis using R(2-4,7) R(1) s3(3,4) qp [OF Some] Some by (simp del: fun_upd_apply)
  qed
  show "connections s' = (connections s)(name \<mapsto> Some p)" "next_obj s' = Suc p"
    using s4(2) s4' by simp_all
  show "\<exists>c. objects s' p = Some \<lparr>payload = WebrtcNetwork_new name, ref_count = c\<rparr>"
    using s4(2) s4' h(3) by simp
  show "objects s' r = objects s r" if "r \<noteq> p" "Some r \<noteq> old" for r
    using that s4(2) s4' h(2) by simp
  show "objects s' r = None" if "r \<noteq> p" "objects s r = None" for r
    using that s4(2) s4' h(2) by simp
  show "rc.owned (case old of None \<Rightarrow> (owners ext s)(p := 1)
        | Some q \<Rightarrow> (owners ext s)(p := 1, q := owners ext s q - 1)) (objects s')"
    using s4(2) s4' by simp
  show "objects s' q = None" if "old = Some q" "owners ext s q = 1" for q
    using that s4(2) s4' by simp
qed

lemma new_connection_inv:
  assumes inv: "net_inv ext s" and res: "new_connection name s = Inr s'"
  shows "net_inv ext s'"
proof -
  note N = new_connection_step [OF inv res]
  have nm: "named s" using inv by (simp add: net_inv_def)
  let ?p = "next_obj s"
  have hold: "conn_holds s' q \<longleftrightarrow> q = ?p \<or> (\<exists>k. k \<noteq> name \<and> connections s k = Some (Some q))" for q
    unfolding conn_holds_def N(1) by auto
  have only: "connections s k \<noteq> Some (Some q)" if "connections s name = Some (Some q)" "k \<noteq> name" for k q
    using that named_inj [OF nm] by blast
  have z: "ext ?p = 0" using fresh_owned(1) [OF inv] by (simp add: owners_def split: if_splits)
  have np: "connections s k \<noteq> Some (Some ?p)" for k
    using fresh_owned(1) [OF inv] by (auto simp: owners_def conn_holds_def split: if_splits)
  have hold0: "conn_holds s q \<longleftrightarrow> connections s name = Some (Some q) \<or>
      (\<exists>k. k \<noteq> name \<and> connections s k = Some (Some q))" for q
    unfolding conn_holds_def by metis
  have eq: "owners ext s' = (case Option.bind (connections s name) id of
      None \<Rightarrow> (owners ext s)(?p := 1) | Some q \<Rightarrow> (owners ext s)(?p := 1, q := owners ext s q - 1))"
  proof (cases "\<exists>q. connections s name = Some (Some q)")
    case True
    then obtain q where q: "connections s name = Some (Some q)" by blast
    have "owners ext s' r = ((owners ext s)(?p := 1, q := owners ext s q - 1)) r" for r
      unfolding owners_def hold hold0 fun_upd_apply using z q np [of name] only [OF q] by auto
    with q show ?thesis by (simp add: fun_eq_iff)
  next
    case False
    then have "owners ext s' r = ((owners ext s)(?p := 1)) r" for r
      unfolding owners_def hold hold0 fun_upd_apply using z by auto
    moreover have "Option.bind (connections s name) id = None"
      using False by (cases "connections s name") auto
    ultimately show ?thesis by (simp add: fun_eq_iff)
  qed
  moreover have "named s'"
    unfolding named_def N(1)
  proof (intro allI impI)
    fix k q assume c: "((connections s)(name \<mapsto> Some ?p)) k = Some (Some q)"
    show "\<exists>ob. objects s' q = Some ob \<and> wn_name (payload ob) = k"
    proof (cases "k = name")
      case True
      with c N(3) show ?thesis by (auto simp: WebrtcNetwork_new_def)
    next
      case False
      with c have k: "connections s k = Some (Some q)" by simp
      with False only [of q k] np [of k] have "q \<noteq> ?p" "Some q \<noteq> Option.bind (connections s name) id"
        by (auto split: Option.bind_splits)
      with N(4) k nm show ?thesis by (auto simp: named_def)
    qed
  qed
  moreover have "\<forall>q. next_obj s' \<le> q \<longrightarrow> objects s' q = None"
    using inv N(2) N(5) by (auto simp: net_inv_def)
  moreover have "0 < owners ext s' q" if "objects s' q \<noteq> None" for q
  proof (cases "q = ?p \<or> Some q \<noteq> Option.bind (connections s name) id")
    case True
    then show ?thesis
      using that N(4) [of q] net_inv_pos [OF inv, of q] old_owner(1) [OF inv, of name] unfolding eq
      by (cases "q = ?p") (auto split: option.split)
  next
    case False
    then have "owners ext s q \<noteq> 1" "0 < owners ext s q"
      using that N(7) [of q] old_owner(2) [OF inv, of name q] by auto
    moreover have "Option.bind (connections s name) id = Some q" "q \<noteq> ?p" using False by simp_all
    ultimately show ?thesis unfolding eq by simp
  qed
  ultimately show ?thesis using N(6) inv unfolding net_inv_def by simp
qed

subsection \<open>Events\<close>

text \<open>A computation whose result state, read by \<open>g\<close>, satisfies the invariant.\<close>

definition inv_res :: "(nat \<Rightarrow> nat) \<Rightarrow> ('a \<Rightarrow> net) \<Rightarrow> 'a res \<Rightarrow> bool" where
  "inv_res ext g m \<longleftrightarrow> (\<forall>x. m = Inr x \<longrightarrow> net_inv ext (g x))"

lemma inv_res_Inr [simp]: "inv_res ext g (Inr x) \<longleftrightarrow> net_inv ext (g x)"
  by (simp add: inv_res_def)

lemma inv_res_Inl [simp]: "inv_res ext g (Inl e)"
  by (simp add: inv_res_def)

lemma inv_res_read: "(\<And>x. inv_res ext g (f x)) \<Longrightarrow> inv_res ext g (res_bind m f)"
  by (cases m) auto

lemma inv_res_bind:
  "inv_res ext g' m \<Longrightarrow> (\<And>x. net_inv ext (g' x) \<Longrightarrow> inv_res ext g (f x)) \<Longrightarrow> inv_res ext g (res_bind m f)"
  by (cases m) auto

lemma inv_res_keeps: "net_inv ext s \<Longrightarrow> keeps g s m \<Longrightarrow> inv_res ext g m"
  by (auto simp: inv_res_def keeps_def intro: net_inv_frame)

lemma inv_res_snd: "inv_res ext snd m \<Longrightarrow> inv_res ext id (res_bind m (\<lambda>(_, s). Inr s))"
  by (cases m) auto

lemma net_inv_cout: "net_inv ext s \<Longrightarrow> net_inv ext (cout_print xs s)"
  by (erule net_inv_frame) simp

lemma inv_res_new_connection: "net_inv ext s \<Longrightarrow> inv_res ext id (new_connection name s)"
  by (simp add: inv_res_def new_connection_inv)

lemma inv_res_conn_arrow: "net_inv ext s \<Longrightarrow> inv_res ext snd (conn_arrow name s)"
  by (auto simp: inv_res_def conn_arrow_inv)

text \<open>A method called on the object of an entry.\<close>

lemma inv_res_call:
  assumes "net_inv ext s" and "\<And>p s'. keeps g s' (f (p, s'))"
  shows "inv_res ext g (res_bind (conn_arrow name s) f)"
  by (rule inv_res_bind [OF inv_res_conn_arrow [OF assms(1)]]) (metis inv_res_keeps assms(2) prod.collapse)

lemma inv_res_call_snd:
  assumes "net_inv ext s" and "\<And>p s'. keeps snd s' (m p s')"
  shows "inv_res ext id (res_bind (conn_arrow name s) (\<lambda>(p, s1). res_bind (m p s1) (\<lambda>(_, s2). Inr s2)))"
  by (rule inv_res_bind [OF inv_res_conn_arrow [OF assms(1)]])
    (auto intro!: inv_res_snd inv_res_keeps assms(2))

lemmas keeps_methods = keeps_CreateOffer [OF frame_refl] keeps_CreateAnswer [OF frame_refl]
  keeps_SendData [OF frame_refl] keeps_SetRemoteDescription [OF frame_refl]
  keeps_AddIceCandidate [OF frame_refl] keeps_DeletePeerConnection [OF frame_refl]

lemma inv_res_NewConnectionmessage:
  "net_inv ext s \<Longrightarrow> inv_res ext id (NewConnectionmessage L name d s)"
  unfolding NewConnectionmessage_def
  by (rule inv_res_bind [OF inv_res_new_connection [OF net_inv_cout]])
    (simp_all add: inv_res_call_snd keeps_methods)

lemma inv_res_Addcandidatemessage:
  "net_inv ext s \<Longrightarrow> inv_res ext id (Addcandidatemessage J L name d s)"
  unfolding Addcandidatemessage_def Let_def
  by (cases "jparse J (c_str d)")
    (simp add: net_inv_cout, simp, (rule inv_res_call_snd net_inv_cout keeps_methods | assumption | rule inv_res_read)+)

lemma inv_res_AnswerRecieved: "net_inv ext s \<Longrightarrow> inv_res ext id (AnswerRecieved L name d s)"
  unfolding AnswerRecieved_def by (intro inv_res_call_snd keeps_methods)

lemma inv_res_OnWebSocketMessage: "net_inv ext s \<Longrightarrow> inv_res ext id (OnWebSocketMessage J L t s)"
  unfolding OnWebSocketMessage_def Let_def
  by (auto split: option.split simp: net_inv_cout intro!: inv_res_read inv_res_NewConnectionmessage
      inv_res_Addcandidatemessage inv_res_AnswerRecieved)

lemma inv_res_Connect: "net_inv ext s \<Longrightarrow> inv_res ext snd (Connect L ps s)"
proof (induction ps arbitrary: s)
  case (Cons name ps)
  have "inv_res ext snd (res_bind (CreateOffer L p s2) (\<lambda>(_, s3). Connect L ps s3))"
    if "net_inv ext s2" for p s2
    by (rule inv_res_bind [OF inv_res_keeps [OF that keeps_methods(1)]]) (auto intro: Cons.IH)
  with Cons.prems show ?case
    by (auto intro!: inv_res_bind [OF inv_res_new_connection] inv_res_bind [OF inv_res_conn_arrow])
qed simp

lemma inv_res_Disconnect: "net_inv ext s \<Longrightarrow> inv_res ext id (Disconnect ps s)"
proof (induction ps arbitrary: s)
  case (Cons name ps)
  have "inv_res ext id (res_bind (conn_arrow name s) (\<lambda>(p, s1). DeletePeerConnection p s1))"
    using Cons.prems by (auto intro: inv_res_call keeps_methods)
  with Cons show ?case by (auto intro!: inv_res_bind [where g' = id])
qed simp

lemma inv_res_Senddata: "net_inv ext s \<Longrightarrow> inv_res ext id (Senddata name d s)"
  unfolding Senddata_def by (simp add: inv_res_call_snd keeps_methods)

lemmas keeps_observer = keeps_callbacks keeps_OnDataChannel keeps_OnIceCandidate keeps_OnCreateSuccess

lemma inv_res_handle: "net_inv ext s \<Longrightarrow> inv_res ext id (handle J W L ev s)"
  by (cases ev) (simp_all add: inv_res_keeps [OF _ keeps_observer(1)] inv_res_keeps [OF _ keeps_observer(2)]
      inv_res_keeps [OF _ keeps_observer(3)] inv_res_keeps [OF _ keeps_observer(4)]
      inv_res_keeps [OF _ keeps_observer(5)] inv_res_keeps [OF _ keeps_observer(6)]
      inv_res_keeps [OF _ keeps_observer(7)] inv_res_keeps [OF _ keeps_observer(8)]
      inv_res_keeps [OF _ keeps_observer(9)] inv_res_keeps [OF _ keeps_observer(10)]
      inv_res_snd inv_res_keeps [OF _ keeps_NetworkInit] inv_res_Connect inv_res_Disconnect inv_res_Senddata
      inv_res_OnWebSocketMessage net_inv_cout OnSignalingChange_def OnRenegotiationNeeded_def
      OnIceGatheringChange_def OnIceConnectionReceivingChange_def)

lemma reachable_inv: "reachable J W L ext s \<Longrightarrow> net_inv ext s"
proof (induction rule: reachable.induct)
  case start
  show ?case by (rule net_init_inv)
next
  case (event ext s ev s')
  then show ?case using inv_res_handle [of ext s J W L ev] by (simp add: inv_res_def)
next
  case (ext_addref ext s p h)
  then show ?case by (intro ext_addref_inv)
next
  case (ext_release ext s p s')
  then show ?case by (intro ext_release_inv)
qed

end
