(* ===== verification/NetworkSafety.thy ===== *)
theory NetworkSafety
  imports NetworkInvariant
begin

section \<open>No dangling pointer\<close>

text \<open>
  From the invariant of the connection table: no event that can occur ends by following a pointer
  to a deleted \<^verbatim>\<open>WebrtcNetwork\<close>. \<open>safe\<close> is the property of a computation, with rules for
  sequencing; the theorems about reachable states are in \<open>NetworkProperties\<close>.
\<close>

subsection \<open>Computations that do not follow a dangling pointer\<close>

definition safe :: "'a res \<Rightarrow> bool" where
  "safe m \<longleftrightarrow> m \<noteq> Inl UseAfterFree"

definition live_obj :: "nat \<Rightarrow> net \<Rightarrow> bool" where
  "live_obj p s \<longleftrightarrow> objects s p \<noteq> None"

text \<open>jsoncpp fails only by throwing its own exceptions.\<close>

definition json_throws :: "'j json_lib \<Rightarrow> bool" where
  "json_throws J \<longleftrightarrow>
     (\<forall>v k. jget J v k \<noteq> Inl UseAfterFree) \<and> (\<forall>v. asString J v \<noteq> Inl UseAfterFree) \<and>
     (\<forall>v. asInt J v \<noteq> Inl UseAfterFree)"

lemma safe_simps [simp]: "safe (Inr x)" "safe (Inl NullDeref)" "safe (Inl UncaughtException)"
  by (simp_all add: safe_def)

lemma safe_bind [intro!]: "safe m \<Longrightarrow> (\<And>x. m = Inr x \<Longrightarrow> safe (f x)) \<Longrightarrow> safe (res_bind m f)"
  by (cases m) (auto simp: safe_def)

lemma safe_this [simp]:
  "live_obj p s \<Longrightarrow> safe (this_obj p s)"
  "live_obj p s \<Longrightarrow> safe (this_pc p s)"
  "live_obj p s \<Longrightarrow> safe (this_dc p s)"
  by (auto simp: this_obj_def this_pc_def this_dc_def nonnull_def live_obj_def split: option.splits)

lemma live_frame: "live_obj p s \<Longrightarrow> frame s s' \<Longrightarrow> live_obj p s'"
  by (auto simp: live_obj_def dest: frame_objects(1))

lemma live_simps [simp]:
  "live_obj p (rtc c s) = live_obj p s"
  "live_obj p (cout_print xs s) = live_obj p s"
  by (simp_all add: live_obj_def rtc_def cout_print_def)

lemma live_assign [simp]:
  "assign_pc q c s = Inr s' \<Longrightarrow> live_obj p s \<Longrightarrow> live_obj p s'"
  "assign_dc q c s = Inr s' \<Longrightarrow> live_obj p s \<Longrightarrow> live_obj p s'"
  using keeps_assign [of s s] by (auto simp: keeps_def intro: live_frame)

lemma safe_assign [simp]:
  "live_obj p s \<Longrightarrow> safe (assign_pc p c s)"
  "live_obj p s \<Longrightarrow> safe (assign_dc p c s)"
  by (auto simp: assign_pc_def assign_dc_def Let_def)

subsection \<open>Methods of a live object\<close>

lemma safe_CloseDataChannel: "live_obj p s \<Longrightarrow> safe (CloseDataChannel p s)"
  by (auto simp: CloseDataChannel_def split: option.split)

lemma safe_DeletePeerConnection: "live_obj p s \<Longrightarrow> safe (DeletePeerConnection p s)"
proof -
  assume l: "live_obj p s"
  have "live_obj p s1" if "CloseDataChannel p s = Inr s1" for s1
    using that keeps_CloseDataChannel [of s s p] by (auto simp: keeps_def intro: live_frame [OF l])
  with l show ?thesis by (auto simp: DeletePeerConnection_def intro: safe_CloseDataChannel)
qed

lemma safe_CreateOffer: "live_obj p s \<Longrightarrow> safe (CreateOffer L p s)"
  by (auto simp: CreateOffer_def Let_def split: option.split)

lemma safe_CreateAnswer: "live_obj p s \<Longrightarrow> safe (CreateAnswer L p d s)"
  by (auto simp: CreateAnswer_def Let_def split: option.split prod.split)

lemma safe_SendData: "live_obj p s \<Longrightarrow> safe (SendDataViaDataChannel p d s)"
  by (auto simp: SendDataViaDataChannel_def split: option.split)

lemma safe_SetRemoteDescription: "live_obj p s \<Longrightarrow> safe (SetRemoteDescription L p d s)"
  by (auto simp: SetRemoteDescription_def split: option.split prod.split)

lemma safe_AddIceCandidate: "live_obj p s \<Longrightarrow> safe (AddIceCandidate L p m i c s)"
  by (auto simp: AddIceCandidate_def Let_def split: option.split prod.split)

lemma safe_observer:
  assumes "live_obj p s"
  shows "safe (OnAddStream p s)" "safe (OnRemoveStream p s)" "safe (OnDataChannel p ch s)"
    "safe (OnIceConnectionChange p i s)" "safe (OnIceCandidate J p c s)" "safe (OnCreateSuccess J p d s)"
    "safe (OnFailure p m s)" "safe (OnSetSuccess p s)" "safe (OnStateChange p s)" "safe (OnMessage p b s)"
  using assms
  by (auto simp: OnAddStream_def OnRemoveStream_def OnDataChannel_def OnIceConnectionChange_def
      OnIceCandidate_def OnCreateSuccess_def OnFailure_def OnSetSuccess_def OnStateChange_def
      OnMessage_def Let_def split: option.split)

subsection \<open>The connection table\<close>

lemma live_entry: "net_inv ext s \<Longrightarrow> connections s k = Some (Some p) \<Longrightarrow> live_obj p s"
  unfolding net_inv_def named_def live_obj_def by blast

lemma live_owner: "net_inv ext s \<Longrightarrow> 0 < owners ext s p \<Longrightarrow> live_obj p s"
  by (auto simp: net_inv_def live_obj_def alive_def dest!: rc.owned_live)

lemma safe_conn_arrow [simp]: "safe (conn_arrow name s)"
  by (auto simp: conn_arrow_def nonnull_def split: prod.split option.split)

lemma conn_arrow_live:
  assumes "net_inv ext s" and "conn_arrow name s = Inr (p, s')"
  shows "live_obj p s'" and "net_inv ext s'"
proof -
  show "net_inv ext s'" using assms by (rule conn_arrow_inv)
  moreover have "connections s' name = Some (Some p)"
    using assms(2) by (auto simp: conn_arrow_def nonnull_def conn_index_def split: option.splits)
  ultimately show "live_obj p s'" by (rule live_entry)
qed

lemma safe_destroy: "safe (WebrtcNetwork_destroy ob s)"
  by (auto simp: WebrtcNetwork_destroy_def stop_thread_def Let_def)

lemma safe_wn_Release: "live_obj p s \<Longrightarrow> safe (wn_Release p s)"
  using safe_destroy
  by (auto simp: wn_Release_def Release_def live_obj_def this_obj_def split: prod.split
      RefCountReleaseStatus.split)

lemma safe_new_connection:
  assumes inv: "net_inv ext s"
  shows "safe (new_connection name s)"
proof -
  obtain h c s3 where "rc.owned ((owners ext s)(next_obj s := 1)) h"
    and h: "\<And>q. q \<noteq> next_obj s \<Longrightarrow> h q = objects s q"
    and "h (next_obj s) = Some \<lparr>payload = WebrtcNetwork_new name, ref_count = c\<rparr>"
    and s3: "s3 = s\<lparr>next_obj := Suc (next_obj s), objects := h,
      connections := (connections s)(name \<mapsto> Option.bind (connections s name) id)\<rparr>"
    and eq: "new_connection name s =
      res_bind (case Option.bind (connections s name) id of None \<Rightarrow> Inr s3 | Some q \<Rightarrow> wn_Release q s3)
        (\<lambda>s4. Inr (s4\<lparr>connections := (connections s4)(name \<mapsto> Some (next_obj s))\<rparr>))"
    by (rule new_connection_unfold [OF inv, of name]) (rule that)
  have "live_obj q s3" if "Option.bind (connections s name) id = Some q" for q
    using old_owner [OF inv that] live_owner [OF inv, of q] h by (simp add: live_obj_def s3)
  then show ?thesis unfolding eq by (auto split: option.split intro: safe_wn_Release)
qed

subsection \<open>Entry points and messages\<close>

lemma safe_call:
  assumes "net_inv ext s" and "\<And>p s'. live_obj p s' \<Longrightarrow> safe (f (p, s'))"
  shows "safe (res_bind (conn_arrow name s) f)"
  using conn_arrow_live(1) [OF assms(1)] assms(2) by auto

lemma safe_call_snd:
  assumes "net_inv ext s" and "\<And>p s'. live_obj p s' \<Longrightarrow> safe (m p s')"
  shows "safe (res_bind (conn_arrow name s) (\<lambda>(p, s1). res_bind (m p s1) (\<lambda>(_, s2). Inr s2)))"
  using assms by (auto intro!: safe_call)

lemmas safe_methods = safe_CreateOffer safe_CreateAnswer safe_SendData safe_SetRemoteDescription
  safe_AddIceCandidate safe_DeletePeerConnection

lemma safe_NewConnectionmessage: "net_inv ext s \<Longrightarrow> safe (NewConnectionmessage L name d s)"
  unfolding NewConnectionmessage_def
  by (rule safe_bind, erule safe_new_connection [OF net_inv_cout])
    (rule safe_call_snd, erule (1) new_connection_inv [OF net_inv_cout], rule safe_methods)

lemma safe_json:
  assumes "json_throws J"
  shows "safe (res_bind (jget J v k) (asString J))" "safe (res_bind (jget J v k) (asInt J))"
  using assms by (auto simp: json_throws_def safe_def res_bind_eq_Inl)

lemma safe_Addcandidatemessage:
  assumes "json_throws J" and "net_inv ext s"
  shows "safe (Addcandidatemessage J L name d s)"
  unfolding Addcandidatemessage_def Let_def
  using assms
  by (cases "jparse J (c_str d)")
    (simp, simp, (rule safe_call_snd net_inv_cout safe_methods | assumption | rule safe_json safe_bind)+)

lemma safe_AnswerRecieved: "net_inv ext s \<Longrightarrow> safe (AnswerRecieved L name d s)"
  unfolding AnswerRecieved_def by (rule safe_call_snd, assumption, rule safe_methods)

lemma safe_OnWebSocketMessage:
  assumes J: "json_throws J" and inv: "net_inv ext s"
  shows "safe (OnWebSocketMessage J L t s)"
proof -
  note inv' = net_inv_cout [OF inv]
  show ?thesis
    unfolding OnWebSocketMessage_def Let_def
    by (auto split: option.split intro!: safe_json [OF J] safe_NewConnectionmessage [OF inv']
        safe_Addcandidatemessage [OF J inv'] safe_AnswerRecieved [OF inv'])
qed

lemma safe_Connect: "net_inv ext s \<Longrightarrow> safe (Connect L ps s)"
proof (induction ps arbitrary: s)
  case (Cons name ps)
  have "safe (res_bind (CreateOffer L p s2) (\<lambda>(_, s3). Connect L ps s3))"
    if "live_obj p s2" "net_inv ext s2" for p s2
  proof (rule safe_bind)
    show "safe (CreateOffer L p s2)" using that(1) by (rule safe_CreateOffer)
    fix x assume "CreateOffer L p s2 = Inr x"
    then have "net_inv ext (snd x)" by (rule net_inv_keeps [OF that(2) keeps_methods(1)])
    then show "safe (case x of (_, s3) \<Rightarrow> Connect L ps s3)" by (cases x) (simp add: Cons.IH)
  qed
  note step = this
  show ?case
    unfolding Connect.simps
  proof (rule safe_bind [OF safe_new_connection [OF Cons.prems]])
    fix s1 assume "new_connection name s = Inr s1"
    then have "net_inv ext s1" by (rule new_connection_inv [OF Cons.prems])
    from conn_arrow_live [OF this] show "safe (res_bind (conn_arrow name s1)
        (\<lambda>(p, s2). res_bind (CreateOffer L p s2) (\<lambda>(_, s3). Connect L ps s3)))"
      by (intro safe_bind [OF safe_conn_arrow]) (auto simp del: Connect.simps intro!: step)
  qed
qed simp

lemma safe_Disconnect: "net_inv ext s \<Longrightarrow> safe (Disconnect ps s)"
proof (induction ps arbitrary: s)
  case (Cons name ps)
  let ?m = "if connections s name \<noteq> None
    then res_bind (conn_arrow name s) (\<lambda>(p, s1). DeletePeerConnection p s1) else Inr s"
  have "safe ?m"
    using Cons.prems by (auto intro!: safe_call safe_methods)
  moreover have "inv_res ext id ?m"
    using Cons.prems by (auto intro!: inv_res_call keeps_methods)
  ultimately show ?case by (auto simp: inv_res_def intro: Cons.IH)
qed simp

lemma safe_Senddata: "net_inv ext s \<Longrightarrow> safe (Senddata name d s)"
  unfolding Senddata_def by (auto intro!: safe_call_snd safe_methods)

lemma safe_NetworkInit: "safe (NetworkInit J W L n s)"
  by (auto simp: NetworkInit_def ws_connect_def Let_def split: ws_outcome.split)

subsection \<open>Events\<close>

text \<open>The object whose callback an event is.\<close>

fun observer :: "event \<Rightarrow> nat option" where
  "observer (EvAddStream p) = Some p"
| "observer (EvRemoveStream p) = Some p"
| "observer (EvDataChannel p c) = Some p"
| "observer (EvIceConnectionChange p i) = Some p"
| "observer (EvIceCandidate p c) = Some p"
| "observer (EvCreateSuccess p d) = Some p"
| "observer (EvFailure p m) = Some p"
| "observer (EvSetSuccess p) = Some p"
| "observer (EvStateChange p) = Some p"
| "observer (EvMessage p b) = Some p"
| "observer _ = None"

lemma safe_handle:
  assumes "json_throws J" and inv: "net_inv ext s"
    and obs: "\<And>p. observer ev = Some p \<Longrightarrow> 0 < owners ext s p"
  shows "safe (handle J W L ev s)"
proof (cases ev)
  case (EvNetworkInit n)
  then show ?thesis by (auto simp: safe_NetworkInit)
next
  case (EvConnect ps)
  then show ?thesis by (auto simp: safe_Connect [OF inv])
next
  case (EvSenddata n d)
  then show ?thesis by (simp add: safe_Senddata [OF inv])
next
  case (EvDisconnect ps)
  then show ?thesis by (simp add: safe_Disconnect [OF inv])
next
  case (EvText t)
  then show ?thesis by (simp add: safe_OnWebSocketMessage [OF assms(1,2)])
qed (use live_owner [OF inv obs] in \<open>simp_all add: safe_observer\<close>)

end
