(* ===== verification/NetworkExample.thy ===== *)
theory NetworkExample
  imports NetworkSafety
begin

section \<open>A concrete environment\<close>

text \<open>
  Concrete libraries for the examples: a WebRTC library that creates what it is asked for, accepts
  descriptions of the type \<open>offer\<close> and \<open>answer\<close> with a text, and candidates that start with
  \<open>candidate:\<close>; a client library that connects. Then the states of a process that logs in and
  calls a peer.
\<close>

definition rtc_ok :: rtc_lib where
  "rtc_ok =
     \<lparr>create_factory = (\<lambda>_. True),
      create_peer_connection = (\<lambda>_. Some 100),
      create_data_channel = (\<lambda>_. Some 200),
      CreateSessionDescription = (\<lambda>type sdp.
        if sdp = '''' then (None, \<lparr>err_line = '''', err_description = ''empty''\<rparr>)
        else if type = ''offer'' then
          (Some \<lparr>desc_addr = 1, GetType = kOffer, desc_ToString = Some sdp\<rparr>, \<lparr>err_line = '''', err_description = ''''\<rparr>)
        else if type = ''answer'' then
          (Some \<lparr>desc_addr = 1, GetType = kAnswer, desc_ToString = Some sdp\<rparr>, \<lparr>err_line = '''', err_description = ''''\<rparr>)
        else (None, \<lparr>err_line = '''', err_description = ''type''\<rparr>)),
      CreateIceCandidate = (\<lambda>mid i cand.
        if take 10 cand = ''candidate:''
        then (Some \<lparr>cand_sdp_mid = mid, cand_sdp_mline_index = i, cand_ToString = Some cand\<rparr>,
              \<lparr>err_line = '''', err_description = ''''\<rparr>)
        else (None, \<lparr>err_line = cand, err_description = ''Expect line: candidate:''\<rparr>))\<rparr>"

text \<open>A JSON library that parses the texts of the examples.\<close>

definition ex_texts :: "jdoc json_lib" where
  "ex_texts = doc_lib
     [(''reply'', JObj [(''success'', JInt 1), (''type'', JStr ''login'')]),
      (''offer'', JObj [(''name'', JStr ''bob''), (''offer'', JStr ''v=0''), (''type'', JStr ''offer'')]),
      (''offer from me'', JObj [(''type'', JStr ''offer''), (''offer'', JStr ''v=0''), (''name'', JStr ''me'')]),
      (''answer'', JObj [(''answer'', JStr ''v=0''), (''type'', JStr ''answer'')]),
      (''answer from you'', JObj [(''name'', JStr ''you''), (''answer'', JStr ''v=0''), (''type'', JStr ''answer'')]),
      (''candidate'', JObj [(''candidate'', JObj [(''candidate'', JStr ''c'')]), (''type'', JStr ''candidate'')]),
      (''candidate from me'', JObj [(''type'', JStr ''candidate''), (''candidate'', JObj
         [(''sdpMLineIndex'', JInt 0), (''sdpMid'', JStr ''data''), (''candidate'', JStr ''c'')])]),
      (''candidate text'', JObj [(''name'', JStr ''you''), (''candidate'', JStr ''ice''), (''type'', JStr ''candidate'')]),
      (''ice'', JObj [(''sdpMLineIndex'', JInt 1), (''sdpMid'', JStr ''data''), (''candidate'', JStr ''candidate:1'')])]"

lemma ex_texts_laws: "jsoncpp_laws ex_texts"
  by (simp add: ex_texts_def doc_lib_laws)

lemma ex_texts_parse:
  "ms \<noteq> [] \<Longrightarrow> jparse ex_texts t = Some (JObj ms) \<Longrightarrow> jparse ex_texts t = Some (jobject ex_texts ms)"
  by (simp add: ex_texts_def jobject_doc)

lemma ex_texts_throws: "json_throws ex_texts"
proof -
  have "doc_get v k \<noteq> Inl UseAfterFree" "doc_asString v \<noteq> Inl UseAfterFree" "doc_asInt v \<noteq> Inl UseAfterFree" for v k
    by (cases v; simp)+
  then show ?thesis by (simp add: json_throws_def ex_texts_def doc_lib_def)
qed

lemmas ex_texts_eval = ex_texts_def doc_lib_def

definition run_events :: "'j json_lib \<Rightarrow> ws_lib \<Rightarrow> rtc_lib \<Rightarrow> event list \<Rightarrow> net \<Rightarrow> net res" where
  "run_events J W L evs s = foldl (\<lambda>m ev. res_bind m (handle J W L ev)) (Inr s) evs"

definition after :: "event list \<Rightarrow> net" where
  "after evs = (case run_events ex_texts ws_up_lib rtc_ok evs net_init of Inr s \<Rightarrow> s | Inl _ \<Rightarrow> net_init)"

lemma run_events_reachable:
  "reachable J W L ext s \<Longrightarrow> run_events J W L evs s = Inr s' \<Longrightarrow> reachable J W L ext s'"
proof (induction evs arbitrary: s' rule: rev_induct)
  case Nil
  then show ?case by (simp add: run_events_def)
next
  case (snoc ev evs)
  then obtain s1 where "run_events J W L evs s = Inr s1" "handle J W L ev s1 = Inr s'"
    by (auto simp: run_events_def elim: res_bindE)
  with snoc show ?case by (blast intro: reachable.event)
qed

lemma after_reachable: "reachable ex_texts ws_up_lib rtc_ok (\<lambda>_. 0) (after evs)"
  by (auto simp: after_def intro: reachable.start run_events_reachable [OF reachable.start] split: sum.split)

text \<open>The definitions that evaluate an operation on a concrete state.\<close>

lemmas net_eval = rtc_def nonnull_def this_obj_def upd_obj_def assign_pc_def assign_dc_def this_pc_def
  this_dc_def log_prefix_def WebrtcNetwork_new_def stop_thread_def WebrtcNetwork_destroy_def wn_Release_def
  create_thread_def InitializePeerConnection_def drop_factory_def CloseDataChannel_def
  DeletePeerConnection_def CreateOffer_def CreateAnswer_def SendDataViaDataChannel_def
  SetRemoteDescription_def AddIceCandidate_def OnDataChannel_def OnIceCandidate_def OnCreateSuccess_def
  conn_index_def conn_arrow_def new_connection_def NewConnectionmessage_def Addcandidatemessage_def
  AnswerRecieved_def OnWebSocketMessage_def NetworkInit_def Senddata_def ws_connect_def ws_send_def
  ws_setreceivehandler_def client_call_def cout_print_def AddRef_def Release_def IncRef_def DecRef_def
  new_object_def net_init_def ws_up_lib_def rtc_ok_def c_str_def Let_def

definition ex_call :: net where
  "ex_call = after [EvNetworkInit ''me'', EvConnect [''you'']]"

lemma ex_call_reachable: "reachable ex_texts ws_up_lib rtc_ok (\<lambda>_. 0) ex_call"
  unfolding ex_call_def by (rule after_reachable)

lemma all_threads: "f(network_thread := a, worker_thread := a, signaling_thread := a) = (\<lambda>_. a)"
proof
  show "(f(network_thread := a, worker_thread := a, signaling_thread := a)) t = a" for t
    by (cases t) simp_all
qed

lemma ex_call_eq:
  "\<exists>c cc rs. ex_call =
     \<lparr>cout = c, iswebsocketconnected = True, client_calls = cc,
      connections = [''you'' \<mapsto> Some 0],
      objects = [0 \<mapsto> \<lparr>payload = \<lparr>wn_name = ''you'', peer_connection = Some 100, data_channel = Some 200\<rparr>,
                         ref_count = 1\<rparr>],
      next_obj = 1, peer_connection_factory = True, config_servers = [''stun:stun.l.google.com:19302''],
      rtc_threads = (\<lambda>_. ThreadRunning), rtc_calls = rs\<rparr>"
  by (simp add: ex_call_def after_def run_events_def net_eval all_threads)

lemma ex_call_eval:
  shows ex_call_connections: "connections ex_call = [''you'' \<mapsto> Some 0]"
    and ex_call_objects: "objects ex_call =
      [0 \<mapsto> \<lparr>payload = \<lparr>wn_name = ''you'', peer_connection = Some 100, data_channel = Some 200\<rparr>,
              ref_count = 1\<rparr>]"
    and ex_call_next: "next_obj ex_call = 1"
    and ex_call_factory: "peer_connection_factory ex_call"
    and ex_call_connected: "iswebsocketconnected ex_call"
    and ex_call_threads: "rtc_threads ex_call = (\<lambda>_. ThreadRunning)"
proof -
  obtain c cc rs where eq: "ex_call =
     \<lparr>cout = c, iswebsocketconnected = True, client_calls = cc,
      connections = [''you'' \<mapsto> Some 0],
      objects = [0 \<mapsto> \<lparr>payload = \<lparr>wn_name = ''you'', peer_connection = Some 100, data_channel = Some 200\<rparr>,
                         ref_count = 1\<rparr>],
      next_obj = 1, peer_connection_factory = True, config_servers = [''stun:stun.l.google.com:19302''],
      rtc_threads = (\<lambda>_. ThreadRunning), rtc_calls = rs\<rparr>"
    using ex_call_eq by (elim exE)
  show "connections ex_call = [''you'' \<mapsto> Some 0]"
    "objects ex_call =
      [0 \<mapsto> \<lparr>payload = \<lparr>wn_name = ''you'', peer_connection = Some 100, data_channel = Some 200\<rparr>,
              ref_count = 1\<rparr>]"
    "next_obj ex_call = 1" "peer_connection_factory ex_call" "iswebsocketconnected ex_call"
    "rtc_threads ex_call = (\<lambda>_. ThreadRunning)"
    unfolding eq by simp_all
qed

end
