(* ===== verification/NetworkProperties.thy ===== *)
theory NetworkProperties
  imports NetworkExample
begin

section \<open>Properties of the network client\<close>

text \<open>
  The theorems about \<^verbatim>\<open>src/network.cpp\<close>: the invariant of the connection table, memory safety,
  the behaviour of the entry points and message handlers on every branch, and the places where the
  code does not do what its names promise.
\<close>

subsection \<open>Reachable states\<close>

text \<open>
  C1. In every state the process can reach, through any sequence of calls by the game, texts from
  the server, callbacks and reference changes by the WebRTC library: an entry of \<^verbatim>\<open>connections\<close>
  that is not null holds a live object whose name is the key, no two entries hold the same object,
  and the counter of every live object is exactly the number of references the library holds plus
  one if an entry holds it. So an object lives as long as somebody can reach it and no longer.
\<close>

theorem connections_reference_counts:
  assumes "reachable J W L ext s"
  shows "(\<forall>k p. connections s k = Some (Some p) \<longrightarrow>
           (\<exists>ob. objects s p = Some ob \<and> wn_name (payload ob) = k)) \<and>
         (\<forall>k k' p. connections s k = Some (Some p) \<longrightarrow> connections s k' = Some (Some p) \<longrightarrow> k = k') \<and>
         (\<forall>p ob. objects s p = Some ob \<longrightarrow>
           unat (ref_count ob) = ext p + (if \<exists>k. connections s k = Some (Some p) then 1 else 0) \<and>
           0 < unat (ref_count ob))"
proof -
  have inv: "net_inv ext s" using assms by (rule reachable_inv)
  then have own: "rc.owned (owners ext s) (objects s)" and nm: "named s" by (simp_all add: net_inv_def)
  have "unat (ref_count ob) = owners ext s p" if "objects s p = Some ob" for p ob
    using own that by (auto simp: rc.owned_def alive_def count_def dest!: spec [of _ p])
  moreover have "0 < owners ext s p" if "objects s p = Some ob" for p ob
    using inv that by (auto simp: net_inv_def)
  ultimately show ?thesis
    using nm named_inj [OF nm] by (auto simp: named_def owners_def conn_holds_def)
qed

theorem connections_reference_counts_witness:
  "reachable ex_texts ws_up_lib rtc_ok (\<lambda>_. 0) ex_call \<and>
   connections ex_call ''you'' = Some (Some 0) \<and>
   (\<exists>ob. objects ex_call 0 = Some ob \<and> wn_name (payload ob) = ''you'' \<and> unat (ref_count ob) = 1)"
proof -
  have r: "reachable ex_texts ws_up_lib rtc_ok (\<lambda>_. 0) ex_call"
    by (rule ex_call_reachable)
  have c: "connections ex_call ''you'' = Some (Some 0)" by (simp add: ex_call_eval)
  note C = connections_reference_counts [OF r]
  from C c obtain ob where "objects ex_call 0 = Some ob" "wn_name (payload ob) = ''you''" by blast
  moreover from this C have "unat (ref_count ob) = (if \<exists>k. connections ex_call k = Some (Some 0) then 1 else 0)"
    by simp
  ultimately show ?thesis using r c by auto
qed



subsection \<open>Calling peers\<close>

text \<open>What the environment must provide for a call: a factory, its threads, and a library that succeeds.\<close>

definition ready :: "net \<Rightarrow> bool" where
  "ready s \<longleftrightarrow> peer_connection_factory s \<and> (\<forall>t. rtc_threads s t \<noteq> NoThread)"

definition creates :: "rtc_lib \<Rightarrow> bool" where
  "creates L \<longleftrightarrow> (\<forall>cs. create_peer_connection L cs \<noteq> None \<and> create_data_channel L cs \<noteq> None)"

text \<open>An entry with a peer connection and a data channel.\<close>

definition called :: "net \<Rightarrow> string \<Rightarrow> bool" where
  "called s k \<longleftrightarrow> (\<exists>p ob. connections s k = Some (Some p) \<and> objects s p = Some ob \<and>
     wn_name (payload ob) = k \<and> peer_connection (payload ob) \<noteq> None \<and> data_channel (payload ob) \<noteq> None)"

lemma ready_simps [simp]:
  "ready (rtc c s) = ready s" "ready (cout_print xs s) = ready s" "ready (upd_obj p f s) = ready s"
  "ready (s\<lparr>objects := h\<rparr>) = ready s" "ready (s\<lparr>connections := m\<rparr>) = ready s"
  "ready (s\<lparr>next_obj := n\<rparr>) = ready s"
  by (simp_all add: ready_def rtc_def cout_print_def upd_obj_def)

lemma rtc_fields [simp]:
  "objects (rtc c s) = objects s" "connections (rtc c s) = connections s" "next_obj (rtc c s) = next_obj s"
  "peer_connection_factory (rtc c s) = peer_connection_factory s" "rtc_calls (rtc c s) = rtc_calls s @ [c]"
  "config_servers (rtc c s) = config_servers s" "rtc_threads (rtc c s) = rtc_threads s"
  "client_calls (rtc c s) = client_calls s" "iswebsocketconnected (rtc c s) = iswebsocketconnected s"
  by (simp_all add: rtc_def)

lemma cout_fields [simp]:
  "objects (cout_print xs s) = objects s" "connections (cout_print xs s) = connections s"
  "next_obj (cout_print xs s) = next_obj s" "rtc_calls (cout_print xs s) = rtc_calls s"
  "peer_connection_factory (cout_print xs s) = peer_connection_factory s"
  "config_servers (cout_print xs s) = config_servers s" "rtc_threads (cout_print xs s) = rtc_threads s"
  by (simp_all add: cout_print_def)

text \<open>Only \<open>objects\<close> and the call history of a state differ.\<close>

definition same_table :: "net \<Rightarrow> net \<Rightarrow> bool" where
  "same_table s s' \<longleftrightarrow> connections s' = connections s \<and> next_obj s' = next_obj s \<and>
     peer_connection_factory s' = peer_connection_factory s \<and> rtc_threads s' = rtc_threads s"

lemma assign_live:
  assumes "objects s p = Some ob"
  shows "\<exists>s'. assign_pc p c s = Inr s' \<and> same_table s s' \<and>
      objects s' = (objects s)(p \<mapsto> ob\<lparr>payload := (payload ob)\<lparr>peer_connection := c\<rparr>\<rparr>)"
    and "\<exists>s'. assign_dc p c s = Inr s' \<and> same_table s s' \<and>
      objects s' = (objects s)(p \<mapsto> ob\<lparr>payload := (payload ob)\<lparr>data_channel := c\<rparr>\<rparr>)"
  using assms by (auto simp: assign_pc_def assign_dc_def this_obj_def Let_def upd_obj_def same_table_def
      split: option.split)

lemma CreateOffer_live:
  assumes ob: "objects s p = Some ob" and f: "peer_connection_factory s" and L: "creates L"
  shows "\<exists>pc dc s'. CreateOffer L p s = Inr (NoReturn, s') \<and> same_table s s' \<and>
    objects s' = (objects s)(p \<mapsto> ob\<lparr>payload := (payload ob)\<lparr>peer_connection := Some pc, data_channel := Some dc\<rparr>\<rparr>) \<and>
    last (rtc_calls s') = PcCreateOffer pc p"
proof -
  let ?s2 = "rtc (CreatePeerConnection (config_servers s) p)
    (cout_print (log_prefix (payload ob) @ [Str ''create_offer_sdp'', Endl]) s)"
  obtain pc where pc: "create_peer_connection L (rtc_calls ?s2) = Some pc"
    using L by (auto simp: creates_def)
  obtain s3 where s3: "assign_pc p (Some pc) ?s2 = Inr s3" "same_table ?s2 s3"
    "objects s3 = (objects s)(p \<mapsto> ob\<lparr>payload := (payload ob)\<lparr>peer_connection := Some pc\<rparr>\<rparr>)"
    using assign_live(1) [of ?s2 p ob "Some pc"] ob by auto
  let ?s4 = "rtc (CreateDataChannel pc ''data_channel'' DataChannelInit_default) s3"
  obtain dc where dc: "create_data_channel L (rtc_calls ?s4) = Some dc"
    using L by (auto simp: creates_def)
  obtain s5 where s5: "assign_dc p (Some dc) ?s4 = Inr s5" "same_table ?s4 s5"
    "objects s5 = (objects s)(p \<mapsto> ob\<lparr>payload := (payload ob)\<lparr>peer_connection := Some pc, data_channel := Some dc\<rparr>\<rparr>)"
    using assign_live(2) [of ?s4 p _ "Some dc"] s3(3) by auto
  have "CreateOffer L p s = Inr (NoReturn, rtc (PcCreateOffer pc p) (rtc (DcRegisterObserver dc p) s5))"
    using ob f pc dc s3 s5
    by (simp add: CreateOffer_def Let_def this_obj_def this_pc_def this_dc_def nonnull_def)
  with s3(2) s5(2,3) show ?thesis by (auto simp: same_table_def)
qed

lemma conn_arrow_entry: "connections s name = Some (Some p) \<Longrightarrow> conn_arrow name s = Inr (p, s)"
  by (simp add: conn_arrow_def conn_index_def nonnull_def)

lemma destroy_live: "\<forall>t. rtc_threads s t \<noteq> NoThread \<Longrightarrow> \<exists>s'. WebrtcNetwork_destroy ob s = Inr s' \<and>
    peer_connection_factory s' = peer_connection_factory s \<and> (\<forall>t. rtc_threads s' t = ThreadStopped)"
proof -
  assume "\<forall>t. rtc_threads s t \<noteq> NoThread"
  moreover have "t = network_thread \<or> t = worker_thread \<or> t = signaling_thread" for t
    by (cases t) simp_all
  ultimately show ?thesis
    by (auto simp: WebrtcNetwork_destroy_def stop_thread_def Let_def split: option.split)
qed

lemma wn_Release_live:
  assumes "live_obj p s" and "ready s"
  shows "\<exists>s'. wn_Release p s = Inr s' \<and> ready s'"
proof -
  obtain ob where ob: "objects s p = Some ob" using assms(1) by (auto simp: live_obj_def)
  obtain s1 where "WebrtcNetwork_destroy (payload ob) s = Inr s1" "ready s1"
    using destroy_live [of s "payload ob"] assms(2) by (auto simp: ready_def)
  then show ?thesis using assms(2) ob
    by (cases "DecRef (ref_count ob)")
      (auto simp: wn_Release_def this_obj_def Release_def split: RefCountReleaseStatus.split)
qed

lemma new_connection_live:
  assumes inv: "net_inv ext s" and "ready s"
  shows "\<exists>s'. new_connection name s = Inr s' \<and> ready s'"
proof -
  obtain h c s3 where "rc.owned ((owners ext s)(next_obj s := 1)) h"
    and h: "\<And>q. q \<noteq> next_obj s \<Longrightarrow> h q = objects s q"
    and "h (next_obj s) = Some \<lparr>payload = WebrtcNetwork_new name, ref_count = c\<rparr>"
    and s3: "s3 = s\<lparr>next_obj := Suc (next_obj s), objects := h,
      connections := (connections s)(name \<mapsto> Option.bind (connections s name) id)\<rparr>"
    and eq: "new_connection name s =
      res_bind (case Option.bind (connections s name) id of None \<Rightarrow> Inr s3 | Some q \<Rightarrow> wn_Release q s3)
        (\<lambda>s4. Inr (s4\<lparr>connections := (connections s4)(name \<mapsto> Some (next_obj s))\<rparr>))"
    by (rule new_connection_unfold [OF inv, of name]) (rule that)
  have r3: "ready s3" using assms(2) s3 by simp
  have l3: "live_obj q s3" if "Option.bind (connections s name) id = Some q" for q
    using old_owner [OF inv that] live_owner [OF inv, of q] h by (simp add: live_obj_def s3)
  show ?thesis
  proof (cases "Option.bind (connections s name) id")
    case None
    then show ?thesis using eq r3 by simp
  next
    case (Some q)
    from wn_Release_live [OF l3 [OF Some] r3] eq Some show ?thesis by auto
  qed
qed

lemma called_other:
  assumes "called s k" "k \<noteq> name" "connections s' = (connections s)(name \<mapsto> x)"
    and "\<And>r. connections s k = Some (Some r) \<Longrightarrow> objects s' r = objects s r"
  shows "called s' k"
  using assms by (auto simp: called_def)

lemma Connect_live:
  "net_inv ext s \<Longrightarrow> ready s \<Longrightarrow> creates L \<Longrightarrow>
     \<exists>s'. Connect L ps s = Inr (NoReturn, s') \<and> ready s' \<and> net_inv ext s' \<and>
          (\<forall>k. k \<in> set ps \<or> called s k \<longrightarrow> called s' k)"
proof (induction ps arbitrary: s)
  case Nil
  then show ?case by simp
next
  case (Cons name ps)
  let ?p = "next_obj s"
  obtain s1 where s1: "new_connection name s = Inr s1" "ready s1"
    using new_connection_live Cons.prems(1,2) by blast
  note N = new_connection_step [OF Cons.prems(1) s1(1)]
  have inv1: "net_inv ext s1" by (rule new_connection_inv [OF Cons.prems(1) s1(1)])
  obtain c where c: "objects s1 ?p = Some \<lparr>payload = WebrtcNetwork_new name, ref_count = c\<rparr>"
    using N(3) by blast
  obtain pc dc s2 where s2: "CreateOffer L ?p s1 = Inr (NoReturn, s2)" "same_table s1 s2"
    "objects s2 = (objects s1)(?p \<mapsto> \<lparr>payload = WebrtcNetwork_new name\<lparr>peer_connection := Some pc,
        data_channel := Some dc\<rparr>, ref_count = c\<rparr>)"
    using CreateOffer_live [OF c _ Cons.prems(3)] s1(2) by (auto simp: ready_def)
  have inv2: "net_inv ext s2"
    using net_inv_keeps [OF inv1 keeps_methods(1) s2(1)] by simp
  have r2: "ready s2" using s1(2) s2(2) by (simp add: ready_def same_table_def)
  have here: "called s2 name"
    using N(1) s2 by (simp add: called_def same_table_def WebrtcNetwork_new_def)
  have other: "called s2 k" if "called s k" "k \<noteq> name" for k
  proof (rule called_other [OF that])
    show "connections s2 = (connections s)(name \<mapsto> Some ?p)" using N(1) s2(2) by (simp add: same_table_def)
    fix r assume r: "connections s k = Some (Some r)"
    have nm: "named s" using Cons.prems(1) by (simp add: net_inv_def)
    have "live_obj r s" by (rule live_entry [OF Cons.prems(1) r])
    then have "r \<noteq> ?p" using Cons.prems(1) by (auto simp: net_inv_def live_obj_def)
    moreover have "Some r \<noteq> Option.bind (connections s name) id"
      using named_inj [OF nm r, of name] that(2) by (auto split: Option.bind_splits)
    ultimately show "objects s2 r = objects s r" using N(4) s2(3) by simp
  qed
  obtain s' where s': "Connect L ps s2 = Inr (NoReturn, s')" "ready s'" "net_inv ext s'"
    "\<forall>k. k \<in> set ps \<or> called s2 k \<longrightarrow> called s' k"
    using Cons.IH [OF inv2 r2 Cons.prems(3)] by blast
  have "Connect L (name # ps) s = Inr (NoReturn, s')"
    using s1(1) s2(1) s'(1) N(1) by (simp add: conn_arrow_entry)
  with s' here other show ?case by auto
qed



subsection \<open>Sending and hanging up\<close>

text \<open>
  C4. \<^verbatim>\<open>Senddata\<close>: data for a peer without an entry is dropped silently; for a peer with an entry the
  text goes, as a text message of exactly its bytes, to the data channel of the object of that
  name, or, when the channel is not established, only a line is printed. No other library call is
  made and no object changes.
\<close>

theorem Senddata_reaches_channel:
  assumes "reachable J W L ext s" and "connections s name \<noteq> Some None"
  shows "(connections s name = None \<and> Senddata name data s = Inr s) \<or>
    (\<exists>p ob. connections s name = Some (Some p) \<and> objects s p = Some ob \<and> wn_name (payload ob) = name \<and>
       (case data_channel (payload ob) of
          None \<Rightarrow> Senddata name data s = Inr (cout_print [Str ''Data channel is not established'', Endl] s)
        | Some dc \<Rightarrow> Senddata name data s =
            Inr (rtc (DcSend dc \<lparr>db_data = bytes_of data, db_binary = False\<rparr>) s)))"
proof (cases "connections s name")
  case None
  then show ?thesis by (simp add: Senddata_def)
next
  case (Some e)
  then obtain p where p: "connections s name = Some (Some p)" using assms(2) by (cases e) auto
  then obtain ob where "objects s p = Some ob" "wn_name (payload ob) = name"
    using reachable_inv [OF assms(1)] unfolding net_inv_def named_def by blast
  with p show ?thesis
    by (auto simp: Senddata_def conn_arrow_entry SendDataViaDataChannel_def this_obj_def DataBuffer_of_text_def
        split: option.split)
qed

theorem Senddata_reaches_channel_witness:
  "connections ex_call ''you'' \<noteq> Some None \<and>
   Senddata ''you'' ''hi'' ex_call = Inr (rtc (DcSend 200 \<lparr>db_data = bytes_of ''hi'', db_binary = False\<rparr>) ex_call)"
proof -
  have r: "reachable ex_texts ws_up_lib rtc_ok (\<lambda>_. 0) ex_call"
    by (rule ex_call_reachable)
  have c: "connections ex_call ''you'' \<noteq> Some None" by (simp add: ex_call_eval)
  show ?thesis using Senddata_reaches_channel [OF r c, of "''hi''"] c by (simp add: ex_call_eval)
qed

text \<open>
  \<^verbatim>\<open>Disconnect\<close> of a connected peer closes its channel and its peer connection and drops both
  references, but leaves the entry in the table. A later \<^verbatim>\<open>Senddata\<close> only prints; a second
  \<^verbatim>\<open>Disconnect\<close> of the same peer dereferences the null peer connection.
\<close>

theorem Disconnect_twice_crashes:
  assumes "reachable J W L ext s" and "connections s name = Some (Some p)"
    and "objects s p = Some ob" and "peer_connection (payload ob) = Some pc"
  shows "\<exists>s'. Disconnect [name] s = Inr s' \<and>
    objects s' = (objects s)(p \<mapsto> ob\<lparr>payload := (payload ob)\<lparr>peer_connection := None, data_channel := None\<rparr>\<rparr>) \<and>
    connections s' = connections s \<and>
    rtc_calls s' = rtc_calls s @
      (case data_channel (payload ob) of
         None \<Rightarrow> [] | Some dc \<Rightarrow> [DcUnregisterObserver dc, DcClose dc, DcRelease dc]) @
      [PcClose pc, PcRelease pc] \<and>
    Senddata name d s' = Inr (cout_print [Str ''Data channel is not established'', Endl] s') \<and>
    Disconnect [name] s' = Inl NullDeref"
  using assms(2-4)
  by (cases "data_channel (payload ob)")
    (auto simp: conn_arrow_entry DeletePeerConnection_def CloseDataChannel_def assign_dc_def assign_pc_def
      this_obj_def this_pc_def upd_obj_def nonnull_def Let_def Senddata_def SendDataViaDataChannel_def
      conn_arrow_def conn_index_def rtc_def)

theorem Disconnect_twice_crashes_witness:
  "\<exists>ob. objects ex_call 0 = Some ob \<and> peer_connection (payload ob) = Some 100 \<and>
    (\<exists>s'. Disconnect [''you''] ex_call = Inr s' \<and> Disconnect [''you''] s' = Inl NullDeref)"
proof -
  have r: "reachable ex_texts ws_up_lib rtc_ok (\<lambda>_. 0) ex_call"
    by (rule ex_call_reachable)
  obtain ob where ob: "objects ex_call 0 = Some ob" "peer_connection (payload ob) = Some 100"
    by (simp add: ex_call_eval)
  have "connections ex_call ''you'' = Some (Some 0)" by (simp add: ex_call_eval)
  from Disconnect_twice_crashes [OF r this ob] ob show ?thesis by blast
qed

subsection \<open>Shared threads\<close>

text \<open>
  C10. The three threads are static members, shared by all peers, and the destructor of one object
  stops them. Replacing an entry that only the table refers to (the game calls a peer again, or the
  peer sends another offer) therefore succeeds but leaves every thread of the process stopped.
\<close>

theorem replacing_a_peer_stops_all_threads:
  assumes "reachable J W L ext s" and "ready s"
    and "connections s name = Some (Some p)" and "ext p = 0"
  shows "\<exists>s'. new_connection name s = Inr s' \<and> (\<forall>t. rtc_threads s' t = ThreadStopped) \<and>
    objects s' p = None \<and> peer_connection_factory s'"
proof -
  have inv: "net_inv ext s" using assms(1) by (rule reachable_inv)
  obtain h c s3 where own: "rc.owned ((owners ext s)(next_obj s := 1)) h"
    and h: "\<And>q. q \<noteq> next_obj s \<Longrightarrow> h q = objects s q"
    and "h (next_obj s) = Some \<lparr>payload = WebrtcNetwork_new name, ref_count = c\<rparr>"
    and s3: "s3 = s\<lparr>next_obj := Suc (next_obj s), objects := h,
      connections := (connections s)(name \<mapsto> Option.bind (connections s name) id)\<rparr>"
    and eq: "new_connection name s =
      res_bind (case Option.bind (connections s name) id of None \<Rightarrow> Inr s3 | Some q \<Rightarrow> wn_Release q s3)
        (\<lambda>s4. Inr (s4\<lparr>connections := (connections s4)(name \<mapsto> Some (next_obj s))\<rparr>))"
    by (rule new_connection_unfold [OF inv, of name]) (rule that)
  have old: "Option.bind (connections s name) id = Some p" using assms(3) by simp
  have one: "owners ext s p = 1" using assms(3,4) by (auto simp: owners_def conn_holds_def)
  have np: "p \<noteq> next_obj s" by (rule old_owner(1) [OF inv old])
  obtain h' where h': "Release p h = Inr (kDroppedLastRef, h')" "\<not> alive h' p"
    using rc.owned_release [OF own, of p] one np by auto
  obtain ob where ob: "objects s3 p = Some ob"
    using live_entry [OF inv assms(3)] h [OF np] by (auto simp: live_obj_def s3)
  obtain s4 where "WebrtcNetwork_destroy (payload ob) s3 = Inr s4" "\<forall>t. rtc_threads s4 t = ThreadStopped"
    "peer_connection_factory s4"
    using destroy_live [of s3 "payload ob"] assms(2) by (auto simp: ready_def s3)
  with h' ob show ?thesis
    unfolding eq old by (simp add: wn_Release_def this_obj_def s3 alive_def)
qed

theorem replacing_a_peer_stops_all_threads_witness:
  "ready ex_call \<and> connections ex_call ''you'' = Some (Some 0) \<and> rtc_threads ex_call worker_thread = ThreadRunning \<and>
   (\<exists>s'. new_connection ''you'' ex_call = Inr s' \<and> rtc_threads s' worker_thread = ThreadStopped)"
proof -
  have r: "reachable ex_texts ws_up_lib rtc_ok (\<lambda>_. 0) ex_call"
    by (rule ex_call_reachable)
  have rd: "ready ex_call" by (simp add: ready_def ex_call_eval)
  have c: "connections ex_call ''you'' = Some (Some 0)" by (simp add: ex_call_eval)
  from replacing_a_peer_stops_all_threads [OF r rd c] rd c show ?thesis by (auto simp: ex_call_threads)
qed

subsection \<open>Texts of the signalling server\<close>

text \<open>
  Documented behaviour of \<^verbatim>\<open>CreateSessionDescription\<close> (\<^verbatim>\<open>api/jsep.h\<close>): null if the type is not one of
  the four supported ones or if the text is not a session description, which the empty text is not.
\<close>

definition sdp_laws :: "rtc_lib \<Rightarrow> bool" where
  "sdp_laws L \<longleftrightarrow>
     (\<forall>type sdp. type \<notin> {''offer'', ''pranswer'', ''answer'', ''rollback''} \<longrightarrow>
        fst (CreateSessionDescription L type sdp) = None) \<and>
     (\<forall>type. fst (CreateSessionDescription L type '''') = None)"

lemma sdp_unsupported:
  "sdp_laws L \<Longrightarrow> type \<notin> {''offer'', ''pranswer'', ''answer'', ''rollback''} \<Longrightarrow>
     fst (CreateSessionDescription L type sdp) = None"
  unfolding sdp_laws_def by blast

lemma rtc_ok_sdp: "sdp_laws rtc_ok"
  by (simp add: sdp_laws_def rtc_ok_def)

lemma read_string:
  "jsoncpp_laws J \<Longrightarrow> map_of ms k = Some (jstring J x) \<Longrightarrow>
     res_bind (jget J (jobject J ms) k) (asString J) = Inr x"
  "jsoncpp_laws J \<Longrightarrow> map_of ms k = None \<Longrightarrow>
     res_bind (jget J (jobject J ms) k) (asString J) = Inr ''''"
  by (simp_all add: jget_jobject asString_jstring asString_jnull)

lemma read_int:
  "jsoncpp_laws J \<Longrightarrow> map_of ms k = Some (jint J x) \<Longrightarrow>
     res_bind (jget J (jobject J ms) k) (asInt J) = Inr x"
  by (simp add: jget_jobject asInt_jint)

text \<open>
  Texts the client does not understand: a text that is not JSON (such as the greeting of the
  server) and an object whose type is neither offer, candidate nor answer (such as the reply to the
  login) change nothing but the console.
\<close>

theorem other_texts_ignored:
  assumes "jsoncpp_laws J"
    and "jparse J (c_str text) = None \<or>
      (\<exists>ms type name. jparse J (c_str text) = Some (jobject J ms) \<and> map_of ms ''type'' = Some (jstring J type) \<and>
        (map_of ms ''name'' = None \<or> map_of ms ''name'' = Some (jstring J name)) \<and>
        type \<notin> {''offer'', ''candidate'', ''answer''})"
  shows "\<exists>line. OnWebSocketMessage J L text s = Inr (cout_print line s)"
  using assms(2)
proof (elim disjE exE conjE)
  assume "jparse J (c_str text) = None"
  then show ?thesis by (auto simp: OnWebSocketMessage_def)
next
  fix ms type name
  assume "jparse J (c_str text) = Some (jobject J ms)" "map_of ms ''type'' = Some (jstring J type)"
    "map_of ms ''name'' = None" "type \<notin> {''offer'', ''candidate'', ''answer''}"
  then show ?thesis using read_string [OF assms(1)] by (auto simp: OnWebSocketMessage_def Let_def)
next
  fix ms type name
  assume "jparse J (c_str text) = Some (jobject J ms)" "map_of ms ''type'' = Some (jstring J type)"
    "map_of ms ''name'' = Some (jstring J name)" "type \<notin> {''offer'', ''candidate'', ''answer''}"
  then show ?thesis using read_string [OF assms(1)] by (auto simp: OnWebSocketMessage_def Let_def)
qed

theorem other_texts_ignored_witness:
  "jsoncpp_laws ex_texts \<and> jparse ex_texts (c_str ''reply'') \<noteq> None \<and>
   (\<exists>line. OnWebSocketMessage ex_texts rtc_ok ''reply'' net_init = Inr (cout_print line net_init))"
proof -
  have l: "jsoncpp_laws ex_texts" by (rule ex_texts_laws)
  let ?ms = "[(''success'', JInt 1), (''type'', JStr ''login'')]"
  have p: "jparse ex_texts (c_str ''reply'') = Some (jobject ex_texts ?ms)"
    by (rule ex_texts_parse) (simp_all add: ex_texts_eval c_str_def)
  have "map_of ?ms ''type'' = Some (jstring ex_texts ''login'')" "map_of ?ms ''name'' = None"
    by (simp_all add: ex_texts_eval)
  with p have "jparse ex_texts (c_str ''reply'') = None \<or>
      (\<exists>ms type name. jparse ex_texts (c_str ''reply'') = Some (jobject ex_texts ms) \<and>
        map_of ms ''type'' = Some (jstring ex_texts type) \<and>
        (map_of ms ''name'' = None \<or> map_of ms ''name'' = Some (jstring ex_texts name)) \<and>
        type \<notin> {''offer'', ''candidate'', ''answer''})"
    by (intro disjI2 exI [of _ ?ms] exI [of _ "''login''"]) simp
  from other_texts_ignored [OF l this] l p show ?thesis by simp
qed

fun negotiates :: "rtc_call \<Rightarrow> bool" where
  "negotiates (PcCreateAnswer pc ob) = True"
| "negotiates (PcSetRemoteDescription pc ob d) = True"
| "negotiates _ = False"

lemma assign_calls: "assign_pc p c s = Inr s' \<Longrightarrow> filter negotiates (rtc_calls s') = filter negotiates (rtc_calls s)"
  by (auto simp: assign_pc_def Let_def upd_obj_def elim!: res_bindE split: option.splits)

lemma destroy_calls:
  "WebrtcNetwork_destroy ob s = Inr s' \<Longrightarrow> filter negotiates (rtc_calls s') = filter negotiates (rtc_calls s)"
  by (auto simp: WebrtcNetwork_destroy_def stop_thread_def Let_def elim!: res_bindE
      split: option.splits if_splits)

lemma wn_Release_calls:
  "wn_Release p s = Inr s' \<Longrightarrow> filter negotiates (rtc_calls s') = filter negotiates (rtc_calls s)"
  by (auto simp: wn_Release_def elim!: res_bindE split: if_splits dest!: destroy_calls)

lemma conn_index_calls: "conn_index name s = (p, s') \<Longrightarrow> rtc_calls s' = rtc_calls s"
  by (auto simp: conn_index_def split: option.splits)

lemma new_connection_calls:
  "new_connection name s = Inr s' \<Longrightarrow> filter negotiates (rtc_calls s') = filter negotiates (rtc_calls s)"
  by (auto simp: new_connection_def Let_def elim!: res_bindE split: prod.splits option.splits
      dest!: conn_index_calls wn_Release_calls)

lemma CreateAnswer_lost:
  assumes d: "fst (CreateSessionDescription L ''offer'' d) = None"
    and ob: "objects s p = Some ob" and f: "peer_connection_factory s" and L: "creates L"
  shows "\<exists>pc s'. CreateAnswer L p d s = Inr (Ret False, s') \<and> same_table s s' \<and>
    objects s' = (objects s)(p \<mapsto> ob\<lparr>payload := (payload ob)\<lparr>peer_connection := Some pc\<rparr>\<rparr>) \<and>
    filter negotiates (rtc_calls s') = filter negotiates (rtc_calls s)"
proof -
  let ?s2 = "rtc (CreatePeerConnection (config_servers s) p)
    (cout_print (log_prefix (payload ob) @ [Str ''create_answer_sdp'', Endl]) s)"
  obtain pc where pc: "create_peer_connection L (rtc_calls ?s2) = Some pc"
    using L by (auto simp: creates_def)
  obtain s3 where s3: "assign_pc p (Some pc) ?s2 = Inr s3" "same_table ?s2 s3"
    "objects s3 = (objects s)(p \<mapsto> ob\<lparr>payload := (payload ob)\<lparr>peer_connection := Some pc\<rparr>\<rparr>)"
    using assign_live(1) [of ?s2 p ob "Some pc"] ob by auto
  obtain e where e: "CreateSessionDescription L ''offer'' d = (None, e)"
    using d by (cases "CreateSessionDescription L ''offer'' d") simp
  have "filter negotiates (rtc_calls s3) = filter negotiates (rtc_calls s)"
    using assign_calls [OF s3(1)] by simp
  with ob f pc e s3 show ?thesis
    by (auto simp: CreateAnswer_def Let_def this_obj_def same_table_def)
qed

text \<open>
  An offer that carries its description under the key \<^verbatim>\<open>offer\<close>, as \<^verbatim>\<open>OnSuccess\<close> writes it and the
  signalling server forwards it, is never answered: the receiver looks under the key \<^verbatim>\<open>data\<close>, gets
  the empty text, and the description cannot be created. The handler returns (when a factory and
  its threads are there) with a new object for the caller, but makes no \<^verbatim>\<open>CreateAnswer\<close> and no
  \<^verbatim>\<open>SetRemoteDescription\<close> call on a peer connection.
\<close>

theorem offers_of_this_client_are_lost:
  assumes J: "jsoncpp_laws J" and L: "sdp_laws L"
    and parsed: "jparse J (c_str t) = Some (jobject J ms)"
    and ms: "map_of ms ''type'' = Some (jstring J ''offer'')" "map_of ms ''name'' = Some (jstring J caller)"
      "map_of ms ''offer'' = Some (jstring J sdp)" "map_of ms ''data'' = None"
    and s: "reachable J W L ext s" "ready s" "creates L"
  shows "\<exists>s'. OnWebSocketMessage J L t s = Inr s' \<and>
    filter negotiates (rtc_calls s') = filter negotiates (rtc_calls s) \<and>
    (\<exists>p ob. connections s' caller = Some (Some p) \<and> objects s' p = Some ob \<and> data_channel (payload ob) = None)"
proof -
  let ?s0 = "cout_print [Str ''offer from = '', Str caller, Endl] (cout_print [Str t, Endl] s)"
  have inv: "net_inv ext ?s0" using reachable_inv [OF s(1)] by (intro net_inv_cout)
  have "ready ?s0" using s(2) by simp
  with new_connection_live [OF inv] obtain s1 where s1: "new_connection caller ?s0 = Inr s1" "ready s1" by blast
  note N = new_connection_step [OF inv s1(1)]
  obtain c where c: "objects s1 (next_obj s) = Some \<lparr>payload = WebrtcNetwork_new caller, ref_count = c\<rparr>"
    using N(3) by auto
  have "fst (CreateSessionDescription L ''offer'' '''') = None" using L by (simp add: sdp_laws_def)
  from CreateAnswer_lost [OF this c _ s(3)] s1(2) obtain pc s' where
    s': "CreateAnswer L (next_obj s) '''' s1 = Inr (Ret False, s')" "same_table s1 s'"
    "objects s' = (objects s1)(next_obj s \<mapsto> \<lparr>payload = WebrtcNetwork_new caller\<lparr>peer_connection := Some pc\<rparr>, ref_count = c\<rparr>)"
    "filter negotiates (rtc_calls s') = filter negotiates (rtc_calls s1)"
    by (auto simp: ready_def)
  have "OnWebSocketMessage J L t s = Inr s'"
    using parsed ms s1(1) N(1) s'(1) read_string [OF J]
    by (simp add: OnWebSocketMessage_def Let_def NewConnectionmessage_def conn_arrow_entry)
  then show ?thesis
    using new_connection_calls [OF s1(1)] s'(2-4) N(1) by (auto simp: same_table_def WebrtcNetwork_new_def)
qed

theorem offers_of_this_client_are_lost_witness:
  "\<exists>s'. OnWebSocketMessage ex_texts rtc_ok ''offer'' ex_call = Inr s' \<and>
    filter negotiates (rtc_calls s') = filter negotiates (rtc_calls ex_call) \<and>
    (\<exists>p. connections s' ''bob'' = Some (Some p))"
proof -
  let ?ms = "[(''name'', JStr ''bob''), (''offer'', JStr ''v=0''), (''type'', JStr ''offer'')]"
  have p: "jparse ex_texts (c_str ''offer'') = Some (jobject ex_texts ?ms)"
    by (rule ex_texts_parse) (simp_all add: ex_texts_eval c_str_def)
  have ms: "map_of ?ms ''type'' = Some (jstring ex_texts ''offer'')"
    "map_of ?ms ''name'' = Some (jstring ex_texts ''bob'')"
    "map_of ?ms ''offer'' = Some (jstring ex_texts ''v=0'')" "map_of ?ms ''data'' = None"
    by (simp_all add: ex_texts_eval)
  have "ready ex_call" "creates rtc_ok" by (simp_all add: ready_def ex_call_eval creates_def rtc_ok_def)
  from offers_of_this_client_are_lost [OF ex_texts_laws rtc_ok_sdp p ms ex_call_reachable this]
  show ?thesis by blast
qed

text \<open>
  C8. Answers are never applied: \<^verbatim>\<open>SetRemoteDescription\<close> asks for a description of the type
  \<^verbatim>\<open>anwer\<close>, which the library does not support. Whatever the answer for a known peer says, the
  handler prints an error and makes no library call, and the negotiation that \<^verbatim>\<open>Connect\<close> began
  cannot finish.
\<close>

theorem answers_are_never_applied:
  assumes J: "jsoncpp_laws J" and L: "sdp_laws L"
    and parsed: "jparse J (c_str t) = Some (jobject J ms)"
    and ms: "map_of ms ''type'' = Some (jstring J ''answer'')" "map_of ms ''name'' = Some (jstring J peer)"
      "map_of ms ''answer'' = Some (jstring J sdp)"
    and s: "reachable J W L ext s" "connections s peer = Some (Some p)"
  shows "\<exists>line. OnWebSocketMessage J L t s = Inr (cout_print line s)"
proof -
  have "fst (CreateSessionDescription L ''anwer'' sdp) = None" by (rule sdp_unsupported [OF L]) simp
  then obtain e where e: "CreateSessionDescription L ''anwer'' sdp = (None, e)"
    by (cases "CreateSessionDescription L ''anwer'' sdp") simp
  obtain ob where "objects s p = Some ob"
    using live_entry [OF reachable_inv [OF s(1)] s(2)] by (auto simp: live_obj_def)
  with e parsed ms s(2) read_string [OF J] show ?thesis
    by (simp add: OnWebSocketMessage_def Let_def AnswerRecieved_def conn_arrow_entry SetRemoteDescription_def
        this_obj_def cout_print_append) blast
qed

theorem answers_are_never_applied_witness:
  "connections ex_call ''you'' = Some (Some 0) \<and>
   (\<exists>line. OnWebSocketMessage ex_texts rtc_ok ''answer from you'' ex_call = Inr (cout_print line ex_call))"
proof -
  let ?ms = "[(''name'', JStr ''you''), (''answer'', JStr ''v=0''), (''type'', JStr ''answer'')]"
  have p: "jparse ex_texts (c_str ''answer from you'') = Some (jobject ex_texts ?ms)"
    by (rule ex_texts_parse) (simp_all add: ex_texts_eval c_str_def)
  have ms: "map_of ?ms ''type'' = Some (jstring ex_texts ''answer'')"
    "map_of ?ms ''name'' = Some (jstring ex_texts ''you'')"
    "map_of ?ms ''answer'' = Some (jstring ex_texts ''v=0'')"
    by (simp_all add: ex_texts_eval)
  have c: "connections ex_call ''you'' = Some (Some 0)" by (simp add: ex_call_eval)
  from answers_are_never_applied [OF ex_texts_laws rtc_ok_sdp p ms ex_call_reachable c] c
  show ?thesis by blast
qed

text \<open>
  An answer without a name, which is how the signalling server forwards answers, crashes the
  client unless it has an entry for the empty name: \<^verbatim>\<open>connections[""]\<close> creates a null pointer, which
  is then dereferenced.
\<close>

theorem answer_without_name_crashes:
  assumes J: "jsoncpp_laws J"
    and parsed: "jparse J (c_str t) = Some (jobject J ms)"
    and ms: "map_of ms ''type'' = Some (jstring J ''answer'')" "map_of ms ''name'' = None"
      "map_of ms ''answer'' = Some (jstring J sdp)"
    and s: "\<And>p. connections s '''' \<noteq> Some (Some p)"
  shows "OnWebSocketMessage J L t s = Inl NullDeref"
proof -
  have "conn_arrow '''' s1 = Inl NullDeref" if "connections s1 = connections s" for s1
    using that s by (auto simp: conn_arrow_def conn_index_def nonnull_def split: option.split)
  with parsed ms read_string [OF J] show ?thesis
    by (simp add: OnWebSocketMessage_def Let_def AnswerRecieved_def)
qed

theorem answer_without_name_crashes_witness:
  "(\<forall>p. connections ex_call '''' \<noteq> Some (Some p)) \<and>
   OnWebSocketMessage ex_texts rtc_ok ''answer'' ex_call = Inl NullDeref"
proof -
  let ?ms = "[(''answer'', JStr ''v=0''), (''type'', JStr ''answer'')]"
  have p: "jparse ex_texts (c_str ''answer'') = Some (jobject ex_texts ?ms)"
    by (rule ex_texts_parse) (simp_all add: ex_texts_eval c_str_def)
  have ms: "map_of ?ms ''type'' = Some (jstring ex_texts ''answer'')" "map_of ?ms ''name'' = None"
    "map_of ?ms ''answer'' = Some (jstring ex_texts ''v=0'')"
    by (simp_all add: ex_texts_eval)
  have c: "\<And>p. connections ex_call '''' \<noteq> Some (Some p)" by (simp add: ex_call_eval)
  from answer_without_name_crashes [OF ex_texts_laws p ms c] c show ?thesis by blast
qed

text \<open>
  Candidates of this client cannot be read by this client: \<^verbatim>\<open>OnIceCandidate\<close> sends, over an open
  line, one text whose member \<^verbatim>\<open>candidate\<close> is an object; the handler reads that member as a string,
  and jsoncpp throws an exception that nothing catches, for every text of type candidate that
  carries the member, whatever the state of the receiver.
\<close>

theorem candidates_of_this_client_crash_receivers:
  assumes J: "jsoncpp_laws J" and ob: "objects s p = Some ob" and up: "iswebsocketconnected s"
  shows "\<exists>s' v. OnIceCandidate J p c s = Inr s' \<and>
    client_calls s' = client_calls s @
      [WsSend (jwrite J (jobject J [(''candidate'', v), (''name'', jstring J (wn_name (payload ob))),
                                    (''type'', jstring J ''candidate'')]))] \<and>
    (\<forall>L t ms name r. jparse J (c_str t) = Some (jobject J ms) \<longrightarrow>
       map_of ms ''type'' = Some (jstring J ''candidate'') \<longrightarrow>
       map_of ms ''name'' = None \<or> map_of ms ''name'' = Some (jstring J name) \<longrightarrow>
       map_of ms ''candidate'' = Some v \<longrightarrow>
       OnWebSocketMessage J L t r = Inl JsonLogicError)"
proof -
  let ?v = "jobject J [(''sdpMLineIndex'', jint J (cand_sdp_mline_index c)),
    (''sdpMid'', jstring J (cand_sdp_mid c)),
    (''candidate'', jstring J (case cand_ToString c of None \<Rightarrow> '''' | Some x \<Rightarrow> x))]"
  have sent: "\<exists>s'. OnIceCandidate J p c s = Inr s' \<and>
    client_calls s' = client_calls s @
      [WsSend (jwrite J (jobject J [(''candidate'', ?v), (''name'', jstring J (wn_name (payload ob))),
                                    (''type'', jstring J ''candidate'')]))]"
    using ob up by (simp add: OnIceCandidate_def Let_def this_obj_def ws_send_def)
  have "OnWebSocketMessage J L t r = Inl JsonLogicError"
    if "jparse J (c_str t) = Some (jobject J ms)" "map_of ms ''type'' = Some (jstring J ''candidate'')"
      "map_of ms ''name'' = None \<or> map_of ms ''name'' = Some (jstring J name)"
      "map_of ms ''candidate'' = Some ?v" for L t ms name r
  proof -
    have "\<exists>n. res_bind (jget J (jobject J ms) ''name'') (asString J) = Inr n"
      using that(3) read_string [OF J] by blast
    then obtain n where "res_bind (jget J (jobject J ms) ''name'') (asString J) = Inr n" by blast
    moreover have "asString J ?v = Inl JsonLogicError" by (rule asString_jobject [OF J]) simp
    then have "res_bind (jget J (jobject J ms) ''candidate'') (asString J) = Inl JsonLogicError"
      using that(4) by (simp add: jget_jobject [OF J])
    moreover note read_string(1) [OF J that(2)]
    ultimately show ?thesis using that(1) by (simp add: OnWebSocketMessage_def Let_def)
  qed
  with sent show ?thesis by blast
qed

theorem candidates_of_this_client_crash_receivers_witness:
  "iswebsocketconnected ex_call \<and>
   (\<exists>ob s' v. objects ex_call 0 = Some ob \<and>
      OnIceCandidate ex_texts 0 \<lparr>cand_sdp_mid = ''data'', cand_sdp_mline_index = 0, cand_ToString = Some ''c''\<rparr> ex_call
        = Inr s' \<and>
      client_calls s' = client_calls ex_call @
        [WsSend (jwrite ex_texts (jobject ex_texts [(''candidate'', v),
           (''name'', jstring ex_texts (wn_name (payload ob))), (''type'', jstring ex_texts ''candidate'')]))])"
proof -
  obtain ob where "objects ex_call 0 = Some ob" by (simp add: ex_call_eval)
  from candidates_of_this_client_crash_receivers [OF ex_texts_laws this ex_call_connected] this ex_call_connected
  show ?thesis by blast
qed



text \<open>
  Ownership: when \<^verbatim>\<open>CreateAnswer\<close> succeeds it hands the description to \<^verbatim>\<open>SetRemoteDescription\<close>,
  which takes ownership of it, and then its own \<^verbatim>\<open>unique_ptr\<close> deletes the same description at the end
  of the function, after the library was asked for an answer.
\<close>

theorem CreateAnswer_deletes_given_description:
  assumes "CreateAnswer L p sdp s = Inr (Ret True, s')"
  shows "\<exists>pc d cs. rtc_calls s' = rtc_calls s @ cs @
      [PcSetRemoteDescription pc p d, PcCreateAnswer pc p, DeleteSessionDescription d] \<and>
    fst (CreateSessionDescription L ''offer'' sdp) = Some d"
proof -
  have calls: "\<exists>cs. rtc_calls s2 = rtc_calls s1 @ cs" if "assign_pc q c s1 = Inr s2" for q c s1 s2
    using that by (auto simp: assign_pc_def Let_def upd_obj_def elim!: res_bindE split: option.splits)
  show ?thesis
    using assms
    by (auto simp: CreateAnswer_def Let_def elim!: res_bindE split: if_splits option.splits prod.splits
        dest!: calls)
qed

theorem CreateAnswer_deletes_given_description_witness:
  "\<exists>s' pc d cs. CreateAnswer rtc_ok 0 ''v=0'' ex_call = Inr (Ret True, s') \<and>
    rtc_calls s' = rtc_calls ex_call @ cs @
      [PcSetRemoteDescription pc 0 d, PcCreateAnswer pc 0, DeleteSessionDescription d]"
proof -
  obtain s' where "CreateAnswer rtc_ok 0 ''v=0'' ex_call = Inr (Ret True, s')"
    by (simp add: CreateAnswer_def Let_def this_obj_def ex_call_eval assign_pc_def upd_obj_def rtc_ok_def)
  from CreateAnswer_deletes_given_description [OF this] this show ?thesis by blast
qed

subsection \<open>Start-up\<close>

text \<open>
  \<^verbatim>\<open>NetworkInit\<close> on a fresh process, when the server can be reached and the library makes a
  factory: one login text with the player's name is sent after the connection is up, the three
  threads run, the factory and the server configuration are in place; the function then runs off
  its end without returning a value. When the server cannot be reached it returns false and has
  only tried to connect.
\<close>

theorem NetworkInit_logs_in:
  assumes "connect_outcome W [WsSetMessageHandler, WsConnect ''ws://localhost:9090''] = out"
    and "\<forall>cs. create_factory L cs"
  shows "(out = WsDone \<longrightarrow> (\<exists>s'. NetworkInit J W L player net_init = Inr (NoReturn, s') \<and> ready s' \<and>
      (\<forall>t. rtc_threads s' t = ThreadRunning) \<and> config_servers s' = [''stun:stun.l.google.com:19302''] \<and>
      iswebsocketconnected s' \<and>
      client_calls s' = [WsSetMessageHandler, WsConnect ''ws://localhost:9090'',
        WsSend (jwrite J (jobject J [(''name'', jstring J player), (''type'', jstring J ''login'')]))])) \<and>
    (\<forall>what. out = WsException what \<longrightarrow> (\<exists>line. NetworkInit J W L player net_init =
      Inr (Ret False, net_init\<lparr>cout := line, client_calls := [WsSetMessageHandler, WsConnect ''ws://localhost:9090'']\<rparr>)))"
proof -
  have all: "t = network_thread \<or> t = worker_thread \<or> t = signaling_thread" for t by (cases t) simp_all
  show ?thesis
    using assms all
    by (auto simp: NetworkInit_def ws_connect_def ws_setreceivehandler_def client_call_def cout_print_def
        net_init_def Let_def ws_send_def InitializePeerConnection_def create_thread_def rtc_def ready_def)
qed

theorem NetworkInit_logs_in_witness:
  "\<exists>s'. NetworkInit ex_texts ws_up_lib rtc_ok ''me'' net_init = Inr (NoReturn, s') \<and> ready s'"
proof -
  have "connect_outcome ws_up_lib [WsSetMessageHandler, WsConnect ''ws://localhost:9090''] = WsDone"
    "\<forall>cs. create_factory rtc_ok cs"
    by (simp_all add: ws_up_lib_def rtc_ok_def)
  from NetworkInit_logs_in [OF this] show ?thesis by blast
qed

text \<open>
  \<^verbatim>\<open>main\<close> ignores the result of \<^verbatim>\<open>NetworkInit\<close>: when the signalling server cannot be reached, or
  the library cannot make a factory, the call of \<^verbatim>\<open>Connect\<close> that follows dereferences the null
  factory.
\<close>

theorem app_crashes_without_server:
  assumes "(\<exists>what. connect_outcome W [WsSetMessageHandler, WsConnect ''ws://localhost:9090''] = WsException what) \<or>
    connect_outcome W [WsSetMessageHandler, WsConnect ''ws://localhost:9090''] = WsDone \<and>
      (\<forall>cs. \<not> create_factory L cs)"
  shows "app_main J W L = Inl NullDeref"
  using assms
  by (auto simp: app_main_def NetworkInit_def ws_connect_def ws_setreceivehandler_def client_call_def
      cout_print_def net_init_def Let_def ws_send_def InitializePeerConnection_def create_thread_def rtc_def
      new_connection_def conn_index_def AddRef_def new_object_def conn_arrow_def nonnull_def CreateOffer_def
      this_obj_def)

definition ws_down_lib :: ws_lib where
  "ws_down_lib = \<lparr>connect_outcome = (\<lambda>_. WsException ''refused''), close_outcome = (\<lambda>_. WsDone)\<rparr>"

theorem app_crashes_without_server_witness:
  "connect_outcome ws_down_lib [WsSetMessageHandler, WsConnect ''ws://localhost:9090''] = WsException ''refused'' \<and>
   app_main ex_texts ws_down_lib rtc_ok = Inl NullDeref"
proof -
  have w: "connect_outcome ws_down_lib [WsSetMessageHandler, WsConnect ''ws://localhost:9090''] = WsException ''refused''"
    by (simp add: ws_down_lib_def)
  from app_crashes_without_server [of ws_down_lib rtc_ok ex_texts] w show ?thesis by blast
qed

lemma pc_kept:
  assumes "this_pc q s3 = Inr pc" "assign_dc q c (rtc a s3) = Inr s5" "this_obj q (rtc b s5) = Inr x"
  shows "peer_connection x = Some pc"
  using assms by (auto simp: this_pc_def this_obj_def assign_dc_def upd_obj_def nonnull_def Let_def
      elim!: res_bindE split: option.splits)

lemma CreateOffer_no_value: "CreateOffer L q s \<noteq> Inr (Ret b, s')"
  by (auto simp: CreateOffer_def Let_def elim!: res_bindE split: if_splits option.splits) (simp add: pc_kept)

text \<open>
  \<^verbatim>\<open>CreateOffer\<close> never reports a failure: its test for a null peer connection comes after the
  pointer was used. A library that creates no peer connection, or no data channel, ends the process
  with a null dereference; in every other case the function returns without a value.
\<close>

theorem CreateOffer_failure_is_a_crash:
  assumes "objects s p = Some ob" and "peer_connection_factory s"
    and "create_peer_connection L (rtc_calls s @ [CreatePeerConnection (config_servers s) p]) = None"
  shows "CreateOffer L p s = Inl NullDeref \<and> CreateOffer L' q s' \<noteq> Inr (Ret b, s'')"
proof -
  have "CreateOffer L p s = Inl NullDeref"
    using assms
    by (auto simp: CreateOffer_def Let_def this_obj_def assign_pc_def this_pc_def nonnull_def upd_obj_def
        split: option.split)
  then show ?thesis by (simp add: CreateOffer_no_value)
qed

definition rtc_broken :: rtc_lib where
  "rtc_broken = rtc_ok\<lparr>create_peer_connection := (\<lambda>_. None)\<rparr>"

theorem CreateOffer_failure_is_a_crash_witness:
  "peer_connection_factory ex_call \<and> CreateOffer rtc_broken 0 ex_call = Inl NullDeref"
proof -
  obtain ob where ob: "objects ex_call 0 = Some ob" by (simp add: ex_call_eval)
  have "create_peer_connection rtc_broken cs = None" for cs by (simp add: rtc_broken_def)
  from CreateOffer_failure_is_a_crash [OF ob ex_call_factory this] ex_call_factory show ?thesis by blast
qed

end
