(* ===== verification/SignallingServer.thy ===== *)
theory SignallingServer
  imports Prelude
begin

section \<open>The signalling server\<close>

text \<open>
  \<^verbatim>\<open>tests/signallingserver.js\<close>: the process that knows who is logged in and forwards offers, answers
  and candidates. A message is modelled after \<^verbatim>\<open>JSON.parse\<close> (\<open>None\<close> if it throws) and before
  \<^verbatim>\<open>JSON.stringify\<close>; console output is left out. A connection is an object with the properties
  \<^verbatim>\<open>name\<close> and \<^verbatim>\<open>otherName\<close> that the code adds; \<^verbatim>\<open>send\<close> on a connection that is no longer open does
  nothing (\<^verbatim>\<open>sendAfterClose\<close> of \<^verbatim>\<open>ws\<close>). An uncaught \<^verbatim>\<open>TypeError\<close> ends the process.
\<close>

subsection \<open>JavaScript values\<close>

datatype jsval =
    JsUndefined
  | JsNull
  | JsBool bool
  | JsNum int
  | JsStr string
  | JsArr "jsval list"
  | JsObj "(string \<times> jsval) list"

datatype js_error = TypeError

type_synonym 'a js = "js_error + 'a"

text \<open>\<^verbatim>\<open>v.key\<close> for a key that no prototype defines.\<close>

fun js_get :: "jsval \<Rightarrow> string \<Rightarrow> jsval js" where
  "js_get JsUndefined k = Inl TypeError"
| "js_get JsNull k = Inl TypeError"
| "js_get (JsObj ms) k = Inr (case map_of ms k of None \<Rightarrow> JsUndefined | Some v \<Rightarrow> v)"
| "js_get _ k = Inr JsUndefined"

fun nat_text :: "nat \<Rightarrow> string" where
  "nat_text n = (if n < 10 then [char_of (48 + n)] else nat_text (n div 10) @ [char_of (48 + n mod 10)])"

declare nat_text.simps [simp del]

text \<open>The property key a value is turned into by \<^verbatim>\<open>users[v]\<close>.\<close>

fun js_key :: "jsval \<Rightarrow> string" where
  "js_key JsUndefined = ''undefined''"
| "js_key JsNull = ''null''"
| "js_key (JsBool b) = (if b then ''true'' else ''false'')"
| "js_key (JsNum i) = (if i < 0 then ''-'' @ nat_text (nat (- i)) else nat_text (nat i))"
| "js_key (JsStr s) = s"
| "js_key (JsArr vs) =
     concat (map (\<lambda>(i, t). if i = 0 then t else '','' @ t)
       (zip [0..<length vs] (map (\<lambda>v. if v = JsUndefined \<or> v = JsNull then '''' else js_key v) vs)))"
| "js_key (JsObj ms) = ''[object Object]''"

fun js_truthy :: "jsval \<Rightarrow> bool" where
  "js_truthy JsUndefined = False"
| "js_truthy JsNull = False"
| "js_truthy (JsBool b) = b"
| "js_truthy (JsNum i) = (i \<noteq> 0)"
| "js_truthy (JsStr s) = (s \<noteq> '''')"
| "js_truthy _ = True"

subsection \<open>State\<close>

record sconn =
  sname :: jsval           \<comment> \<open>\<^verbatim>\<open>connection.name\<close>\<close>
  otherName :: jsval
  is_open :: bool

record server =
  users :: "string \<Rightarrow> nat option"
  conns :: "nat \<Rightarrow> sconn option"
  outbox :: "(nat \<times> jsval) list"

text \<open>
  \<^verbatim>\<open>users\<close> is an object literal, so the keys of \<^verbatim>\<open>Object.prototype\<close> are found in it although nobody
  logged in under them.
\<close>

definition proto_keys :: "string list" where
  "proto_keys =
     [''constructor'', ''__defineGetter__'', ''__defineSetter__'', ''hasOwnProperty'',
      ''__lookupGetter__'', ''__lookupSetter__'', ''isPrototypeOf'', ''propertyIsEnumerable'',
      ''toString'', ''valueOf'', ''__proto__'', ''toLocaleString'']"

datatype user_ref = Nobody | Inherited | User nat

definition users_at :: "jsval \<Rightarrow> server \<Rightarrow> user_ref" where
  "users_at v s =
     (case users s (js_key v) of
        Some c \<Rightarrow> User c
      | None \<Rightarrow> if js_key v \<in> set proto_keys then Inherited else Nobody)"

definition sendTo :: "nat \<Rightarrow> jsval \<Rightarrow> server \<Rightarrow> server" where
  "sendTo c m s =
     (case conns s c of
        None \<Rightarrow> s
      | Some k \<Rightarrow> if is_open k then s\<lparr>outbox := outbox s @ [(c, m)]\<rparr> else s)"

text \<open>An inherited value is a function or an object: it has no method \<^verbatim>\<open>send\<close>.\<close>

definition send_ref :: "user_ref \<Rightarrow> jsval \<Rightarrow> server \<Rightarrow> server js" where
  "send_ref u m s = (case u of User c \<Rightarrow> Inr (sendTo c m s) | _ \<Rightarrow> Inl TypeError)"

definition upd_conn :: "nat \<Rightarrow> (sconn \<Rightarrow> sconn) \<Rightarrow> server \<Rightarrow> server" where
  "upd_conn c f s = s\<lparr>conns := (conns s)(c := map_option f (conns s c))\<rparr>"

text \<open>\<^verbatim>\<open>conn.otherName = null\<close>: on \<^verbatim>\<open>undefined\<close> a \<^verbatim>\<open>TypeError\<close>, on an inherited value harmless.\<close>

definition clear_other :: "user_ref \<Rightarrow> server \<Rightarrow> server js" where
  "clear_other u s =
     (case u of
        Nobody \<Rightarrow> Inl TypeError
      | Inherited \<Rightarrow> Inr s
      | User c \<Rightarrow> Inr (upd_conn c (\<lambda>k. k\<lparr>otherName := JsNull\<rparr>) s))"

definition js_bind :: "'a js \<Rightarrow> ('a \<Rightarrow> 'b js) \<Rightarrow> 'b js" where
  "js_bind m f = (case m of Inl e \<Rightarrow> Inl e | Inr x \<Rightarrow> f x)"

definition conn_name :: "nat \<Rightarrow> server \<Rightarrow> jsval" where
  "conn_name c s = (case conns s c of None \<Rightarrow> JsUndefined | Some k \<Rightarrow> sname k)"

text \<open>An object literal: \<^verbatim>\<open>JSON.stringify\<close> leaves out members that are undefined.\<close>

definition js_object :: "(string \<times> jsval) list \<Rightarrow> jsval" where
  "js_object ms = JsObj (filter (\<lambda>(k, v). v \<noteq> JsUndefined) ms)"

subsection \<open>Handlers\<close>

definition on_login :: "nat \<Rightarrow> jsval \<Rightarrow> server \<Rightarrow> server" where
  "on_login c nm s =
     (if users_at nm s \<noteq> Nobody
      then sendTo c (js_object [(''type'', JsStr ''login''), (''success'', JsBool False)]) s
      else
        let s1 = s\<lparr>users := (users s)(js_key nm \<mapsto> c)\<rparr>;
            s2 = upd_conn c (\<lambda>k. k\<lparr>sname := nm\<rparr>) s1
        in sendTo c (js_object [(''type'', JsStr ''login''), (''success'', JsBool True)]) s2)"

definition on_offer :: "nat \<Rightarrow> jsval \<Rightarrow> jsval \<Rightarrow> server \<Rightarrow> server js" where
  "on_offer c nm offer s =
     (case users_at nm s of
        Nobody \<Rightarrow> Inr s
      | u \<Rightarrow>
          (let s1 = upd_conn c (\<lambda>k. k\<lparr>otherName := nm\<rparr>) s
           in send_ref u (js_object [(''type'', JsStr ''offer''), (''offer'', offer), (''name'', conn_name c s1)]) s1))"

definition on_answer :: "nat \<Rightarrow> jsval \<Rightarrow> jsval \<Rightarrow> server \<Rightarrow> server js" where
  "on_answer c nm answer s =
     (case users_at nm s of
        Nobody \<Rightarrow> Inr s
      | u \<Rightarrow>
          (let s1 = upd_conn c (\<lambda>k. k\<lparr>otherName := nm\<rparr>) s
           in send_ref u (js_object [(''type'', JsStr ''answer''), (''answer'', answer)]) s1))"

definition on_candidate :: "jsval \<Rightarrow> jsval \<Rightarrow> server \<Rightarrow> server js" where
  "on_candidate nm candidate s =
     (case users_at nm s of
        Nobody \<Rightarrow> Inr s
      | u \<Rightarrow> send_ref u (js_object [(''type'', JsStr ''candidate''), (''candidate'', candidate)]) s)"

text \<open>The property is written before the test for null.\<close>

definition on_leave :: "jsval \<Rightarrow> server \<Rightarrow> server js" where
  "on_leave nm s =
     js_bind (clear_other (users_at nm s) s) (\<lambda>s1.
       send_ref (users_at nm s) (js_object [(''type'', JsStr ''leave'')]) s1)"

definition on_message :: "nat \<Rightarrow> jsval option \<Rightarrow> server \<Rightarrow> server js" where
  "on_message c parsed s =
     (let data = (case parsed of None \<Rightarrow> JsObj [] | Some v \<Rightarrow> v)
      in js_bind (js_get data ''type'') (\<lambda>type.
         js_bind (js_get data ''name'') (\<lambda>nm.
           if type = JsStr ''login'' then Inr (on_login c nm s)
           else if type = JsStr ''offer'' then js_bind (js_get data ''offer'') (\<lambda>v. on_offer c nm v s)
           else if type = JsStr ''answer'' then js_bind (js_get data ''answer'') (\<lambda>v. on_answer c nm v s)
           else if type = JsStr ''candidate''
           then js_bind (js_get data ''candidate'') (\<lambda>v. on_candidate nm v s)
           else if type = JsStr ''leave'' then on_leave nm s
           else Inr (sendTo c (js_object [(''type'', JsStr ''error''),
                      (''message'', JsStr (''Command not found: '' @ js_key type))]) s))))"

definition on_connection :: "nat \<Rightarrow> server \<Rightarrow> server" where
  "on_connection c s =
     sendTo c (JsStr ''Hello world'')
       (s\<lparr>conns := (conns s)(c \<mapsto> \<lparr>sname = JsUndefined, otherName = JsUndefined, is_open = True\<rparr>)\<rparr>)"

definition on_close :: "nat \<Rightarrow> server \<Rightarrow> server js" where
  "on_close c s =
     (case conns s c of
        None \<Rightarrow> Inr s
      | Some k \<Rightarrow>
          (let s0 = upd_conn c (\<lambda>k. k\<lparr>is_open := False\<rparr>) s
           in if js_truthy (sname k)
              then
                (let s1 = s0\<lparr>users := (users s0)(js_key (sname k) := None)\<rparr>
                 in if js_truthy (otherName k)
                    then
                      js_bind (clear_other (users_at (otherName k) s1) s1) (\<lambda>s2.
                        send_ref (users_at (otherName k) s1) (js_object [(''type'', JsStr ''leave'')]) s2)
                    else Inr s1)
              else Inr s0))"

subsection \<open>Runs of the server\<close>

datatype server_event = Connected nat | Message nat "jsval option" | Closed nat

text \<open>A connection is new when it connects, sends while it is open and closes once.\<close>

fun server_step :: "server_event \<Rightarrow> server \<Rightarrow> server js option" where
  "server_step (Connected c) s = (if conns s c = None then Some (Inr (on_connection c s)) else None)"
| "server_step (Message c m) s =
     (case conns s c of Some k \<Rightarrow> if is_open k then Some (on_message c m s) else None | None \<Rightarrow> None)"
| "server_step (Closed c) s =
     (case conns s c of Some k \<Rightarrow> if is_open k then Some (on_close c s) else None | None \<Rightarrow> None)"

definition server_init :: server where
  "server_init = \<lparr>users = Map.empty, conns = Map.empty, outbox = []\<rparr>"

inductive server_reachable :: "server \<Rightarrow> bool" where
  start: "server_reachable server_init"
| step: "server_reachable s \<Longrightarrow> server_step ev s = Some (Inr s') \<Longrightarrow> server_reachable s'"

text \<open>An open connection with a name is the one registered under it.\<close>

definition server_inv :: "server \<Rightarrow> bool" where
  "server_inv s \<longleftrightarrow>
     (\<forall>k c. users s k = Some c \<longrightarrow> conns s c \<noteq> None \<and> k \<notin> set proto_keys) \<and>
     (\<forall>c k. conns s c = Some k \<longrightarrow> is_open k \<longrightarrow> js_truthy (sname k) \<longrightarrow> users s (js_key (sname k)) = Some c)"

lemma server_invD:
  "server_inv s \<Longrightarrow> conns s c = Some k \<Longrightarrow> is_open k \<Longrightarrow> js_truthy (sname k) \<Longrightarrow>
     users s (js_key (sname k)) = Some c"
  by (simp add: server_inv_def)

lemma js_bind_simps [simp]: "js_bind (Inr x) f = f x" "js_bind (Inl e) f = Inl e"
  by (simp_all add: js_bind_def)

lemma js_bind_eq_Inr: "js_bind m f = Inr y \<longleftrightarrow> (\<exists>x. m = Inr x \<and> f x = Inr y)"
  by (cases m) auto

lemma sendTo_simps [simp]:
  "users (sendTo c m s) = users s" "conns (sendTo c m s) = conns s"
  by (auto simp: sendTo_def split: option.split)

lemma upd_conn_users [simp]: "users (upd_conn c f s) = users s" "outbox (upd_conn c f s) = outbox s"
  by (simp_all add: upd_conn_def)

lemma server_inv_cong:
  "server_inv s \<Longrightarrow> users s' = users s \<Longrightarrow> conns s' = conns s \<Longrightarrow> server_inv s'"
  by (simp add: server_inv_def)

lemma server_inv_upd_other:
  "server_inv s \<Longrightarrow> server_inv (upd_conn c (\<lambda>k. k\<lparr>otherName := v\<rparr>) s)"
  by (auto simp: server_inv_def upd_conn_def split: if_splits)

lemma send_ref_inv: "server_inv s \<Longrightarrow> send_ref u m s = Inr s' \<Longrightarrow> server_inv s'"
  by (auto simp: send_ref_def split: user_ref.splits intro: server_inv_cong)

lemma clear_other_inv: "server_inv s \<Longrightarrow> clear_other u s = Inr s' \<Longrightarrow> server_inv s'"
  by (auto simp: clear_other_def split: user_ref.splits intro: server_inv_upd_other)

lemma on_login_inv:
  assumes inv: "server_inv s" and c: "conns s c = Some k"
  shows "server_inv (on_login c nm s)"
proof (cases "users_at nm s = Nobody")
  case True
  then have "users s (js_key nm) = None" "js_key nm \<notin> set proto_keys"
    by (auto simp: users_at_def split: option.splits if_splits)
  then have "server_inv (upd_conn c (\<lambda>k. k\<lparr>sname := nm\<rparr>) (s\<lparr>users := (users s)(js_key nm \<mapsto> c)\<rparr>))"
    using inv c unfolding server_inv_def upd_conn_def
    by (auto split: if_splits) (metis option.distinct(1))
  with True show ?thesis by (auto simp: on_login_def Let_def intro: server_inv_cong)
next
  case False
  then show ?thesis using inv by (auto simp: on_login_def intro: server_inv_cong)
qed

lemma relay_inv:
  assumes inv: "server_inv s"
  shows "on_offer c nm v s = Inr s' \<Longrightarrow> server_inv s'"
    and "on_answer c nm v s = Inr s' \<Longrightarrow> server_inv s'"
    and "on_candidate nm v s = Inr s' \<Longrightarrow> server_inv s'"
    and "on_leave nm s = Inr s' \<Longrightarrow> server_inv s'"
proof -
  note other = server_inv_upd_other [OF inv, of c nm]
  show "on_offer c nm v s = Inr s' \<Longrightarrow> server_inv s'"
    using inv by (auto simp: on_offer_def Let_def split: user_ref.splits dest: send_ref_inv [OF other])
  show "on_answer c nm v s = Inr s' \<Longrightarrow> server_inv s'"
    using inv by (auto simp: on_answer_def Let_def split: user_ref.splits dest: send_ref_inv [OF other])
  show "on_candidate nm v s = Inr s' \<Longrightarrow> server_inv s'"
    using inv by (auto simp: on_candidate_def split: user_ref.splits dest: send_ref_inv [OF inv])
  show "on_leave nm s = Inr s' \<Longrightarrow> server_inv s'"
    by (auto simp: on_leave_def js_bind_eq_Inr dest!: clear_other_inv [OF inv] dest: send_ref_inv)
qed

lemma on_message_inv:
  assumes inv: "server_inv s" and c: "conns s c = Some k" and res: "on_message c m s = Inr s'"
  shows "server_inv s'"
proof -
  have e: "server_inv (sendTo c x s)" for x by (rule server_inv_cong [OF inv]) simp_all
  have read: "js_bind r f = Inr s' \<Longrightarrow> (\<And>x. f x = Inr s' \<Longrightarrow> server_inv s') \<Longrightarrow> server_inv s'" for r f
    by (cases r) auto
  show ?thesis
    using res unfolding on_message_def Let_def
    by (elim read) (auto simp: on_login_inv [OF inv c] e split: if_split_asm
        elim!: read intro: relay_inv [OF inv])
qed

lemma on_close_inv:
  assumes inv: "server_inv s" and c: "conns s c = Some k" "is_open k" and res: "on_close c s = Inr s'"
  shows "server_inv s'"
proof -
  let ?s0 = "upd_conn c (\<lambda>k. k\<lparr>is_open := False\<rparr>) s"
  let ?s1 = "?s0\<lparr>users := (users ?s0)(js_key (sname k) := None)\<rparr>"
  have i0: "server_inv ?s0"
    using inv c(1) by (auto simp: server_inv_def upd_conn_def split: if_splits)
  have i1: "server_inv ?s1" if "js_truthy (sname k)"
  proof -
    have "users s (js_key (sname k)) = Some c" using inv c that by (auto simp: server_inv_def)
    with i0 show ?thesis
      unfolding server_inv_def by (auto simp: upd_conn_def split: if_splits)
  qed
  show ?thesis
    using res c(1) i0 i1
    by (auto simp: on_close_def Let_def js_bind_eq_Inr split: if_splits dest!: clear_other_inv [OF i1]
        dest: send_ref_inv)
qed

lemma server_reachable_inv: "server_reachable s \<Longrightarrow> server_inv s"
proof (induction rule: server_reachable.induct)
  case start
  show ?case by (simp add: server_inv_def server_init_def)
next
  case (step s ev s')
  show ?case
  proof (cases ev)
    case (Connected c)
    with step have "conns s c = None" "s' = on_connection c s" by (auto split: if_splits)
    with step.IH show ?thesis
      by (auto simp: on_connection_def server_inv_def split: if_splits)
  next
    case (Message c m)
    with step obtain k where "conns s c = Some k" "on_message c m s = Inr s'" by (auto split: option.splits if_splits)
    with step.IH show ?thesis by (blast intro: on_message_inv)
  next
    case (Closed c)
    with step obtain k where "conns s c = Some k" "is_open k" "on_close c s = Inr s'"
      by (auto split: option.splits if_splits)
    with step.IH show ?thesis by (blast intro: on_close_inv)
  qed
qed

subsection \<open>Properties\<close>


definition ex_msg :: "string \<Rightarrow> string \<Rightarrow> jsval option" where
  "ex_msg type nm = Some (JsObj [(''type'', JsStr type), (''name'', JsStr nm)])"

fun server_run :: "server_event list \<Rightarrow> server \<Rightarrow> server js option" where
  "server_run [] s = Some (Inr s)"
| "server_run (ev # evs) s =
     (case server_step ev s of Some (Inr s') \<Rightarrow> server_run evs s' | r \<Rightarrow> r)"

lemma server_run_reachable:
  "server_reachable s \<Longrightarrow> server_run evs s = Some (Inr s') \<Longrightarrow> server_reachable s'"
  by (induction evs arbitrary: s) (auto split: option.splits sum.splits intro: server_reachable.step)

text \<open>Two users log in and the first calls the second.\<close>

definition ex_server :: server where
  "ex_server =
     (case server_run [Connected 0, Connected 1, Message 0 (ex_msg ''login'' ''ann''), Message 1 (ex_msg ''login'' ''bob''),
        Message 0 (ex_msg ''offer'' ''bob'')] server_init of
        Some (Inr s) \<Rightarrow> s | _ \<Rightarrow> server_init)"

lemmas server_eval = server_init_def on_connection_def on_message_def on_login_def on_offer_def on_answer_def
  on_candidate_def on_leave_def on_close_def sendTo_def send_ref_def upd_conn_def clear_other_def users_at_def
  conn_name_def js_object_def ex_msg_def proto_keys_def Let_def

lemma ex_server_run:
  "server_run [Connected 0, Connected 1, Message 0 (ex_msg ''login'' ''ann''), Message 1 (ex_msg ''login'' ''bob''),
     Message 0 (ex_msg ''offer'' ''bob'')] server_init = Some (Inr ex_server)"
  by (simp add: ex_server_def server_eval)

lemma ex_server_eval:
  "conns ex_server 0 = Some \<lparr>sname = JsStr ''ann'', otherName = JsStr ''bob'', is_open = True\<rparr>"
  "conns ex_server 1 = Some \<lparr>sname = JsStr ''bob'', otherName = JsUndefined, is_open = True\<rparr>"
  by (simp_all add: ex_server_def server_eval)

lemma ex_server_reachable: "server_reachable ex_server"
  using server_run_reachable [OF server_reachable.start ex_server_run] .


text \<open>
  Forwarding: an offer, answer or candidate that a logged-in connection addresses to a logged-in
  user reaches exactly that user's connection, once. An offer carries the caller's own name, whatever
  the message claims; an answer and a candidate carry no name at all.
\<close>

theorem server_forwards_to_addressee:
  assumes "server_reachable s"
    and "conns s c = Some k" "is_open k" "sname k = JsStr caller"
    and "conns s d = Some l" "is_open l" "sname l = JsStr callee" "callee \<noteq> ''''"
    and "v \<noteq> JsUndefined"
  shows "\<exists>s1 s2 s3.
    on_message c (Some (JsObj [(''type'', JsStr ''offer''), (''name'', JsStr callee), (''offer'', v)])) s = Inr s1 \<and>
    outbox s1 = outbox s @ [(d, JsObj [(''type'', JsStr ''offer''), (''offer'', v), (''name'', JsStr caller)])] \<and>
    on_message c (Some (JsObj [(''type'', JsStr ''answer''), (''name'', JsStr callee), (''answer'', v)])) s = Inr s2 \<and>
    outbox s2 = outbox s @ [(d, JsObj [(''type'', JsStr ''answer''), (''answer'', v)])] \<and>
    on_message c (Some (JsObj [(''type'', JsStr ''candidate''), (''name'', JsStr callee), (''candidate'', v)])) s = Inr s3 \<and>
    outbox s3 = outbox s @ [(d, JsObj [(''type'', JsStr ''candidate''), (''candidate'', v)])]"
proof -
  have "users s callee = Some d"
    using server_invD [OF server_reachable_inv [OF assms(1)] assms(5,6)] assms(7,8) by simp
  then have u: "users_at (JsStr callee) s' = User d" if "users s' = users s" for s'
    using that by (simp add: users_at_def)
  show ?thesis
    using assms(2-9) u
    by (auto simp: on_message_def Let_def on_offer_def on_answer_def on_candidate_def send_ref_def sendTo_def
        upd_conn_def conn_name_def js_object_def)
qed

theorem server_forwards_to_addressee_witness:
  "\<exists>s1. on_message 0 (Some (JsObj [(''type'', JsStr ''offer''), (''name'', JsStr ''bob''), (''offer'', JsStr ''v=0'')]))
      ex_server = Inr s1 \<and>
    outbox s1 = outbox ex_server @
      [(1, JsObj [(''type'', JsStr ''offer''), (''offer'', JsStr ''v=0''), (''name'', JsStr ''ann'')])]"
  using server_forwards_to_addressee [OF ex_server_reachable ex_server_eval(1) _ _ ex_server_eval(2),
      of "''ann''" "''bob''" "JsStr ''v=0''"]
  by auto


definition ex_server_gone :: server where
  "ex_server_gone = (case server_run [Closed 1] ex_server of Some (Inr s) \<Rightarrow> s | _ \<Rightarrow> server_init)"

lemma ex_server_gone_eval:
  "conns ex_server_gone 0 = Some \<lparr>sname = JsStr ''ann'', otherName = JsStr ''bob'', is_open = True\<rparr>"
  "users_at (JsStr ''bob'') ex_server_gone = Nobody"
  by (simp_all add: ex_server_gone_def ex_server_def server_eval)


text \<open>
  A connection that logs in under a second name and then closes leaves its first name behind:
  the entry still refers to the closed connection, so every later login under that name is refused
  and messages to it go nowhere.
\<close>

theorem second_login_leaks_first_name:
  assumes "server_reachable s"
    and "conns s c = Some k" "is_open k" "sname k = JsStr first" "first \<noteq> ''''"
    and "\<not> js_truthy (otherName k)"
    and "users_at (JsStr second) s = Nobody" "second \<noteq> ''''"
  shows "\<exists>s'. on_close c (on_login c (JsStr second) s) = Inr s' \<and> users_at (JsStr first) s' = User c \<and>
    (\<exists>k'. conns s' c = Some k' \<and> \<not> is_open k') \<and>
    (\<forall>d. on_login d (JsStr first) s' = sendTo d (JsObj [(''type'', JsStr ''login''), (''success'', JsBool False)]) s') \<and>
    (\<forall>m. sendTo c m s' = s')"
proof -
  have u: "users s first = Some c"
    using server_invD [OF server_reachable_inv [OF assms(1)] assms(2,3)] assms(4,5) by simp
  have ne: "first \<noteq> second" using u assms(7) by (auto simp: users_at_def)
  let ?s1 = "on_login c (JsStr second) s"
  have c1: "conns ?s1 c = Some (k\<lparr>sname := JsStr second\<rparr>)" "users ?s1 first = Some c"
    using assms(2,7) u ne by (auto simp: on_login_def Let_def upd_conn_def)
  let ?s' = "(upd_conn c (\<lambda>k. k\<lparr>is_open := False\<rparr>) ?s1)\<lparr>users := (users ?s1)(second := None)\<rparr>"
  have s': "on_close c ?s1 = Inr ?s'"
    using c1(1) assms(6,8) by (simp add: on_close_def Let_def)
  have c': "users ?s' first = Some c" "conns ?s' c = Some (k\<lparr>sname := JsStr second, is_open := False\<rparr>)"
    using c1 ne by (simp_all add: upd_conn_def)
  then have "users_at (JsStr first) ?s' = User c" by (simp add: users_at_def)
  with s' c' show ?thesis by (auto simp: on_login_def sendTo_def js_object_def)
qed

definition ex_server_ann :: server where
  "ex_server_ann =
     (case server_run [Connected 0, Message 0 (ex_msg ''login'' ''ann'')] server_init of
        Some (Inr s) \<Rightarrow> s | _ \<Rightarrow> server_init)"

lemma ex_server_ann_eval:
  "server_run [Connected 0, Message 0 (ex_msg ''login'' ''ann'')] server_init = Some (Inr ex_server_ann)"
  "conns ex_server_ann 0 = Some \<lparr>sname = JsStr ''ann'', otherName = JsUndefined, is_open = True\<rparr>"
  "users_at (JsStr ''eve'') ex_server_ann = Nobody"
  by (simp_all add: ex_server_ann_def server_eval)

theorem second_login_leaks_first_name_witness:
  "\<exists>s'. on_close 0 (on_login 0 (JsStr ''eve'') ex_server_ann) = Inr s' \<and> users_at (JsStr ''ann'') s' = User 0"
proof -
  have r: "server_reachable ex_server_ann"
    using server_run_reachable [OF server_reachable.start ex_server_ann_eval(1)] .
  from second_login_leaks_first_name [OF r ex_server_ann_eval(2), of "''ann''" "''eve''"] ex_server_ann_eval(3)
  show ?thesis by auto
qed

end
