(* ===== verification/Signalling.thy ===== *)
theory Signalling
  imports NetworkProperties SignallingServer
begin

section \<open>Clients and server together\<close>

text \<open>
  What lies between a client and the signalling server: the client writes a JSON document with jsoncpp
  and the server reads it with \<^verbatim>\<open>JSON.parse\<close>; the server writes an object with \<^verbatim>\<open>JSON.stringify\<close> and the
  client reads it with jsoncpp. The two functions of JavaScript are parameters. \<open>js_is\<close> relates a JavaScript
  value to the document it stands for, up to the order of the members; \<open>server_reads\<close> and \<open>client_reads\<close>
  say of one text that its reader gets the document its writer wrote.

  The lemmas carry a text from the callback that sends it through the server's handler. The root theory
  puts them together with the handler of the receiving client.
\<close>

subsection \<open>The wire\<close>

fun to_json :: "'j json_lib \<Rightarrow> jdoc \<Rightarrow> 'j" where
  "to_json J JNull = jnull J"
| "to_json J (JInt i) = jint J i"
| "to_json J (JStr t) = jstring J t"
| "to_json J (JObj ds) = jobject J (map (\<lambda>(k, d). (k, to_json J d)) ds)"

inductive js_is :: "jsval \<Rightarrow> jdoc \<Rightarrow> bool" where
  null: "js_is JsNull JNull"
| num: "js_is (JsNum i) (JInt i)"
| str: "js_is (JsStr t) (JStr t)"
| obj: "(\<And>k. map_of ms k = None \<longleftrightarrow> map_of ds k = None) \<Longrightarrow>
        (\<And>k v d. map_of ms k = Some v \<Longrightarrow> map_of ds k = Some d \<Longrightarrow> js_is v d) \<Longrightarrow>
        js_is (JsObj ms) (JObj ds)"

inductive_simps js_is_simps [simp]: "js_is v (JStr t)" "js_is (JsStr t) d"

definition server_reads :: "'j json_lib \<Rightarrow> (string \<Rightarrow> jsval option) \<Rightarrow> jdoc \<Rightarrow> bool" where
  "server_reads J parse d \<longleftrightarrow> (\<exists>v. parse (jwrite J (to_json J d)) = Some v \<and> js_is v d)"

definition client_reads :: "'j json_lib \<Rightarrow> (jsval \<Rightarrow> string) \<Rightarrow> jsval \<Rightarrow> bool" where
  "client_reads J stringify v \<longleftrightarrow> (\<exists>d. jparse J (c_str (stringify v)) = Some (to_json J d) \<and> js_is v d)"

lemma to_json_member:
  "map_of (map (\<lambda>(k, d). (k, to_json J d)) ds) k = map_option (to_json J) (map_of ds k)"
  by (induction ds) auto

text \<open>Members are read on one side exactly when they were written on the other, and a text is that text.\<close>

lemma js_is_member:
  assumes "js_is (JsObj ms) (JObj ds)"
  shows "map_of ms k = None \<longleftrightarrow> map_of ds k = None"
    and "map_of ms k = Some v \<Longrightarrow> \<exists>d. map_of ds k = Some d \<and> js_is v d"
    and "map_of ds k = Some d \<Longrightarrow> \<exists>v. map_of ms k = Some v \<and> js_is v d"
proof -
  have eq: "map_of ms k = None \<longleftrightarrow> map_of ds k = None"
    "\<And>v d. map_of ms k = Some v \<Longrightarrow> map_of ds k = Some d \<Longrightarrow> js_is v d" for k
    using assms by (auto elim: js_is.cases)
  show "map_of ms k = None \<longleftrightarrow> map_of ds k = None" by (rule eq(1))
  show "\<exists>d. map_of ds k = Some d \<and> js_is v d" if "map_of ms k = Some v"
    using eq(1) [of k] eq(2) [of k v] that by (cases "map_of ds k") simp_all
  show "\<exists>v. map_of ms k = Some v \<and> js_is v d" if "map_of ds k = Some d"
    using eq(1) [of k] eq(2) [of k _ d] that by (cases "map_of ms k") simp_all
qed

lemma js_is_text:
  assumes "js_is (JsObj ms) (JObj ds)"
  shows "map_of ds k = Some (JStr t) \<longleftrightarrow> map_of ms k = Some (JsStr t)"
  using js_is_member(2) [OF assms, of k "JsStr t"] js_is_member(3) [OF assms, of k "JStr t"] by auto

lemma server_readsE:
  assumes "server_reads J parse (JObj ds)"
  obtains ms where "parse (jwrite J (to_json J (JObj ds))) = Some (JsObj ms)" and "js_is (JsObj ms) (JObj ds)"
proof -
  obtain v where v: "parse (jwrite J (to_json J (JObj ds))) = Some v" "js_is v (JObj ds)"
    using assms unfolding server_reads_def by blast
  from v(2) obtain ms where "v = JsObj ms" by (cases rule: js_is.cases) blast
  with v that show thesis by blast
qed

lemma client_readsI:
  "jparse J (c_str (stringify v)) = Some (to_json J d) \<Longrightarrow> js_is v d \<Longrightarrow> client_reads J stringify v"
  unfolding client_reads_def by blast

lemma client_readsE:
  assumes "client_reads J stringify (JsObj ms)"
  obtains ds where "jparse J (c_str (stringify (JsObj ms))) = Some (to_json J (JObj ds))" and "js_is (JsObj ms) (JObj ds)"
proof -
  obtain d where d: "jparse J (c_str (stringify (JsObj ms))) = Some (to_json J d)" "js_is (JsObj ms) d"
    using assms unfolding client_reads_def by blast
  from d(2) obtain ds where "d = JObj ds" by (cases rule: js_is.cases) blast
  with d that show thesis by blast
qed

subsection \<open>From the callback to the text\<close>

lemma OnCreateSuccess_sends:
  assumes "objects s p = Some ob" and "peer_connection (payload ob) = Some pc" and "iswebsocketconnected s"
    and "GetType desc = kOffer" and "desc_ToString desc = Some sdp"
  shows "\<exists>s'. OnCreateSuccess J p desc s = Inr s' \<and> client_calls s' = client_calls s @
    [WsSend (jwrite J (to_json J (JObj [(''offer'', JStr sdp), (''name'', JStr (wn_name (payload ob))),
                                        (''type'', JStr ''offer'')])))]"
  using assms by (simp add: OnCreateSuccess_def this_pc_def this_obj_def nonnull_def ws_send_def Let_def)

lemma OnIceCandidate_sends:
  assumes "objects s p = Some ob" and "iswebsocketconnected s"
  shows "\<exists>s'. OnIceCandidate J p cand s = Inr s' \<and> client_calls s' = client_calls s @
    [WsSend (jwrite J (to_json J (JObj
      [(''candidate'', JObj [(''sdpMLineIndex'', JInt (cand_sdp_mline_index cand)), (''sdpMid'', JStr (cand_sdp_mid cand)),
         (''candidate'', JStr (case cand_ToString cand of None \<Rightarrow> '''' | Some t \<Rightarrow> t))]),
       (''name'', JStr (wn_name (payload ob))), (''type'', JStr ''candidate'')])))]"
  using assms by (simp add: OnIceCandidate_def this_obj_def ws_send_def Let_def)

lemma InitializePeerConnection_line [simp]:
  "iswebsocketconnected (snd (InitializePeerConnection L s)) = iswebsocketconnected s"
  "client_calls (snd (InitializePeerConnection L s)) = client_calls s"
  by (simp_all add: InitializePeerConnection_def create_thread_def rtc_def Let_def)

lemma NetworkInit_sends:
  assumes "connect_outcome W (client_calls s @ [WsSetMessageHandler, WsConnect ''ws://localhost:9090'']) = WsDone"
  shows "\<exists>x. NetworkInit J W L player s = Inr x \<and> iswebsocketconnected (snd x) \<and>
    client_calls (snd x) = client_calls s @ [WsSetMessageHandler, WsConnect ''ws://localhost:9090'',
      WsSend (jwrite J (to_json J (JObj [(''name'', JStr player), (''type'', JStr ''login'')])))]"
  using assms by (simp add: NetworkInit_def ws_connect_def ws_setreceivehandler_def ws_send_def Let_def)

subsection \<open>Through the server\<close>

lemma users_of_open:
  assumes "server_reachable s" and "conns s d = Some l" and "is_open l" and "sname l = JsStr nm" and "nm \<noteq> ''''"
  shows "users s nm = Some d"
  using server_invD [OF server_reachable_inv [OF assms(1)] assms(2,3)] assms(4,5) by simp

lemma server_forwards_offer:
  assumes "conns s c = Some k" "sname k = JsStr caller" and "users s callee = Some d" "conns s d = Some l" "is_open l"
    and "map_of ms ''type'' = Some (JsStr ''offer'')" "map_of ms ''name'' = Some (JsStr callee)"
      "map_of ms ''offer'' = Some (JsStr sdp)"
  shows "\<exists>s'. on_message c (Some (JsObj ms)) s = Inr s' \<and> outbox s' = outbox s @
    [(d, JsObj [(''type'', JsStr ''offer''), (''offer'', JsStr sdp), (''name'', JsStr caller)])]"
  using assms
  by (auto simp: on_message_def Let_def on_offer_def users_at_def send_ref_def sendTo_def upd_conn_def
      conn_name_def js_object_def)

lemma server_forwards_candidate:
  assumes "users s callee = Some d" "conns s d = Some l" "is_open l"
    and "map_of ms ''type'' = Some (JsStr ''candidate'')" "map_of ms ''name'' = Some (JsStr callee)"
      "map_of ms ''candidate'' = Some v" "v \<noteq> JsUndefined"
  shows "\<exists>s'. on_message c (Some (JsObj ms)) s = Inr s' \<and> outbox s' = outbox s @
    [(d, JsObj [(''type'', JsStr ''candidate''), (''candidate'', v)])]"
  using assms
  by (auto simp: on_message_def Let_def on_candidate_def users_at_def send_ref_def sendTo_def js_object_def)

lemma server_registers:
  assumes "conns s c = Some k" "is_open k" and "users s player = None" "player \<notin> set proto_keys"
    and "map_of ms ''type'' = Some (JsStr ''login'')" "map_of ms ''name'' = Some (JsStr player)"
  shows "\<exists>s'. on_message c (Some (JsObj ms)) s = Inr s' \<and> users s' = (users s)(player \<mapsto> c) \<and>
    conns s' c = Some (k\<lparr>sname := JsStr player\<rparr>) \<and>
    outbox s' = outbox s @ [(c, JsObj [(''type'', JsStr ''login''), (''success'', JsBool True)])]"
  using assms
  by (auto simp: on_message_def Let_def on_login_def users_at_def sendTo_def upd_conn_def js_object_def)

lemma js_is_same_order:
  assumes "list_all2 (\<lambda>(k, v) (k', d). k = k' \<and> js_is v d) ms ds"
  shows "js_is (JsObj ms) (JObj ds)"
proof (rule js_is.obj)
  show "map_of ms k = None \<longleftrightarrow> map_of ds k = None" for k
    using assms by (induction rule: list_all2_induct) auto
  show "js_is v d" if "map_of ms k = Some v" "map_of ds k = Some d" for k v d
    using assms that by (induction rule: list_all2_induct) (auto split: if_splits)
qed

subsection \<open>At the receiver\<close>

lemma candidate_object_throws:
  assumes J: "jsoncpp_laws J" and t: "jparse J (c_str t) = Some (to_json J (JObj ds))"
    and ds: "map_of ds ''type'' = Some (JStr ''candidate'')" "map_of ds ''name'' = None"
      "map_of ds ''candidate'' = Some (JObj cs)" "cs \<noteq> []"
  shows "OnWebSocketMessage J L t s = Inl JsonLogicError"
proof -
  let ?ms = "map (\<lambda>(k, d). (k, to_json J d)) ds"
  have ms: "map_of ?ms ''type'' = Some (jstring J ''candidate'')" "map_of ?ms ''name'' = None"
    "map_of ?ms ''candidate'' = Some (to_json J (JObj cs))"
    using ds by (simp_all add: to_json_member)
  have "asString J (to_json J (JObj cs)) = Inl JsonLogicError" using ds(4) asString_jobject [OF J] by simp
  then have "res_bind (jget J (jobject J ?ms) ''candidate'') (asString J) = Inl JsonLogicError"
    using ms(3) by (simp add: jget_jobject [OF J])
  then show ?thesis
    using t read_string(1) [OF J ms(1)] read_string(2) [OF J ms(2)] by (simp add: OnWebSocketMessage_def Let_def)
qed

lemma offer_member_lost:
  assumes J: "jsoncpp_laws J" and L: "sdp_laws L"
    and t: "jparse J (c_str t) = Some (to_json J (JObj ds))"
    and ds: "map_of ds ''type'' = Some (JStr ''offer'')" "map_of ds ''name'' = Some (JStr caller)"
      "map_of ds ''offer'' = Some (JStr sdp)" "map_of ds ''data'' = None"
    and s: "reachable J W L ext s" "ready s" "creates L"
  shows "\<exists>s'. OnWebSocketMessage J L t s = Inr s' \<and>
    filter negotiates (rtc_calls s') = filter negotiates (rtc_calls s) \<and>
    (\<exists>p ob. connections s' caller = Some (Some p) \<and> objects s' p = Some ob \<and> data_channel (payload ob) = None)"
  by (rule offers_of_this_client_are_lost [OF J L _ _ _ _ _ s, of t "map (\<lambda>(k, d). (k, to_json J d)) ds" caller sdp])
    (use t ds in \<open>simp_all add: to_json_member\<close>)

subsection \<open>An example\<close>

text \<open>Two players are logged in; the functions of the wire know the texts of the example.\<close>

definition ex_pair :: server where
  "ex_pair =
     (case server_run [Connected 0, Connected 1, Message 0 (ex_msg ''login'' ''me''), Message 1 (ex_msg ''login'' ''you'')]
        server_init of Some (Inr s) \<Rightarrow> s | _ \<Rightarrow> server_init)"

lemma ex_pair_run:
  "server_run [Connected 0, Connected 1, Message 0 (ex_msg ''login'' ''me''), Message 1 (ex_msg ''login'' ''you'')]
     server_init = Some (Inr ex_pair)"
  by (simp add: ex_pair_def server_eval)

lemma ex_pair_eval:
  "conns ex_pair 0 = Some \<lparr>sname = JsStr ''me'', otherName = JsUndefined, is_open = True\<rparr>"
  "conns ex_pair 1 = Some \<lparr>sname = JsStr ''you'', otherName = JsUndefined, is_open = True\<rparr>"
  by (simp_all add: ex_pair_def server_eval)

lemma ex_pair_reachable: "server_reachable ex_pair"
  using server_run_reachable [OF server_reachable.start ex_pair_run] .

definition ex_parse :: "jsval \<Rightarrow> string \<Rightarrow> jsval option" where
  "ex_parse v t = (if t = ''json'' then Some v else None)"

lemma ex_server_reads: "js_is v d \<Longrightarrow> server_reads ex_texts (ex_parse v) d"
  by (simp add: server_reads_def ex_parse_def ex_texts_eval)

lemma to_json_ex_texts: "list_all (\<lambda>(k, d). to_json ex_texts d = d) ds \<Longrightarrow> ds \<noteq> [] \<Longrightarrow> to_json ex_texts (JObj ds) = JObj ds"
proof -
  assume "list_all (\<lambda>(k, d). to_json ex_texts d = d) ds" and ne: "ds \<noteq> []"
  then have "map (\<lambda>(k, d). (k, to_json ex_texts d)) ds = ds"
    by (induction ds) auto
  then show ?thesis using ne by (simp add: ex_texts_def jobject_doc)
qed

end
