(* ===== verification/Buffer.thy ===== *)
theory Buffer
  imports Prelude
begin

section \<open>The class \<^verbatim>\<open>BufferT\<close>\<close>

text \<open>
  \<^verbatim>\<open>rtc_base/buffer.h\<close>: a growable array of trivial elements whose new space is not initialised. A
  cell of the heap block is \<open>None\<close> until it is written. \<open>z\<close> is the template argument
  \<^verbatim>\<open>ZeroOnFree\<close>. The ghost field \<open>freed\<close> lists the blocks the object gave back to the allocator,
  with their contents at that moment. Failing debug checks are the fault \<open>DcheckFailed\<close>; a copy
  outside the block is \<open>OutOfBounds\<close>. Sizes are \<^verbatim>\<open>size_t\<close>: the sums that the code forms wrap
  around. Allocation does not fail.
\<close>

subsection \<open>State\<close>

type_synonym 'a cells = "'a option list"

record 'a BufferT =
  buf_size :: nat
  buf_capacity :: nat
  buf_data :: "'a cells option"
  freed :: "'a cells list"

definition buf_block :: "'a BufferT \<Rightarrow> 'a cells" where
  "buf_block b = (case buf_data b of None \<Rightarrow> [] | Some cs \<Rightarrow> cs)"

definition IsConsistent :: "'a BufferT \<Rightarrow> bool" where
  "IsConsistent b \<longleftrightarrow> (buf_data b \<noteq> None \<or> buf_capacity b = 0) \<and> buf_size b \<le> buf_capacity b"

definition dcheck :: "bool \<Rightarrow> 'a \<Rightarrow> 'a res" where
  "dcheck c x = (if c then Inr x else Inl DcheckFailed)"

text \<open>\<^verbatim>\<open>memcpy\<close> of initialised elements to an offset of a block.\<close>

definition write_at :: "nat \<Rightarrow> 'a list \<Rightarrow> 'a cells \<Rightarrow> 'a cells res" where
  "write_at off xs cs =
     (if off + length xs \<le> length cs
      then Inr (take off cs @ map Some xs @ drop (off + length xs) cs)
      else Inl OutOfBounds)"

subsection \<open>Private helpers\<close>

text \<open>\<^verbatim>\<open>MaybeZeroCompleteBuffer\<close>.\<close>

definition MaybeZeroCompleteBuffer :: "bool \<Rightarrow> 'a::zero BufferT \<Rightarrow> 'a BufferT" where
  "MaybeZeroCompleteBuffer z b =
     (if z \<and> buf_capacity b > 0 then b\<lparr>buf_data := map_option (map (\<lambda>_. Some 0)) (buf_data b)\<rparr> else b)"

definition ZeroTrailingData :: "nat \<Rightarrow> 'a::zero BufferT \<Rightarrow> 'a BufferT res" where
  "ZeroTrailingData n b =
     (if \<not> IsConsistent b \<or> \<not> n \<le> buf_capacity b - buf_size b then Inl DcheckFailed
      else res_bind (write_at (buf_size b) (replicate n 0) (buf_block b)) (\<lambda>cs.
             Inr (b\<lparr>buf_data := map_option (\<lambda>_. cs) (buf_data b)\<rparr>)))"

definition OnMovedFrom :: "'a BufferT \<Rightarrow> 'a BufferT res" where
  "OnMovedFrom b = dcheck (buf_data b = None) (b\<lparr>buf_size := 1, buf_capacity := 0\<rparr>)"

text \<open>Giving a block back: a null pointer is not a block.\<close>

definition free_block :: "'a cells option \<Rightarrow> 'a BufferT \<Rightarrow> 'a BufferT" where
  "free_block d b = (case d of None \<Rightarrow> b | Some cs \<Rightarrow> b\<lparr>freed := freed b @ [cs]\<rparr>)"

definition EnsureCapacityWithHeadroom :: "bool \<Rightarrow> nat \<Rightarrow> bool \<Rightarrow> 'a::zero BufferT \<Rightarrow> 'a BufferT res" where
  "EnsureCapacityWithHeadroom z capacity extra_headroom b =
     (if \<not> IsConsistent b then Inl DcheckFailed
      else if capacity \<le> buf_capacity b then Inr b
      else
        let new_capacity =
              (if extra_headroom
               then max capacity (size_add (buf_capacity b) (buf_capacity b div 2)) else capacity);
            new_data = take (buf_size b) (buf_block b) @ replicate (new_capacity - buf_size b) None;
            b1 = MaybeZeroCompleteBuffer z b;
            b2 = (free_block (buf_data b1) b1)\<lparr>buf_data := Some new_data, buf_capacity := new_capacity\<rparr>
        in dcheck (IsConsistent b2) b2)"

subsection \<open>Construction and destruction\<close>

definition Buffer_empty :: "'a BufferT" where
  "Buffer_empty = \<lparr>buf_size = 0, buf_capacity = 0, buf_data = None, freed = []\<rparr>"

definition Buffer_uninit :: "nat \<Rightarrow> nat \<Rightarrow> 'a BufferT" where
  "Buffer_uninit n capacity =
     (let c = max n capacity
      in \<lparr>buf_size = n, buf_capacity = c,
          buf_data = (if c > 0 then Some (replicate c None) else None), freed = []\<rparr>)"

definition Buffer_from :: "'a list \<Rightarrow> nat \<Rightarrow> 'a BufferT res" where
  "Buffer_from xs capacity =
     (let b = Buffer_uninit (length xs) capacity
      in res_bind (write_at 0 xs (buf_block b)) (\<lambda>cs.
           Inr (b\<lparr>buf_data := map_option (\<lambda>_. cs) (buf_data b)\<rparr>)))"

text \<open>The move constructor: the new buffer and what is left of the source.\<close>

definition Buffer_move :: "'a BufferT \<Rightarrow> ('a BufferT \<times> 'a BufferT) res" where
  "Buffer_move buf =
     (if \<not> IsConsistent buf then Inl DcheckFailed
      else res_bind (OnMovedFrom (buf\<lparr>buf_data := None\<rparr>)) (\<lambda>buf'.
             Inr (\<lparr>buf_size = buf_size buf, buf_capacity = buf_capacity buf, buf_data = buf_data buf,
                   freed = []\<rparr>, buf')))"

text \<open>The destructor; the member \<^verbatim>\<open>data_\<close> gives its block back. The result is the list of freed blocks.\<close>

definition Buffer_destroy :: "bool \<Rightarrow> 'a::zero BufferT \<Rightarrow> 'a cells list" where
  "Buffer_destroy z b =
     (let b1 = MaybeZeroCompleteBuffer z b in freed (free_block (buf_data b1) b1))"

text \<open>Move assignment from another object.\<close>

definition Buffer_assign_move ::
  "bool \<Rightarrow> 'a::zero BufferT \<Rightarrow> 'a BufferT \<Rightarrow> ('a BufferT \<times> 'a BufferT) res" where
  "Buffer_assign_move z b buf =
     (if \<not> IsConsistent buf then Inl DcheckFailed
      else
        let b1 = MaybeZeroCompleteBuffer z b;
            b2 = b1\<lparr>buf_size := buf_size buf, buf_capacity := buf_capacity buf, buf_data := buf_data buf\<rparr>;
            buf1 = (free_block (buf_data b1) buf)\<lparr>buf_data := None\<rparr>
        in res_bind (OnMovedFrom buf1) (\<lambda>buf2. Inr (b2, buf2)))"

definition Buffer_swap :: "'a BufferT \<times> 'a BufferT \<Rightarrow> 'a BufferT \<times> 'a BufferT" where
  "Buffer_swap p =
     (let a = fst p; b = snd p
      in (a\<lparr>buf_size := buf_size b, buf_capacity := buf_capacity b, buf_data := buf_data b\<rparr>,
          b\<lparr>buf_size := buf_size a, buf_capacity := buf_capacity a, buf_data := buf_data a\<rparr>))"

subsection \<open>Reading\<close>

definition Buffer_size :: "'a BufferT \<Rightarrow> nat res" where
  "Buffer_size b = dcheck (IsConsistent b) (buf_size b)"

definition Buffer_is_empty :: "'a BufferT \<Rightarrow> bool res" where
  "Buffer_is_empty b = dcheck (IsConsistent b) (buf_size b = 0)"

definition Buffer_capacity :: "'a BufferT \<Rightarrow> nat res" where
  "Buffer_capacity b = dcheck (IsConsistent b) (buf_capacity b)"

definition Buffer_data :: "'a BufferT \<Rightarrow> 'a cells option res" where
  "Buffer_data b = dcheck (IsConsistent b) (buf_data b)"

definition read_cell :: "nat \<Rightarrow> 'a cells \<Rightarrow> 'a res" where
  "read_cell i cs =
     (if i < length cs then (case cs ! i of None \<Rightarrow> Inl UninitRead | Some x \<Rightarrow> Inr x) else Inl OutOfBounds)"

definition Buffer_index :: "nat \<Rightarrow> 'a BufferT \<Rightarrow> 'a res" where
  "Buffer_index i b =
     (if \<not> i < buf_size b then Inl DcheckFailed
      else res_bind (Buffer_data b) (\<lambda>_. read_cell i (buf_block b)))"

definition Buffer_put :: "nat \<Rightarrow> 'a \<Rightarrow> 'a BufferT \<Rightarrow> 'a BufferT res" where
  "Buffer_put i x b =
     (if \<not> i < buf_size b then Inl DcheckFailed
      else res_bind (Buffer_data b) (\<lambda>_. res_bind (write_at i [x] (buf_block b)) (\<lambda>cs.
             Inr (b\<lparr>buf_data := map_option (\<lambda>_. cs) (buf_data b)\<rparr>))))"

text \<open>The loop of \<^verbatim>\<open>operator==\<close> for elements that are not integers.\<close>

fun eq_loop :: "nat \<Rightarrow> nat \<Rightarrow> 'a cells \<Rightarrow> 'a cells \<Rightarrow> bool res" where
  "eq_loop 0 i cs ds = Inr True"
| "eq_loop (Suc n) i cs ds =
     res_bind (read_cell i cs) (\<lambda>x. res_bind (read_cell i ds) (\<lambda>y.
       if x \<noteq> y then Inr False else eq_loop n (Suc i) cs ds))"

text \<open>\<^verbatim>\<open>memcmp\<close> reads both blocks over the whole size.\<close>

definition cells_equal :: "nat \<Rightarrow> 'a cells \<Rightarrow> 'a cells \<Rightarrow> bool res" where
  "cells_equal n cs ds =
     (if length cs < n \<or> length ds < n then Inl OutOfBounds
      else if None \<in> set (take n cs) \<union> set (take n ds) then Inl UninitRead
      else Inr (take n cs = take n ds))"

definition Buffer_equal :: "bool \<Rightarrow> 'a BufferT \<Rightarrow> 'a BufferT \<Rightarrow> bool res" where
  "Buffer_equal is_integral b buf =
     (if \<not> IsConsistent b then Inl DcheckFailed
      else if buf_size b \<noteq> buf_size buf then Inr False
      else if is_integral then cells_equal (buf_size b) (buf_block b) (buf_block buf)
      else eq_loop (buf_size b) 0 (buf_block b) (buf_block buf))"

subsection \<open>Writing\<close>

definition SetSize :: "bool \<Rightarrow> nat \<Rightarrow> 'a::zero BufferT \<Rightarrow> 'a BufferT res" where
  "SetSize z n b =
     res_bind (EnsureCapacityWithHeadroom z n True b) (\<lambda>b1.
       let b2 = b1\<lparr>buf_size := n\<rparr>
       in if z \<and> n < buf_size b then ZeroTrailingData (buf_size b - n) b2 else Inr b2)"

definition AppendData :: "bool \<Rightarrow> 'a::zero list \<Rightarrow> 'a BufferT \<Rightarrow> 'a BufferT res" where
  "AppendData z xs b =
     (if \<not> IsConsistent b then Inl DcheckFailed
      else
        let new_size = size_add (buf_size b) (length xs)
        in res_bind (EnsureCapacityWithHeadroom z new_size True b) (\<lambda>b1.
           res_bind (write_at (buf_size b1) xs (buf_block b1)) (\<lambda>cs.
             let b2 = b1\<lparr>buf_data := map_option (\<lambda>_. cs) (buf_data b1), buf_size := new_size\<rparr>
             in dcheck (IsConsistent b2) b2)))"

text \<open>
  \<open>setter\<close> writes into a view of \<open>max_elements\<close> cells and says how many it wrote: from the cells
  of the view it makes their new contents and a count.
\<close>

definition AppendData_setter ::
  "bool \<Rightarrow> nat \<Rightarrow> ('a cells \<Rightarrow> 'a cells \<times> nat) \<Rightarrow> 'a::zero BufferT \<Rightarrow> (nat \<times> 'a BufferT) res" where
  "AppendData_setter z max_elements setter b =
     (if \<not> IsConsistent b then Inl DcheckFailed
      else
        let old_size = buf_size b
        in res_bind (SetSize z (size_add old_size max_elements) b) (\<lambda>b1.
           res_bind (Buffer_data b1) (\<lambda>_.
             let cs = buf_block b1;
                 r = setter (take max_elements (drop old_size cs));
                 b2 = b1\<lparr>buf_data := map_option (\<lambda>_. take old_size cs @ fst r @ drop (old_size + max_elements) cs)
                          (buf_data b1),
                        buf_size := size_add old_size (snd r)\<rparr>
             in if \<not> snd r \<le> max_elements then Inl DcheckFailed
                else dcheck (IsConsistent b2) (snd r, b2))))"

definition SetData :: "bool \<Rightarrow> 'a::zero list \<Rightarrow> 'a BufferT \<Rightarrow> 'a BufferT res" where
  "SetData z xs b =
     (if \<not> IsConsistent b then Inl DcheckFailed
      else res_bind (AppendData z xs (b\<lparr>buf_size := 0\<rparr>)) (\<lambda>b1.
             if z \<and> buf_size b1 < buf_size b then ZeroTrailingData (buf_size b - buf_size b1) b1 else Inr b1))"

definition SetData_setter ::
  "bool \<Rightarrow> nat \<Rightarrow> ('a cells \<Rightarrow> 'a cells \<times> nat) \<Rightarrow> 'a::zero BufferT \<Rightarrow> (nat \<times> 'a BufferT) res" where
  "SetData_setter z max_elements setter b =
     (if \<not> IsConsistent b then Inl DcheckFailed
      else res_bind (AppendData_setter z max_elements setter (b\<lparr>buf_size := 0\<rparr>)) (\<lambda>(written, b1).
             if z \<and> buf_size b1 < buf_size b
             then res_bind (ZeroTrailingData (buf_size b - buf_size b1) b1) (\<lambda>b2. Inr (written, b2))
             else Inr (written, b1)))"

definition EnsureCapacity :: "bool \<Rightarrow> nat \<Rightarrow> 'a::zero BufferT \<Rightarrow> 'a BufferT res" where
  "EnsureCapacity z capacity b = EnsureCapacityWithHeadroom z capacity False b"

definition Buffer_Clear :: "bool \<Rightarrow> 'a::zero BufferT \<Rightarrow> 'a BufferT res" where
  "Buffer_Clear z b =
     (let b1 = (MaybeZeroCompleteBuffer z b)\<lparr>buf_size := 0\<rparr> in dcheck (IsConsistent b1) b1)"

subsection \<open>Well-formed buffers and their contents\<close>

definition buf_wf :: "'a BufferT \<Rightarrow> bool" where
  "buf_wf b \<longleftrightarrow> IsConsistent b \<and> length (buf_block b) = buf_capacity b"

definition contents :: "'a BufferT \<Rightarrow> 'a cells" where
  "contents b = take (buf_size b) (buf_block b)"

text \<open>No data outside the size of a zero-on-free buffer, and none in the blocks it gave back.\<close>

definition no_data :: "'a::zero cells \<Rightarrow> bool" where
  "no_data cs \<longleftrightarrow> set cs \<subseteq> {None, Some 0}"

definition clean :: "bool \<Rightarrow> 'a::zero BufferT \<Rightarrow> bool" where
  "clean z b \<longleftrightarrow> (z \<longrightarrow> no_data (drop (buf_size b) (buf_block b)) \<and> (\<forall>blk\<in>set (freed b). no_data blk))"

definition buf_good :: "bool \<Rightarrow> 'a::zero BufferT \<Rightarrow> bool" where
  "buf_good z b \<longleftrightarrow> buf_wf b \<and> clean z b"

lemma no_data_simps [simp]:
  "no_data []" "no_data (cs @ ds) = (no_data cs \<and> no_data ds)" "no_data (replicate n None)"
  "no_data (replicate n (Some 0))" "no_data (map (\<lambda>_. Some 0) cs)"
  by (auto simp: no_data_def)

lemma no_data_drop: "no_data cs \<Longrightarrow> no_data (drop n cs)"
  unfolding no_data_def using set_drop_subset by fast

lemma no_data_take: "no_data cs \<Longrightarrow> no_data (take n cs)"
  unfolding no_data_def using set_take_subset by fast

lemma no_data_drop_le: "no_data (drop n cs) \<Longrightarrow> n \<le> m \<Longrightarrow> no_data (drop m cs)"
  by (metis no_data_drop drop_drop le_add_diff_inverse2)

lemma contents_length: "buf_wf b \<Longrightarrow> length (contents b) = buf_size b"
  by (simp add: buf_wf_def contents_def IsConsistent_def)

lemma block_upd [simp]:
  "buf_block (b\<lparr>buf_size := n\<rparr>) = buf_block b" "buf_block (b\<lparr>freed := f\<rparr>) = buf_block b"
  "buf_block (b\<lparr>buf_capacity := c\<rparr>) = buf_block b" "buf_block (b\<lparr>buf_data := Some cs\<rparr>) = cs"
  "buf_block (b\<lparr>buf_data := None\<rparr>) = []"
  by (simp_all add: buf_block_def)

lemma block_map: "length cs = length (buf_block b) \<Longrightarrow>
    buf_block (b\<lparr>buf_data := map_option (\<lambda>_. cs) (buf_data b)\<rparr>) = cs"
  by (cases "buf_data b") (simp_all add: buf_block_def)

lemma write_at_ok:
  "off + length xs \<le> length cs \<Longrightarrow>
     write_at off xs cs = Inr (take off cs @ map Some xs @ drop (off + length xs) cs)"
  by (simp add: write_at_def)

lemma zero_fields [simp]:
  "buf_size (MaybeZeroCompleteBuffer z b) = buf_size b"
  "buf_capacity (MaybeZeroCompleteBuffer z b) = buf_capacity b"
  "freed (MaybeZeroCompleteBuffer z b) = freed b"
  "(buf_data (MaybeZeroCompleteBuffer z b) = None) = (buf_data b = None)"
  by (simp_all add: MaybeZeroCompleteBuffer_def)

lemma zero_block:
  "buf_wf b \<Longrightarrow> z \<Longrightarrow> no_data (buf_block (MaybeZeroCompleteBuffer z b))"
  "length (buf_block (MaybeZeroCompleteBuffer z b)) = length (buf_block b)"
  by (auto simp: MaybeZeroCompleteBuffer_def buf_block_def buf_wf_def IsConsistent_def split: option.splits)

lemma freed_zero: "buf_wf b \<Longrightarrow> z \<Longrightarrow> buf_data (MaybeZeroCompleteBuffer z b) = Some cs \<Longrightarrow> no_data cs"
  using zero_block(1) [of b z] by (simp add: buf_block_def)

lemma freed_block [simp]:
  "freed (free_block d b) = freed b @ (case d of None \<Rightarrow> [] | Some cs \<Rightarrow> [cs])"
  "buf_size (free_block d b) = buf_size b" "buf_capacity (free_block d b) = buf_capacity b"
  "buf_data (free_block d b) = buf_data b"
  by (simp_all add: free_block_def split: option.split)

text \<open>What a client may rely on when the capacity is raised.\<close>

lemma EnsureCapacityWithHeadroom_ok:
  assumes good: "buf_good z b"
  shows "\<exists>b'. EnsureCapacityWithHeadroom z n h b = Inr b' \<and> buf_good z b' \<and> contents b' = contents b \<and>
    buf_size b' = buf_size b \<and> n \<le> buf_capacity b' \<and> buf_capacity b \<le> buf_capacity b' \<and>
    (n \<le> buf_capacity b \<longrightarrow> b' = b) \<and>
    (\<not> n \<le> buf_capacity b \<longrightarrow> drop (buf_size b) (buf_block b') = replicate (buf_capacity b' - buf_size b) None)"
proof (cases "n \<le> buf_capacity b")
  case True
  then show ?thesis using good
    by (auto simp: EnsureCapacityWithHeadroom_def buf_good_def buf_wf_def)
next
  case False
  have wf: "buf_wf b" and cl: "clean z b" using good by (simp_all add: buf_good_def)
  define c where "c = (if h then max n (size_add (buf_capacity b) (buf_capacity b div 2)) else n)"
  have c: "n \<le> c" "buf_capacity b < c" using False by (auto simp: c_def)
  define b1 where "b1 = MaybeZeroCompleteBuffer z b"
  define b' where "b' = (free_block (buf_data b1) b1)\<lparr>buf_data := Some (take (buf_size b) (buf_block b) @
    replicate (c - buf_size b) None), buf_capacity := c\<rparr>"
  have sz: "buf_size b \<le> buf_capacity b" "length (buf_block b) = buf_capacity b"
    using wf by (simp_all add: buf_wf_def IsConsistent_def)
  have bl: "buf_block b' = take (buf_size b) (buf_block b) @ replicate (c - buf_size b) None"
    "buf_size b' = buf_size b" "buf_capacity b' = c"
    by (simp_all add: b'_def b1_def buf_block_def)
  have fr: "freed b' = freed b @ (case buf_data b1 of None \<Rightarrow> [] | Some cs \<Rightarrow> [cs])"
    by (simp add: b'_def b1_def)
  have "IsConsistent b'" using sz(1) c(2) by (simp add: IsConsistent_def b'_def b1_def)
  moreover have "EnsureCapacityWithHeadroom z n h b = dcheck (IsConsistent b') b'"
    using False wf by (simp add: EnsureCapacityWithHeadroom_def Let_def buf_wf_def b'_def b1_def c_def)
  moreover have "clean z b'"
    using cl freed_zero [OF wf] fr by (auto simp: clean_def bl sz b1_def split: option.splits)
  ultimately show ?thesis
    using bl sz c False by (simp add: dcheck_def buf_good_def buf_wf_def contents_def)
qed

lemma ZeroTrailingData_ok:
  assumes wf: "buf_wf b" and n: "n \<le> buf_capacity b - buf_size b"
  shows "\<exists>b'. ZeroTrailingData n b = Inr b' \<and> buf_wf b' \<and> contents b' = contents b \<and> buf_size b' = buf_size b \<and>
    buf_capacity b' = buf_capacity b \<and> freed b' = freed b \<and>
    drop (buf_size b) (buf_block b') = replicate n (Some 0) @ drop (buf_size b + n) (buf_block b)"
proof -
  have sz: "buf_size b \<le> buf_capacity b" "length (buf_block b) = buf_capacity b" "IsConsistent b"
    using wf by (simp_all add: buf_wf_def IsConsistent_def)
  let ?cs = "take (buf_size b) (buf_block b) @ replicate n (Some 0) @ drop (buf_size b + n) (buf_block b)"
  let ?b' = "b\<lparr>buf_data := map_option (\<lambda>_. ?cs) (buf_data b)\<rparr>"
  have len: "length ?cs = length (buf_block b)" using n sz by simp
  have bl: "buf_block ?b' = ?cs" using block_map [OF len] .
  have "ZeroTrailingData n b = Inr ?b'"
    using n sz by (simp add: ZeroTrailingData_def write_at_ok)
  moreover have "buf_wf ?b'" using sz len unfolding buf_wf_def bl by (auto simp: IsConsistent_def)
  moreover have "contents ?b' = contents b" unfolding contents_def bl using sz by simp
  moreover have "drop (buf_size b) (buf_block ?b') = replicate n (Some 0) @ drop (buf_size b + n) (buf_block b)"
    unfolding bl using sz by simp
  ultimately show ?thesis by simp
qed

text \<open>\<^verbatim>\<open>SetSize\<close> keeps what fits and, in a zero-on-free buffer, clears what is cut off.\<close>

lemma SetSize_ok:
  assumes good: "buf_good z b"
  shows "\<exists>b'. SetSize z n b = Inr b' \<and> buf_good z b' \<and> buf_size b' = n \<and>
    take (buf_size b) (contents b') = take n (contents b) \<and>
    (n \<le> buf_size b \<longrightarrow> contents b' = take n (contents b)) \<and>
    (\<not> n \<le> buf_capacity b \<longrightarrow> contents b' = contents b @ replicate (n - buf_size b) None) \<and>
    (z \<longrightarrow> buf_size b \<le> n \<longrightarrow> no_data (drop (buf_size b) (buf_block b')))"
proof -
  obtain b1 where b1: "EnsureCapacityWithHeadroom z n True b = Inr b1" "buf_good z b1" "contents b1 = contents b"
    "buf_size b1 = buf_size b" "n \<le> buf_capacity b1" "buf_capacity b \<le> buf_capacity b1"
    "\<not> n \<le> buf_capacity b \<Longrightarrow> drop (buf_size b) (buf_block b1) = replicate (buf_capacity b1 - buf_size b) None"
    using EnsureCapacityWithHeadroom_ok [OF good, of n True] by blast
  have wf1: "buf_wf b1" "clean z b1" using b1(2) by (simp_all add: buf_good_def)
  have sz: "length (buf_block b1) = buf_capacity b1" "buf_size b \<le> buf_capacity b1" "IsConsistent b1"
    using wf1 b1(4) by (auto simp: buf_wf_def IsConsistent_def)
  let ?b2 = "b1\<lparr>buf_size := n\<rparr>"
  have wf2: "buf_wf ?b2" using sz b1(5) by (auto simp: buf_wf_def IsConsistent_def)
  have tk: "take (min (buf_size b) n) (buf_block b1) = take n (contents b)"
    unfolding b1(3) [symmetric] unfolding contents_def b1(4) by (simp add: min.commute)
  have cap: "buf_size b \<le> buf_capacity b"
    using good by (simp add: buf_good_def buf_wf_def IsConsistent_def)
  show ?thesis
  proof (cases "z \<and> n < buf_size b")
    case True
    then have "buf_size b - n \<le> buf_capacity ?b2 - buf_size ?b2" using sz by simp
    from ZeroTrailingData_ok [OF wf2 this] obtain b' where b': "ZeroTrailingData (buf_size b - n) ?b2 = Inr b'"
      "buf_wf b'" "contents b' = contents ?b2" "buf_size b' = n" "freed b' = freed b1"
      "drop n (buf_block b') = replicate (buf_size b - n) (Some 0) @ drop (buf_size b) (buf_block b1)"
      using True by auto
    have "contents b' = take n (contents b)" using True tk b'(3) by (simp add: contents_def [of ?b2] min_def)
    moreover have "clean z b'" using wf1(2) b'(4-6) b1(4) by (simp add: clean_def)
    ultimately show ?thesis
      using True b1(1) cap b'(1,2,4) by (auto simp: SetSize_def Let_def buf_good_def)
  next
    case False
    have "clean z ?b2"
      using wf1(2) False b1(4) by (auto simp: clean_def intro: no_data_drop_le)
    moreover have "contents ?b2 = contents b @ replicate (n - buf_size b) None" if "\<not> n \<le> buf_capacity b"
    proof -
      have "contents ?b2 = take n (take (buf_size b) (buf_block b1) @ drop (buf_size b) (buf_block b1))"
        by (simp add: contents_def)
      also have "\<dots> = take n (contents b1 @ replicate (buf_capacity b1 - buf_size b) None)"
        using b1(4,7) that by (simp add: contents_def del: append_take_drop_id)
      finally show ?thesis
        using b1(3) contents_length [OF wf1(1)] b1(4,5) that good
        by (simp add: min_def buf_good_def buf_wf_def IsConsistent_def)
    qed
    moreover have "take (buf_size b) (contents ?b2) = take n (contents b)"
      using tk by (simp add: contents_def [of ?b2] min.commute)
    moreover have "contents ?b2 = take n (contents b)" if "n \<le> buf_size b"
      using tk that by (simp add: contents_def [of ?b2] min_absorb2)
    moreover have "no_data (drop (buf_size b) (buf_block ?b2))" if z using wf1(2) b1(4) that by (simp add: clean_def)
    ultimately show ?thesis
      using b1(1) False wf2 by (auto simp: SetSize_def Let_def buf_good_def)
  qed
qed

lemma AppendData_ok:
  assumes good: "buf_good z b" and room: "buf_size b + length xs < 2 ^ 64"
  shows "\<exists>b'. AppendData z xs b = Inr b' \<and> buf_good z b' \<and> contents b' = contents b @ map Some xs \<and>
    buf_size b' = buf_size b + length xs \<and> buf_capacity b \<le> buf_capacity b' \<and>
    (buf_size b + length xs \<le> buf_capacity b \<longrightarrow> freed b' = freed b \<and>
       drop (buf_size b') (buf_block b') = drop (buf_size b') (buf_block b))"
proof -
  let ?n = "buf_size b + length xs"
  obtain b1 where b1: "EnsureCapacityWithHeadroom z ?n True b = Inr b1" "buf_good z b1" "contents b1 = contents b"
    "buf_size b1 = buf_size b" "?n \<le> buf_capacity b1" "buf_capacity b \<le> buf_capacity b1"
    "?n \<le> buf_capacity b \<Longrightarrow> b1 = b"
    using EnsureCapacityWithHeadroom_ok [OF good, of ?n True] by blast
  have wf1: "buf_wf b1" "clean z b1" using b1(2) by (simp_all add: buf_good_def)
  have sz: "length (buf_block b1) = buf_capacity b1" "IsConsistent b1" "IsConsistent b"
    using wf1 good by (auto simp: buf_wf_def buf_good_def)
  let ?cs = "take (buf_size b) (buf_block b1) @ map Some xs @ drop ?n (buf_block b1)"
  let ?b' = "b1\<lparr>buf_data := map_option (\<lambda>_. ?cs) (buf_data b1), buf_size := ?n\<rparr>"
  have len: "length ?cs = length (buf_block b1)" using sz b1(5) by simp
  have bl: "buf_block ?b' = ?cs" using block_map [OF len] by (simp add: buf_block_def)
  have con: "IsConsistent ?b'" using sz b1(5) by (auto simp: IsConsistent_def)
  have "AppendData z xs b = Inr ?b'"
    using room sz b1 con by (simp add: AppendData_def Let_def write_at_ok dcheck_def)
  moreover have "buf_wf ?b'" using sz len con unfolding buf_wf_def bl by simp
  moreover have d: "drop ?n ?cs = drop ?n (buf_block b1)" using sz b1(5) by simp
  have "clean z ?b'"
    using wf1(2) b1(4) unfolding clean_def bl by (auto simp: d intro: no_data_drop_le)
  moreover have "contents ?b' = contents b @ map Some xs"
  proof -
    have "take (buf_size b) (buf_block b1) = contents b" using b1(3,4) by (simp add: contents_def)
    moreover have "length (contents b) = buf_size b" using good by (simp add: contents_length buf_good_def)
    ultimately show ?thesis unfolding contents_def [of ?b'] bl by simp
  qed
  ultimately show ?thesis using b1(6,7) bl d by (auto simp: buf_good_def)
qed

lemma zero_idem [simp]: "MaybeZeroCompleteBuffer z (MaybeZeroCompleteBuffer z b) = MaybeZeroCompleteBuffer z b"
  by (cases "buf_data b") (simp_all add: MaybeZeroCompleteBuffer_def)

lemma zero_consistent [simp]: "IsConsistent (MaybeZeroCompleteBuffer z b) = IsConsistent b"
  by (simp add: IsConsistent_def)

lemma zero_good:
  assumes "buf_wf b" and "z \<Longrightarrow> \<forall>blk\<in>set (freed b). no_data blk"
  shows "buf_good z (MaybeZeroCompleteBuffer z b)"
  using assms zero_block(1) [OF assms(1)] zero_block(2) [of z b]
  by (auto simp: buf_good_def buf_wf_def clean_def intro: no_data_drop)

text \<open>An empty buffer that must grow may be cleared first: its old block is cleared anyway.\<close>

lemma AppendData_zero_first:
  assumes "buf_size b = 0" "buf_capacity b < length xs" "length xs < 2 ^ 64" "IsConsistent b"
  shows "AppendData z xs b = AppendData z xs (MaybeZeroCompleteBuffer z b)"
proof -
  have "EnsureCapacityWithHeadroom z (length xs) True b =
      EnsureCapacityWithHeadroom z (length xs) True (MaybeZeroCompleteBuffer z b)"
    using assms by (simp add: EnsureCapacityWithHeadroom_def Let_def)
  with assms show ?thesis by (simp add: AppendData_def Let_def)
qed

text \<open>
  \<^verbatim>\<open>SetData\<close> starts by setting the size to zero, which leaves old data outside the size; the data is
  overwritten, given back after zeroing, or cleared by \<^verbatim>\<open>ZeroTrailingData\<close>.
\<close>

lemma SetData_ok:
  assumes good: "buf_good z b" and room: "length xs < 2 ^ 64"
  shows "\<exists>b'. SetData z xs b = Inr b' \<and> buf_good z b' \<and> contents b' = map Some xs"
proof -
  let ?b0 = "b\<lparr>buf_size := 0\<rparr>"
  have wf: "buf_wf b" "clean z b" "buf_wf ?b0"
    using good by (auto simp: buf_good_def buf_wf_def IsConsistent_def)
  have cap: "buf_size b \<le> buf_capacity b" "length (buf_block b) = buf_capacity b" "IsConsistent b" "IsConsistent ?b0"
    using wf by (auto simp: buf_wf_def IsConsistent_def)
  show ?thesis
  proof (cases "length xs \<le> buf_capacity b")
    case True
    define cs where "cs = map Some xs @ drop (length xs) (buf_block b)"
    define b1 where "b1 = b\<lparr>buf_data := map_option (\<lambda>_. cs) (buf_data b), buf_size := length xs\<rparr>"
    have len: "length cs = length (buf_block b)" using True cap by (simp add: cs_def)
    have bl: "buf_block b1 = cs" using block_map [OF len] by (simp add: b1_def buf_block_def)
    have wf1: "buf_wf b1" using True cap len unfolding buf_wf_def bl by (auto simp: b1_def IsConsistent_def)
    have app: "AppendData z xs ?b0 = Inr b1"
      using True room cap wf1 by (simp add: AppendData_def Let_def EnsureCapacityWithHeadroom_def write_at_ok
          dcheck_def b1_def cs_def buf_wf_def)
    have f1: "buf_size b1 = length xs" "buf_capacity b1 = buf_capacity b" "freed b1 = freed b"
      "contents b1 = map Some xs"
      using bl by (simp_all add: contents_def cs_def) (simp_all add: b1_def)
    show ?thesis
    proof (cases "z \<and> length xs < buf_size b")
      case True
      have "buf_size b - length xs \<le> buf_capacity b1 - buf_size b1" using cap f1 by simp
      from ZeroTrailingData_ok [OF wf1 this] obtain b' where b': "ZeroTrailingData (buf_size b - length xs) b1 = Inr b'"
        "buf_wf b'" "contents b' = map Some xs" "buf_size b' = length xs" "freed b' = freed b"
        "drop (length xs) (buf_block b') = replicate (buf_size b - length xs) (Some 0) @ drop (buf_size b) cs"
        using f1 bl True by auto
      have "drop (buf_size b) cs = drop (buf_size b) (buf_block b)" using True by (simp add: cs_def)
      then have "clean z b'" using b'(4-6) wf(2) by (simp add: clean_def)
      with True cap app f1 b'(1-3) show ?thesis by (simp add: SetData_def buf_good_def)
    next
      case False
      have "drop (length xs) cs = drop (length xs) (buf_block b)" by (simp add: cs_def)
      with False wf(2) f1 bl have "clean z b1" by (auto simp: clean_def intro: no_data_drop_le)
      with False cap app f1 wf1 show ?thesis by (auto simp: SetData_def buf_good_def)
    qed
  next
    case False
    have "buf_good z (MaybeZeroCompleteBuffer z ?b0)" using wf(2,3) by (intro zero_good) (auto simp: clean_def)
    from AppendData_ok [OF this, of xs] room obtain b' where
      "AppendData z xs (MaybeZeroCompleteBuffer z ?b0) = Inr b'" "buf_good z b'"
      "contents b' = contents (MaybeZeroCompleteBuffer z ?b0) @ map Some xs" "buf_size b' = length xs"
      by auto
    moreover have "AppendData z xs ?b0 = AppendData z xs (MaybeZeroCompleteBuffer z ?b0)"
      using False room cap by (intro AppendData_zero_first) auto
    ultimately show ?thesis using False cap by (auto simp: SetData_def contents_def)
  qed
qed

text \<open>A setter as documented: it fills a prefix of the view and leaves the rest alone.\<close>

definition setter_ok :: "nat \<Rightarrow> ('a cells \<Rightarrow> 'a cells \<times> nat) \<Rightarrow> 'a list \<Rightarrow> bool" where
  "setter_ok m f xs \<longleftrightarrow> length xs \<le> m \<and>
     (\<forall>view. length view = m \<longrightarrow> f view = (map Some xs @ drop (length xs) view, length xs))"

lemma AppendData_setter_ok:
  assumes good: "buf_good z b" and room: "buf_size b + m < 2 ^ 64" and f: "setter_ok m f xs"
  shows "\<exists>b'. AppendData_setter z m f b = Inr (length xs, b') \<and> buf_good z b' \<and>
    contents b' = contents b @ map Some xs"
proof -
  have con: "IsConsistent b" "buf_wf b" using good by (simp_all add: buf_good_def buf_wf_def)
  obtain b1 where b1: "SetSize z (buf_size b + m) b = Inr b1" "buf_good z b1" "buf_size b1 = buf_size b + m"
    "take (buf_size b) (contents b1) = contents b" "z \<longrightarrow> no_data (drop (buf_size b) (buf_block b1))"
    using SetSize_ok [OF good, of "buf_size b + m"] contents_length [OF con(2)] by auto
  have wf1: "buf_wf b1" "clean z b1" using b1(2) by (simp_all add: buf_good_def)
  have sz: "buf_size b + m \<le> buf_capacity b1" "length (buf_block b1) = buf_capacity b1" "IsConsistent b1"
    using wf1 b1(3) by (simp_all add: buf_wf_def IsConsistent_def)
  let ?v = "take m (drop (buf_size b) (buf_block b1))"
  have v: "length ?v = m" using sz by simp
  have fv: "f ?v = (map Some xs @ drop (length xs) ?v, length xs)" and lx: "length xs \<le> m"
    using f v by (simp_all add: setter_ok_def)
  define cs where "cs = take (buf_size b) (buf_block b1) @ (map Some xs @ drop (length xs) ?v) @
    drop (buf_size b + m) (buf_block b1)"
  define b' where "b' = b1\<lparr>buf_data := map_option (\<lambda>_. cs) (buf_data b1), buf_size := buf_size b + length xs\<rparr>"
  have len: "length cs = length (buf_block b1)" using sz lx by (simp add: cs_def)
  have bl: "buf_block b' = cs" using block_map [OF len] by (simp add: b'_def buf_block_def)
  have con': "IsConsistent b'" using sz lx by (auto simp: b'_def IsConsistent_def)
  have "AppendData_setter z m f b = Inr (length xs, b')"
    using con(1) room b1(1) sz(3) con' lx fv
    by (simp add: AppendData_setter_def Let_def Buffer_data_def dcheck_def b'_def cs_def)
  moreover have "buf_wf b'" using con' len sz unfolding buf_wf_def bl by (simp add: b'_def)
  moreover have ct: "take (buf_size b) (buf_block b1) = contents b"
    using b1(3,4) by (simp add: contents_def [of b1] min_absorb2)
  moreover have lc: "length (contents b) = buf_size b" using contents_length [OF con(2)] .
  then have "contents b' = contents b @ map Some xs"
    unfolding contents_def [of b'] bl cs_def ct by (simp add: b'_def)
  moreover have "drop (buf_size b + length xs) cs =
      drop (length xs) ?v @ drop (buf_size b + m) (buf_block b1)"
    unfolding cs_def ct using lc by simp
  then have "clean z b'"
    using wf1(2) b1(3,5) unfolding clean_def bl
    by (auto simp: b'_def intro: no_data_drop no_data_take no_data_drop_le)
  ultimately show ?thesis by (auto simp: buf_good_def)
qed

lemma Buffer_Clear_ok:
  assumes "buf_wf b \<or> buf_data b = None \<and> buf_capacity b = 0"
    and "z \<Longrightarrow> \<forall>blk\<in>set (freed b). no_data blk"
  shows "\<exists>b'. Buffer_Clear z b = Inr b' \<and> buf_good z b' \<and> contents b' = [] \<and> buf_capacity b' = buf_capacity b"
proof -
  let ?b' = "(MaybeZeroCompleteBuffer z b)\<lparr>buf_size := 0\<rparr>"
  have wf: "buf_wf ?b'"
    using assms(1) zero_block(2) [of z b] by (auto simp: buf_wf_def IsConsistent_def buf_block_def)
  have "no_data (buf_block ?b')" if z
    using assms(1)
  proof
    assume "buf_wf b" then show ?thesis using zero_block(1) that by simp
  next
    assume "buf_data b = None \<and> buf_capacity b = 0"
    then show ?thesis by (simp add: buf_block_def MaybeZeroCompleteBuffer_def)
  qed
  with wf assms(2) have "buf_good z ?b'" by (auto simp: buf_good_def clean_def)
  then show ?thesis by (auto simp: Buffer_Clear_def Let_def dcheck_def buf_good_def buf_wf_def contents_def)
qed

lemma Buffer_destroy_no_data:
  assumes "buf_good True b"
  shows "\<forall>blk\<in>set (Buffer_destroy True b). no_data blk"
  using assms freed_zero [of b True]
  by (auto simp: Buffer_destroy_def buf_good_def clean_def split: option.splits)

subsection \<open>Specification\<close>

text \<open>
  The operations of a client and what they promise about the contents: a sequence of elements, some
  of them not yet initialised. Growing by \<^verbatim>\<open>SetSize\<close> keeps the contents and says nothing about the
  new elements.
\<close>

datatype 'a buf_op =
    OpSetData "'a list"
  | OpAppendData "'a list"
  | OpSetSize nat
  | OpEnsureCapacity nat
  | OpBufClear

fun buf_step :: "bool \<Rightarrow> 'a buf_op \<Rightarrow> 'a::zero BufferT \<Rightarrow> 'a BufferT res" where
  "buf_step z (OpSetData xs) b = SetData z xs b"
| "buf_step z (OpAppendData xs) b = AppendData z xs b"
| "buf_step z (OpSetSize n) b = SetSize z n b"
| "buf_step z (OpEnsureCapacity n) b = EnsureCapacity z n b"
| "buf_step z OpBufClear b = Buffer_Clear z b"

fun buf_run :: "bool \<Rightarrow> 'a buf_op list \<Rightarrow> 'a::zero BufferT \<Rightarrow> 'a BufferT res" where
  "buf_run z [] b = Inr b"
| "buf_run z (x # xs) b = res_bind (buf_step z x b) (buf_run z xs)"

fun buf_spec :: "'a buf_op \<Rightarrow> 'a cells \<Rightarrow> 'a cells \<Rightarrow> bool" where
  "buf_spec (OpSetData xs) cs cs' \<longleftrightarrow> cs' = map Some xs"
| "buf_spec (OpAppendData xs) cs cs' \<longleftrightarrow> cs' = cs @ map Some xs"
| "buf_spec (OpSetSize n) cs cs' \<longleftrightarrow> length cs' = n \<and> take (length cs) cs' = take n cs"
| "buf_spec (OpEnsureCapacity n) cs cs' \<longleftrightarrow> cs' = cs"
| "buf_spec OpBufClear cs cs' \<longleftrightarrow> cs' = []"

fun buf_spec_run :: "'a buf_op list \<Rightarrow> 'a cells \<Rightarrow> 'a cells \<Rightarrow> bool" where
  "buf_spec_run [] cs cs' \<longleftrightarrow> cs' = cs"
| "buf_spec_run (x # xs) cs cs' \<longleftrightarrow> (\<exists>cs1. buf_spec x cs cs1 \<and> buf_spec_run xs cs1 cs')"

text \<open>The elements an operation may add.\<close>

fun op_grows :: "'a buf_op \<Rightarrow> nat" where
  "op_grows (OpSetData xs) = length xs"
| "op_grows (OpAppendData xs) = length xs"
| "op_grows (OpSetSize n) = n"
| "op_grows _ = 0"

lemma buf_step_ok:
  assumes good: "buf_good z b" and room: "buf_size b + op_grows x < 2 ^ 64"
  shows "\<exists>b'. buf_step z x b = Inr b' \<and> buf_good z b' \<and> buf_spec x (contents b) (contents b') \<and>
    buf_size b' \<le> buf_size b + op_grows x"
proof -
  have wf: "buf_wf b" using good by (simp add: buf_good_def)
  have len: "length (contents b') = buf_size b'" if "buf_good z b'" for b' :: "'a BufferT"
    using that by (simp add: buf_good_def contents_length)
  show ?thesis
  proof (cases x)
    case (OpSetData xs)
    with SetData_ok [OF good, of xs] room len show ?thesis by fastforce
  next
    case (OpAppendData xs)
    with AppendData_ok [OF good, of xs] room show ?thesis by auto
  next
    case (OpSetSize n)
    obtain b' where "SetSize z n b = Inr b'" "buf_good z b'" "buf_size b' = n"
      "take (buf_size b) (contents b') = take n (contents b)"
      using SetSize_ok [OF good, of n] by blast
    with OpSetSize len len [OF good] show ?thesis by auto
  next
    case (OpEnsureCapacity n)
    with EnsureCapacityWithHeadroom_ok [OF good, of n False] show ?thesis by (auto simp: EnsureCapacity_def)
  next
    case OpBufClear
    have "z \<Longrightarrow> \<forall>blk\<in>set (freed b). no_data blk" using good by (simp add: buf_good_def clean_def)
    with Buffer_Clear_ok [of b z] wf OpBufClear len show ?thesis by fastforce
  qed
qed

lemma buf_run_ok:
  "buf_good z b \<Longrightarrow> buf_size b + sum_list (map op_grows xs) < 2 ^ 64 \<Longrightarrow>
     \<exists>b'. buf_run z xs b = Inr b' \<and> buf_good z b' \<and> buf_spec_run xs (contents b) (contents b')"
proof (induction xs arbitrary: b)
  case Nil
  then show ?case by simp
next
  case (Cons x xs)
  have "buf_size b + op_grows x < 2 ^ 64" using Cons.prems(2) by simp
  from buf_step_ok [OF Cons.prems(1) this] obtain b1 where b1: "buf_step z x b = Inr b1" "buf_good z b1"
    "buf_spec x (contents b) (contents b1)" "buf_size b1 \<le> buf_size b + op_grows x"
    by blast
  have "buf_size b1 + sum_list (map op_grows xs) < 2 ^ 64" using b1(4) Cons.prems(2) by simp
  from Cons.IH [OF b1(2) this] b1 show ?case by auto
qed

lemma Buffer_empty_good: "buf_good z Buffer_empty"
  by (simp add: buf_good_def buf_wf_def IsConsistent_def Buffer_empty_def buf_block_def clean_def)

lemma Buffer_from_ok:
  "\<exists>b. Buffer_from xs c = Inr b \<and> buf_good z b \<and> contents b = map Some xs \<and> buf_capacity b = max (length xs) c"
proof (cases "max (length xs) c = 0")
  case True
  then show ?thesis
    by (simp add: Buffer_from_def Buffer_uninit_def buf_block_def write_at_def buf_good_def buf_wf_def
        IsConsistent_def clean_def contents_def)
next
  case False
  then show ?thesis
    by (auto simp: Buffer_from_def Buffer_uninit_def buf_block_def write_at_def buf_good_def buf_wf_def
        IsConsistent_def clean_def contents_def Let_def)
qed

subsection \<open>Properties\<close>

text \<open>
  C15. A buffer is a sequence: any run of \<^verbatim>\<open>SetData\<close>, \<^verbatim>\<open>AppendData\<close>, \<^verbatim>\<open>SetSize\<close>, \<^verbatim>\<open>EnsureCapacity\<close> and
  \<^verbatim>\<open>Clear\<close> on a well-formed buffer returns, without a failing check or a copy outside a block, as
  long as the sizes stay below \<open>2\<^sup>6\<^sup>4\<close>; the contents afterwards are what the specification allows, and the buffer
  is well-formed again. Reallocation and headroom do not show.
\<close>

theorem buffer_refines_sequence:
  assumes "buf_good z b" and "buf_size b + sum_list (map op_grows xs) < 2 ^ 64"
  shows "\<exists>b'. buf_run z xs b = Inr b' \<and> buf_good z b' \<and> buf_spec_run xs (contents b) (contents b')"
  using assms by (rule buf_run_ok)

theorem buffer_refines_sequence_witness:
  "\<exists>b'. buf_run True [OpAppendData [1, 2, 3 :: nat], OpSetSize 1, OpAppendData [4]] Buffer_empty = Inr b' \<and>
     contents b' = [Some 1, Some 4]"
proof -
  let ?ops = "[OpAppendData [1, 2, 3 :: nat], OpSetSize 1, OpAppendData [4]]"
  obtain b' where b': "buf_run True ?ops Buffer_empty = Inr b'" "buf_spec_run ?ops (contents Buffer_empty) (contents b')"
    using buffer_refines_sequence [OF Buffer_empty_good, of ?ops True] by (auto simp: Buffer_empty_def)
  have "contents (Buffer_empty :: nat BufferT) = []" by (simp add: contents_def Buffer_empty_def buf_block_def)
  with b'(2) obtain cs1 where "length cs1 = 1" "take 3 cs1 = [Some 1]" "contents b' = cs1 @ [Some 4]" by auto
  with b'(1) show ?thesis by (cases cs1) auto
qed

text \<open>
  C16. The promise of \<^verbatim>\<open>ZeroOnFree\<close>: whatever is done with such a buffer, when it is destroyed every block
  of memory it ever gave back to the allocator holds nothing but zeros and bytes that were never
  written, and at every moment the unused part of its capacity holds no data either.
\<close>

theorem zero_on_free_leaves_no_data:
  assumes "buf_good True b" and "buf_size b + sum_list (map op_grows xs) < 2 ^ 64"
  shows "\<exists>b'. buf_run True xs b = Inr b' \<and> no_data (drop (buf_size b') (buf_block b')) \<and>
    (\<forall>blk\<in>set (Buffer_destroy True b'). no_data blk)"
  using buf_run_ok [OF assms] Buffer_destroy_no_data by (fastforce simp: buf_good_def clean_def)

theorem zero_on_free_leaves_no_data_witness:
  "\<exists>b'. buf_run True [OpAppendData [7, 8 :: nat], OpSetData [9], OpAppendData [1, 2, 3, 4]] Buffer_empty = Inr b' \<and>
     length (Buffer_destroy True b') = 2 \<and> (\<forall>blk\<in>set (Buffer_destroy True b'). no_data blk)"
proof -
  let ?ops = "[OpAppendData [7, 8 :: nat], OpSetData [9], OpAppendData [1, 2, 3, 4]]"
  obtain b' where b': "buf_run True ?ops Buffer_empty = Inr b'" "\<forall>blk\<in>set (Buffer_destroy True b'). no_data blk"
    using zero_on_free_leaves_no_data [OF Buffer_empty_good, of ?ops] by (auto simp: Buffer_empty_def)
  have "length (Buffer_destroy True b') = 2"
    using b'(1)
    by (auto simp: AppendData_def SetData_def EnsureCapacityWithHeadroom_def Buffer_empty_def IsConsistent_def Let_def
        MaybeZeroCompleteBuffer_def ZeroTrailingData_def free_block_def buf_block_def write_at_def dcheck_def
        size_add_def Buffer_destroy_def)
  with b' show ?thesis by blast
qed

end
