(* ===== verification/CowBuffer.thy ===== *)
theory CowBuffer
  imports RefCount Buffer DataChannel
begin

section \<open>The class \<^verbatim>\<open>CopyOnWriteBuffer\<close>\<close>

text \<open>
  \<^verbatim>\<open>rtc_base/copy_on_write_buffer.h\<close>: a value that looks like a byte buffer of its own but shares a
  counted \<^verbatim>\<open>Buffer\<close> with other values until one of them writes. The member \<^verbatim>\<open>buffer_\<close> is a smart
  pointer of \<open>RefCount\<close>, the block it points to a buffer of \<open>Buffer\<close>. Two functions are only
  declared in the header, the copy constructor and \<^verbatim>\<open>UnshareAndEnsureCapacity\<close>: they are the
  parameter \<open>cow_lib\<close>, and \<open>cow_laws\<close> says what the comments at their declarations promise.
\<close>

subsection \<open>State\<close>

text \<open>
  \<open>cow_rp\<close> holds the member \<^verbatim>\<open>buffer_\<close> of every object in scope and the heap of buffers, the two
  maps the members \<^verbatim>\<open>offset_\<close> and \<^verbatim>\<open>size_\<close>; \<open>cow_next\<close> is the next fresh address.
\<close>

record cow_state =
  cow_rp :: "byte BufferT rp_state"
  cow_offset :: "nat \<Rightarrow> nat"
  cow_len :: "nat \<Rightarrow> nat"
  cow_next :: nat

record cow_lib =
  UnshareAndEnsureCapacity :: "nat \<Rightarrow> nat \<Rightarrow> cow_state \<Rightarrow> cow_state res"
  cow_copy_construct :: "nat \<Rightarrow> nat \<Rightarrow> cow_state \<Rightarrow> cow_state res"

definition cow_ptr :: "nat \<Rightarrow> cow_state \<Rightarrow> nat option" where
  "cow_ptr v s = rp_get v (cow_rp s)"

text \<open>\<^verbatim>\<open>buffer_->\<close>.\<close>

definition cow_deref :: "nat \<Rightarrow> cow_state \<Rightarrow> byte BufferT res" where
  "cow_deref v s =
     (case cow_ptr v s of
        None \<Rightarrow> Inl NullDeref
      | Some a \<Rightarrow> (case rp_heap (cow_rp s) a of None \<Rightarrow> Inl UseAfterFree | Some ob \<Rightarrow> Inr (payload ob)))"

definition cow_upd_buffer :: "nat \<Rightarrow> byte BufferT \<Rightarrow> cow_state \<Rightarrow> cow_state" where
  "cow_upd_buffer v b s =
     (case cow_ptr v s of
        None \<Rightarrow> s
      | Some a \<Rightarrow> s\<lparr>cow_rp := (cow_rp s)\<lparr>rp_heap := (rp_heap (cow_rp s))(a :=
          map_option (\<lambda>ob. ob\<lparr>payload := b\<rparr>) (rp_heap (cow_rp s) a))\<rparr>\<rparr>)"

definition cow_slice_to :: "nat \<Rightarrow> nat \<Rightarrow> nat \<Rightarrow> cow_state \<Rightarrow> cow_state" where
  "cow_slice_to v off len s = s\<lparr>cow_offset := (cow_offset s)(v := off), cow_len := (cow_len s)(v := len)\<rparr>"

definition cow_IsConsistent :: "nat \<Rightarrow> cow_state \<Rightarrow> bool" where
  "cow_IsConsistent v s =
     (if cow_ptr v s = None then cow_len s v = 0 \<and> cow_offset s v = 0
      else (case cow_deref v s of
              Inl e \<Rightarrow> False
            | Inr b \<Rightarrow> buf_capacity b > 0 \<and> cow_offset s v \<le> buf_size b \<and>
                size_add (cow_offset s v) (cow_len s v) \<le> buf_size b))"

text \<open>\<^verbatim>\<open>RTC_DCHECK(IsConsistent())\<close> in front of an operation.\<close>

definition cow_check :: "nat \<Rightarrow> cow_state \<Rightarrow> 'a res \<Rightarrow> 'a res" where
  "cow_check v s m = (if cow_IsConsistent v s then m else Inl DcheckFailed)"

subsection \<open>Reading\<close>

definition cow_size :: "nat \<Rightarrow> cow_state \<Rightarrow> nat res" where
  "cow_size v s = cow_check v s (Inr (cow_len s v))"

definition cow_capacity :: "nat \<Rightarrow> cow_state \<Rightarrow> nat res" where
  "cow_capacity v s =
     cow_check v s
       (if cow_ptr v s = None then Inr 0
        else res_bind (cow_deref v s) (\<lambda>b. res_bind (Buffer_capacity b) (\<lambda>c. Inr (c - cow_offset s v))))"

text \<open>\<^verbatim>\<open>cdata()\<close> and the constant \<^verbatim>\<open>data()\<close>: the cells from the offset on.\<close>

definition cow_cdata :: "nat \<Rightarrow> cow_state \<Rightarrow> byte cells option res" where
  "cow_cdata v s =
     cow_check v s
       (if cow_ptr v s = None then Inr None
        else res_bind (cow_deref v s) (\<lambda>b. res_bind (Buffer_data b) (\<lambda>_.
               Inr (Some (drop (cow_offset s v) (buf_block b))))))"

definition cow_index :: "nat \<Rightarrow> nat \<Rightarrow> cow_state \<Rightarrow> byte res" where
  "cow_index i v s =
     res_bind (cow_size v s) (\<lambda>n.
       if \<not> i < n then Inl DcheckFailed
       else res_bind (cow_cdata v s) (\<lambda>d. case d of None \<Rightarrow> Inl NullDeref | Some cs \<Rightarrow> read_cell i cs))"

subsection \<open>Writing\<close>

text \<open>The writable \<^verbatim>\<open>data()\<close>: afterwards the buffer is not shared.\<close>

definition cow_data :: "cow_lib \<Rightarrow> nat \<Rightarrow> cow_state \<Rightarrow> cow_state res" where
  "cow_data L v s =
     cow_check v s
       (if cow_ptr v s = None then Inr s
        else res_bind (cow_capacity v s) (\<lambda>c.
             res_bind (UnshareAndEnsureCapacity L c v s) (\<lambda>s1.
             res_bind (cow_deref v s1) (\<lambda>b. res_bind (Buffer_data b) (\<lambda>_. Inr s1)))))"

text \<open>\<^verbatim>\<open>buf[i] = x\<close>.\<close>

definition cow_put :: "cow_lib \<Rightarrow> nat \<Rightarrow> byte \<Rightarrow> nat \<Rightarrow> cow_state \<Rightarrow> cow_state res" where
  "cow_put L i x v s =
     res_bind (cow_size v s) (\<lambda>n.
       if \<not> i < n then Inl DcheckFailed
       else res_bind (cow_data L v s) (\<lambda>s1.
            res_bind (cow_deref v s1) (\<lambda>b.
            res_bind (write_at (cow_offset s1 v + i) [x] (buf_block b)) (\<lambda>cs.
              Inr (cow_upd_buffer v (b\<lparr>buf_data := map_option (\<lambda>_. cs) (buf_data b)\<rparr>) s1)))))"

text \<open>\<^verbatim>\<open>buffer_ = new RefCountedObject<Buffer>(data, size, capacity)\<close>.\<close>

definition cow_assign_buffer :: "nat \<Rightarrow> byte BufferT \<Rightarrow> cow_state \<Rightarrow> cow_state res" where
  "cow_assign_buffer v b s =
     (let a = cow_next s;
          r1 = (cow_rp s)\<lparr>rp_heap := new_object a b (rp_heap (cow_rp s))\<rparr>
      in res_bind (rp_assign_raw v (Some a) r1) (\<lambda>r2. Inr (s\<lparr>cow_rp := r2, cow_next := Suc a\<rparr>)))"

definition cow_assign_new :: "nat \<Rightarrow> byte list \<Rightarrow> nat \<Rightarrow> cow_state \<Rightarrow> cow_state res" where
  "cow_assign_new v xs capacity s = res_bind (Buffer_from xs capacity) (\<lambda>b. cow_assign_buffer v b s)"

definition cow_post :: "nat \<Rightarrow> cow_state \<Rightarrow> cow_state res" where
  "cow_post v s = cow_check v s (Inr s)"

definition cow_SetData :: "nat \<Rightarrow> byte list \<Rightarrow> cow_state \<Rightarrow> cow_state res" where
  "cow_SetData v xs s =
     cow_check v s
       (res_bind
         (case cow_ptr v s of
            None \<Rightarrow> if length xs > 0 then cow_assign_new v xs (length xs) s else Inr s
          | Some a \<Rightarrow>
              (case rp_heap (cow_rp s) a of
                 None \<Rightarrow> Inl UseAfterFree
               | Some ob \<Rightarrow>
                   if \<not> HasOneRef (ref_count ob)
                   then res_bind (cow_capacity v s) (\<lambda>c. cow_assign_new v xs c s)
                   else res_bind (SetData False xs (payload ob)) (\<lambda>b. Inr (cow_upd_buffer v b s))))
         (\<lambda>s1. cow_post v (cow_slice_to v 0 (length xs) s1)))"

text \<open>
  \<^verbatim>\<open>AppendData(const T* data, size_t size)\<close>: \<open>src\<close> is what the pointer reads when the bytes are
  copied, from the state of that moment.
\<close>

definition cow_append :: "cow_lib \<Rightarrow> nat \<Rightarrow> nat \<Rightarrow> (cow_state \<Rightarrow> byte list res) \<Rightarrow> cow_state \<Rightarrow> cow_state res"
where
  "cow_append L v n src s =
     cow_check v s
       (if cow_ptr v s = None
        then res_bind (src s) (\<lambda>xs. res_bind (cow_assign_new v xs n s) (\<lambda>s1.
               cow_post v (cow_slice_to v 0 n s1)))
        else
          res_bind (cow_capacity v s) (\<lambda>c.
          res_bind (UnshareAndEnsureCapacity L (max c (size_add (cow_len s v) n)) v s) (\<lambda>s1.
          res_bind (cow_deref v s1) (\<lambda>b.
          res_bind (SetSize False (size_add (cow_offset s1 v) (cow_len s1 v)) b) (\<lambda>b1.
          res_bind (src (cow_upd_buffer v b1 s1)) (\<lambda>xs.
          res_bind (AppendData False xs b1) (\<lambda>b2.
            cow_post v (cow_slice_to v (cow_offset s1 v) (size_add (cow_len s1 v) n)
              (cow_upd_buffer v b2 s1)))))))))"

definition cow_AppendData :: "cow_lib \<Rightarrow> nat \<Rightarrow> byte list \<Rightarrow> cow_state \<Rightarrow> cow_state res" where
  "cow_AppendData L v xs s = cow_append L v (length xs) (\<lambda>_. Inr xs) s"

text \<open>\<^verbatim>\<open>operator=\<close> and \<^verbatim>\<open>SetData(const CopyOnWriteBuffer&)\<close> have the same body.\<close>

definition cow_assign_copy :: "nat \<Rightarrow> nat \<Rightarrow> cow_state \<Rightarrow> cow_state res" where
  "cow_assign_copy v r s =
     cow_check v s (cow_check r s
       (if v = r then Inr s
        else res_bind (rp_assign_copy v r (cow_rp s)) (\<lambda>r1.
               Inr (cow_slice_to v (cow_offset s r) (cow_len s r) (s\<lparr>cow_rp := r1\<rparr>)))))"

definition cow_assign_move :: "nat \<Rightarrow> nat \<Rightarrow> nat \<Rightarrow> cow_state \<Rightarrow> cow_state res" where
  "cow_assign_move tmp v r s =
     cow_check v s (cow_check r s
       (res_bind (rp_assign_move tmp v r (cow_rp s)) (\<lambda>r1.
          Inr (cow_slice_to r 0 0 (cow_slice_to v (cow_offset s r) (cow_len s r) (s\<lparr>cow_rp := r1\<rparr>))))))"

definition cow_swap :: "nat \<Rightarrow> nat \<Rightarrow> cow_state \<Rightarrow> cow_state" where
  "cow_swap v r s =
     cow_slice_to r (cow_offset s v) (cow_len s v)
       (cow_slice_to v (cow_offset s r) (cow_len s r) (s\<lparr>cow_rp := rp_swap v r (cow_rp s)\<rparr>))"

text \<open>\<^verbatim>\<open>Slice\<close>: the new object \<open>w\<close> is a copy of \<open>v\<close> with a narrower window.\<close>

definition cow_Slice :: "cow_lib \<Rightarrow> nat \<Rightarrow> nat \<Rightarrow> nat \<Rightarrow> nat \<Rightarrow> cow_state \<Rightarrow> cow_state res" where
  "cow_Slice L w v off len s =
     res_bind (cow_copy_construct L w v s) (\<lambda>s1.
       if \<not> off \<le> cow_len s v then Inl DcheckFailed
       else if \<not> size_add len off \<le> cow_len s v then Inl DcheckFailed
       else Inr (cow_slice_to w (size_add (cow_offset s1 w) off) len s1))"

text \<open>
  \<^verbatim>\<open>AppendData(const CopyOnWriteBuffer&)\<close>: the pointer of \<^verbatim>\<open>buf.data()\<close> is a window of \<open>n\<close> bytes at
  an offset of the buffer at address \<open>a\<close>.
\<close>

definition read_window :: "nat \<Rightarrow> nat \<Rightarrow> nat \<Rightarrow> cow_state \<Rightarrow> byte list res" where
  "read_window a off n s =
     (case rp_heap (cow_rp s) a of
        None \<Rightarrow> Inl UseAfterFree
      | Some ob \<Rightarrow>
          (let cs = take n (drop off (buf_block (payload ob)))
           in if length cs < n then Inl OutOfBounds
              else if None \<in> set cs then Inl UninitRead
              else Inr (map the cs)))"

definition cow_append_buffer :: "cow_lib \<Rightarrow> nat \<Rightarrow> nat \<Rightarrow> cow_state \<Rightarrow> cow_state res" where
  "cow_append_buffer L v r s =
     cow_check r s
       (cow_append L v (cow_len s r)
         (case cow_ptr r s of None \<Rightarrow> (\<lambda>_. Inr []) | Some a \<Rightarrow> read_window a (cow_offset s r) (cow_len s r)) s)"

subsection \<open>Invariant and visible contents\<close>

text \<open>What a client sees of an object.\<close>

definition cow_contents :: "nat \<Rightarrow> cow_state \<Rightarrow> byte cells" where
  "cow_contents v s =
     (case cow_deref v s of Inl e \<Rightarrow> [] | Inr b \<Rightarrow> take (cow_len s v) (drop (cow_offset s v) (contents b)))"

text \<open>The window lies inside the buffer.\<close>

definition cow_ok :: "nat \<Rightarrow> cow_state \<Rightarrow> bool" where
  "cow_ok v s =
     (if cow_ptr v s = None then cow_len s v = 0 \<and> cow_offset s v = 0
      else (case cow_deref v s of
              Inl e \<Rightarrow> False
            | Inr b \<Rightarrow> buf_capacity b > 0 \<and> cow_offset s v + cow_len s v \<le> buf_size b \<and> buf_size b < 2 ^ 64))"

definition cow_vars :: "cow_state \<Rightarrow> nat set" where
  "cow_vars s = dom (rp_vars (cow_rp s))"

definition cow_inv :: "cow_state \<Rightarrow> bool" where
  "cow_inv s \<longleftrightarrow>
     rp_inv (cow_rp s) \<and>
     (\<forall>a ob. rp_heap (cow_rp s) a = Some ob \<longrightarrow> buf_good False (payload ob)) \<and>
     (\<forall>v\<in>cow_vars s. cow_ok v s) \<and>
     (\<forall>a. cow_next s \<le> a \<longrightarrow> rp_heap (cow_rp s) a = None)"

text \<open>The only owner of its buffer.\<close>

definition cow_unique :: "nat \<Rightarrow> cow_state \<Rightarrow> bool" where
  "cow_unique v s \<longleftrightarrow> (\<exists>a. cow_ptr v s = Some a \<and> (\<forall>w. w \<noteq> v \<longrightarrow> cow_ptr w s \<noteq> Some a))"

text \<open>The object \<open>v\<close> has the value \<open>xs\<close> afterwards and every other object the value it had.\<close>

definition cow_sets :: "nat \<Rightarrow> byte cells \<Rightarrow> cow_state \<Rightarrow> cow_state \<Rightarrow> bool" where
  "cow_sets v xs s s' \<longleftrightarrow> cow_inv s' \<and> cow_contents v s' = xs \<and> cow_vars s' = insert v (cow_vars s) \<and>
     (\<forall>w. w \<noteq> v \<longrightarrow> cow_contents w s' = cow_contents w s)"

text \<open>
  Documented behaviour of the two functions: a copy shares the data; \<^verbatim>\<open>UnshareAndEnsureCapacity\<close>
  leaves the object alone with its data, which is unchanged, in a buffer of the capacity asked for,
  and touches no other object.
\<close>

definition cow_unshared :: "nat \<Rightarrow> nat \<Rightarrow> cow_state \<Rightarrow> cow_state \<Rightarrow> bool" where
  "cow_unshared n v s s' \<longleftrightarrow> cow_sets v (cow_contents v s) s s' \<and> cow_unique v s' \<and>
     cow_len s' v = cow_len s v \<and> cow_offset s' v \<le> cow_offset s v \<and> (\<exists>c. cow_capacity v s' = Inr c \<and> n \<le> c) \<and>
     (\<forall>w. w \<noteq> v \<longrightarrow> cow_ptr w s' = cow_ptr w s \<and> cow_len s' w = cow_len s w \<and> cow_offset s' w = cow_offset s w)"

definition cow_laws :: "cow_lib \<Rightarrow> bool" where
  "cow_laws L \<longleftrightarrow>
     (\<forall>w v s. cow_copy_construct L w v s =
        res_bind (rp_copy w v (cow_rp s)) (\<lambda>r.
          Inr (cow_slice_to w (cow_offset s v) (cow_len s v) (s\<lparr>cow_rp := r\<rparr>)))) \<and>
     (\<forall>n v s. cow_inv s \<longrightarrow> cow_ptr v s \<noteq> None \<longrightarrow> 0 < n \<longrightarrow> n < 2 ^ 64 \<longrightarrow>
        (\<exists>s'. UnshareAndEnsureCapacity L n v s = Inr s' \<and> cow_unshared n v s s'))"

lemma cow_slice_simps [simp]:
  "cow_rp (cow_slice_to v off len s) = cow_rp s" "cow_next (cow_slice_to v off len s) = cow_next s"
  "cow_ptr w (cow_slice_to v off len s) = cow_ptr w s" "cow_deref w (cow_slice_to v off len s) = cow_deref w s"
  "cow_offset (cow_slice_to v off len s) = (cow_offset s)(v := off)"
  "cow_len (cow_slice_to v off len s) = (cow_len s)(v := len)"
  "cow_vars (cow_slice_to v off len s) = cow_vars s"
proof -
  show "cow_deref w (cow_slice_to v off len s) = cow_deref w s"
    by (cases "rp_get w (cow_rp s)") (simp_all add: cow_slice_to_def cow_ptr_def cow_deref_def del: rp_get_Some)
qed (simp_all add: cow_slice_to_def cow_ptr_def cow_vars_def)

lemma cow_ok_consistent: "cow_ok v s \<Longrightarrow> cow_IsConsistent v s"
  by (auto simp: cow_ok_def cow_IsConsistent_def split: sum.splits if_splits)

lemma cow_check_ok [simp]: "cow_ok v s \<Longrightarrow> cow_check v s m = m"
  by (simp add: cow_check_def cow_ok_consistent)

lemma cow_inv_ok: "cow_inv s \<Longrightarrow> v \<in> cow_vars s \<Longrightarrow> cow_ok v s"
  by (simp add: cow_inv_def)

lemma cow_ptr_alive:
  assumes "cow_inv s" and "cow_ptr v s = Some a"
  shows "\<exists>ob. rp_heap (cow_rp s) a = Some ob \<and> cow_deref v s = Inr (payload ob) \<and> buf_good False (payload ob)"
proof -
  have inv: "rp_inv (cow_rp s)" using assms(1) by (simp add: cow_inv_def)
  have "alive (rp_heap (cow_rp s)) a"
    using rp_inv_alive [OF inv] rp_get_own [OF inv, of v a] assms(2) by (simp add: cow_ptr_def)
  then show ?thesis using assms by (auto simp: alive_def cow_deref_def cow_inv_def)
qed

lemma cow_ptr_vars: "cow_ptr v s = Some a \<Longrightarrow> v \<in> cow_vars s"
  by (auto simp: cow_ptr_def cow_vars_def)

lemma cow_upd_simps [simp]:
  "rp_vars (cow_rp (cow_upd_buffer v b s)) = rp_vars (cow_rp s)"
  "cow_offset (cow_upd_buffer v b s) = cow_offset s" "cow_len (cow_upd_buffer v b s) = cow_len s"
  "cow_next (cow_upd_buffer v b s) = cow_next s" "cow_ptr w (cow_upd_buffer v b s) = cow_ptr w s"
  "cow_vars (cow_upd_buffer v b s) = cow_vars s"
  by (simp_all add: cow_upd_buffer_def cow_ptr_def cow_vars_def rp_get_def split: option.split)

lemma cow_upd_deref:
  "cow_ptr v s = Some a \<Longrightarrow> rp_heap (cow_rp s) a \<noteq> None \<Longrightarrow>
     cow_deref w (cow_upd_buffer v b s) = (if cow_ptr w s = Some a then Inr b else cow_deref w s)"
  by (auto simp: cow_deref_def) (auto simp: cow_upd_buffer_def split: option.split)

lemma cow_upd_rp_inv: "rp_inv (cow_rp s) \<Longrightarrow> rp_inv (cow_rp (cow_upd_buffer v b s))"
proof (cases "cow_ptr v s")
  case (Some a)
  assume inv: "rp_inv (cow_rp s)"
  let ?r = "cow_rp (cow_upd_buffer v b s)"
  have "alive (rp_heap ?r) q = alive (rp_heap (cow_rp s)) q \<and> count (rp_heap ?r) q = count (rp_heap (cow_rp s)) q" for q
    using Some by (auto simp: cow_upd_buffer_def alive_def count_def split: option.split)
  moreover have "rp_owners ?r q = rp_owners (cow_rp s) q" for q
    using Some by (simp add: cow_upd_buffer_def rp_owners_def)
  ultimately show ?thesis using inv by (simp add: rp_inv_def rc.owned_def)
qed (simp add: cow_upd_buffer_def)

text \<open>Whoever owns a buffer alone may change it without being noticed.\<close>

lemma cow_write_unique:
  assumes inv: "cow_inv s" and u: "cow_unique v s" and b: "buf_good False b" "buf_capacity b > 0"
    and win: "off + len \<le> buf_size b" "buf_size b < 2 ^ 64"
  defines "s' \<equiv> cow_slice_to v off len (cow_upd_buffer v b s)"
  shows "cow_inv s'" and "cow_contents v s' = take len (drop off (contents b))" and "cow_vars s' = cow_vars s"
    and "\<And>w. w \<noteq> v \<Longrightarrow> cow_contents w s' = cow_contents w s" and "cow_ok v s'"
    and "cow_ptr w s' = cow_ptr w s"
proof -
  obtain a where a: "cow_ptr v s = Some a" "\<And>w. w \<noteq> v \<Longrightarrow> cow_ptr w s \<noteq> Some a"
    using u by (auto simp: cow_unique_def)
  then obtain ob where ob: "rp_heap (cow_rp s) a = Some ob" using cow_ptr_alive [OF inv] by blast
  have dv: "cow_deref v s' = Inr b" and dw: "w \<noteq> v \<Longrightarrow> cow_deref w s' = cow_deref w s" for w
    using cow_upd_deref [OF a(1), of _ b] ob a by (simp_all add: s'_def)
  show okv: "cow_ok v s'" using dv b win a(1) by (simp add: cow_ok_def s'_def)
  show "cow_contents v s' = take len (drop off (contents b))" using dv by (simp add: cow_contents_def s'_def)
  show vars: "cow_vars s' = cow_vars s" by (simp add: s'_def)
  show "cow_ptr w s' = cow_ptr w s" for w by (simp add: s'_def)
  show "cow_contents w s' = cow_contents w s" if "w \<noteq> v" for w
    using that dw [OF that] by (cases "cow_deref w s") (simp_all add: cow_contents_def, simp add: s'_def)
  have ok: "cow_ok w s'" if "w \<in> cow_vars s" for w
  proof (cases "w = v")
    case False
    have "cow_ok w s" using inv that by (rule cow_inv_ok)
    with dw [OF False] show ?thesis
      by (cases "cow_deref w s") (simp_all add: cow_ok_def s'_def False split: if_splits)
  qed (simp add: okv)
  have "rp_inv (cow_rp s')" using inv cow_upd_rp_inv by (simp add: s'_def cow_inv_def)
  moreover have "buf_good False (payload ob')" if "rp_heap (cow_rp s') q = Some ob'" for q ob'
    using that inv a(1) b(1) by (auto simp: s'_def cow_inv_def cow_upd_buffer_def split: if_splits)
  moreover have "rp_heap (cow_rp s') q = None" if "cow_next s' \<le> q" for q
    using that inv a(1) ob by (auto simp: s'_def cow_inv_def cow_upd_buffer_def)
  ultimately show "cow_inv s'" using ok vars by (auto simp: cow_inv_def)
qed

text \<open>References taken and dropped do not change what the buffers hold.\<close>

lemma AddRef_payload: "ptr_AddRef p h = Inr h' \<Longrightarrow> map_option payload (h' q) = map_option payload (h q)"
  by (auto simp: ptr_AddRef_def AddRef_def split: option.splits)

lemma Release_payload: "ptr_Release p h = Inr h' \<Longrightarrow> h' q \<noteq> None \<Longrightarrow> map_option payload (h' q) = map_option payload (h q)"
  by (auto simp: ptr_Release_def Release_def DecRef_def Let_def elim!: res_bindE
      split: option.splits if_splits prod.splits RefCountReleaseStatus.splits)

lemma Release_none: "ptr_Release p h = Inr h' \<Longrightarrow> h q = None \<Longrightarrow> h' q = None"
  by (auto simp: ptr_Release_def Release_def DecRef_def Let_def elim!: res_bindE
      split: option.splits if_splits prod.splits RefCountReleaseStatus.splits)

lemma assign_raw_heap:
  assumes "rp_assign_raw v p r = Inr r'"
  shows "rp_vars r' = (rp_vars r)(v \<mapsto> p)" and "rp_raw r' = rp_raw r"
    and "rp_heap r' q \<noteq> None \<Longrightarrow> map_option payload (rp_heap r' q) = map_option payload (rp_heap r q)"
    and "rp_heap r q = None \<Longrightarrow> rp_heap r' q = None"
proof -
  obtain h1 h2 where h: "ptr_AddRef p (rp_heap r) = Inr h1" "ptr_Release (rp_get v r) h1 = Inr h2"
    "r' = r\<lparr>rp_heap := h2, rp_vars := (rp_vars r)(v \<mapsto> p)\<rparr>"
    using assms by (auto simp: rp_assign_raw_def elim!: res_bindE)
  then show "rp_vars r' = (rp_vars r)(v \<mapsto> p)" "rp_raw r' = rp_raw r" by simp_all
  have n: "h1 q = None \<longleftrightarrow> rp_heap r q = None" for q
    using AddRef_payload [OF h(1), of q] by (cases "h1 q"; cases "rp_heap r q") auto
  show "rp_heap r' q \<noteq> None \<Longrightarrow> map_option payload (rp_heap r' q) = map_option payload (rp_heap r q)"
    using Release_payload [OF h(2), of q] AddRef_payload [OF h(1), of q] h(3) by simp
  show "rp_heap r q = None \<Longrightarrow> rp_heap r' q = None"
    using Release_none [OF h(2), of q] n h(3) by simp
qed

text \<open>Another heap and pointer for one object; every other object keeps its pointer and its data.\<close>

lemma cow_frame:
  assumes inv: "cow_inv s"
    and rp: "rp_inv (cow_rp s')" "rp_vars (cow_rp s') = (rp_vars (cow_rp s))(v \<mapsto> p)"
    and good: "\<And>q ob'. rp_heap (cow_rp s') q = Some ob' \<Longrightarrow> buf_good False (payload ob')"
    and old: "\<And>w q ob ob'. w \<noteq> v \<Longrightarrow> cow_ptr w s = Some q \<Longrightarrow> rp_heap (cow_rp s) q = Some ob \<Longrightarrow>
      rp_heap (cow_rp s') q = Some ob' \<Longrightarrow> payload ob' = payload ob"
    and fresh: "\<And>q. cow_next s' \<le> q \<Longrightarrow> rp_heap (cow_rp s') q = None"
    and win: "\<And>w. w \<noteq> v \<Longrightarrow> cow_offset s' w = cow_offset s w \<and> cow_len s' w = cow_len s w"
    and okv: "cow_ok v s'"
  shows "cow_inv s' \<and> (\<forall>w. w \<noteq> v \<longrightarrow> cow_contents w s' = cow_contents w s) \<and> cow_vars s' = insert v (cow_vars s)"
proof -
  have ptr: "cow_ptr w s' = cow_ptr w s" if "w \<noteq> v" for w
    using that rp(2) by (simp add: cow_ptr_def rp_get_def)
  have vars: "cow_vars s' = insert v (cow_vars s)" using rp(2) by (simp add: cow_vars_def)
  have deref: "cow_deref w s' = cow_deref w s" if w: "w \<noteq> v" for w
  proof (cases "cow_ptr w s")
    case None
    then show ?thesis using ptr [OF w] by (simp add: cow_deref_def)
  next
    case (Some q)
    obtain ob where ob: "rp_heap (cow_rp s) q = Some ob" using cow_ptr_alive [OF inv Some] by blast
    have "rp_get w (cow_rp s') = Some q" using ptr [OF w] Some by (simp add: cow_ptr_def)
    then have "alive (rp_heap (cow_rp s')) q"
      using rp_inv_alive [OF rp(1)] rp_get_own [OF rp(1), of w q] by blast
    then obtain ob' where ob': "rp_heap (cow_rp s') q = Some ob'" by (auto simp: alive_def)
    have "payload ob' = payload ob" by (rule old [OF w Some ob ob'])
    then show ?thesis using ptr [OF w] Some ob ob' by (simp add: cow_deref_def)
  qed
  have con: "cow_contents w s' = cow_contents w s" if "w \<noteq> v" for w
    using conjunct1 [OF win [OF that]] conjunct2 [OF win [OF that]] deref [OF that]
    unfolding cow_contents_def by presburger
  have "cow_ok w s'" if "w \<in> cow_vars s'" for w
  proof (cases "w = v")
    case False
    then have "cow_ok w s" using that vars cow_inv_ok [OF inv] by simp
    then show ?thesis using conjunct1 [OF win [OF False]] conjunct2 [OF win [OF False]] deref [OF False] ptr [OF False]
      unfolding cow_ok_def by presburger
  qed (simp add: okv)
  then have "cow_inv s'" using rp(1) fresh good by (auto simp: cow_inv_def)
  with con vars show ?thesis by simp
qed

lemma cow_assign_buffer_ok:
  fixes v :: nat
  assumes inv: "cow_inv s" and b: "buf_good False b" "0 < buf_capacity b" "buf_size b < 2 ^ 64"
  defines "s1 \<equiv> cow_slice_to v 0 (buf_size b)"
  shows "\<exists>s2. cow_assign_buffer v b s = Inr s2 \<and> cow_sets v (contents b) s (s1 s2) \<and> cow_unique v (s1 s2) \<and>
    cow_deref v (s1 s2) = Inr b \<and> (\<forall>w. w \<noteq> v \<longrightarrow> cow_ptr w (s1 s2) = cow_ptr w s \<and>
      cow_len (s1 s2) w = cow_len s w \<and> cow_offset (s1 s2) w = cow_offset s w)"
proof -
  let ?a = "cow_next s"
  let ?r1 = "(cow_rp s)\<lparr>rp_heap := new_object ?a b (rp_heap (cow_rp s))\<rparr>"
  have rp: "rp_inv (cow_rp s)" and na: "rp_heap (cow_rp s) ?a = None" using inv by (simp_all add: cow_inv_def)
  have r1: "rp_inv ?r1" by (rule rp_new_inv(1) [OF rp na])
  have "rp_room (Some ?a) ?r1" using rp_new_inv(2) [OF rp na] by (simp add: rp_room_def rp_owners_def)
  then obtain r2 where r2: "rp_assign_raw v (Some ?a) ?r1 = Inr r2" "rp_inv r2"
    using rp_assign_raw_inv [OF r1, of "Some ?a" v] by (auto simp: new_object_def)
  note H = assign_raw_heap [OF r2(1)]
  define s2 where "s2 = s\<lparr>cow_rp := r2, cow_next := Suc ?a\<rparr>"
  define s' where "s' = s1 s2"
  have rp': "cow_rp s' = r2" "cow_next s' = Suc ?a" by (simp_all add: s'_def s1_def s2_def)
  have vars: "rp_vars (cow_rp s') = (rp_vars (cow_rp s))(v \<mapsto> Some ?a)" using H(1) rp' by simp
  have ptr: "cow_ptr v s' = Some ?a" using vars by (simp add: cow_ptr_def)
  then have "alive r2' ?a" if "r2' = rp_heap r2" for r2'
    using rp_inv_alive [OF r2(2)] rp_get_own [OF r2(2), of v ?a] rp'(1) that by (simp add: cow_ptr_def)
  then obtain ob where ob: "rp_heap r2 ?a = Some ob" by (auto simp: alive_def)
  with H(3) [of ?a] have pb: "payload ob = b" by (simp add: new_object_def)
  have dv: "cow_deref v s' = Inr b" using ptr ob pb rp' by (simp add: cow_deref_def)
  have okv: "cow_ok v s'" using dv ptr b by (simp add: cow_ok_def) (simp add: s'_def s1_def)
  have A: "cow_inv s' \<and> (\<forall>w. w \<noteq> v \<longrightarrow> cow_contents w s' = cow_contents w s) \<and> cow_vars s' = insert v (cow_vars s)"
  proof (rule cow_frame [OF inv, of s' v "Some ?a"])
    show "rp_inv (cow_rp s')" "rp_vars (cow_rp s') = (rp_vars (cow_rp s))(v \<mapsto> Some ?a)" "cow_ok v s'"
      using r2(2) rp' vars okv by simp_all
    show "buf_good False (payload ob')" if "rp_heap (cow_rp s') q = Some ob'" for q ob'
      using H(3) [of q] that rp' b(1) inv
      by (cases "q = ?a"; cases "rp_heap (cow_rp s) q") (auto simp: new_object_def cow_inv_def)
    show "payload ob' = payload ob0" if "cow_ptr w s = Some q" "rp_heap (cow_rp s) q = Some ob0"
      "rp_heap (cow_rp s') q = Some ob'" for w q ob0 ob'
      using H(3) [of q] that rp' na by (auto simp: new_object_def split: if_splits)
    show "rp_heap (cow_rp s') q = None" if "cow_next s' \<le> q" for q
      using H(4) [of q] that rp' inv by (auto simp: new_object_def cow_inv_def split: if_splits)
  qed (simp_all add: s'_def s1_def s2_def)
  have "length (contents b) = buf_size b" using b(1) by (simp add: buf_good_def contents_length)
  then have c: "cow_contents v s' = contents b" using dv by (simp add: cow_contents_def) (simp add: s'_def s1_def)
  have oth: "cow_ptr w s' = cow_ptr w s \<and> cow_len s' w = cow_len s w \<and> cow_offset s' w = cow_offset s w" if "w \<noteq> v" for w
    using that vars by (simp add: cow_ptr_def rp_get_def) (simp add: s'_def s1_def s2_def)
  have "cow_ptr w s \<noteq> Some ?a" for w using cow_ptr_alive [OF inv, of w ?a] na by auto
  then have "cow_unique v s'" using ptr oth by (simp add: cow_unique_def)
  moreover have "cow_assign_buffer v b s = Inr s2" using r2(1) by (simp add: cow_assign_buffer_def Let_def s2_def)
  ultimately show ?thesis using A c dv oth unfolding cow_sets_def s'_def by blast
qed

lemma cow_assign_new_ok:
  assumes inv: "cow_inv s" and xs: "length xs < 2 ^ 64" "0 < max (length xs) c"
  shows "\<exists>s1. cow_assign_new v xs c s = Inr s1 \<and> cow_sets v (map Some xs) s (cow_slice_to v 0 (length xs) s1)"
proof -
  obtain b where b: "Buffer_from xs c = Inr b" "buf_good False b" "contents b = map Some xs"
    "buf_capacity b = max (length xs) c"
    using Buffer_from_ok by blast
  have "buf_size b = length xs" using contents_length [of b] b by (simp add: buf_good_def)
  then show ?thesis using cow_assign_buffer_ok [OF inv b(2), of v] b xs unfolding cow_assign_new_def by auto
qed

lemma cow_setsI: "cow_sets v xs s s' \<Longrightarrow> cow_post v s' = Inr s'"
  by (simp add: cow_post_def cow_inv_ok cow_sets_def)

text \<open>A counter of one means that no other object shares the buffer.\<close>

lemma one_ref_unique:
  assumes inv: "cow_inv s" and a: "cow_ptr v s = Some a" and ob: "rp_heap (cow_rp s) a = Some ob" "HasOneRef (ref_count ob)"
  shows "cow_unique v s"
proof -
  let ?V = "{w. rp_vars (cow_rp s) w = Some (Some a)}"
  have rp: "rp_inv (cow_rp s)" using inv by (simp add: cow_inv_def)
  then have "alive (rp_heap (cow_rp s)) a \<longrightarrow> count (rp_heap (cow_rp s)) a = rp_owners (cow_rp s) a"
    by (simp add: rp_inv_def rc.owned_def)
  then have "rp_owners (cow_rp s) a = 1" using ob by (simp add: alive_def count_def HasOneRef_def)
  then have "card ?V \<le> 1" by (simp add: rp_owners_def own_vars_def)
  moreover have "finite ?V" using rp by (simp add: rp_inv_finite own_vars_finite)
  ultimately have "w = v" if "cow_ptr w s = Some a" for w
    using that a card_le_Suc0_iff_eq [of ?V] by (simp add: cow_ptr_def)
  then show ?thesis using a unfolding cow_unique_def by blast
qed

lemma cow_capacity_ok:
  assumes "cow_inv s" and "cow_ptr v s = Some a"
  shows "\<exists>ob. rp_heap (cow_rp s) a = Some ob \<and> cow_deref v s = Inr (payload ob) \<and> buf_good False (payload ob) \<and>
    cow_capacity v s = Inr (buf_capacity (payload ob) - cow_offset s v) \<and>
    cow_len s v \<le> buf_capacity (payload ob) - cow_offset s v \<and> 0 < buf_capacity (payload ob) \<and>
    cow_offset s v + cow_len s v \<le> buf_size (payload ob) \<and> buf_size (payload ob) < 2 ^ 64"
proof -
  obtain ob where ob: "rp_heap (cow_rp s) a = Some ob" "cow_deref v s = Inr (payload ob)" "buf_good False (payload ob)"
    using cow_ptr_alive [OF assms] by blast
  have ok: "cow_ok v s" using cow_inv_ok [OF assms(1) cow_ptr_vars [OF assms(2)]] .
  have con: "IsConsistent (payload ob)" "buf_size (payload ob) \<le> buf_capacity (payload ob)"
    using ob(3) by (auto simp: buf_good_def buf_wf_def IsConsistent_def)
  have win: "0 < buf_capacity (payload ob)" "cow_offset s v + cow_len s v \<le> buf_size (payload ob)"
    "buf_size (payload ob) < 2 ^ 64"
    using ok ob(2) assms(2) by (simp_all add: cow_ok_def)
  have "cow_capacity v s = Inr (buf_capacity (payload ob) - cow_offset s v)"
    using ok ob(2) con(1) assms(2) by (simp add: cow_capacity_def Buffer_capacity_def dcheck_def)
  moreover have "cow_len s v \<le> buf_capacity (payload ob) - cow_offset s v" using win con by linarith
  ultimately show ?thesis using ob win by blast
qed

lemma cow_SetData_ok:
  assumes inv: "cow_inv s" and v: "v \<in> cow_vars s" and xs: "xs \<noteq> []" "length xs < 2 ^ 64"
  shows "\<exists>s'. cow_SetData v xs s = Inr s' \<and> cow_sets v (map Some xs) s s'"
proof -
  have new: "\<exists>s1. cow_assign_new v xs c s = Inr s1 \<and> cow_sets v (map Some xs) s (cow_slice_to v 0 (length xs) s1)" for c
    by (rule cow_assign_new_ok [OF inv xs(2)]) (use xs(1) in \<open>simp add: less_max_iff_disj\<close>)
  have ok: "cow_ok v s" using inv v by (rule cow_inv_ok)
  show ?thesis
  proof (cases "cow_ptr v s")
    case None
    with ok new [of "length xs"] xs(1) show ?thesis by (auto simp: cow_SetData_def cow_setsI)
  next
    case (Some a)
    obtain ob where ob: "rp_heap (cow_rp s) a = Some ob" "buf_good False (payload ob)"
      "cow_capacity v s = Inr (buf_capacity (payload ob) - cow_offset s v)"
      using cow_capacity_ok [OF inv Some] by blast
    show ?thesis
    proof (cases "HasOneRef (ref_count ob)")
      case False
      with ok Some ob new [of "buf_capacity (payload ob) - cow_offset s v"] show ?thesis
        by (auto simp: cow_SetData_def cow_setsI)
    next
      case True
      have u: "cow_unique v s" by (rule one_ref_unique [OF inv Some ob(1) True])
      obtain b where b: "SetData False xs (payload ob) = Inr b" "buf_good False b" "contents b = map Some xs"
        using SetData_ok [OF ob(2) xs(2)] by blast
      have sz: "buf_size b = length xs" using contents_length [of b] b(2,3) by (simp add: buf_good_def)
      then have cap: "0 < buf_capacity b"
        using b(2) xs(1) by (cases xs) (auto simp: buf_good_def buf_wf_def IsConsistent_def)
      have "cow_sets v (map Some xs) s (cow_slice_to v 0 (length xs) (cow_upd_buffer v b s))"
        using cow_write_unique [OF inv u b(2) cap, of 0 "length xs"] b(3) sz xs(2) v by (simp add: cow_sets_def insert_absorb)
      with ok Some ob(1) True b(1) show ?thesis by (auto simp: cow_SetData_def cow_setsI)
    qed
  qed
qed

lemma cow_unshare:
  assumes L: "cow_laws L" and inv: "cow_inv s" and v: "cow_ptr v s \<noteq> None" and n: "0 < n" "n < 2 ^ 64"
  obtains s' b where "UnshareAndEnsureCapacity L n v s = Inr s'" "cow_inv s'" "cow_vars s' = cow_vars s" "cow_unique v s'"
    "cow_len s' v = cow_len s v" "cow_offset s' v \<le> cow_offset s v"
    "\<And>w. w \<noteq> v \<Longrightarrow> cow_contents w s' = cow_contents w s"
    "cow_deref v s' = Inr b" "buf_good False b" "0 < buf_capacity b" "cow_offset s' v + cow_len s' v \<le> buf_size b"
    "buf_size b < 2 ^ 64" "cow_contents v s = take (cow_len s v) (drop (cow_offset s' v) (contents b))"
proof -
  obtain s' where s': "UnshareAndEnsureCapacity L n v s = Inr s'" and u: "cow_unshared n v s s'"
    using L inv v n unfolding cow_laws_def by blast
  have inv': "cow_inv s'" "cow_contents v s' = cow_contents v s" "cow_vars s' = cow_vars s"
    "\<And>w. w \<noteq> v \<Longrightarrow> cow_contents w s' = cow_contents w s"
    using u v cow_ptr_vars [of v s] by (auto simp: cow_unshared_def cow_sets_def insert_absorb)
  have len: "cow_unique v s'" "cow_len s' v = cow_len s v" "cow_offset s' v \<le> cow_offset s v"
    using u by (simp_all add: cow_unshared_def)
  then obtain a where a: "cow_ptr v s' = Some a" by (auto simp: cow_unique_def)
  obtain ob where "rp_heap (cow_rp s') a = Some ob" and
    ob: "cow_deref v s' = Inr (payload ob)" "buf_good False (payload ob)" "0 < buf_capacity (payload ob)"
    "cow_offset s' v + cow_len s' v \<le> buf_size (payload ob)" "buf_size (payload ob) < 2 ^ 64"
    using cow_capacity_ok [OF inv'(1) a] by blast
  have c: "cow_contents v s = take (cow_len s v) (drop (cow_offset s' v) (contents (payload ob)))"
    using inv'(2) len(2) ob(1) by (simp add: cow_contents_def)
  show thesis by (rule that [OF s' inv'(1,3) len inv'(4) ob c])
qed

lemma cow_AppendData_ok:
  assumes L: "cow_laws L" and inv: "cow_inv s" and v: "v \<in> cow_vars s" and xs: "xs \<noteq> []"
    and room: "cow_offset s v + cow_len s v + length xs < 2 ^ 64" "\<And>c. cow_capacity v s = Inr c \<Longrightarrow> c < 2 ^ 64"
  shows "\<exists>s'. cow_AppendData L v xs s = Inr s' \<and> cow_sets v (cow_contents v s @ map Some xs) s s'"
proof (cases "cow_ptr v s")
  case None
  have ok: "cow_ok v s" using inv v by (rule cow_inv_ok)
  have "cow_contents v s = []" using None by (simp add: cow_contents_def cow_deref_def)
  moreover have "\<exists>s1. cow_assign_new v xs (length xs) s = Inr s1 \<and>
      cow_sets v (map Some xs) s (cow_slice_to v 0 (length xs) s1)"
    by (rule cow_assign_new_ok [OF inv]) (use room xs in auto)
  ultimately show ?thesis using None ok by (auto simp: cow_AppendData_def cow_append_def cow_setsI)
next
  case (Some a)
  have ok: "cow_ok v s" using inv v by (rule cow_inv_ok)
  obtain c where c: "cow_capacity v s = Inr c" using cow_capacity_ok [OF inv Some] by blast
  define n where "n = max c (size_add (cow_len s v) (length xs))"
  have sum: "size_add (cow_len s v) (length xs) = cow_len s v + length xs" using room(1) by simp
  have n: "0 < n" "n < 2 ^ 64" using sum room(1) room(2) [OF c] xs by (auto simp: n_def less_max_iff_disj)
  obtain s1 b where s1: "UnshareAndEnsureCapacity L n v s = Inr s1" "cow_inv s1" "cow_vars s1 = cow_vars s" "cow_unique v s1"
    and len: "cow_len s1 v = cow_len s v" "cow_offset s1 v \<le> cow_offset s v"
    and oth: "\<And>w. w \<noteq> v \<Longrightarrow> cow_contents w s1 = cow_contents w s"
    and b: "cow_deref v s1 = Inr b" "buf_good False b" "0 < buf_capacity b" "cow_offset s1 v + cow_len s1 v \<le> buf_size b"
      "buf_size b < 2 ^ 64" "cow_contents v s = take (cow_len s v) (drop (cow_offset s1 v) (contents b))"
    by (rule cow_unshare [OF L inv _ n, of v]) (use Some in simp, rule that)
  let ?k = "cow_offset s1 v + cow_len s1 v"
  have k: "size_add (cow_offset s1 v) (cow_len s1 v) = ?k" "size_add (cow_len s1 v) (length xs) = cow_len s1 v + length xs"
    using len room(1) by simp_all
  obtain b1 where b1: "SetSize False ?k b = Inr b1" "buf_good False b1" "buf_size b1 = ?k" "contents b1 = take ?k (contents b)"
    using SetSize_ok [OF b(2), of ?k] b(4) by blast
  have room1: "buf_size b1 + length xs < 2 ^ 64" using b1(3) len room(1) by simp
  obtain b2 where b2: "AppendData False xs b1 = Inr b2" "buf_good False b2" "contents b2 = contents b1 @ map Some xs"
    "buf_size b2 = ?k + length xs"
    using AppendData_ok [OF b1(2) room1] b1(3) by auto
  have cap: "0 < buf_capacity b2" using b2(2,4) xs by (cases xs) (auto simp: buf_good_def buf_wf_def IsConsistent_def)
  have lc: "length (contents b1) = ?k" using contents_length [of b1] b1(2,3) by (simp add: buf_good_def)
  let ?s2 = "cow_slice_to v (cow_offset s1 v) (cow_len s1 v + length xs) (cow_upd_buffer v b2 s1)"
  have W: "cow_inv ?s2" "cow_contents v ?s2 = take (cow_len s1 v + length xs) (drop (cow_offset s1 v) (contents b2))"
    "cow_vars ?s2 = cow_vars s1" "\<And>w. w \<noteq> v \<Longrightarrow> cow_contents w ?s2 = cow_contents w s1"
    using cow_write_unique(1-4) [OF s1(2,4) b2(2) cap, of "cow_offset s1 v" "cow_len s1 v + length xs"] b2(4) room1 b1(3)
    by simp_all
  have "cow_sets v (cow_contents v s @ map Some xs) s ?s2"
    using W oth s1(3) v b2(3) b1(4) lc b(6) len(1) by (simp add: cow_sets_def insert_absorb drop_take)
  then show ?thesis
    using ok Some c s1(1) b(1) b1(1) b2(1) k unfolding n_def
    by (auto simp: cow_AppendData_def cow_append_def cow_setsI)
qed

lemma cow_put_ok:
  assumes L: "cow_laws L" and inv: "cow_inv s" and v: "v \<in> cow_vars s" and i: "i < cow_len s v"
    and room: "\<And>c. cow_capacity v s = Inr c \<Longrightarrow> c < 2 ^ 64"
  shows "\<exists>s'. cow_put L i x v s = Inr s' \<and> cow_sets v ((cow_contents v s)[i := Some x]) s s'"
proof -
  have ok: "cow_ok v s" using inv v by (rule cow_inv_ok)
  then obtain a where Some: "cow_ptr v s = Some a" using i by (auto simp: cow_ok_def split: if_splits)
  obtain c where c: "cow_capacity v s = Inr c" "cow_len s v \<le> c" using cow_capacity_ok [OF inv Some] by blast
  have n: "0 < c" "c < 2 ^ 64" using room c i by auto
  obtain s1 b where s1: "UnshareAndEnsureCapacity L c v s = Inr s1" "cow_inv s1" "cow_vars s1 = cow_vars s" "cow_unique v s1"
    and len: "cow_len s1 v = cow_len s v" "cow_offset s1 v \<le> cow_offset s v"
    and oth: "\<And>w. w \<noteq> v \<Longrightarrow> cow_contents w s1 = cow_contents w s"
    and b: "cow_deref v s1 = Inr b" "buf_good False b" "0 < buf_capacity b" "cow_offset s1 v + cow_len s1 v \<le> buf_size b"
      "buf_size b < 2 ^ 64" "cow_contents v s = take (cow_len s v) (drop (cow_offset s1 v) (contents b))"
    by (rule cow_unshare [OF L inv _ n, of v]) (use Some in simp, rule that)
  let ?k = "cow_offset s1 v + i"
  let ?cs = "(buf_block b)[?k := Some x]"
  let ?b = "b\<lparr>buf_data := map_option (\<lambda>_. ?cs) (buf_data b)\<rparr>"
  have wf: "IsConsistent b" "length (buf_block b) = buf_capacity b" "buf_size b \<le> buf_capacity b"
    using b(2) by (auto simp: buf_good_def buf_wf_def IsConsistent_def)
  have k: "?k < buf_size b" using i len b(4) by simp
  have w: "write_at ?k [x] (buf_block b) = Inr ?cs"
    using write_at_ok [of ?k "[x]" "buf_block b"] k wf by (simp add: upd_conv_take_nth_drop)
  have bl: "buf_block ?b = ?cs" by (rule block_map) simp
  have g: "buf_good False ?b" using b(2) bl by (simp add: buf_good_def buf_wf_def IsConsistent_def clean_def)
  have con: "contents ?b = (contents b)[?k := Some x]" using bl by (simp add: contents_def take_update_swap)
  let ?s2 = "cow_upd_buffer v ?b s1"
  have same: "cow_slice_to v (cow_offset s1 v) (cow_len s1 v) ?s2 = ?s2" by (simp add: cow_slice_to_def)
  have W: "cow_inv ?s2" "cow_contents v ?s2 = take (cow_len s1 v) (drop (cow_offset s1 v) (contents ?b))"
    "cow_vars ?s2 = cow_vars s1" "\<And>w. w \<noteq> v \<Longrightarrow> cow_contents w ?s2 = cow_contents w s1"
    using cow_write_unique(1-4) [OF s1(2,4) g, of "cow_offset s1 v" "cow_len s1 v"] b(3,4,5) unfolding same by simp_all
  have "cow_sets v ((cow_contents v s)[i := Some x]) s ?s2"
    using W oth s1(3) v con b(6) len(1) by (simp add: cow_sets_def insert_absorb drop_update_swap take_update_swap)
  then show ?thesis
    using ok Some c(1) s1(1) b(1) w i wf(1)
    by (auto simp: cow_put_def cow_size_def cow_data_def Buffer_data_def dcheck_def)
qed

text \<open>A copy shares the buffer of the original and has its value.\<close>

lemma cow_share_ok:
  assumes inv: "cow_inv s" and r: "r \<in> cow_vars s"
    and rp: "rp_inv r'" "rp_vars r' = (rp_vars (cow_rp s))(v \<mapsto> rp_get r (cow_rp s))"
    and heap: "\<And>q. rp_heap r' q \<noteq> None \<Longrightarrow> map_option payload (rp_heap r' q) = map_option payload (rp_heap (cow_rp s) q)"
      "\<And>q. rp_heap (cow_rp s) q = None \<Longrightarrow> rp_heap r' q = None"
    and win: "off + len \<le> cow_len s r"
  defines "s' \<equiv> cow_slice_to v (cow_offset s r + off) len (s\<lparr>cow_rp := r'\<rparr>)"
  shows "cow_sets v (take len (drop off (cow_contents r s))) s s'"
    and "cow_ptr v s' = cow_ptr r s" and "cow_deref v s' = cow_deref r s"
proof -
  have rp': "cow_rp s' = r'" "cow_next s' = cow_next s" "cow_offset s' v = cow_offset s r + off" "cow_len s' v = len"
    by (simp_all add: s'_def)
  have okr: "cow_ok r s" using inv r by (rule cow_inv_ok)
  show ptr: "cow_ptr v s' = cow_ptr r s" using rp(2) rp' by (simp add: cow_ptr_def rp_get_def)
  have pay: "payload ob' = payload ob"
    if "rp_heap (cow_rp s) q = Some ob" "rp_heap (cow_rp s') q = Some ob'" for q ob ob'
    using heap(1) [of q] that rp' by simp
  show deref: "cow_deref v s' = cow_deref r s"
  proof (cases "cow_ptr r s")
    case None
    then show ?thesis using ptr by (simp add: cow_deref_def)
  next
    case (Some q)
    obtain ob where ob: "rp_heap (cow_rp s) q = Some ob" using cow_ptr_alive [OF inv Some] by blast
    have "rp_get v r' = Some q" using ptr Some rp' by (simp add: cow_ptr_def)
    then have "alive (rp_heap r') q" using rp_inv_alive [OF rp(1)] rp_get_own [OF rp(1), of v q] by blast
    then obtain ob' where ob': "rp_heap r' q = Some ob'" by (auto simp: alive_def)
    then show ?thesis using ptr Some ob pay [OF ob] rp' by (simp add: cow_deref_def)
  qed
  have okv: "cow_ok v s'"
    using okr win by (cases "cow_deref r s") (auto simp: cow_ok_def deref ptr rp' split: if_splits)
  have "cow_inv s' \<and> (\<forall>w. w \<noteq> v \<longrightarrow> cow_contents w s' = cow_contents w s) \<and> cow_vars s' = insert v (cow_vars s)"
  proof (rule cow_frame [OF inv])
    show "rp_inv (cow_rp s')" "rp_vars (cow_rp s') = (rp_vars (cow_rp s))(v \<mapsto> rp_get r (cow_rp s))"
      using rp rp' by simp_all
    show "buf_good False (payload ob')" if "rp_heap (cow_rp s') q = Some ob'" for q ob'
      using heap [of q] that rp' inv by (cases "rp_heap (cow_rp s) q") (auto simp: cow_inv_def)
    show "rp_heap (cow_rp s') q = None" if "cow_next s' \<le> q" for q
      using heap(2) [of q] that rp' inv by (simp add: cow_inv_def)
    show "payload ob' = payload ob0" if "rp_heap (cow_rp s) q = Some ob0" "rp_heap (cow_rp s') q = Some ob'" for q ob0 ob'
      by (rule pay [OF that])
    show "cow_ok v s'" by (rule okv)
  qed (simp_all add: s'_def)
  moreover have "cow_contents v s' = take len (drop off (cow_contents r s))"
    using win by (cases "cow_deref r s") (simp_all add: cow_contents_def deref rp' drop_take min_def add.commute)
  ultimately show "cow_sets v (take len (drop off (cow_contents r s))) s s'" by (simp add: cow_sets_def)
qed

lemma cow_assign_copy_ok:
  assumes inv: "cow_inv s" and v: "v \<in> cow_vars s" "r \<in> cow_vars s" and room: "rp_room (cow_ptr r s) (cow_rp s)"
  shows "\<exists>s'. cow_assign_copy v r s = Inr s' \<and> cow_sets v (cow_contents r s) s s'"
proof -
  have ok: "cow_ok v s" "cow_ok r s" using inv v by (auto intro: cow_inv_ok)
  have rp: "rp_inv (cow_rp s)" using inv by (simp add: cow_inv_def)
  have al: "alive (rp_heap (cow_rp s)) a" if "rp_get r (cow_rp s) = Some a" for a
    using that rp_inv_alive [OF rp] rp_get_own [OF rp, of r a] by blast
  obtain r1 where r1: "rp_assign_raw v (rp_get r (cow_rp s)) (cow_rp s) = Inr r1" "rp_inv r1"
    using rp_assign_raw_inv [OF rp al room [unfolded cow_ptr_def]] by blast
  have c: "take (cow_len s r) (cow_contents r s) = cow_contents r s" by (simp add: cow_contents_def split: sum.split)
  have S: "cow_sets v (cow_contents r s) s (cow_slice_to v (cow_offset s r) (cow_len s r) (s\<lparr>cow_rp := r1\<rparr>))"
    using cow_share_ok(1) [OF inv v(2) r1(2), of v 0 "cow_len s r"] assign_raw_heap [OF r1(1)] c by simp
  show ?thesis
  proof (cases "v = r")
    case True
    then have "cow_sets v (cow_contents r s) s s" using inv v by (simp add: cow_sets_def insert_absorb)
    then show ?thesis using True ok by (auto simp: cow_assign_copy_def)
  next
    case False
    then show ?thesis using S ok r1(1) by (auto simp: cow_assign_copy_def rp_assign_copy_def)
  qed
qed

lemma cow_copy_construct_ok:
  assumes L: "cow_laws L" and inv: "cow_inv s" and v: "v \<in> cow_vars s" "w \<notin> cow_vars s"
    and room: "rp_room (cow_ptr v s) (cow_rp s)" and win: "off + len \<le> cow_len s v"
  obtains s1 where "cow_copy_construct L w v s = Inr s1" "cow_offset s1 w = cow_offset s v"
    "cow_sets w (take len (drop off (cow_contents v s))) s (cow_slice_to w (cow_offset s v + off) len s1)"
    "cow_ptr w s1 = cow_ptr v s" "cow_deref w s1 = cow_deref v s"
proof -
  have rp: "rp_inv (cow_rp s)" using inv by (simp add: cow_inv_def)
  have al: "alive (rp_heap (cow_rp s)) a" if "rp_get v (cow_rp s) = Some a" for a
    using that rp_inv_alive [OF rp] rp_get_own [OF rp, of v a] by blast
  have fresh: "rp_vars (cow_rp s) w = None" using v(2) by (auto simp: cow_vars_def)
  obtain r1 where r1: "rp_copy w v (cow_rp s) = Inr r1" "rp_inv r1"
    using rp_from_raw_inv [OF rp fresh al room [unfolded cow_ptr_def]] unfolding rp_copy_def by blast
  have h: "ptr_AddRef (rp_get v (cow_rp s)) (rp_heap (cow_rp s)) = Inr (rp_heap r1)"
    "rp_vars r1 = (rp_vars (cow_rp s))(w \<mapsto> rp_get v (cow_rp s))"
    using r1(1) by (auto simp: rp_copy_def rp_from_raw_def elim!: res_bindE)
  have pay: "map_option payload (rp_heap r1 q) = map_option payload (rp_heap (cow_rp s) q)" for q by (rule AddRef_payload [OF h(1)])
  have none: "rp_heap r1 q = None" if "rp_heap (cow_rp s) q = None" for q using pay [of q] that by simp
  note S = cow_share_ok [OF inv v(1) r1(2) h(2) pay none win]
  let ?s1 = "cow_slice_to w (cow_offset s v) (cow_len s v) (s\<lparr>cow_rp := r1\<rparr>)"
  have eq: "cow_slice_to w (cow_offset s v + off) len ?s1 = cow_slice_to w (cow_offset s v + off) len (s\<lparr>cow_rp := r1\<rparr>)"
    by (simp add: cow_slice_to_def)
  have "cow_copy_construct L w v s = Inr ?s1" using L r1(1) by (simp add: cow_laws_def)
  then show thesis by (rule that) (use S in \<open>simp_all only: eq, simp_all\<close>)
qed

lemma cow_Slice_ok:
  assumes L: "cow_laws L" and inv: "cow_inv s" and v: "v \<in> cow_vars s" "w \<notin> cow_vars s"
    and room: "rp_room (cow_ptr v s) (cow_rp s)" and win: "off + len \<le> cow_len s v"
  shows "\<exists>s'. cow_Slice L w v off len s = Inr s' \<and> cow_sets w (take len (drop off (cow_contents v s))) s s'"
proof -
  obtain s1 where s1: "cow_copy_construct L w v s = Inr s1" "cow_offset s1 w = cow_offset s v"
    "cow_sets w (take len (drop off (cow_contents v s))) s (cow_slice_to w (cow_offset s v + off) len s1)"
    by (rule cow_copy_construct_ok [OF assms]) (rule that)
  have "cow_offset s v + cow_len s v < 2 ^ 64"
    using cow_inv_ok [OF inv v(1)] by (auto simp: cow_ok_def split: sum.splits if_splits)
  then have "cow_Slice L w v off len s = Inr (cow_slice_to w (cow_offset s v + off) len s1)"
    using s1(1,2) win by (simp add: cow_Slice_def)
  with s1(3) show ?thesis by blast
qed

subsection \<open>Specification: objects with values of their own\<close>

datatype cow_op =
    CowPut nat nat byte
  | CowSetData nat "byte list"
  | CowAppendData nat "byte list"
  | CowAssign nat nat
  | CowSlice nat nat nat nat

fun cow_step :: "cow_lib \<Rightarrow> cow_op \<Rightarrow> cow_state \<Rightarrow> cow_state res" where
  "cow_step L (CowPut v i x) s = cow_put L i x v s"
| "cow_step L (CowSetData v xs) s = cow_SetData v xs s"
| "cow_step L (CowAppendData v xs) s = cow_AppendData L v xs s"
| "cow_step L (CowAssign v r) s = cow_assign_copy v r s"
| "cow_step L (CowSlice w v off len) s = cow_Slice L w v off len s"

fun cow_run :: "cow_lib \<Rightarrow> cow_op list \<Rightarrow> cow_state \<Rightarrow> cow_state res" where
  "cow_run L [] s = Inr s"
| "cow_run L (x # xs) s = res_bind (cow_step L x s) (cow_run L xs)"

text \<open>The same operations on a table that maps every object to a list of its own.\<close>

type_synonym cow_values = "nat \<rightharpoonup> byte cells"

fun cow_value_step :: "cow_op \<Rightarrow> cow_values \<Rightarrow> cow_values" where
  "cow_value_step (CowPut v i x) m = m(v \<mapsto> (the (m v))[i := Some x])"
| "cow_value_step (CowSetData v xs) m = m(v \<mapsto> map Some xs)"
| "cow_value_step (CowAppendData v xs) m = m(v \<mapsto> the (m v) @ map Some xs)"
| "cow_value_step (CowAssign v r) m = m(v \<mapsto> the (m r))"
| "cow_value_step (CowSlice w v off len) m = m(w \<mapsto> take len (drop off (the (m v))))"

definition cow_abs :: "cow_state \<Rightarrow> cow_values" where
  "cow_abs s = (\<lambda>v. if v \<in> cow_vars s then Some (cow_contents v s) else None)"

text \<open>
  What the caller owes: the objects exist, indices and windows are in range, new data is not empty,
  sizes stay below \<^verbatim>\<open>SIZE_MAX\<close> and the reference counters below 32 bits.
\<close>

definition cow_small :: "nat \<Rightarrow> cow_state \<Rightarrow> bool" where
  "cow_small v s \<longleftrightarrow> (case cow_capacity v s of Inl e \<Rightarrow> True | Inr c \<Rightarrow> c < 2 ^ 64)"

fun cow_allowed :: "cow_op \<Rightarrow> cow_state \<Rightarrow> bool" where
  "cow_allowed (CowPut v i x) s \<longleftrightarrow> v \<in> cow_vars s \<and> i < cow_len s v \<and> cow_small v s"
| "cow_allowed (CowSetData v xs) s \<longleftrightarrow> v \<in> cow_vars s \<and> xs \<noteq> [] \<and> length xs < 2 ^ 64"
| "cow_allowed (CowAppendData v xs) s \<longleftrightarrow>
     v \<in> cow_vars s \<and> xs \<noteq> [] \<and> cow_offset s v + cow_len s v + length xs < 2 ^ 64 \<and> cow_small v s"
| "cow_allowed (CowAssign v r) s \<longleftrightarrow> v \<in> cow_vars s \<and> r \<in> cow_vars s \<and> rp_room (cow_ptr r s) (cow_rp s)"
| "cow_allowed (CowSlice w v off len) s \<longleftrightarrow>
     v \<in> cow_vars s \<and> w \<notin> cow_vars s \<and> rp_room (cow_ptr v s) (cow_rp s) \<and> off + len \<le> cow_len s v"

fun cow_allowed_run :: "cow_lib \<Rightarrow> cow_op list \<Rightarrow> cow_state \<Rightarrow> bool" where
  "cow_allowed_run L [] s \<longleftrightarrow> True"
| "cow_allowed_run L (x # xs) s \<longleftrightarrow>
     cow_allowed x s \<and> (case cow_step L x s of Inl e \<Rightarrow> True | Inr s' \<Rightarrow> cow_allowed_run L xs s')"

lemma cow_sets_abs: "cow_sets v xs s s' \<Longrightarrow> cow_abs s' = (cow_abs s)(v \<mapsto> xs)"
  by (auto simp: cow_sets_def cow_abs_def)

lemma cow_smallD: "cow_small v s \<Longrightarrow> cow_capacity v s = Inr c \<Longrightarrow> c < 2 ^ 64"
  by (simp add: cow_small_def)

lemma cow_abs_vars: "v \<in> cow_vars s \<Longrightarrow> the (cow_abs s v) = cow_contents v s"
  by (simp add: cow_abs_def)

lemma cow_step_ok:
  assumes L: "cow_laws L" and inv: "cow_inv s" and ok: "cow_allowed x s"
  shows "\<exists>s'. cow_step L x s = Inr s' \<and> cow_inv s' \<and> cow_abs s' = cow_value_step x (cow_abs s)"
proof -
  have "\<exists>v xs s'. cow_step L x s = Inr s' \<and> cow_sets v xs s s' \<and> cow_value_step x (cow_abs s) = (cow_abs s)(v \<mapsto> xs)"
  proof (cases x)
    case (CowPut v i y)
    then show ?thesis using ok cow_put_ok [OF L inv, of v i y] cow_smallD [of v s]
      by (simp add: cow_abs_vars) blast
  next
    case (CowSetData v xs)
    then show ?thesis using ok cow_SetData_ok [OF inv, of v xs] by auto
  next
    case (CowAppendData v xs)
    then show ?thesis using ok cow_AppendData_ok [OF L inv, of v xs] cow_smallD [of v s]
      by (simp add: cow_abs_vars) blast
  next
    case (CowAssign v r)
    then show ?thesis using ok cow_assign_copy_ok [OF inv, of v r] by (auto simp: cow_abs_vars)
  next
    case (CowSlice w v off len)
    then show ?thesis using ok cow_Slice_ok [OF L inv, of v w off len] by (auto simp: cow_abs_vars)
  qed
  then show ?thesis using cow_sets_abs by (auto simp: cow_sets_def)
qed

lemma cow_run_ok:
  "cow_laws L \<Longrightarrow> cow_inv s \<Longrightarrow> cow_allowed_run L xs s \<Longrightarrow>
     \<exists>s'. cow_run L xs s = Inr s' \<and> cow_inv s' \<and> cow_abs s' = fold cow_value_step xs (cow_abs s)"
proof (induction xs arbitrary: s)
  case (Cons x xs)
  then obtain s1 where s1: "cow_step L x s = Inr s1" "cow_inv s1" "cow_abs s1 = cow_value_step x (cow_abs s)"
    using cow_step_ok by fastforce
  with Cons show ?case by fastforce
qed simp

text \<open>
  An implementation of the two declared functions that keeps the laws: it copies the window into a
  new buffer unless the object is the only owner of one that is large enough.
\<close>

definition cells_buffer :: "byte cells \<Rightarrow> nat \<Rightarrow> byte BufferT" where
  "cells_buffer cs c = \<lparr>buf_size = length cs, buf_capacity = max (length cs) c,
     buf_data = Some (cs @ replicate (max (length cs) c - length cs) None), freed = []\<rparr>"

definition cow_copies :: cow_lib where
  "cow_copies = \<lparr>
     UnshareAndEnsureCapacity = (\<lambda>n v s.
       (case cow_ptr v s of
          None \<Rightarrow> Inl NullDeref
        | Some a \<Rightarrow>
            (case rp_heap (cow_rp s) a of
               None \<Rightarrow> Inl UseAfterFree
             | Some ob \<Rightarrow>
                 if HasOneRef (ref_count ob) \<and> n \<le> buf_capacity (payload ob) - cow_offset s v then Inr s
                 else res_bind (cow_assign_buffer v (cells_buffer (cow_contents v s) n) s)
                   (\<lambda>s1. Inr (cow_slice_to v 0 (cow_len s v) s1))))),
     cow_copy_construct = (\<lambda>w v s.
       res_bind (rp_copy w v (cow_rp s)) (\<lambda>r.
          Inr (cow_slice_to w (cow_offset s v) (cow_len s v) (s\<lparr>cow_rp := r\<rparr>))))\<rparr>"

lemma cells_buffer_ok:
  "0 < n \<Longrightarrow> buf_good False (cells_buffer cs n) \<and> contents (cells_buffer cs n) = cs \<and>
     buf_size (cells_buffer cs n) = length cs \<and> 0 < buf_capacity (cells_buffer cs n) \<and> n \<le> buf_capacity (cells_buffer cs n)"
  by (simp add: cells_buffer_def buf_good_def buf_wf_def IsConsistent_def clean_def contents_def buf_block_def)

lemma cow_copies_laws: "cow_laws cow_copies"
proof -
  have "\<exists>s'. UnshareAndEnsureCapacity cow_copies n v s = Inr s' \<and> cow_unshared n v s s'"
    if inv: "cow_inv s" and v: "cow_ptr v s \<noteq> None" and n: "0 < n" for n v s
  proof -
    from v obtain a where a: "cow_ptr v s = Some a" by auto
    have vv: "v \<in> cow_vars s" using a by (rule cow_ptr_vars)
    obtain ob where ob: "rp_heap (cow_rp s) a = Some ob" "cow_deref v s = Inr (payload ob)" "buf_good False (payload ob)"
      "cow_capacity v s = Inr (buf_capacity (payload ob) - cow_offset s v)"
      "cow_offset s v + cow_len s v \<le> buf_size (payload ob)" "buf_size (payload ob) < 2 ^ 64"
      using cow_capacity_ok [OF inv a] by blast
    show ?thesis
    proof (cases "HasOneRef (ref_count ob) \<and> n \<le> buf_capacity (payload ob) - cow_offset s v")
      case True
      then have "cow_unique v s" using one_ref_unique [OF inv a ob(1)] by simp
      then have "cow_unshared n v s s" using True ob(4) inv vv by (simp add: cow_unshared_def cow_sets_def insert_absorb)
      then show ?thesis using True a ob(1) by (simp add: cow_copies_def)
    next
      case False
      have len: "length (cow_contents v s) = cow_len s v"
        using ob(2,5) contents_length [of "payload ob"] ob(3) by (simp add: cow_contents_def buf_good_def)
      note B = cells_buffer_ok [OF n, of "cow_contents v s"]
      obtain s2 where s2: "cow_assign_buffer v (cells_buffer (cow_contents v s) n) s = Inr s2"
        "cow_sets v (cow_contents v s) s (cow_slice_to v 0 (cow_len s v) s2)" "cow_unique v (cow_slice_to v 0 (cow_len s v) s2)"
        "cow_deref v (cow_slice_to v 0 (cow_len s v) s2) = Inr (cells_buffer (cow_contents v s) n)"
        "\<forall>w. w \<noteq> v \<longrightarrow> cow_ptr w (cow_slice_to v 0 (cow_len s v) s2) = cow_ptr w s \<and>
          cow_len (cow_slice_to v 0 (cow_len s v) s2) w = cow_len s w \<and>
          cow_offset (cow_slice_to v 0 (cow_len s v) s2) w = cow_offset s w"
        using cow_assign_buffer_ok [OF inv, of "cells_buffer (cow_contents v s) n" v] B len ob(5,6) by auto
      let ?s' = "cow_slice_to v 0 (cow_len s v) s2"
      obtain a' where a': "cow_ptr v ?s' = Some a'" using s2(3) unfolding cow_unique_def by blast
      have inv': "cow_inv ?s'" using s2(2) by (simp add: cow_sets_def)
      obtain c where "cow_capacity v ?s' = Inr c" "n \<le> c" using cow_capacity_ok [OF inv' a'] s2(4) B by auto
      then have "cow_unshared n v s ?s'" using s2(2,3,5) unfolding cow_unshared_def by simp
      then show ?thesis using False a ob(1) s2(1) by (auto simp: cow_copies_def)
    qed
  qed
  then show ?thesis unfolding cow_laws_def by (simp add: cow_copies_def)
qed

subsection \<open>Properties\<close>

definition cow_one :: cow_state where
  "cow_one = \<lparr>cow_rp = \<lparr>rp_heap = (\<lambda>_. None), rp_vars = [0 \<mapsto> None], rp_raw = (\<lambda>_. 0)\<rparr>,
     cow_offset = (\<lambda>_. 0), cow_len = (\<lambda>_. 0), cow_next = 0\<rparr>"

lemma cow_one_inv: "cow_inv cow_one" "cow_abs cow_one = [0 \<mapsto> []]"
  by (auto simp: cow_inv_def cow_one_def rp_inv_def rc.owned_def rp_owners_def own_vars_def alive_def cow_vars_def
      cow_ok_def cow_ptr_def rp_get_def cow_abs_def cow_contents_def cow_deref_def split: if_splits)

lemma own_vars_none [simp]: "own_vars (\<lambda>_. None) q = 0"
  by (simp add: own_vars_def)

lemmas cow_eval =
  cow_one_def cow_SetData_def cow_check_def cow_IsConsistent_def cow_ptr_def cow_deref_def rp_get_def
  cow_assign_new_def cow_assign_buffer_def Buffer_from_def Buffer_uninit_def write_at_def new_object_def
  rp_assign_raw_def ptr_AddRef_def AddRef_def ptr_Release_def cow_post_def cow_Slice_def cow_copies_def rp_copy_def
  rp_from_raw_def cow_put_def cow_size_def cow_data_def cow_capacity_def Buffer_capacity_def dcheck_def
  IsConsistent_def buf_block_def Let_def cow_vars_def rp_room_def rp_owners_def own_vars_upd cow_small_def
  cow_contents_def contents_def Buffer_data_def cow_upd_buffer_def cow_slice_to_def
  HasOneRef_def IncRef_def Release_def DecRef_def cells_buffer_def

text \<open>
  C17. Objects of \<^verbatim>\<open>CopyOnWriteBuffer\<close> behave as if each had a byte sequence of its own: whatever
  sequence of element writes, \<^verbatim>\<open>SetData\<close>, \<^verbatim>\<open>AppendData\<close>, assignments and \<^verbatim>\<open>Slice\<close> the program runs,
  no operation fails and every object holds the value it would hold without any sharing.
\<close>

theorem copy_on_write_values:
  assumes "cow_laws L" and "cow_inv s" and "cow_allowed_run L xs s"
  shows "\<exists>s'. cow_run L xs s = Inr s' \<and> cow_inv s' \<and> cow_abs s' = fold cow_value_step xs (cow_abs s)"
  using assms by (rule cow_run_ok)

theorem copy_on_write_values_witness:
  "\<exists>s'. cow_run cow_copies [CowSetData 0 [1, 2, 3], CowSlice 1 0 1 2, CowPut 1 0 9] cow_one = Inr s' \<and>
     cow_abs s' = [0 \<mapsto> [Some 1, Some 2, Some 3], 1 \<mapsto> [Some 9, Some 3]]"
proof -
  let ?ops = "[CowSetData 0 [1, 2, 3], CowSlice 1 0 1 2, CowPut 1 0 9]"
  have "cow_allowed_run cow_copies ?ops cow_one"
    by (simp add: cow_eval)
  then obtain s' where "cow_run cow_copies ?ops cow_one = Inr s'"
    "cow_abs s' = fold cow_value_step ?ops (cow_abs cow_one)"
    using copy_on_write_values [OF cow_copies_laws cow_one_inv(1)] by blast
  then show ?thesis by (intro exI [of _ s'] conjI) (assumption, simp add: cow_one_inv(2))
qed

lemma rp_get_upd [simp]:
  "rp_get v (r\<lparr>rp_heap := h\<rparr>) = rp_get v r"
  "rp_get v (r\<lparr>rp_heap := h, rp_vars := (rp_vars r)(v \<mapsto> p)\<rparr>) = p"
  by (simp_all add: rp_get_def)

text \<open>
  \<^verbatim>\<open>AppendData\<close> of no bytes to an object that has no buffer yet fails the object's own check: the
  buffer created for it has capacity zero, which \<^verbatim>\<open>IsConsistent\<close> forbids. \<^verbatim>\<open>SetData\<close> has a case for
  this, \<^verbatim>\<open>AppendData\<close> has none.
\<close>

theorem appending_nothing_fails_check:
  assumes inv: "cow_inv s" and v: "v \<in> cow_vars s" and none: "cow_ptr v s = None"
  shows "cow_AppendData L v [] s = Inl DcheckFailed \<and> (\<exists>s'. cow_SetData v [] s = Inr s' \<and> cow_contents v s' = [])"
proof (rule conjI)
  have ok: "cow_ok v s" using inv v by (rule cow_inv_ok)
  let ?b = "\<lparr>buf_size = 0, buf_capacity = 0, buf_data = None, freed = []\<rparr> :: byte BufferT"
  let ?r = "(cow_rp s)\<lparr>rp_heap := new_object (cow_next s) ?b (rp_heap (cow_rp s))\<rparr>"
  have "Buffer_from ([] :: byte list) 0 = Inr ?b"
    by (simp add: Buffer_from_def Buffer_uninit_def buf_block_def write_at_def)
  then have new: "cow_assign_new v [] 0 s = Inr (s\<lparr>cow_rp := (cow_rp s)\<lparr>rp_heap := (rp_heap (cow_rp s))(cow_next s \<mapsto>
      \<lparr>payload = ?b, ref_count = 1\<rparr>), rp_vars := (rp_vars (cow_rp s))(v \<mapsto> Some (cow_next s))\<rparr>, cow_next := Suc (cow_next s)\<rparr>)"
    using none by (simp add: cow_assign_new_def cow_assign_buffer_def rp_assign_raw_def ptr_AddRef_def AddRef_def
        new_object_def ptr_Release_def Let_def cow_ptr_def IncRef_def)
  show "cow_AppendData L v [] s = Inl DcheckFailed"
    using ok none new
    by (simp add: cow_AppendData_def cow_append_def cow_post_def cow_check_def [of v "cow_slice_to v 0 0 s'" for s']
        cow_IsConsistent_def cow_deref_def) (simp add: cow_ptr_def)
  show "\<exists>s'. cow_SetData v [] s = Inr s' \<and> cow_contents v s' = []"
    using ok none by (simp add: cow_SetData_def cow_post_def cow_check_def [of v "cow_slice_to v 0 0 s'" for s']
        cow_IsConsistent_def cow_contents_def cow_deref_def)
qed

theorem appending_nothing_fails_check_witness:
  "cow_AppendData cow_copies 0 [] cow_one = Inl DcheckFailed"
  using appending_nothing_fails_check [OF cow_one_inv(1), of 0 cow_copies]
  by (simp add: cow_one_def cow_vars_def cow_ptr_def rp_get_def)

text \<open>
  The checks of \<^verbatim>\<open>Slice\<close> are no bound on the length: \<^verbatim>\<open>length + offset\<close> is computed modulo
  $2^{64}$, so with an offset above zero the length $2^{64} - \mathit{offset}$ passes. The slice
  then reports that length and passes \<^verbatim>\<open>IsConsistent\<close>, and its \<^verbatim>\<open>operator[]\<close> reads outside the block.
\<close>

theorem slice_length_check_wraps:
  assumes L: "cow_laws L" and inv: "cow_inv s" and v: "v \<in> cow_vars s" "w \<notin> cow_vars s"
    and room: "rp_room (cow_ptr v s) (cow_rp s)" and off: "0 < off" "off \<le> cow_len s v"
    and b: "cow_deref v s = Inr b" and i: "buf_capacity b \<le> cow_offset s v + off + i" "i < 2 ^ 64 - off"
  shows "\<exists>s'. cow_Slice L w v off (2 ^ 64 - off) s = Inr s' \<and> cow_size w s' = Inr (2 ^ 64 - off) \<and>
    cow_index i w s' = Inl OutOfBounds"
proof -
  have "off + 0 \<le> cow_len s v" using off by simp
  then obtain s1 where s1: "cow_copy_construct L w v s = Inr s1" "cow_offset s1 w = cow_offset s v"
    "cow_ptr w s1 = cow_ptr v s" "cow_deref w s1 = cow_deref v s"
    by (rule cow_copy_construct_ok [OF L inv v room]) (rule that)
  obtain a where a: "cow_ptr v s = Some a" using b by (auto simp: cow_deref_def split: option.splits)
  obtain ob where "rp_heap (cow_rp s) a = Some ob" and ob: "cow_deref v s = Inr (payload ob)" "buf_good False (payload ob)"
    "0 < buf_capacity (payload ob)" "cow_offset s v + cow_len s v \<le> buf_size (payload ob)" "buf_size (payload ob) < 2 ^ 64"
    using cow_capacity_ok [OF inv a] by blast
  have pb: "payload ob = b" using ob(1) b by simp
  have wf: "IsConsistent b" "length (buf_block b) = buf_capacity b"
    using ob(2) pb by (auto simp: buf_good_def buf_wf_def)
  let ?s' = "cow_slice_to w (cow_offset s v + off) (2 ^ 64 - off) s1"
  have wrap: "size_add (2 ^ 64 - off) off = 0" "size_add (cow_offset s v + off) (2 ^ 64 - off) = cow_offset s v"
    using off ob(4,5) by (simp_all add: size_add_def)
  have sl: "cow_Slice L w v off (2 ^ 64 - off) s = Inr ?s'"
    using s1(1,2) off ob(4,5) unfolding cow_Slice_def by (simp add: wrap(1) [simplified])
  have con: "cow_IsConsistent w ?s'"
    using s1(3,4) a b pb ob(3,4) off wrap(2) by (simp add: cow_IsConsistent_def)
  have "drop (cow_offset s v + off) (buf_block b) = [] \<or> length (drop (cow_offset s v + off) (buf_block b)) \<le> i"
    using i(1) wf(2) by auto
  then have out: "read_cell i (drop (cow_offset s v + off) (buf_block b)) = Inl OutOfBounds"
    by (auto simp: read_cell_def)
  have "cow_index i w ?s' = Inl OutOfBounds"
    using out con s1(3,4) a b i wf by (simp add: cow_index_def cow_size_def cow_cdata_def cow_check_def Buffer_data_def dcheck_def)
  then show ?thesis using sl con by (simp add: cow_size_def cow_check_def)
qed

theorem slice_length_check_wraps_witness:
  "\<exists>s s'. cow_SetData 0 [1, 2, 3] cow_one = Inr s \<and> cow_Slice cow_copies 1 0 2 (2 ^ 64 - 2) s = Inr s' \<and>
     cow_index 1 1 s' = Inl OutOfBounds"
proof -
  obtain s where s: "cow_SetData 0 [1, 2, 3] cow_one = Inr s" "cow_sets 0 [Some 1, Some 2, Some 3] cow_one s"
    using cow_SetData_ok [OF cow_one_inv(1), of 0 "[1, 2, 3]"] by (auto simp: cow_one_def cow_vars_def)
  have "cow_vars s = {0}" using s(2) by (simp add: cow_sets_def cow_one_def cow_vars_def)
  moreover have "cow_len s 0 = 3 \<and> cow_offset s 0 = 0 \<and> rp_room (cow_ptr 0 s) (cow_rp s) \<and>
      (case cow_deref 0 s of Inl e \<Rightarrow> False | Inr b \<Rightarrow> buf_capacity b = 3)"
    using s(1) by (simp add: cow_eval) (clarsimp simp: cow_eval)
  ultimately have e: "cow_vars s = {0}" "cow_len s 0 = 3" "cow_offset s 0 = 0" "rp_room (cow_ptr 0 s) (cow_rp s)"
    "\<exists>b. cow_deref 0 s = Inr b \<and> buf_capacity b = 3"
    by (auto split: sum.splits)
  have inv: "cow_inv s" using s(2) by (simp add: cow_sets_def)
  from e(5) obtain b where b: "cow_deref 0 s = Inr b" "buf_capacity b = 3" by blast
  have "\<exists>s'. cow_Slice cow_copies 1 0 2 (2 ^ 64 - 2) s = Inr s' \<and> cow_size 1 s' = Inr (2 ^ 64 - 2) \<and>
      cow_index 1 1 s' = Inl OutOfBounds"
    by (rule slice_length_check_wraps [OF cow_copies_laws inv _ _ e(4) _ _ b(1)]) (simp_all add: e b)
  with s(1) show ?thesis by blast
qed

end
