(* ===== verification/ByteIo.thy ===== *)
theory ByteIo
  imports DataChannel
begin

section \<open>Reading and writing integers as bytes\<close>

text \<open>
  \<^verbatim>\<open>modules/rtp_rtcp/source/byte_io.h\<close>: the templates \<^verbatim>\<open>ByteReader\<close> and \<^verbatim>\<open>ByteWriter\<close>. The integer
  type \<^verbatim>\<open>T\<close> is a word type \<open>'w word\<close>; a signed \<^verbatim>\<open>T\<close> is the same word read with \<open>sint\<close>. \<open>B\<close> is the
  number of bytes. An array is a list of bytes; an access outside it is the fault \<open>OutOfBounds\<close>.
\<close>

unbundle bit_operations_syntax

subsection \<open>Unsigned types\<close>

definition byte_at :: "byte list \<Rightarrow> nat \<Rightarrow> byte res" where
  "byte_at data i = (if i < length data then Inr (data ! i) else Inl OutOfBounds)"

definition put_byte :: "nat \<Rightarrow> byte \<Rightarrow> byte list \<Rightarrow> byte list res" where
  "put_byte i x data = (if i < length data then Inr (data[i := x]) else Inl OutOfBounds)"

text \<open>The loops of the general case; \<open>sh i\<close> is the shift for the byte at index \<open>i\<close>.\<close>

fun read_loop :: "(nat \<Rightarrow> nat) \<Rightarrow> nat \<Rightarrow> nat \<Rightarrow> byte list \<Rightarrow> 'w::len word \<Rightarrow> 'w word res" where
  "read_loop sh 0 i data val = Inr val"
| "read_loop sh (Suc n) i data val =
     res_bind (byte_at data i) (\<lambda>x. read_loop sh n (Suc i) data (val OR push_bit (sh i) (ucast x)))"

fun write_loop :: "(nat \<Rightarrow> nat) \<Rightarrow> nat \<Rightarrow> nat \<Rightarrow> 'w::len word \<Rightarrow> byte list \<Rightarrow> byte list res" where
  "write_loop sh 0 i val data = Inr data"
| "write_loop sh (Suc n) i val data =
     res_bind (put_byte i (ucast (drop_bit (sh i) val)) data) (\<lambda>d. write_loop sh n (Suc i) val d)"

definition be_shift :: "nat \<Rightarrow> nat \<Rightarrow> nat" where
  "be_shift B i = (B - 1 - i) * 8"

definition le_shift :: "nat \<Rightarrow> nat \<Rightarrow> nat" where
  "le_shift B i = i * 8"

definition InternalReadBigEndian :: "nat \<Rightarrow> byte list \<Rightarrow> 'w::len word res" where
  "InternalReadBigEndian B data = read_loop (be_shift B) B 0 data 0"

definition InternalReadLittleEndian :: "nat \<Rightarrow> byte list \<Rightarrow> 'w::len word res" where
  "InternalReadLittleEndian B data = read_loop (le_shift B) B 0 data 0"

definition WriteBigEndian_any :: "nat \<Rightarrow> 'w::len word \<Rightarrow> byte list \<Rightarrow> byte list res" where
  "WriteBigEndian_any B val data = write_loop (be_shift B) B 0 val data"

definition WriteLittleEndian_any :: "nat \<Rightarrow> 'w::len word \<Rightarrow> byte list \<Rightarrow> byte list res" where
  "WriteLittleEndian_any B val data = write_loop (le_shift B) B 0 val data"

text \<open>
  The specialisations for one, two, four and eight bytes. In the two-byte case the bytes are
  promoted to \<^verbatim>\<open>int\<close> and the result is converted to \<^verbatim>\<open>T\<close>.
\<close>

definition ReadBigEndian_1 :: "byte list \<Rightarrow> 'w::len word res" where
  "ReadBigEndian_1 data = res_bind (byte_at data 0) (\<lambda>d0. Inr (ucast d0))"

definition ReadLittleEndian_1 :: "byte list \<Rightarrow> 'w::len word res" where
  "ReadLittleEndian_1 data = res_bind (byte_at data 0) (\<lambda>d0. Inr (ucast d0))"

definition WriteBigEndian_1 :: "'w::len word \<Rightarrow> byte list \<Rightarrow> byte list res" where
  "WriteBigEndian_1 val data = put_byte 0 (ucast val) data"

definition WriteLittleEndian_1 :: "'w::len word \<Rightarrow> byte list \<Rightarrow> byte list res" where
  "WriteLittleEndian_1 val data = put_byte 0 (ucast val) data"

definition ReadBigEndian_2 :: "byte list \<Rightarrow> 'w::len word res" where
  "ReadBigEndian_2 data =
     res_bind (byte_at data 0) (\<lambda>d0. res_bind (byte_at data 1) (\<lambda>d1.
       Inr (ucast (push_bit 8 (ucast d0 :: 32 word) OR ucast d1))))"

definition ReadLittleEndian_2 :: "byte list \<Rightarrow> 'w::len word res" where
  "ReadLittleEndian_2 data =
     res_bind (byte_at data 0) (\<lambda>d0. res_bind (byte_at data 1) (\<lambda>d1.
       Inr (ucast ((ucast d0 :: 32 word) OR push_bit 8 (ucast d1)))))"

definition WriteBigEndian_2 :: "'w::len word \<Rightarrow> byte list \<Rightarrow> byte list res" where
  "WriteBigEndian_2 val data =
     res_bind (put_byte 0 (ucast (drop_bit 8 val)) data) (put_byte 1 (ucast val))"

definition WriteLittleEndian_2 :: "'w::len word \<Rightarrow> byte list \<Rightarrow> byte list res" where
  "WriteLittleEndian_2 val data =
     res_bind (put_byte 0 (ucast val) data) (put_byte 1 (ucast (drop_bit 8 val)))"

text \<open>\<^verbatim>\<open>Get(data, index)\<close> converts one byte to \<^verbatim>\<open>T\<close>.\<close>

definition Get :: "byte list \<Rightarrow> nat \<Rightarrow> 'w::len word res" where
  "Get data i = res_bind (byte_at data i) (\<lambda>d. Inr (ucast d))"

definition ReadBigEndian_4 :: "byte list \<Rightarrow> 'w::len word res" where
  "ReadBigEndian_4 data =
     res_bind (Get data 0) (\<lambda>g0. res_bind (Get data 1) (\<lambda>g1.
     res_bind (Get data 2) (\<lambda>g2. res_bind (Get data 3) (\<lambda>g3.
       Inr (push_bit 24 g0 OR push_bit 16 g1 OR push_bit 8 g2 OR g3)))))"

definition ReadLittleEndian_4 :: "byte list \<Rightarrow> 'w::len word res" where
  "ReadLittleEndian_4 data =
     res_bind (Get data 0) (\<lambda>g0. res_bind (Get data 1) (\<lambda>g1.
     res_bind (Get data 2) (\<lambda>g2. res_bind (Get data 3) (\<lambda>g3.
       Inr (g0 OR push_bit 8 g1 OR push_bit 16 g2 OR push_bit 24 g3)))))"

definition WriteBigEndian_4 :: "'w::len word \<Rightarrow> byte list \<Rightarrow> byte list res" where
  "WriteBigEndian_4 val data =
     res_bind (put_byte 0 (ucast (drop_bit 24 val)) data) (\<lambda>d.
     res_bind (put_byte 1 (ucast (drop_bit 16 val)) d) (\<lambda>d.
     res_bind (put_byte 2 (ucast (drop_bit 8 val)) d) (put_byte 3 (ucast val))))"

definition WriteLittleEndian_4 :: "'w::len word \<Rightarrow> byte list \<Rightarrow> byte list res" where
  "WriteLittleEndian_4 val data =
     res_bind (put_byte 0 (ucast val) data) (\<lambda>d.
     res_bind (put_byte 1 (ucast (drop_bit 8 val)) d) (\<lambda>d.
     res_bind (put_byte 2 (ucast (drop_bit 16 val)) d) (put_byte 3 (ucast (drop_bit 24 val)))))"

definition ReadBigEndian_8 :: "byte list \<Rightarrow> 'w::len word res" where
  "ReadBigEndian_8 data =
     res_bind (Get data 0) (\<lambda>g0. res_bind (Get data 1) (\<lambda>g1.
     res_bind (Get data 2) (\<lambda>g2. res_bind (Get data 3) (\<lambda>g3.
     res_bind (Get data 4) (\<lambda>g4. res_bind (Get data 5) (\<lambda>g5.
     res_bind (Get data 6) (\<lambda>g6. res_bind (Get data 7) (\<lambda>g7.
       Inr (push_bit 56 g0 OR push_bit 48 g1 OR push_bit 40 g2 OR push_bit 32 g3 OR
            push_bit 24 g4 OR push_bit 16 g5 OR push_bit 8 g6 OR g7)))))))))"

definition ReadLittleEndian_8 :: "byte list \<Rightarrow> 'w::len word res" where
  "ReadLittleEndian_8 data =
     res_bind (Get data 0) (\<lambda>g0. res_bind (Get data 1) (\<lambda>g1.
     res_bind (Get data 2) (\<lambda>g2. res_bind (Get data 3) (\<lambda>g3.
     res_bind (Get data 4) (\<lambda>g4. res_bind (Get data 5) (\<lambda>g5.
     res_bind (Get data 6) (\<lambda>g6. res_bind (Get data 7) (\<lambda>g7.
       Inr (g0 OR push_bit 8 g1 OR push_bit 16 g2 OR push_bit 24 g3 OR
            push_bit 32 g4 OR push_bit 40 g5 OR push_bit 48 g6 OR push_bit 56 g7)))))))))"

definition WriteBigEndian_8 :: "'w::len word \<Rightarrow> byte list \<Rightarrow> byte list res" where
  "WriteBigEndian_8 val data =
     res_bind (put_byte 0 (ucast (drop_bit 56 val)) data) (\<lambda>d.
     res_bind (put_byte 1 (ucast (drop_bit 48 val)) d) (\<lambda>d.
     res_bind (put_byte 2 (ucast (drop_bit 40 val)) d) (\<lambda>d.
     res_bind (put_byte 3 (ucast (drop_bit 32 val)) d) (\<lambda>d.
     res_bind (put_byte 4 (ucast (drop_bit 24 val)) d) (\<lambda>d.
     res_bind (put_byte 5 (ucast (drop_bit 16 val)) d) (\<lambda>d.
     res_bind (put_byte 6 (ucast (drop_bit 8 val)) d) (put_byte 7 (ucast val))))))))"

definition WriteLittleEndian_8 :: "'w::len word \<Rightarrow> byte list \<Rightarrow> byte list res" where
  "WriteLittleEndian_8 val data =
     res_bind (put_byte 0 (ucast val) data) (\<lambda>d.
     res_bind (put_byte 1 (ucast (drop_bit 8 val)) d) (\<lambda>d.
     res_bind (put_byte 2 (ucast (drop_bit 16 val)) d) (\<lambda>d.
     res_bind (put_byte 3 (ucast (drop_bit 24 val)) d) (\<lambda>d.
     res_bind (put_byte 4 (ucast (drop_bit 32 val)) d) (\<lambda>d.
     res_bind (put_byte 5 (ucast (drop_bit 40 val)) d) (\<lambda>d.
     res_bind (put_byte 6 (ucast (drop_bit 48 val)) d) (put_byte 7 (ucast (drop_bit 56 val)))))))))"

text \<open>Which template applies: the specialisation for \<^verbatim>\<open>B\<close> bytes if there is one, else the loop.\<close>

definition ReadBigEndian :: "nat \<Rightarrow> byte list \<Rightarrow> 'w::len word res" where
  "ReadBigEndian B data =
     (if B = 1 then ReadBigEndian_1 data else if B = 2 then ReadBigEndian_2 data
      else if B = 4 then ReadBigEndian_4 data else if B = 8 then ReadBigEndian_8 data
      else InternalReadBigEndian B data)"

definition ReadLittleEndian :: "nat \<Rightarrow> byte list \<Rightarrow> 'w::len word res" where
  "ReadLittleEndian B data =
     (if B = 1 then ReadLittleEndian_1 data else if B = 2 then ReadLittleEndian_2 data
      else if B = 4 then ReadLittleEndian_4 data else if B = 8 then ReadLittleEndian_8 data
      else InternalReadLittleEndian B data)"

definition WriteBigEndian :: "nat \<Rightarrow> 'w::len word \<Rightarrow> byte list \<Rightarrow> byte list res" where
  "WriteBigEndian B val data =
     (if B = 1 then WriteBigEndian_1 val data else if B = 2 then WriteBigEndian_2 val data
      else if B = 4 then WriteBigEndian_4 val data else if B = 8 then WriteBigEndian_8 val data
      else WriteBigEndian_any B val data)"

definition WriteLittleEndian :: "nat \<Rightarrow> 'w::len word \<Rightarrow> byte list \<Rightarrow> byte list res" where
  "WriteLittleEndian B val data =
     (if B = 1 then WriteLittleEndian_1 val data else if B = 2 then WriteLittleEndian_2 val data
      else if B = 4 then WriteLittleEndian_4 val data else if B = 8 then WriteLittleEndian_8 val data
      else WriteLittleEndian_any B val data)"

subsection \<open>Signed types\<close>

text \<open>
  \<^verbatim>\<open>SignExtend\<close>: the mask is computed from the literal 1, an \<^verbatim>\<open>int\<close> of 32 bits; a shift by 32 or
  more is undefined.
\<close>

definition SignExtend :: "nat \<Rightarrow> 'w::len word \<Rightarrow> 'w word res" where
  "SignExtend B val =
     (let kMsb = (ucast (drop_bit ((B - 1) * 8) val) :: byte)
      in if kMsb AND 0x80 \<noteq> 0
         then let amount = (B mod (LENGTH('w) div 8)) * 8
              in if 32 \<le> amount then Inl ShiftOutOfRange
                 else let kUsedBitsMask = (ucast (push_bit amount (1 :: 32 word) - 1) :: 'w word)
                      in Inr (NOT kUsedBitsMask OR val)
         else Inr val)"

definition ReinterpretAsSigned :: "'w::len word \<Rightarrow> 'w word" where
  "ReinterpretAsSigned unsigned_val =
     (let kUnsignedHighestBitMask = push_bit (LENGTH('w) - 1) 1;
          kSignedHighestBitMask = word_of_int (- (2 ^ (LENGTH('w) - 1)))
      in if unsigned_val AND kUnsignedHighestBitMask \<noteq> 0
         then (unsigned_val AND NOT kUnsignedHighestBitMask) OR kSignedHighestBitMask
         else unsigned_val)"

definition ReadBigEndian_signed :: "nat \<Rightarrow> byte list \<Rightarrow> 'w::len word res" where
  "ReadBigEndian_signed B data =
     res_bind (ReadBigEndian B data) (\<lambda>u.
     res_bind (if B < LENGTH('w) div 8 then SignExtend B u else Inr u) (\<lambda>u'.
       Inr (ReinterpretAsSigned u')))"

definition ReadLittleEndian_signed :: "nat \<Rightarrow> byte list \<Rightarrow> 'w::len word res" where
  "ReadLittleEndian_signed B data =
     res_bind (ReadLittleEndian B data) (\<lambda>u.
     res_bind (if B < LENGTH('w) div 8 then SignExtend B u else Inr u) (\<lambda>u'.
       Inr (ReinterpretAsSigned u')))"

text \<open>A signed value is written as the unsigned value with the same bits.\<close>

definition ReinterpretAsUnsigned :: "'w::len word \<Rightarrow> 'w word" where
  "ReinterpretAsUnsigned val = word_of_int (sint val)"

definition WriteBigEndian_signed :: "nat \<Rightarrow> 'w::len word \<Rightarrow> byte list \<Rightarrow> byte list res" where
  "WriteBigEndian_signed B val data = WriteBigEndian B (ReinterpretAsUnsigned val) data"

definition WriteLittleEndian_signed :: "nat \<Rightarrow> 'w::len word \<Rightarrow> byte list \<Rightarrow> byte list res" where
  "WriteLittleEndian_signed B val data = WriteLittleEndian B (ReinterpretAsUnsigned val) data"

subsection \<open>The loops\<close>

lemma read_loop_ok:
  "i + n \<le> length data \<Longrightarrow>
     \<exists>v. read_loop sh n i data (val :: 'w::len word) = Inr v \<and>
       (\<forall>k. bit v k \<longleftrightarrow> bit val k \<or> k < LENGTH('w) \<and> (\<exists>j. i \<le> j \<and> j < i + n \<and> sh j \<le> k \<and> bit (data ! j) (k - sh j)))"
proof (induction n arbitrary: i val)
  case 0
  then show ?case by auto
next
  case (Suc n)
  let ?val = "val OR push_bit (sh i) (ucast (data ! i)) :: 'w word"
  have "Suc i + n \<le> length data" using Suc.prems by simp
  then obtain v where v: "read_loop sh n (Suc i) data ?val = Inr v"
    "\<forall>k. bit v k \<longleftrightarrow> bit ?val k \<or> k < LENGTH('w) \<and> (\<exists>j. Suc i \<le> j \<and> j < Suc i + n \<and> sh j \<le> k \<and> bit (data ! j) (k - sh j))"
    using Suc.IH by blast
  have "bit ?val k \<longleftrightarrow> bit val k \<or> k < LENGTH('w) \<and> sh i \<le> k \<and> bit (data ! i) (k - sh i)" for k
    by (auto simp: bit_simps)
  moreover have "(\<exists>j. i \<le> j \<and> j < i + Suc n \<and> Q j) \<longleftrightarrow> Q i \<or> (\<exists>j. Suc i \<le> j \<and> j < Suc i + n \<and> Q j)" for Q
    by (metis add_Suc_right add_Suc less_add_Suc1 order_refl le_eq_less_or_eq Suc_le_eq)
  ultimately show ?case using v Suc.prems by (auto simp: byte_at_def)
qed

lemma write_loop_ok:
  "i + n \<le> length data \<Longrightarrow>
     write_loop sh n i val data =
       Inr (take i data @ map (\<lambda>j. ucast (drop_bit (sh j) val)) [i..<i + n] @ drop (i + n) data)"
proof (induction n arbitrary: i data)
  case 0
  then show ?case by simp
next
  case (Suc n)
  let ?x = "ucast (drop_bit (sh i) val) :: byte"
  have "write_loop sh (Suc n) i val data = write_loop sh n (Suc i) val (data[i := ?x])"
    using Suc.prems by (simp add: put_byte_def)
  also have "\<dots> = Inr (take (Suc i) (data[i := ?x]) @ map (\<lambda>j. ucast (drop_bit (sh j) val)) [Suc i..<Suc i + n] @
      drop (Suc i + n) (data[i := ?x]))"
    using Suc.IH [of "Suc i" "data[i := ?x]"] Suc.prems by simp
  also have "take (Suc i) (data[i := ?x]) = take i data @ [?x]"
    using Suc.prems by (simp add: take_Suc_conv_app_nth)
  also have "drop (Suc i + n) (data[i := ?x]) = drop (Suc i + n) data" by simp
  also have "[i..<i + Suc n] = i # [Suc i..<Suc i + n]" by (simp add: upt_conv_Cons)
  ultimately show ?case by (simp add: upt_conv_Cons)
qed

text \<open>
  A byte order gives every byte of the integer one index of the array. What the two loops promise
  together holds for every byte order.
\<close>

locale byte_order =
  fixes sh :: "nat \<Rightarrow> nat \<Rightarrow> nat"
  assumes slot: "k < B \<Longrightarrow> \<exists>i<B. sh B i = 8 * k"
    and slot_inj: "i < B \<Longrightarrow> j < B \<Longrightarrow> sh B i = sh B j \<Longrightarrow> i = j"
    and in_slot: "i < B \<Longrightarrow> \<exists>k<B. sh B i = 8 * k"
begin

lemma same_slot:
  assumes "i < B" "j < B" "sh B i \<le> k" "k < sh B i + 8" "sh B j \<le> k" "k < sh B j + 8"
  shows "i = j"
proof -
  obtain p q where "sh B i = 8 * p" "sh B j = 8 * q" using in_slot assms(1,2) by blast
  with assms have "p = q" by linarith
  with slot_inj assms \<open>sh B i = 8 * p\<close> \<open>sh B j = 8 * q\<close> show ?thesis by metis
qed

lemma read_write:
  fixes val :: "'w::len word"
  assumes B: "B \<le> length data"
  shows "\<exists>d. write_loop (sh B) B 0 val data = Inr d \<and> read_loop (sh B) B 0 d 0 = Inr (take_bit (8 * B) val) \<and>
    length d = length data \<and> drop B d = drop B data"
proof -
  let ?d = "map (\<lambda>j. ucast (drop_bit (sh B j) val)) [0..<B] @ drop B data :: byte list"
  have w: "write_loop (sh B) B 0 val data = Inr ?d" using write_loop_ok [of 0 B data "sh B" val] B by simp
  have at: "?d ! j = ucast (drop_bit (sh B j) val)" if "j < B" for j using that by (simp add: nth_append)
  have cell: "bit (?d ! j) (k - sh B j) \<longleftrightarrow> k < sh B j + 8 \<and> bit val k" if "j < B" "sh B j \<le> k" for j k
    using at [OF that(1)] that(2) by (auto simp: bit_simps dest: bit_imp_le_length)
  obtain v where v: "read_loop (sh B) B 0 ?d (0 :: 'w word) = Inr v"
    "\<forall>k. bit v k \<longleftrightarrow> bit (0 :: 'w word) k \<or> k < LENGTH('w) \<and> (\<exists>j. 0 \<le> j \<and> j < 0 + B \<and> sh B j \<le> k \<and> bit (?d ! j) (k - sh B j))"
    using read_loop_ok [of 0 B ?d "sh B" "0 :: 'w word"] B by auto
  have "bit v k \<longleftrightarrow> bit (take_bit (8 * B) val) k" if k: "k < LENGTH('w)" for k
  proof -
    have "bit v k \<longleftrightarrow> (\<exists>j<B. sh B j \<le> k \<and> bit (?d ! j) (k - sh B j))" using v(2) k by simp
    also have "\<dots> \<longleftrightarrow> (\<exists>j<B. sh B j \<le> k \<and> k < sh B j + 8 \<and> bit val k)"
      using cell by blast
    also have "\<dots> \<longleftrightarrow> k < 8 * B \<and> bit val k"
    proof
      assume "k < 8 * B \<and> bit val k"
      then have "k div 8 < B" by auto
      then obtain j where "j < B" "sh B j = 8 * (k div 8)" using slot by blast
      then show "\<exists>j<B. sh B j \<le> k \<and> k < sh B j + 8 \<and> bit val k"
        using \<open>k < 8 * B \<and> bit val k\<close> by (intro exI [of _ j]) auto
    next
      assume "\<exists>j<B. sh B j \<le> k \<and> k < sh B j + 8 \<and> bit val k"
      then obtain j where j: "j < B" "k < sh B j + 8" "bit val k" by blast
      obtain q where "q < B" "sh B j = 8 * q" using in_slot j(1) by blast
      with j show "k < 8 * B \<and> bit val k" by simp
    qed
    finally show ?thesis by (simp add: bit_take_bit_iff)
  qed
  then have "v = take_bit (8 * B) val" by (rule bit_word_eqI)
  with v(1) w B show ?thesis by simp
qed

lemma write_read:
  fixes val :: "'w::len word"
  assumes B: "B \<le> length data" "8 * B \<le> LENGTH('w)" and val: "read_loop (sh B) B 0 data 0 = Inr val"
  shows "write_loop (sh B) B 0 val data = Inr data"
proof -
  obtain v where v: "read_loop (sh B) B 0 data (0 :: 'w word) = Inr v"
    "\<forall>k. bit v k \<longleftrightarrow> bit (0 :: 'w word) k \<or> k < LENGTH('w) \<and> (\<exists>j. 0 \<le> j \<and> j < 0 + B \<and> sh B j \<le> k \<and> bit (data ! j) (k - sh B j))"
    using read_loop_ok [of 0 B data "sh B" "0 :: 'w word"] B by auto
  have "(ucast (drop_bit (sh B i) val) :: byte) = data ! i" if i: "i < B" for i
  proof (rule bit_word_eqI)
    fix k assume k: "k < LENGTH(8)"
    obtain q where q: "q < B" "sh B i = 8 * q" using in_slot i by blast
    have "sh B i + k < LENGTH('w)" using q k B(2) by simp
    then have "bit val (sh B i + k) \<longleftrightarrow> (\<exists>j<B. sh B j \<le> sh B i + k \<and> bit (data ! j) (sh B i + k - sh B j))"
      using v val by simp
    also have "\<dots> \<longleftrightarrow> bit (data ! i) k"
    proof
      assume "\<exists>j<B. sh B j \<le> sh B i + k \<and> bit (data ! j) (sh B i + k - sh B j)"
      then obtain j where j: "j < B" "sh B j \<le> sh B i + k" "bit (data ! j) (sh B i + k - sh B j)" by blast
      then have "sh B i + k - sh B j < 8" using bit_imp_le_length [of "data ! j"] by simp
      then have "i = j" using same_slot [OF i j(1), of "sh B i + k"] k j(2) by simp
      then show "bit (data ! i) k" using j(3) by simp
    next
      assume "bit (data ! i) k"
      then show "\<exists>j<B. sh B j \<le> sh B i + k \<and> bit (data ! j) (sh B i + k - sh B j)"
        using i by (intro exI [of _ i]) simp
    qed
    finally show "bit (ucast (drop_bit (sh B i) val) :: byte) k \<longleftrightarrow> bit (data ! i) k"
      using k by (simp add: bit_simps)
  qed
  then have "map (\<lambda>j. ucast (drop_bit (sh B j) val)) [0..<B] = take B data"
    using B(1) by (intro nth_equalityI) auto
  then show ?thesis using write_loop_ok [of 0 B data "sh B" val] B(1) by simp
qed

end

interpretation be: byte_order be_shift
proof
  show "\<exists>i<B. be_shift B i = 8 * k" if "k < B" for k B
    using that by (intro exI [of _ "B - 1 - k"]) (auto simp: be_shift_def)
  show "i = j" if "i < B" "j < B" "be_shift B i = be_shift B j" for i j B
    using that by (auto simp: be_shift_def)
  show "\<exists>k<B. be_shift B i = 8 * k" if "i < B" for i B
    using that by (intro exI [of _ "B - 1 - i"]) (auto simp: be_shift_def)
qed

interpretation le: byte_order le_shift
  by unfold_locales (auto simp: le_shift_def)

subsection \<open>The specialisations\<close>

lemma read_loop_num:
  "read_loop sh (numeral n) i data val =
     res_bind (byte_at data i) (\<lambda>x. read_loop sh (pred_numeral n) (i + 1) data (val OR push_bit (sh i) (ucast x)))"
  "read_loop sh 1 i data val = res_bind (byte_at data i) (\<lambda>x. Inr (val OR push_bit (sh i) (ucast x)))"
  by (simp_all add: numeral_eq_Suc)

lemma write_loop_num:
  "write_loop sh (numeral n) i val data =
     res_bind (put_byte i (ucast (drop_bit (sh i) val)) data) (\<lambda>d. write_loop sh (pred_numeral n) (i + 1) val d)"
  "write_loop sh 1 i val data = put_byte i (ucast (drop_bit (sh i) val)) data"
  by (simp_all add: numeral_eq_Suc put_byte_def)

lemmas unroll = read_loop_num write_loop_num be_shift_def le_shift_def Get_def res_bind_assoc or.assoc

lemma int_promotion:
  fixes a b :: byte
  shows "ucast (push_bit 8 (ucast a :: 32 word) OR ucast b) = (push_bit 8 (ucast a) OR ucast b :: 'w::len word)"
    and "ucast ((ucast a :: 32 word) OR push_bit 8 (ucast b)) = (ucast a OR push_bit 8 (ucast b) :: 'w::len word)"
  by (rule bit_word_eqI, auto simp: bit_simps dest: bit_imp_le_length)+

lemma read_unrolled:
  "InternalReadBigEndian 1 data = ReadBigEndian_1 data" "InternalReadLittleEndian 1 data = ReadLittleEndian_1 data"
  "InternalReadBigEndian 2 data = ReadBigEndian_2 data" "InternalReadLittleEndian 2 data = ReadLittleEndian_2 data"
  "InternalReadBigEndian 4 data = ReadBigEndian_4 data" "InternalReadLittleEndian 4 data = ReadLittleEndian_4 data"
  "InternalReadBigEndian 8 data = ReadBigEndian_8 data" "InternalReadLittleEndian 8 data = ReadLittleEndian_8 data"
  unfolding ReadBigEndian_2_def ReadLittleEndian_2_def int_promotion
  by (simp_all add: InternalReadBigEndian_def InternalReadLittleEndian_def ReadBigEndian_1_def ReadLittleEndian_1_def
      ReadBigEndian_4_def ReadLittleEndian_4_def ReadBigEndian_8_def ReadLittleEndian_8_def unroll del: One_nat_def)

lemma read_specialised:
  "ReadBigEndian B data = InternalReadBigEndian B data"
  "ReadLittleEndian B data = InternalReadLittleEndian B data"
  by (simp_all add: ReadBigEndian_def ReadLittleEndian_def read_unrolled del: One_nat_def)

lemma write_unrolled:
  "WriteBigEndian_any 1 val data = WriteBigEndian_1 val data" "WriteLittleEndian_any 1 val data = WriteLittleEndian_1 val data"
  "WriteBigEndian_any 2 val data = WriteBigEndian_2 val data" "WriteLittleEndian_any 2 val data = WriteLittleEndian_2 val data"
  "WriteBigEndian_any 4 val data = WriteBigEndian_4 val data" "WriteLittleEndian_any 4 val data = WriteLittleEndian_4 val data"
  "WriteBigEndian_any 8 val data = WriteBigEndian_8 val data" "WriteLittleEndian_any 8 val data = WriteLittleEndian_8 val data"
  by (simp_all add: WriteBigEndian_any_def WriteLittleEndian_any_def WriteBigEndian_1_def WriteLittleEndian_1_def
      WriteBigEndian_2_def WriteLittleEndian_2_def WriteBigEndian_4_def WriteLittleEndian_4_def
      WriteBigEndian_8_def WriteLittleEndian_8_def unroll del: One_nat_def)

lemma write_specialised:
  "WriteBigEndian B val data = WriteBigEndian_any B val data"
  "WriteLittleEndian B val data = WriteLittleEndian_any B val data"
  by (simp_all add: WriteBigEndian_def WriteLittleEndian_def write_unrolled del: One_nat_def)

lemmas byte_io_defs = read_specialised write_specialised WriteBigEndian_any_def WriteLittleEndian_any_def
  InternalReadBigEndian_def InternalReadLittleEndian_def

subsection \<open>Sign extension\<close>

lemma Reinterpret_id [simp]: "ReinterpretAsSigned w = w" "ReinterpretAsUnsigned w = w"
proof -
  have m: "(word_of_int (- (2 ^ (LENGTH('a) - 1))) :: 'a word) = push_bit (LENGTH('a) - 1) 1"
  proof -
    have e: "Suc (LENGTH('a) - 1) = LENGTH('a)" by simp
    have "(2 :: 'a word) ^ Suc (LENGTH('a) - 1) = 0" unfolding e by simp
    then have "(2 :: 'a word) ^ (LENGTH('a) - 1) + 2 ^ (LENGTH('a) - 1) = 0" by (simp only: power_Suc mult_2)
    then have "- ((2 :: 'a word) ^ (LENGTH('a) - 1)) = 2 ^ (LENGTH('a) - 1)" by (metis neg_eq_iff_add_eq_0)
    then show ?thesis by (simp add: push_bit_eq_mult)
  qed
  have "(w AND push_bit (LENGTH('a) - 1) 1 \<noteq> 0) \<longleftrightarrow> bit w (LENGTH('a) - 1)"
    by (simp add: bit_iff_and_push_bit_not_eq_0)
  then show "ReinterpretAsSigned w = w"
    unfolding ReinterpretAsSigned_def Let_def m
    by (auto intro!: bit_word_eqI simp: bit_simps)
  show "ReinterpretAsUnsigned w = w" by (simp add: ReinterpretAsUnsigned_def)
qed

lemma msb_of_last_byte:
  "0 < B \<Longrightarrow> ((ucast (drop_bit ((B - 1) * 8) val) :: byte) AND 0x80 \<noteq> 0) \<longleftrightarrow> bit val (8 * B - 1)"
proof -
  assume "0 < B"
  then have n: "(B - 1) * 8 + 7 = 8 * B - 1" by simp
  have "(0x80 :: byte) = push_bit 7 1" by (simp add: push_bit_eq_mult)
  then have "((ucast (drop_bit ((B - 1) * 8) val) :: byte) AND 0x80 \<noteq> 0) \<longleftrightarrow> bit (ucast (drop_bit ((B - 1) * 8) val) :: byte) 7"
    by (simp only: bit_iff_and_push_bit_not_eq_0)
  also have "\<dots> \<longleftrightarrow> bit val (8 * B - 1)" using n by (simp add: bit_simps)
  finally show ?thesis .
qed

text \<open>The upper bits of a value that fits into \<open>B\<close> bytes all equal its sign.\<close>

lemma fits_bit:
  fixes val :: "'w::len word"
  assumes fit: "- (2 ^ (8 * B - 1)) \<le> sint val" "sint val < 2 ^ (8 * B - 1)"
    and k: "8 * B - 1 \<le> k" "k < LENGTH('w)"
  shows "bit val k \<longleftrightarrow> bit val (8 * B - 1)"
proof -
  have "signed_take_bit (8 * B - 1) (sint val) = sint val"
    using fit by (simp add: signed_take_bit_int_eq_self)
  moreover have "bit (signed_take_bit (8 * B - 1) (sint val)) k \<longleftrightarrow> bit (sint val) (min k (8 * B - 1))"
    by (simp add: bit_signed_take_bit_iff min.commute)
  ultimately have "bit (sint val) k \<longleftrightarrow> bit (sint val) (8 * B - 1)" using k(1) by (simp add: min_absorb2)
  then show ?thesis using k by (simp add: bit_sint_iff)
qed

lemma SignExtend_fits:
  fixes val :: "'w::len word"
  assumes B: "0 < B" "8 * B < 32" "8 * B < LENGTH('w)" "8 dvd LENGTH('w)"
    and fit: "- (2 ^ (8 * B - 1)) \<le> sint val" "sint val < 2 ^ (8 * B - 1)"
  shows "SignExtend B (take_bit (8 * B) val) = Inr val"
proof -
  have m: "B mod (LENGTH('w) div 8) = B" using B by auto
  have top: "bit (take_bit (8 * B) val) (8 * B - 1) \<longleftrightarrow> bit val (8 * B - 1)" using B(1) by (simp add: bit_take_bit_iff)
  have mask: "(ucast (push_bit (8 * B) (1 :: 32 word) - 1) :: 'w word) = mask (8 * B)"
    using B(2) by (intro bit_word_eqI) (auto simp: bit_simps push_bit_eq_mult simp flip: mask_eq_exp_minus_1)
  show ?thesis
  proof (cases "bit val (8 * B - 1)")
    case True
    then have "NOT (mask (8 * B)) OR take_bit (8 * B) val = val"
      using fits_bit [OF fit] B(1) by (intro bit_word_eqI) (auto simp: bit_simps)
    then show ?thesis using True B(2) mask
      unfolding SignExtend_def Let_def msb_of_last_byte [OF B(1)] top m by (simp add: mult.commute)
  next
    case False
    have "\<not> bit val n" if "\<not> n < 8 * B" "n < LENGTH('w)" for n using fits_bit [OF fit, of n] False that by auto
    then have "take_bit (8 * B) val = val" by (intro bit_word_eqI) (auto simp: bit_simps)
    then show ?thesis using False
      unfolding SignExtend_def Let_def msb_of_last_byte [OF B(1)] top by simp
  qed
qed

subsection \<open>Properties\<close>

text \<open>
  The specialisations for one, two, four and eight bytes read and write exactly what the loops
  of the general templates would, on every array and value, out-of-range arrays included.
\<close>

theorem byte_io_specialisations:
  "ReadBigEndian B data = InternalReadBigEndian B data \<and> ReadLittleEndian B data = InternalReadLittleEndian B data \<and>
   WriteBigEndian B val data = WriteBigEndian_any B val data \<and> WriteLittleEndian B val data = WriteLittleEndian_any B val data"
  by (simp add: read_specialised write_specialised)

text \<open>
  What \<^verbatim>\<open>ByteWriter\<close> wrote \<^verbatim>\<open>ByteReader\<close> reads back, in both byte orders, up to the bytes written;
  the rest of the array is unchanged.
\<close>

theorem byte_io_roundtrip:
  fixes val :: "'w::len word"
  assumes "B \<le> length data"
  shows "(\<exists>d. WriteBigEndian B val data = Inr d \<and> ReadBigEndian B d = Inr (take_bit (8 * B) val) \<and> drop B d = drop B data) \<and>
    (\<exists>d. WriteLittleEndian B val data = Inr d \<and> ReadLittleEndian B d = Inr (take_bit (8 * B) val) \<and> drop B d = drop B data)"
  using be.read_write [OF assms, of val] le.read_write [OF assms, of val]
  by (auto simp: byte_io_defs)

theorem byte_io_roundtrip_witness:
  "\<exists>d. WriteBigEndian 3 (0x12345678 :: 32 word) [0, 0, 0, 9] = Inr d \<and> ReadBigEndian 3 d = Inr (0x345678 :: 32 word) \<and>
     drop 3 d = [9]"
proof -
  have "take_bit (8 * 3) (0x12345678 :: 32 word) = 0x345678" by (simp add: take_bit_eq_mask mask_eq_exp_minus_1)
  then show ?thesis using byte_io_roundtrip [of 3 "[0, 0, 0, 9]" "0x12345678 :: 32 word"] by auto
qed



text \<open>
  A negative 64-bit value of four to seven bytes cannot be read: the mask of \<^verbatim>\<open>SignExtend\<close> is
  shifted as an \<^verbatim>\<open>int\<close>, by at least its width.
\<close>

theorem SignExtend_shift_undefined:
  fixes data :: "byte list"
  assumes B: "4 \<le> B" "B < 8" "B \<le> length data"
  shows "(bit (data ! 0) 7 \<longrightarrow> ReadBigEndian_signed B data = (Inl ShiftOutOfRange :: 64 word res)) \<and>
    (bit (data ! (B - 1)) 7 \<longrightarrow> ReadLittleEndian_signed B data = (Inl ShiftOutOfRange :: 64 word res))"
proof -
  have ext: "SignExtend B v = Inl ShiftOutOfRange" if "bit v (8 * B - 1)" for v :: "64 word"
    using that B unfolding SignExtend_def Let_def by (simp only: msb_of_last_byte) simp
  have top: "bit v (8 * B - 1)" if "read_loop sh B 0 data (0 :: 64 word) = Inr v" "sh j = 8 * B - 8" "j < B" "bit (data ! j) 7"
    for v sh j
  proof -
    obtain v' where v': "read_loop sh B 0 data (0 :: 64 word) = Inr v'"
      "\<forall>k. bit v' k \<longleftrightarrow> bit (0 :: 64 word) k \<or> k < LENGTH(64) \<and> (\<exists>j. 0 \<le> j \<and> j < 0 + B \<and> sh j \<le> k \<and> bit (data ! j) (k - sh j))"
      using read_loop_ok [of 0 B data sh "0 :: 64 word"] B by auto
    have "8 * B - 1 - sh j = 7" "sh j \<le> 8 * B - 1" "8 * B - 1 < 64" using that(2) B by simp_all
    then have "bit v' (8 * B - 1)" using v'(2) that(3,4) by auto
    then show ?thesis using v'(1) that(1) by simp
  qed
  have run: "\<exists>v. read_loop sh B 0 data (0 :: 64 word) = Inr v" for sh
    using read_loop_ok [of 0 B data sh "0 :: 64 word"] B by auto
  show ?thesis
    using run [of "be_shift B"] run [of "le_shift B"] top [of "be_shift B" _ 0] top [of "le_shift B" _ "B - 1"] ext B
    by (auto simp: byte_io_defs ReadBigEndian_signed_def ReadLittleEndian_signed_def be_shift_def le_shift_def)
qed

theorem SignExtend_shift_undefined_witness:
  "ReadBigEndian_signed 5 [0xFF, 0xFF, 0xFF, 0xFF, 0xFE] = (Inl ShiftOutOfRange :: 64 word res)"
proof -
  have "bit ([0xFF, 0xFF, 0xFF, 0xFF, 0xFE :: byte] ! 0) 7" by simp
  then show ?thesis using SignExtend_shift_undefined [of 5 "[0xFF, 0xFF, 0xFF, 0xFF, 0xFE]"] by simp
qed

end
