(* ===== verification/CivilTime.thy ===== *)
theory CivilTime
  imports Prelude
begin

section \<open>Civil time\<close>

text \<open>
  \<^verbatim>\<open>absl/time/internal/cctz/include/cctz/civil_time_detail.h\<close>: normalisation of year, month, day, hour,
  minute and second, steps and differences in a unit, alignment, order, weekdays. The 64-bit
  integers of the code are mathematical integers here, so the statements are about arguments for
  which no intermediate result overflows; division and remainder truncate as in C. A lookup
  outside a table, and only that, makes a function return \<open>None\<close>.
\<close>

subsection \<open>Fields\<close>

record fields =
  fy :: int
  fm :: int
  fd :: int
  fhh :: int
  fmm :: int
  fss :: int

definition mk_fields :: "int \<Rightarrow> int \<Rightarrow> int \<Rightarrow> int \<Rightarrow> int \<Rightarrow> int \<Rightarrow> fields" where
  "mk_fields y m d hh mm ss = \<lparr>fy = y, fm = m, fd = d, fhh = hh, fmm = mm, fss = ss\<rparr>"

datatype unit_tag = second_tag | minute_tag | hour_tag | day_tag | month_tag | year_tag

definition table_at :: "'a list \<Rightarrow> int \<Rightarrow> 'a option" where
  "table_at xs i = (if 0 \<le> i \<and> i < int (length xs) then Some (xs ! nat i) else None)"

subsection \<open>Normalisation\<close>

definition is_leap_year :: "int \<Rightarrow> bool" where
  "is_leap_year y \<longleftrightarrow> c_mod y 4 = 0 \<and> (c_mod y 100 \<noteq> 0 \<or> c_mod y 400 = 0)"

definition year_index :: "int \<Rightarrow> int \<Rightarrow> int" where
  "year_index y m = c_mod (c_mod (y + of_bool (m > 2)) 400 + 400) 400"

definition days_per_century :: "int \<Rightarrow> int \<Rightarrow> int" where
  "days_per_century y m = (let yi = year_index y m in 36524 + of_bool (yi = 0 \<or> yi > 300))"

definition days_per_4years :: "int \<Rightarrow> int \<Rightarrow> int" where
  "days_per_4years y m =
     (let yi = year_index y m in 1460 + of_bool (yi = 0 \<or> yi > 300 \<or> c_mod (yi - 1) 100 < 96))"

definition days_per_year :: "int \<Rightarrow> int \<Rightarrow> int" where
  "days_per_year y m = (if is_leap_year (y + of_bool (m > 2)) then 366 else 365)"

definition k_days_per_month :: "int list" where
  "k_days_per_month = [-1, 31, 28, 31, 30, 31, 30, 31, 31, 30, 31, 30, 31]"

definition days_per_month :: "int \<Rightarrow> int \<Rightarrow> int option" where
  "days_per_month y m = map_option (\<lambda>k. k + of_bool (m = 2 \<and> is_leap_year y)) (table_at k_days_per_month m)"

text \<open>The loops of \<^verbatim>\<open>n_day\<close>.\<close>

lemma chunk_pos [simp]: "0 < days_per_century y m" "0 < days_per_4years y m" "0 < days_per_year y m"
  by (simp_all add: days_per_century_def days_per_4years_def days_per_year_def Let_def)

function century_loop :: "int \<Rightarrow> int \<Rightarrow> int \<Rightarrow> int \<times> int" where
  "century_loop y m d =
     (let n = days_per_century y m in if d > n then century_loop (y + 100) m (d - n) else (y, d))"
  by auto
termination
  by (relation "measure (\<lambda>(y, m, d). nat d)") (auto intro: less_trans [OF chunk_pos(1)])

function four_loop :: "int \<Rightarrow> int \<Rightarrow> int \<Rightarrow> int \<times> int" where
  "four_loop y m d =
     (let n = days_per_4years y m in if d > n then four_loop (y + 4) m (d - n) else (y, d))"
  by auto
termination
  by (relation "measure (\<lambda>(y, m, d). nat d)") (auto intro: less_trans [OF chunk_pos(2)])

function year_loop :: "int \<Rightarrow> int \<Rightarrow> int \<Rightarrow> int \<times> int" where
  "year_loop y m d =
     (let n = days_per_year y m in if d > n then year_loop (y + 1) m (d - n) else (y, d))"
  by auto
termination
  by (relation "measure (\<lambda>(y, m, d). nat d)") (auto intro: less_trans [OF chunk_pos(3)])

text \<open>The table starts with an unused entry of \<open>-1\<close> for month 0.\<close>

lemma days_per_month_pos: "days_per_month y m = Some n \<Longrightarrow> m \<noteq> 0 \<Longrightarrow> 28 \<le> n"
proof -
  assume a: "days_per_month y m = Some n" "m \<noteq> 0"
  then have "m \<in> {1..12}" by (auto simp: days_per_month_def table_at_def k_days_per_month_def split: if_splits)
  then have "m \<in> {1, 2, 3, 4, 5, 6, 7, 8, 9, 10, 11, 12}" by (simp add: atLeastAtMost_iff) presburger
  with a show "28 \<le> n" by (auto simp: days_per_month_def table_at_def k_days_per_month_def)
qed

lemma days_per_month_range: "days_per_month y m = Some n \<Longrightarrow> 0 \<le> m"
  by (auto simp: days_per_month_def table_at_def split: if_splits)

function month_loop :: "int \<Rightarrow> int \<Rightarrow> int \<Rightarrow> (int \<times> int \<times> int) option" where
  "month_loop y m d =
     (case days_per_month y m of
        None \<Rightarrow> None
      | Some n \<Rightarrow>
          if d > n
          then (if m + 1 > 12 then month_loop (y + 1) 1 (d - n) else month_loop y (m + 1) (d - n))
          else Some (y, m, d))"
  by auto
termination
proof (relation "measures [\<lambda>(y, m, d). of_bool (m = 0), \<lambda>(y, m, d). nat d]")
  fix y m d n
  assume a: "days_per_month y m = Some n" "n < d"
  have "m = 0 \<or> 28 \<le> n" using days_per_month_pos [OF a(1)] by blast
  moreover have "0 \<le> m" by (rule days_per_month_range [OF a(1)])
  ultimately show "12 < m + 1 \<Longrightarrow> ((y + 1, 1, d - n), y, m, d) \<in> measures [\<lambda>(y, m, d). of_bool (m = 0), \<lambda>(y, m, d). nat d]"
    "\<not> 12 < m + 1 \<Longrightarrow> ((y, m + 1, d - n), y, m, d) \<in> measures [\<lambda>(y, m, d). of_bool (m = 0), \<lambda>(y, m, d). nat d]"
    using a(2) by auto
qed simp

declare century_loop.simps [simp del] four_loop.simps [simp del] year_loop.simps [simp del] month_loop.simps [simp del]

text \<open>
  \<^verbatim>\<open>n_day\<close> in three parts: whole cycles of 400 years, then chunks of years, then months. \<open>cd\<close> are carried
  days, added to \<open>d\<close> only when both are reduced.
\<close>

definition n_day_cycles :: "int \<Rightarrow> int \<Rightarrow> int \<Rightarrow> int \<Rightarrow> int \<times> int" where
  "n_day_cycles y m d cd =
     (let y = y + c_div cd 146097 * 400;
          cd = c_mod cd 146097;
          (y, cd) = (if cd < 0 then (y - 400, cd + 146097) else (y, cd));
          y = y + c_div d 146097 * 400;
          d = c_mod d 146097 + cd
      in if d > 0 then (if d > 146097 then (y + 400, d - 146097) else (y, d))
         else if d > - 365 then (y - 1, d + days_per_year (y - 1) m)
         else (y - 400, d + 146097))"

definition n_day_years :: "int \<Rightarrow> int \<Rightarrow> int \<Rightarrow> int \<times> int" where
  "n_day_years y m d =
     (if d > 365
      then let (y, d) = century_loop y m d; (y, d) = four_loop y m d in year_loop y m d
      else (y, d))"

definition n_day :: "int \<Rightarrow> int \<Rightarrow> int \<Rightarrow> int \<Rightarrow> int \<Rightarrow> int \<Rightarrow> int \<Rightarrow> fields option" where
  "n_day y m d cd hh mm ss =
     (let (y, d) = n_day_cycles y m d cd;
          (y, d) = n_day_years y m d
      in map_option (\<lambda>(y, m, d). mk_fields y m d hh mm ss) (if d > 28 then month_loop y m d else Some (y, m, d)))"

definition n_mon :: "int \<Rightarrow> int \<Rightarrow> int \<Rightarrow> int \<Rightarrow> int \<Rightarrow> int \<Rightarrow> int \<Rightarrow> fields option" where
  "n_mon y m d cd hh mm ss =
     (let (y, m) =
            (if m \<noteq> 12
             then let y = y + c_div m 12; m = c_mod m 12 in if m \<le> 0 then (y - 1, m + 12) else (y, m)
             else (y, m))
      in n_day y m d cd hh mm ss)"

definition n_hour :: "int \<Rightarrow> int \<Rightarrow> int \<Rightarrow> int \<Rightarrow> int \<Rightarrow> int \<Rightarrow> int \<Rightarrow> fields option" where
  "n_hour y m d cd hh mm ss =
     (let cd = cd + c_div hh 24; hh = c_mod hh 24;
          (cd, hh) = (if hh < 0 then (cd - 1, hh + 24) else (cd, hh))
      in n_mon y m d cd hh mm ss)"

definition n_min :: "int \<Rightarrow> int \<Rightarrow> int \<Rightarrow> int \<Rightarrow> int \<Rightarrow> int \<Rightarrow> int \<Rightarrow> fields option" where
  "n_min y m d hh ch mm ss =
     (let ch = ch + c_div mm 60; mm = c_mod mm 60;
          (ch, mm) = (if mm < 0 then (ch - 1, mm + 60) else (ch, mm))
      in n_hour y m d (c_div hh 24 + c_div ch 24) (c_mod hh 24 + c_mod ch 24) mm ss)"

definition n_sec :: "int \<Rightarrow> int \<Rightarrow> int \<Rightarrow> int \<Rightarrow> int \<Rightarrow> int \<Rightarrow> fields option" where
  "n_sec y m d hh mm ss =
     (if 0 \<le> ss \<and> ss < 60
      then if 0 \<le> mm \<and> mm < 60
           then if 0 \<le> hh \<and> hh < 24
                then if 1 \<le> d \<and> d \<le> 28 \<and> 1 \<le> m \<and> m \<le> 12 then Some (mk_fields y m d hh mm ss)
                     else n_mon y m d 0 hh mm ss
                else n_hour y m d (c_div hh 24) (c_mod hh 24) mm ss
           else n_min y m d hh (c_div mm 60) (c_mod mm 60) ss
      else
        let cm = c_div ss 60; ss = c_mod ss 60;
            (cm, ss) = (if ss < 0 then (cm - 1, ss + 60) else (cm, ss))
        in n_min y m d hh (c_div mm 60 + c_div cm 60) (c_mod mm 60 + c_mod cm 60) ss)"

subsection \<open>Steps, differences, alignment\<close>

text \<open>\<^verbatim>\<open>step\<close> with a tag for the unit.\<close>

fun step :: "unit_tag \<Rightarrow> fields \<Rightarrow> int \<Rightarrow> fields option" where
  "step second_tag f n = n_sec (fy f) (fm f) (fd f) (fhh f) (fmm f + c_div n 60) (fss f + c_mod n 60)"
| "step minute_tag f n = n_min (fy f) (fm f) (fd f) (fhh f + c_div n 60) 0 (fmm f + c_mod n 60) (fss f)"
| "step hour_tag f n = n_hour (fy f) (fm f) (fd f + c_div n 24) 0 (fhh f + c_mod n 24) (fmm f) (fss f)"
| "step day_tag f n = n_day (fy f) (fm f) (fd f) n (fhh f) (fmm f) (fss f)"
| "step month_tag f n = n_mon (fy f + c_div n 12) (fm f + c_mod n 12) (fd f) 0 (fhh f) (fmm f) (fss f)"
| "step year_tag f n = Some (mk_fields (fy f + n) (fm f) (fd f) (fhh f) (fmm f) (fss f))"

definition scale_add :: "int \<Rightarrow> int \<Rightarrow> int \<Rightarrow> int" where
  "scale_add v f a = (if v < 0 then ((v + 1) * f + a) - f else ((v - 1) * f + a) + f)"

definition ymd_ord :: "int \<Rightarrow> int \<Rightarrow> int \<Rightarrow> int" where
  "ymd_ord y m d =
     (let eyear = (if m \<le> 2 then y - 1 else y);
          era = c_div (if eyear \<ge> 0 then eyear else eyear - 399) 400;
          yoe = eyear - era * 400;
          doy = c_div (153 * (m + (if m > 2 then -3 else 9)) + 2) 5 + d - 1;
          doe = yoe * 365 + c_div yoe 4 - c_div yoe 100 + doy
      in era * 146097 + doe - 719468)"

definition day_difference :: "int \<Rightarrow> int \<Rightarrow> int \<Rightarrow> int \<Rightarrow> int \<Rightarrow> int \<Rightarrow> int" where
  "day_difference y1 m1 d1 y2 m2 d2 =
     (let a_c4_off = c_mod y1 400;
          b_c4_off = c_mod y2 400;
          c4_diff = (y1 - a_c4_off) - (y2 - b_c4_off);
          delta = ymd_ord a_c4_off m1 d1 - ymd_ord b_c4_off m2 d2;
          (delta, c4_diff) =
            (if c4_diff > 0 \<and> delta < 0 then (delta + 2 * 146097, c4_diff - 2 * 400)
             else if c4_diff < 0 \<and> delta > 0 then (delta - 2 * 146097, c4_diff + 2 * 400)
             else (delta, c4_diff))
      in c_div c4_diff 400 * 146097 + delta)"

definition difference_year :: "fields \<Rightarrow> fields \<Rightarrow> int" where
  "difference_year f1 f2 = fy f1 - fy f2"

definition difference_month :: "fields \<Rightarrow> fields \<Rightarrow> int" where
  "difference_month f1 f2 = scale_add (difference_year f1 f2) 12 (fm f1 - fm f2)"

definition difference_day :: "fields \<Rightarrow> fields \<Rightarrow> int" where
  "difference_day f1 f2 = day_difference (fy f1) (fm f1) (fd f1) (fy f2) (fm f2) (fd f2)"

definition difference_hour :: "fields \<Rightarrow> fields \<Rightarrow> int" where
  "difference_hour f1 f2 = scale_add (difference_day f1 f2) 24 (fhh f1 - fhh f2)"

definition difference_minute :: "fields \<Rightarrow> fields \<Rightarrow> int" where
  "difference_minute f1 f2 = scale_add (difference_hour f1 f2) 60 (fmm f1 - fmm f2)"

definition difference_second :: "fields \<Rightarrow> fields \<Rightarrow> int" where
  "difference_second f1 f2 = scale_add (difference_minute f1 f2) 60 (fss f1 - fss f2)"

fun difference :: "unit_tag \<Rightarrow> fields \<Rightarrow> fields \<Rightarrow> int" where
  "difference year_tag f1 f2 = difference_year f1 f2"
| "difference month_tag f1 f2 = difference_month f1 f2"
| "difference day_tag f1 f2 = difference_day f1 f2"
| "difference hour_tag f1 f2 = difference_hour f1 f2"
| "difference minute_tag f1 f2 = difference_minute f1 f2"
| "difference second_tag f1 f2 = difference_second f1 f2"

fun align :: "unit_tag \<Rightarrow> fields \<Rightarrow> fields" where
  "align second_tag f = f"
| "align minute_tag f = mk_fields (fy f) (fm f) (fd f) (fhh f) (fmm f) 0"
| "align hour_tag f = mk_fields (fy f) (fm f) (fd f) (fhh f) 0 0"
| "align day_tag f = mk_fields (fy f) (fm f) (fd f) 0 0 0"
| "align month_tag f = mk_fields (fy f) (fm f) 1 0 0 0"
| "align year_tag f = mk_fields (fy f) 1 1 0 0 0"

subsection \<open>The class \<^verbatim>\<open>civil_time\<close>\<close>

text \<open>
  A \<^verbatim>\<open>civil_time<T>\<close> is its member \<^verbatim>\<open>f_\<close>; the tag \<^verbatim>\<open>T\<close> is an argument of the operations. The constructor
  from six numbers normalises and aligns; the conversions align.
\<close>

definition civil_time :: "unit_tag \<Rightarrow> int \<Rightarrow> int \<Rightarrow> int \<Rightarrow> int \<Rightarrow> int \<Rightarrow> int \<Rightarrow> fields option" where
  "civil_time T y m d hh mm ss = map_option (align T) (n_sec y m d hh mm ss)"

definition civil_time_convert :: "unit_tag \<Rightarrow> fields \<Rightarrow> fields" where
  "civil_time_convert T ct = align T ct"

definition diff_min :: int where
  "diff_min = - (2 ^ 63)"

definition civil_plus :: "unit_tag \<Rightarrow> fields \<Rightarrow> int \<Rightarrow> fields option" where
  "civil_plus T a n = step T a n"

definition civil_minus :: "unit_tag \<Rightarrow> fields \<Rightarrow> int \<Rightarrow> fields option" where
  "civil_minus T a n =
     (if n \<noteq> diff_min then step T a (- n)
      else Option.bind (step T a (- (n + 1))) (\<lambda>b. step T b 1))"

definition civil_difference :: "unit_tag \<Rightarrow> fields \<Rightarrow> fields \<Rightarrow> int" where
  "civil_difference T lhs rhs = difference T lhs rhs"

definition civil_less :: "fields \<Rightarrow> fields \<Rightarrow> bool" where
  "civil_less lhs rhs \<longleftrightarrow>
     fy lhs < fy rhs \<or>
     (fy lhs = fy rhs \<and>
      (fm lhs < fm rhs \<or>
       (fm lhs = fm rhs \<and>
        (fd lhs < fd rhs \<or>
         (fd lhs = fd rhs \<and>
          (fhh lhs < fhh rhs \<or>
           (fhh lhs = fhh rhs \<and>
            (fmm lhs < fmm rhs \<or> (fmm lhs = fmm rhs \<and> fss lhs < fss rhs)))))))))"

definition civil_le :: "fields \<Rightarrow> fields \<Rightarrow> bool" where
  "civil_le lhs rhs \<longleftrightarrow> \<not> civil_less rhs lhs"

definition civil_eq :: "fields \<Rightarrow> fields \<Rightarrow> bool" where
  "civil_eq lhs rhs \<longleftrightarrow>
     fy lhs = fy rhs \<and> fm lhs = fm rhs \<and> fd lhs = fd rhs \<and> fhh lhs = fhh rhs \<and> fmm lhs = fmm rhs \<and> fss lhs = fss rhs"

subsection \<open>Weekdays and days of the year\<close>

datatype weekday = monday | tuesday | wednesday | thursday | friday | saturday | sunday

definition k_weekday_by_mon_off :: "weekday list" where
  "k_weekday_by_mon_off = [monday, tuesday, wednesday, thursday, friday, saturday, sunday,
     monday, tuesday, wednesday, thursday, friday, saturday]"

definition k_weekday_offsets :: "int list" where
  "k_weekday_offsets = [-1, 0, 3, 2, 5, 0, 3, 5, 1, 4, 6, 2, 4]"

definition get_weekday :: "fields \<Rightarrow> weekday option" where
  "get_weekday cs =
     (let wd = 2400 + c_mod (fy cs) 400 - of_bool (fm cs < 3);
          wd = wd + (c_div wd 4 - c_div wd 100 + c_div wd 400)
      in Option.bind (table_at k_weekday_offsets (fm cs)) (\<lambda>off.
           let wd = wd + (off + fd cs) in table_at k_weekday_by_mon_off (c_mod wd 7 + 6)))"

definition k_weekdays_forw :: "weekday list" where
  "k_weekdays_forw = [monday, tuesday, wednesday, thursday, friday, saturday, sunday,
     monday, tuesday, wednesday, thursday, friday, saturday, sunday]"

definition k_weekdays_back :: "weekday list" where
  "k_weekdays_back = [sunday, saturday, friday, thursday, wednesday, tuesday, monday,
     sunday, saturday, friday, thursday, wednesday, tuesday, monday]"

text \<open>\<open>find_from x i xs\<close> is the loop over the rest \<open>xs\<close> of a table, at index \<open>i\<close>, for the entry \<open>x\<close>.\<close>

fun find_from :: "weekday \<Rightarrow> nat \<Rightarrow> weekday list \<Rightarrow> nat option" where
  "find_from x i [] = None"
| "find_from x i (w # ws) = (if x = w then Some i else find_from x (Suc i) ws)"

definition next_weekday :: "fields \<Rightarrow> weekday \<Rightarrow> fields option" where
  "next_weekday cd wd =
     Option.bind (get_weekday cd) (\<lambda>base.
     Option.bind (find_from base 0 k_weekdays_forw) (\<lambda>i.
     Option.bind (find_from wd (i + 1) (drop (i + 1) k_weekdays_forw)) (\<lambda>j.
       civil_plus day_tag cd (int j - int i))))"

definition prev_weekday :: "fields \<Rightarrow> weekday \<Rightarrow> fields option" where
  "prev_weekday cd wd =
     Option.bind (get_weekday cd) (\<lambda>base.
     Option.bind (find_from base 0 k_weekdays_back) (\<lambda>i.
     Option.bind (find_from wd (i + 1) (drop (i + 1) k_weekdays_back)) (\<lambda>j.
       civil_minus day_tag cd (int j - int i))))"

definition k_month_offsets :: "int list" where
  "k_month_offsets = [-1, 0, 31, 59, 90, 120, 151, 181, 212, 243, 273, 304, 334]"

definition get_yearday :: "fields \<Rightarrow> int option" where
  "get_yearday cs =
     (let feb29 = of_bool (fm cs > 2 \<and> is_leap_year (fy cs))
      in map_option (\<lambda>k. k + feb29 + fd cs) (table_at k_month_offsets (fm cs)))"

subsection \<open>Counting days\<close>

text \<open>Days before the March-based year \<open>e\<close>, and days from March to the start of a month.\<close>

definition Ydays :: "int \<Rightarrow> int" where
  "Ydays e = 365 * e + e div 4 - e div 100 + e div 400"

definition mdays :: "int \<Rightarrow> int" where
  "mdays m = (153 * (m + (if m > 2 then -3 else 9)) + 2) div 5"

definition eyear :: "int \<Rightarrow> int \<Rightarrow> int" where
  "eyear y m = (if m \<le> 2 then y - 1 else y)"

lemma c_mod_eq_0: "0 < b \<Longrightarrow> c_mod a b = 0 \<longleftrightarrow> a mod b = 0"
  by (cases "a < 0") (auto simp: c_mod_neg c_mod_nonneg zmod_zminus1_eq_if dest: pos_mod_bound [of b a])

lemma div_in: "0 \<le> r \<Longrightarrow> r < b \<Longrightarrow> (b * q + r) div b = (q :: int)" "0 \<le> r \<Longrightarrow> r < b \<Longrightarrow> (b * q + r) mod b = (r :: int)"
  by simp_all

lemma floor_div_400: "c_div (if e \<ge> 0 then e else e - 399) 400 = e div 400"
proof (cases "e \<ge> 0")
  case False
  define q r where "q = e div 400" and "r = e mod 400"
  have "400 * q + r = e" by (simp add: q_def r_def)
  then have "0 \<le> 399 - r" "399 - r < 400" and e: "399 - e = 400 * (- q) + (399 - r)" by (simp_all add: r_def)
  then have "(399 - e) div 400 = - q" unfolding e by (intro div_in)
  then show ?thesis using False by (simp add: c_div_neg q_def)
qed (simp add: c_div_nonneg)

lemma leap_iff: "is_leap_year y \<longleftrightarrow> y mod 4 = 0 \<and> (y mod 100 \<noteq> 0 \<or> y mod 400 = 0)"
  by (simp add: is_leap_year_def c_mod_eq_0)

lemma c_mod_wrap: "0 < b \<Longrightarrow> c_mod (c_mod a b + b) b = a mod b"
proof (cases "a < 0")
  case True
  assume b: "0 < b"
  have "0 \<le> - ((- a) mod b) + b" using pos_mod_bound [OF b, of "- a"] by simp
  moreover have "(- ((- a) mod b) + b) mod b = a mod b" by (simp add: mod_minus_eq)
  ultimately show ?thesis using True b by (simp add: c_mod_neg c_mod_nonneg)
next
  case False
  assume b: "0 < b"
  then have "0 \<le> a mod b" by simp
  then show ?thesis using False b by (simp add: c_mod_nonneg)
qed

lemma year_index_eq: "year_index y m = (eyear y m + 1) mod 400"
proof -
  have e: "y + of_bool (m > 2) = eyear y m + 1" by (simp add: eyear_def)
  show ?thesis unfolding year_index_def e by (simp add: c_mod_wrap)
qed

lemma Ydays_years: "Ydays (e + 400 * k) = Ydays e + 146097 * k"
proof -
  have "(e + 4 * (100 * k)) div 4 = e div 4 + 100 * k" "(e + 100 * (4 * k)) div 100 = e div 100 + 4 * k"
    "(e + 400 * k) div 400 = e div 400 + k"
    by simp_all
  then show ?thesis by (simp add: Ydays_def)
qed

lemma ymd_ord_eq:
  assumes "1 \<le> m" "m \<le> 12"
  shows "ymd_ord y m d = Ydays (eyear y m) + mdays m + d - 719469"
proof -
  let ?e = "eyear y m"
  define q r where "q = ?e div 400" and "r = ?e mod 400"
  have e: "?e = 400 * q + r" and r: "0 \<le> r" "r < 400" by (simp_all add: q_def r_def)
  have yoe: "?e - q * 400 = r" using e by simp
  have "?e = r + 400 * q" using e by simp
  then have "Ydays ?e = Ydays r + 146097 * q" using Ydays_years by metis
  moreover have "Ydays r = 365 * r + r div 4 - r div 100" using r by (simp add: Ydays_def)
  moreover have "0 \<le> 153 * (m + (if m > 2 then -3 else 9)) + 2" using assms by simp
  ultimately show ?thesis
    using r unfolding ymd_ord_def Let_def eyear_def [symmetric] floor_div_400 q_def [symmetric] yoe
    by (simp add: c_div_nonneg mdays_def)
qed

lemma div_step:
  assumes b: "0 < b"
  shows "(e + 1) div b = e div b + of_bool ((e + 1) mod b = (0 :: int))"
proof -
  define q r where "q = e div b" and "r = e mod b"
  have r: "0 \<le> r" "r < b" and e: "e + 1 = b * q + (r + 1)" using b by (simp_all add: q_def r_def)
  show ?thesis
  proof (cases "r = b - 1")
    case True
    have "e + 1 = b * (q + 1)" unfolding e True by (simp add: distrib_left)
    then show ?thesis unfolding q_def [symmetric] using b by simp
  next
    case False
    then have "(e + 1) div b = q" "(e + 1) mod b = r + 1" unfolding e using r by (intro div_in; simp)+
    then show ?thesis unfolding q_def [symmetric] using r by simp
  qed
qed

lemma Ydays_shift:
  assumes "(e + k) div 4 = e div 4 + a" "(e + k) div 100 = e div 100 + b" "(e + k) div 400 = e div 400 + c"
  shows "Ydays (e + k) = Ydays e + (365 * k + a - b + c)"
  unfolding Ydays_def assms by (simp add: distrib_left)

lemma Ydays_chunks:
  "Ydays (eyear y m + 100) = Ydays (eyear y m) + days_per_century y m"
  "Ydays (eyear y m + 4) = Ydays (eyear y m) + days_per_4years y m"
  "Ydays (eyear y m + 1) = Ydays (eyear y m) + days_per_year y m"
proof -
  define e where "e = eyear y m"
  define q r where "q = e div 400" and "r = e mod 400"
  define p t where "p = r div 100" and "t = r mod 100"
  have e: "e = 400 * q + r" and r: "0 \<le> r" "r < 400" by (simp_all add: q_def r_def)
  have pt: "r = 100 * p + t" "0 \<le> t" "t < 100" by (simp_all add: p_def t_def)
  have yi: "year_index y m = (if r = 399 then 0 else r + 1)"
  proof -
    have "(e + 1) mod 400 = (if r = 399 then 0 else r + 1)"
      using r div_in(2) [of "r + 1" 400 q] e by (auto simp: algebra_simps)
    then show ?thesis by (simp add: year_index_eq e_def)
  qed
  have y1: "y + of_bool (m > 2) = e + 1" by (simp add: e_def eyear_def)
  have d400: "(e + k) div 400 = q + of_bool (r + k \<ge> 400)" if "0 \<le> k" "k < 400" for k
  proof (cases "r + k \<ge> 400")
    case True
    then show ?thesis using div_in(1) [of "r + k - 400" 400 "q + 1"] that r e by (simp add: algebra_simps)
  next
    case False
    then show ?thesis using div_in(1) [of "r + k" 400 q] that r e by (simp add: algebra_simps)
  qed
  have d100: "(e + k) div 100 = 4 * q + p + of_bool (t + k \<ge> 100)" if "0 \<le> k" "k < 100" for k
  proof (cases "t + k \<ge> 100")
    case True
    then show ?thesis using div_in(1) [of "t + k - 100" 100 "4 * q + p + 1"] that pt e by (simp add: algebra_simps)
  next
    case False
    then show ?thesis using div_in(1) [of "t + k" 100 "4 * q + p"] that pt e by (simp add: algebra_simps)
  qed
  have eq: "e div 400 = q" "e div 100 = 4 * q + p" using d400 [of 0] d100 [of 0] r pt by simp_all
  have "days_per_century y m = 36524 + of_bool (r \<ge> 300)"
    unfolding days_per_century_def Let_def yi using r by (cases "r = 399") simp_all
  moreover have "(e + 100) div 400 = e div 400 + of_bool (r \<ge> 300)" using d400 [of 100] eq by simp
  moreover have "(e + 4 * 25) div 4 = e div 4 + 25" "(e + 100 * 1) div 100 = e div 100 + 1" by simp_all
  ultimately show "Ydays (eyear y m + 100) = Ydays (eyear y m) + days_per_century y m"
    unfolding e_def [symmetric] using Ydays_shift [of e 100 25 1 "of_bool (r \<ge> 300)"] by simp
  have c: "r \<noteq> 399 \<Longrightarrow> c_mod (r + 1 - 1) 100 = t" using r by (simp add: c_mod_nonneg t_def)
  have f: "days_per_4years y m = 1460 + of_bool (r \<ge> 300 \<or> t < 96)"
    unfolding days_per_4years_def Let_def yi using r c by (cases "r = 399") (simp_all del: add_diff_cancel_right')
  have "p \<le> 3" "300 \<le> r \<Longrightarrow> 3 \<le> p" using pt r by arith+
  then have g: "r \<ge> 396 \<longleftrightarrow> r \<ge> 300 \<and> t \<ge> 96" using pt by linarith
  have b: "of_bool (r \<ge> 300 \<or> t < 96) = 1 - of_bool (t \<ge> 96) + (of_bool (r \<ge> 396) :: int)"
    unfolding g by (cases "t \<ge> 96"; cases "r \<ge> 300") simp_all
  have "(e + 4) div 400 = e div 400 + of_bool (r \<ge> 396)" "(e + 4) div 100 = e div 100 + of_bool (t \<ge> 96)"
    using d400 [of 4] d100 [of 4] eq by simp_all
  moreover have "(e + 4 * 1) div 4 = e div 4 + 1" by simp
  ultimately have "Ydays (e + 4) = Ydays e + (365 * 4 + 1 - of_bool (t \<ge> 96) + of_bool (r \<ge> 396))"
    by (intro Ydays_shift) simp_all
  then show "Ydays (eyear y m + 4) = Ydays (eyear y m) + days_per_4years y m"
    unfolding e_def [symmetric] f b by simp
  have up: "(e + 1) mod 400 = 0 \<Longrightarrow> (e + 1) mod 100 = 0" "(e + 1) mod 100 = 0 \<Longrightarrow> (e + 1) mod 4 = 0"
    by (auto simp: mod_eq_0_iff_dvd elim: dvd_trans [rotated])
  have bools: "Y' = Y + (365 + of_bool (A \<and> (\<not> B \<or> C)))"
    if "Y' = Y + (365 * 1 + of_bool A - of_bool B + of_bool C)" "C \<Longrightarrow> B" "B \<Longrightarrow> A" for A B C and Y Y' :: int
    using that by (cases A; cases B; cases C) auto
  have d: "days_per_year y m = 365 + of_bool ((e + 1) mod 4 = 0 \<and> ((e + 1) mod 100 \<noteq> 0 \<or> (e + 1) mod 400 = 0))"
    unfolding days_per_year_def y1 leap_iff by (simp only: split: if_split) simp
  show "Ydays (eyear y m + 1) = Ydays (eyear y m) + days_per_year y m"
    unfolding e_def [symmetric] d by (rule bools [OF Ydays_shift [OF div_step div_step div_step] up]) simp_all
qed

lemma month_cases:
  assumes "1 \<le> m" "m \<le> (12 :: int)"
  obtains "m = 1" | "m = 2" | "m = 3" | "m = 4" | "m = 5" | "m = 6" | "m = 7" | "m = 8" | "m = 9" | "m = 10" | "m = 11" | "m = 12"
  using assms by atomize_elim presburger

lemma ymd_ord_add: "ymd_ord y m (d + k) = ymd_ord y m d + k"
  by (simp add: ymd_ord_def Let_def)

lemma ymd_ord_cycle: "1 \<le> m \<Longrightarrow> m \<le> 12 \<Longrightarrow> ymd_ord (y + 400 * k) m d = ymd_ord y m d + 146097 * k"
proof -
  assume m: "1 \<le> m" "m \<le> 12"
  have "eyear (y + 400 * k) m = eyear y m + 400 * k" by (simp add: eyear_def)
  then show ?thesis using m by (simp add: ymd_ord_eq Ydays_years)
qed

text \<open>The table of month lengths agrees with the day count.\<close>

lemma days_per_month_ord:
  assumes m: "1 \<le> m" "m \<le> 12"
  shows "\<exists>n. days_per_month y m = Some n \<and> 28 \<le> n \<and>
    (if m + 1 > 12 then ymd_ord (y + 1) 1 1 else ymd_ord y (m + 1) 1) = ymd_ord y m 1 + n"
proof -
  have e: "eyear (y - 1) 3 = y - 1" "eyear y 2 = y - 1" by (simp_all add: eyear_def)
  have feb: "Ydays y = Ydays (y - 1) + (if is_leap_year y then 366 else 365)"
    using Ydays_chunks(3) [of y 2] by (simp add: e days_per_year_def)
  note defs = days_per_month_def table_at_def k_days_per_month_def ymd_ord_eq mdays_def eyear_def
  show ?thesis by (rule month_cases [OF m]) (use feb in \<open>simp_all add: defs\<close>)
qed

definition valid_date :: "int \<Rightarrow> int \<Rightarrow> int \<Rightarrow> bool" where
  "valid_date y m d \<longleftrightarrow> 1 \<le> m \<and> m \<le> 12 \<and> 1 \<le> d \<and> (case days_per_month y m of None \<Rightarrow> False | Some n \<Rightarrow> d \<le> n)"

text \<open>The three loops over chunks of years share one contract.\<close>

locale chunk_loop =
  fixes loop :: "int \<Rightarrow> int \<Rightarrow> int \<Rightarrow> int \<times> int" and chunk :: "int \<Rightarrow> int \<Rightarrow> int" and stride :: int
  assumes loop_unfold: "loop y m d = (let n = chunk y m in if d > n then loop (y + stride) m (d - n) else (y, d))"
    and chunk_gt0: "0 < chunk y m"
    and chunk_days: "Ydays (eyear y m + stride) = Ydays (eyear y m) + chunk y m"
begin

lemma loop_ord:
  assumes m: "1 \<le> m" "m \<le> 12"
  shows "1 \<le> d \<Longrightarrow> loop y m d = (y', d') \<Longrightarrow> ymd_ord y' m d' = ymd_ord y m d \<and> 1 \<le> d'"
proof (induction "nat d" arbitrary: y d rule: less_induct)
  case less
  show ?case
  proof (cases "d > chunk y m")
    case True
    have "eyear (y + stride) m = eyear y m + stride" by (simp add: eyear_def)
    then have "ymd_ord (y + stride) m (d - chunk y m) = ymd_ord y m d"
      using chunk_days [of y m] m by (simp add: ymd_ord_eq)
    moreover have "nat (d - chunk y m) < nat d" using True chunk_gt0 [of y m] by simp
    moreover have "loop (y + stride) m (d - chunk y m) = (y', d')"
      using less.prems(2) True loop_unfold [of y m d] by (simp add: Let_def)
    ultimately show ?thesis using less.hyps [of "d - chunk y m" "y + stride"] True by simp
  next
    case False
    then show ?thesis using less.prems loop_unfold [of y m d] by (simp add: Let_def)
  qed
qed

end

interpretation century: chunk_loop century_loop days_per_century 100
  by unfold_locales (rule century_loop.simps, simp, rule Ydays_chunks)

interpretation four: chunk_loop four_loop days_per_4years 4
  by unfold_locales (rule four_loop.simps, simp, rule Ydays_chunks)

interpretation year: chunk_loop year_loop days_per_year 1
  by unfold_locales (rule year_loop.simps, simp, rule Ydays_chunks)

lemma n_day_years_ord:
  assumes m: "1 \<le> m" "m \<le> 12" and d: "1 \<le> d" and r: "n_day_years y m d = (y', d')"
  shows "ymd_ord y' m d' = ymd_ord y m d \<and> 1 \<le> d'"
proof (cases "d > 365")
  case True
  obtain y1 d1 where 1: "century_loop y m d = (y1, d1)" by fastforce
  obtain y2 d2 where 2: "four_loop y1 m d1 = (y2, d2)" by fastforce
  have 3: "year_loop y2 m d2 = (y', d')" using r True 1 2 by (simp add: n_day_years_def)
  show ?thesis
    using century.loop_ord [OF m d 1] four.loop_ord [OF m _ 2] year.loop_ord [OF m _ 3] by auto
next
  case False
  then show ?thesis using r d by (simp add: n_day_years_def)
qed

lemma month_loop_ord:
  "1 \<le> m \<Longrightarrow> m \<le> 12 \<Longrightarrow> 1 \<le> d \<Longrightarrow>
     \<exists>y' m' d'. month_loop y m d = Some (y', m', d') \<and> ymd_ord y' m' d' = ymd_ord y m d \<and> valid_date y' m' d'"
proof (induction y m d rule: month_loop.induct)
  case (1 y m d)
  obtain n where n: "days_per_month y m = Some n" "28 \<le> n"
    "(if m + 1 > 12 then ymd_ord (y + 1) 1 1 else ymd_ord y (m + 1) 1) = ymd_ord y m 1 + n"
    using days_per_month_ord [OF "1.prems"(1,2)] by blast
  have add: "ymd_ord a b k = ymd_ord a b 1 + k - 1" for a b k using ymd_ord_add [of a b 1 "k - 1"] by simp
  show ?case
  proof (cases "d > n")
    case False
    then have "valid_date y m d" using "1.prems" n(1) by (simp add: valid_date_def)
    then show ?thesis using False n(1) month_loop.simps [of y m d] by simp
  next
    case True
    show ?thesis
    proof (cases "m + 1 > 12")
      case last: True
      then have "month_loop y m d = month_loop (y + 1) 1 (d - n)" using True n(1) month_loop.simps [of y m d] by simp
      moreover have "ymd_ord (y + 1) 1 (d - n) = ymd_ord y m d" using n(3) last add [of "y + 1" 1 "d - n"] add [of y m d] by simp
      ultimately show ?thesis using "1.IH"(1) [OF n(1) True last] True by simp
    next
      case last: False
      then have "month_loop y m d = month_loop y (m + 1) (d - n)" using True n(1) month_loop.simps [of y m d] by simp
      moreover have "ymd_ord y (m + 1) (d - n) = ymd_ord y m d" using n(3) last add [of y "m + 1" "d - n"] add [of y m d] by simp
      ultimately show ?thesis using "1.IH"(2) [OF n(1) True last] True last "1.prems" by simp
    qed
  qed
qed

lemma n_day_cycles_ord:
  assumes m: "1 \<le> m" "m \<le> 12" and r: "n_day_cycles y m d cd = (y', d')"
  shows "ymd_ord y' m d' = ymd_ord y m d + cd \<and> 1 \<le> d'"
proof -
  define p1 q1 where "p1 = c_div cd 146097" and "q1 = c_mod cd 146097"
  define p2 q2 where "p2 = c_div d 146097" and "q2 = c_mod d 146097"
  have cd: "cd = 146097 * p1 + q1" and d: "d = 146097 * p2 + q2"
    by (simp_all add: p1_def q1_def p2_def q2_def c_div_mod)
  have b: "- 146097 < q1" "q1 < 146097" "- 146097 < q2" "q2 < 146097"
    unfolding q1_def q2_def by (simp_all add: c_mod_bounds)
  define p3 q3 where "p3 = (if q1 < 0 then p1 - 1 else p1)" and "q3 = (if q1 < 0 then q1 + 146097 else q1)"
  have q3: "0 \<le> q3" "q3 < 146097" "cd = 146097 * p3 + q3" using b cd by (auto simp: p3_def q3_def)
  define y3 d3 where "y3 = y + 400 * (p3 + p2)" and "d3 = q2 + q3"
  have ord: "ymd_ord y3 m d3 = ymd_ord y m d + cd"
    using ymd_ord_cycle [OF m, of y "p3 + p2" d3] ymd_ord_add [of y m 0 d] ymd_ord_add [of y m 0 d3] d q3(3)
    by (simp add: y3_def d3_def)
  have r3: "(y', d') = (if d3 > 0 then (if d3 > 146097 then (y3 + 400, d3 - 146097) else (y3, d3))
      else if d3 > - 365 then (y3 - 1, d3 + days_per_year (y3 - 1) m) else (y3 - 400, d3 + 146097))"
  proof -
    have E1: "(if q1 < 0 then (y + p1 * 400 - 400, q1 + 146097) else (y + p1 * 400, q1)) = (y + 400 * p3, q3)"
      by (simp add: p3_def q3_def)
    have E2: "y + 400 * p3 + p2 * 400 = y3" by (simp add: y3_def)
    show ?thesis using r [symmetric]
      unfolding n_day_cycles_def Let_def p1_def [symmetric] q1_def [symmetric] p2_def [symmetric] q2_def [symmetric]
        E1 prod.case E2 d3_def [symmetric] .
  qed
  have cyc: "ymd_ord (y3 + 400) m k = ymd_ord y3 m k + 146097" "ymd_ord (y3 - 400) m k = ymd_ord y3 m k - 146097" for k
    using ymd_ord_cycle [OF m, of y3 1 k] ymd_ord_cycle [OF m, of y3 "-1" k] by simp_all
  have e: "eyear y3 m = eyear (y3 - 1) m + 1" by (simp add: eyear_def)
  have prev: "ymd_ord (y3 - 1) m (d3 + days_per_year (y3 - 1) m) = ymd_ord y3 m d3"
    using Ydays_chunks(3) [of "y3 - 1" m] m by (simp add: ymd_ord_eq e)
  have dy: "365 \<le> days_per_year (y3 - 1) m" by (simp add: days_per_year_def)
  have k: "ymd_ord y3 m (d3 - 146097) = ymd_ord y3 m d3 - 146097" "ymd_ord y3 m (d3 + 146097) = ymd_ord y3 m d3 + 146097"
    using ymd_ord_add [of y3 m d3 "- 146097"] ymd_ord_add [of y3 m d3 146097] by simp_all
  show ?thesis using r3 ord cyc prev dy k b q3(1,2) by (auto simp: d3_def split: if_splits)
qed

lemma n_day_ord:
  assumes m: "1 \<le> m" "m \<le> 12"
  shows "\<exists>y' m' d'. n_day y m d cd hh mm ss = Some (mk_fields y' m' d' hh mm ss) \<and> valid_date y' m' d' \<and>
    ymd_ord y' m' d' = ymd_ord y m d + cd"
proof -
  obtain y1 d1 where 1: "n_day_cycles y m d cd = (y1, d1)" by fastforce
  obtain y2 d2 where 2: "n_day_years y1 m d1 = (y2, d2)" by fastforce
  have o1: "ymd_ord y1 m d1 = ymd_ord y m d + cd" "1 \<le> d1" using n_day_cycles_ord [OF m 1] by simp_all
  have o2: "ymd_ord y2 m d2 = ymd_ord y m d + cd" "1 \<le> d2" using n_day_years_ord [OF m o1(2) 2] o1(1) by simp_all
  show ?thesis
  proof (cases "d2 > 28")
    case True
    then show ?thesis using month_loop_ord [OF m o2(2), of y2] 1 2 o2(1) by (auto simp: n_day_def) blast
  next
    case False
    obtain n where "days_per_month y2 m = Some n" "28 \<le> n" using days_per_month_ord [OF m, of y2] by blast
    then have "valid_date y2 m d2" using False m o2(2) by (simp add: valid_date_def)
    then show ?thesis using False 1 2 o2(1) by (simp add: n_day_def) blast
  qed
qed

subsection \<open>Counting seconds\<close>

text \<open>
  The reference: seconds since 1970 of six numbers that need not be in range. A month out of range
  counts from the start of the year \<open>y\<close>, in whole years of twelve months.
\<close>

definition month_ord :: "int \<Rightarrow> int \<Rightarrow> int" where
  "month_ord y m = ymd_ord (y + (m - 1) div 12) ((m - 1) mod 12 + 1) 1"

definition civil_seconds :: "int \<Rightarrow> int \<Rightarrow> int \<Rightarrow> int \<Rightarrow> int \<Rightarrow> int \<Rightarrow> int" where
  "civil_seconds y m d hh mm ss = (((month_ord y m + d - 1) * 24 + hh) * 60 + mm) * 60 + ss"

definition seconds_of :: "fields \<Rightarrow> int" where
  "seconds_of f = civil_seconds (fy f) (fm f) (fd f) (fhh f) (fmm f) (fss f)"

definition valid_fields :: "fields \<Rightarrow> bool" where
  "valid_fields f \<longleftrightarrow> valid_date (fy f) (fm f) (fd f) \<and>
     0 \<le> fhh f \<and> fhh f < 24 \<and> 0 \<le> fmm f \<and> fmm f < 60 \<and> 0 \<le> fss f \<and> fss f < 60"

definition normalises :: "fields option \<Rightarrow> int \<Rightarrow> bool" where
  "normalises r t \<longleftrightarrow> (\<exists>f. r = Some f \<and> valid_fields f \<and> seconds_of f = t)"

lemma mk_fields_sel [simp]:
  "fy (mk_fields y m d hh mm ss) = y" "fm (mk_fields y m d hh mm ss) = m" "fd (mk_fields y m d hh mm ss) = d"
  "fhh (mk_fields y m d hh mm ss) = hh" "fmm (mk_fields y m d hh mm ss) = mm" "fss (mk_fields y m d hh mm ss) = ss"
  by (simp_all add: mk_fields_def)

lemma month_ord_normal: "1 \<le> m \<Longrightarrow> m \<le> 12 \<Longrightarrow> month_ord y m = ymd_ord y m 1"
  by (simp add: month_ord_def)

lemma normalises_cong: "normalises r t \<Longrightarrow> r' = r \<Longrightarrow> t' = t \<Longrightarrow> normalises r' t'"
  by simp

lemma normalises_day:
  assumes m: "1 \<le> m" "m \<le> 12" and t: "0 \<le> hh" "hh < 24" "0 \<le> mm" "mm < 60" "0 \<le> ss" "ss < 60"
  shows "normalises (n_day y m d cd hh mm ss) ((((month_ord y m + d - 1 + cd) * 24 + hh) * 60 + mm) * 60 + ss)"
proof -
  obtain y' m' d' where r: "n_day y m d cd hh mm ss = Some (mk_fields y' m' d' hh mm ss)" "valid_date y' m' d'"
    "ymd_ord y' m' d' = ymd_ord y m d + cd"
    using n_day_ord [OF m] by blast
  have add: "ymd_ord a b k = ymd_ord a b 1 + k - 1" for a b k using ymd_ord_add [of a b 1 "k - 1"] by simp
  have "1 \<le> m'" "m' \<le> 12" using r(2) by (simp_all add: valid_date_def)
  then have "month_ord y' m' + d' - 1 = month_ord y m + d - 1 + cd"
    using r(3) m add [of y' m' d'] add [of y m d] by (simp add: month_ord_normal)
  then show ?thesis using r(1,2) t by (auto simp: normalises_def valid_fields_def seconds_of_def civil_seconds_def)
qed

text \<open>Truncating division with the correction of a negative remainder.\<close>

lemma c_divmodE:
  assumes "0 < b"
  obtains p q where "c_div a b = p" "c_mod a b = q" "a = b * p + q" "- b < q" "q < b"
  using c_mod_bounds [OF assms, of a] c_div_mod [of b a] by (metis that)

lemma normalises_mon:
  assumes t: "0 \<le> hh" "hh < 24" "0 \<le> mm" "mm < 60" "0 \<le> ss" "ss < 60"
  shows "normalises (n_mon y m d cd hh mm ss) ((((month_ord y m + d - 1 + cd) * 24 + hh) * 60 + mm) * 60 + ss)"
proof -
  define y' m' where "y' = y + (m - 1) div 12" and "m' = (m - 1) mod 12 + 1"
  have m': "1 \<le> m'" "m' \<le> 12" unfolding m'_def by simp_all
  have eq: "month_ord y m = month_ord y' m'" using month_ord_normal [OF m'] by (simp add: month_ord_def y'_def m'_def)
  have "n_mon y m d cd hh mm ss = n_day y' m' d cd hh mm ss"
  proof (cases "m = 12")
    case True
    then show ?thesis by (simp add: n_mon_def y'_def m'_def)
  next
    case False
    obtain p q where pq: "c_div m 12 = p" "c_mod m 12 = q" "m = 12 * p + q" "- 12 < q" "q < 12"
      by (rule c_divmodE [of 12 m]) (simp, rule that)
    have "(y', m') = (if q \<le> 0 then (y + p - 1, q + 12) else (y + p, q))"
    proof (cases "q \<le> 0")
      case True
      have "m - 1 = 12 * (p - 1) + (q + 11)" using pq by simp
      then have "(m - 1) div 12 = p - 1" "(m - 1) mod 12 = q + 11"
        using True pq(4) div_in [of "q + 11" 12 "p - 1"] by (simp_all only:)
      then show ?thesis using True by (simp add: y'_def m'_def)
    next
      case False
      have "m - 1 = 12 * p + (q - 1)" using pq by simp
      then have "(m - 1) div 12 = p" "(m - 1) mod 12 = q - 1"
        using False pq(5) div_in [of "q - 1" 12 p] by (simp_all only:)
      then show ?thesis using False by (simp add: y'_def m'_def)
    qed
    then show ?thesis using False pq(1,2) by (simp add: n_mon_def Let_def split: if_splits)
  qed
  then show ?thesis using normalises_day [OF m' t] eq by simp
qed

lemma normalises_hour:
  assumes t: "0 \<le> mm" "mm < 60" "0 \<le> ss" "ss < 60"
  shows "normalises (n_hour y m d cd hh mm ss) ((((month_ord y m + d - 1 + cd) * 24 + hh) * 60 + mm) * 60 + ss)"
proof -
  obtain p q where pq: "c_div hh 24 = p" "c_mod hh 24 = q" "hh = 24 * p + q" "- 24 < q" "q < 24"
    by (rule c_divmodE [of 24 hh]) (simp, rule that)
  have "normalises (n_mon y m d (if q < 0 then cd + p - 1 else cd + p) (if q < 0 then q + 24 else q) mm ss)
      ((((month_ord y m + d - 1 + (if q < 0 then cd + p - 1 else cd + p)) * 24 + (if q < 0 then q + 24 else q)) * 60 + mm) * 60 + ss)"
    using pq(4,5) t by (intro normalises_mon) auto
  then show ?thesis using pq(1,2,3) by (simp add: n_hour_def Let_def algebra_simps split: if_splits)
qed

lemma normalises_min:
  assumes t: "0 \<le> ss" "ss < 60"
  shows "normalises (n_min y m d hh ch mm ss) ((((month_ord y m + d - 1) * 24 + hh + ch) * 60 + mm) * 60 + ss)"
proof -
  obtain p q where pq: "c_div mm 60 = p" "c_mod mm 60 = q" "mm = 60 * p + q" "- 60 < q" "q < 60"
    by (rule c_divmodE [of 60 mm]) (simp, rule that)
  define c k where "c = (if q < 0 then ch + p - 1 else ch + p)" and "k = (if q < 0 then q + 60 else q)"
  have "normalises (n_hour y m d (c_div hh 24 + c_div c 24) (c_mod hh 24 + c_mod c 24) k ss)
      ((((month_ord y m + d - 1 + (c_div hh 24 + c_div c 24)) * 24 + (c_mod hh 24 + c_mod c 24)) * 60 + k) * 60 + ss)"
    using pq(4,5) t by (intro normalises_hour) (auto simp: k_def)
  then show ?thesis
  proof (rule normalises_cong)
    show "(((month_ord y m + d - 1) * 24 + hh + ch) * 60 + mm) * 60 + ss = (((month_ord y m + d - 1 + (c_div hh 24 + c_div c 24)) * 24 + (c_mod hh 24 + c_mod c 24)) * 60 + k) * 60 + ss"
      using c_div_mod [of 24 hh] c_div_mod [of 24 c] pq(3) by (auto simp: c_def k_def)
  qed (use pq(1,2) in \<open>simp add: n_min_def Let_def c_def k_def\<close>)
qed

lemma normalises_sec: "normalises (n_sec y m d hh mm ss) (civil_seconds y m d hh mm ss)"
proof (cases "0 \<le> ss \<and> ss < 60")
  case ss: True
  show ?thesis
  proof (cases "0 \<le> mm \<and> mm < 60")
    case False
    have "normalises (n_min y m d hh (c_div mm 60) (c_mod mm 60) ss)
        ((((month_ord y m + d - 1) * 24 + hh + c_div mm 60) * 60 + c_mod mm 60) * 60 + ss)"
      using ss by (intro normalises_min) auto
    then show ?thesis
      using ss False c_div_mod [of 60 mm] by (elim normalises_cong) (auto simp: n_sec_def civil_seconds_def)
  next
    case mm: True
    show ?thesis
    proof (cases "0 \<le> hh \<and> hh < 24")
      case False
      have "normalises (n_hour y m d (c_div hh 24) (c_mod hh 24) mm ss)
          ((((month_ord y m + d - 1 + c_div hh 24) * 24 + c_mod hh 24) * 60 + mm) * 60 + ss)"
        using ss mm by (intro normalises_hour) auto
      then show ?thesis
        using ss mm False c_div_mod [of 24 hh] by (elim normalises_cong) (auto simp: n_sec_def civil_seconds_def)
    next
      case hh: True
      show ?thesis
      proof (cases "1 \<le> d \<and> d \<le> 28 \<and> 1 \<le> m \<and> m \<le> 12")
        case False
        then show ?thesis
          using normalises_mon [of hh mm ss y m d 0] ss mm hh by (auto simp: n_sec_def civil_seconds_def)
      next
        case d: True
        then obtain n where "days_per_month y m = Some n" "28 \<le> n" using days_per_month_ord [of m y] by blast
        then show ?thesis using d ss mm hh
          by (simp add: n_sec_def normalises_def valid_fields_def valid_date_def seconds_of_def)
      qed
    qed
  qed
next
  case False
  obtain p q where pq: "c_div ss 60 = p" "c_mod ss 60 = q" "ss = 60 * p + q" "- 60 < q" "q < 60"
    by (rule c_divmodE [of 60 ss]) (simp, rule that)
  define c k where "c = (if q < 0 then p - 1 else p)" and "k = (if q < 0 then q + 60 else q)"
  have "normalises (n_min y m d hh (c_div mm 60 + c_div c 60) (c_mod mm 60 + c_mod c 60) k)
      ((((month_ord y m + d - 1) * 24 + hh + (c_div mm 60 + c_div c 60)) * 60 + (c_mod mm 60 + c_mod c 60)) * 60 + k)"
    using pq(4,5) by (intro normalises_min) (auto simp: k_def)
  then show ?thesis
  proof (rule normalises_cong)
    show "civil_seconds y m d hh mm ss =
        (((month_ord y m + d - 1) * 24 + hh + (c_div mm 60 + c_div c 60)) * 60 + (c_mod mm 60 + c_mod c 60)) * 60 + k"
      using c_div_mod [of 60 mm] c_div_mod [of 60 c] pq(3) by (auto simp: c_def k_def civil_seconds_def)
    show "n_sec y m d hh mm ss = n_min y m d hh (c_div mm 60 + c_div c 60) (c_mod mm 60 + c_mod c 60) k"
      using pq(1,2) False by (auto simp: n_sec_def Let_def c_def k_def)
  qed
qed

subsection \<open>Order\<close>

definition month_at :: "int \<Rightarrow> int" where
  "month_at k = month_ord 0 (k + 1)"

lemma month_ord_at: "month_ord y m = month_at (12 * y + m - 1)"
proof -
  have "(12 * y + m - 1) div 12 = y + (m - 1) div 12" "(12 * y + m - 1) mod 12 = (m - 1) mod 12"
    using div_mult_self4 [of 12 y "m - 1"] mod_mult_self4 [of 12 y "m - 1"] by (simp_all add: algebra_simps)
  then show ?thesis by (simp add: month_at_def month_ord_def)
qed

lemma ymd_ord_at:
  assumes "1 \<le> m" "m \<le> 12"
  shows "ymd_ord y m d = month_at (12 * y + m - 1) + d - 1"
  using ymd_ord_add [of y m 1 "d - 1"] month_ord_normal [OF assms, of y] month_ord_at [of y m] by simp

lemma month_at_next: "\<exists>n. days_per_month (k div 12) (k mod 12 + 1) = Some n \<and> 28 \<le> n \<and> month_at (k + 1) = month_at k + n"
proof -
  define y m where "y = k div 12" and "m = k mod 12 + 1"
  have m: "1 \<le> m" "m \<le> 12" unfolding m_def by simp_all
  have k: "k = 12 * y + m - 1" by (simp add: y_def m_def)
  obtain n where n: "days_per_month y m = Some n" "28 \<le> n"
    "(if m + 1 > 12 then ymd_ord (y + 1) 1 1 else ymd_ord y (m + 1) 1) = ymd_ord y m 1 + n"
    using days_per_month_ord [OF m] by blast
  have "month_at (k + 1) = (if m + 1 > 12 then ymd_ord (y + 1) 1 1 else ymd_ord y (m + 1) 1)"
    using m k ymd_ord_at [of 1 "y + 1" 1] ymd_ord_at [of "m + 1" y 1] by (cases "m = 12") (auto simp: algebra_simps)
  moreover have "month_at k = ymd_ord y m 1" using ymd_ord_at [OF m, of y 1] k by simp
  ultimately show ?thesis using n by (simp add: y_def m_def)
qed

lemma month_at_mono: "j < k \<Longrightarrow> month_at (j + 1) \<le> month_at k"
proof -
  assume "j < k"
  have "month_at (j + 1) \<le> month_at (j + 1 + int n)" for n
  proof (induction n)
    case (Suc n)
    then show ?case using month_at_next [of "j + 1 + int n"] by (auto simp: algebra_simps)
  qed simp
  from this [of "nat (k - (j + 1))"] \<open>j < k\<close> show ?thesis by simp
qed

lemma valid_day_in_month:
  assumes "valid_date y m d"
  shows "month_at (12 * y + m - 1) \<le> ymd_ord y m d \<and> ymd_ord y m d < month_at (12 * y + m)"
proof -
  have m: "1 \<le> m" "m \<le> 12" using assms by (simp_all add: valid_date_def)
  have "(m - 1 + 12 * y) div 12 = y + (m - 1) div 12" "(m - 1 + 12 * y) mod 12 = (m - 1) mod 12" by simp_all
  then have "(12 * y + m - 1) div 12 = y" "(12 * y + m - 1) mod 12 + 1 = m" using m by (simp_all add: algebra_simps)
  then obtain n where "days_per_month y m = Some n" "month_at (12 * y + m) = month_at (12 * y + m - 1) + n"
    using month_at_next [of "12 * y + m - 1"] by auto
  then show ?thesis using assms ymd_ord_at [OF m, of y d] by (simp add: valid_date_def)
qed

lemma ymd_ord_less:
  assumes v: "valid_date y m d" "valid_date y' m' d'"
    and lt: "y < y' \<or> y = y' \<and> (m < m' \<or> m = m' \<and> d < d')"
  shows "ymd_ord y m d < ymd_ord y' m' d'"
proof (cases "12 * y + m < 12 * y' + m'")
  case True
  then show ?thesis
    using valid_day_in_month [OF v(1)] valid_day_in_month [OF v(2)] month_at_mono [of "12 * y + m - 1" "12 * y' + m' - 1"]
    by simp
next
  case False
  have "1 \<le> m" "m \<le> 12" "1 \<le> m'" "m' \<le> 12" using v by (simp_all add: valid_date_def)
  then have "y = y'" "m = m'" "d < d'" using lt False by auto
  then show ?thesis using ymd_ord_add [of y m d "d' - d"] by simp
qed

lemma seconds_split:
  assumes "valid_fields f"
  shows "seconds_of f = ymd_ord (fy f) (fm f) (fd f) * 86400 + fhh f * 3600 + fmm f * 60 + fss f"
proof -
  have m: "1 \<le> fm f" "fm f \<le> 12" using assms by (simp_all add: valid_fields_def valid_date_def)
  have "ymd_ord (fy f) (fm f) (fd f) = month_ord (fy f) (fm f) + fd f - 1"
    using ymd_ord_at [OF m] by (simp add: month_ord_at)
  then show ?thesis by (simp add: seconds_of_def civil_seconds_def algebra_simps)
qed

lemma civil_less_seconds:
  assumes v: "valid_fields f" "valid_fields g" and lt: "civil_less f g"
  shows "seconds_of f < seconds_of g"
proof -
  have d: "valid_date (fy f) (fm f) (fd f)" "valid_date (fy g) (fm g) (fd g)" using v by (simp_all add: valid_fields_def)
  show ?thesis
  proof (cases "fy f < fy g \<or> fy f = fy g \<and> (fm f < fm g \<or> fm f = fm g \<and> fd f < fd g)")
    case True
    have "ymd_ord (fy f) (fm f) (fd f) + 1 \<le> ymd_ord (fy g) (fm g) (fd g)" using ymd_ord_less [OF d True] by simp
    then show ?thesis using seconds_split [OF v(1)] seconds_split [OF v(2)] v by (simp add: valid_fields_def)
  next
    case False
    then have e: "fy f = fy g" "fm f = fm g" "fd f = fd g"
      "fhh f < fhh g \<or> fhh f = fhh g \<and> (fmm f < fmm g \<or> fmm f = fmm g \<and> fss f < fss g)"
      using lt unfolding civil_less_def by blast+
    have b: "fmm f < 60" "fss f < 60" "0 \<le> fmm g" "0 \<le> fss g" using v by (simp_all add: valid_fields_def)
    have "fhh f * 3600 + fmm f * 60 + fss f < fhh g * 3600 + fmm g * 60 + fss g"
      using e(4) b by (elim disjE conjE) linarith+
    then show ?thesis using seconds_split [OF v(1)] seconds_split [OF v(2)] e(1-3) by simp
  qed
qed

lemma civil_less_total: "civil_less f g \<or> civil_less g f \<or> f = (g :: fields)"
proof (rule ccontr)
  assume A: "\<not> (civil_less f g \<or> civil_less g f \<or> f = g)"
  then have n: "\<not> civil_less f g" "\<not> civil_less g f" "f \<noteq> g" by blast+
  have y: "fy f = fy g" using n(1,2) unfolding civil_less_def by (meson linorder_neqE)
  have m: "fm f = fm g" using n(1,2) y unfolding civil_less_def by (meson linorder_neqE)
  have d: "fd f = fd g" using n(1,2) y m unfolding civil_less_def by (meson linorder_neqE)
  have hh: "fhh f = fhh g" using n(1,2) y m d unfolding civil_less_def by (meson linorder_neqE)
  have mm: "fmm f = fmm g" using n(1,2) y m d hh unfolding civil_less_def by (meson linorder_neqE)
  have ss: "fss f = fss g" using n(1,2) y m d hh mm unfolding civil_less_def by (meson linorder_neqE)
  show False using y m d hh mm ss n(3) by (metis fields.equality unit.exhaust old.unit.exhaust)
qed

lemma seconds_of_inj: "valid_fields f \<Longrightarrow> valid_fields g \<Longrightarrow> seconds_of f = seconds_of g \<Longrightarrow> f = g"
  using civil_less_seconds [of f g] civil_less_seconds [of g f] civil_less_total [of f g] by auto

lemma ymd_ord_inj:
  assumes "valid_date y m d" "valid_date y' m' d'" "ymd_ord y m d = ymd_ord y' m' d'"
  shows "y = y' \<and> m = m' \<and> d = d'"
proof -
  have "\<not> (y < y' \<or> y = y' \<and> (m < m' \<or> m = m' \<and> d < d'))" using ymd_ord_less [OF assms(1,2)] assms(3) by auto
  moreover have "\<not> (y' < y \<or> y' = y \<and> (m' < m \<or> m' = m \<and> d' < d))" using ymd_ord_less [OF assms(2,1)] assms(3) by auto
  ultimately show ?thesis by auto
qed

subsection \<open>Differences and steps\<close>

lemma scale_add_eq: "scale_add v f a = v * f + a"
  by (simp add: scale_add_def algebra_simps)

lemma c_div_exact: "0 < b \<Longrightarrow> c_div (b * k) b = k"
proof (cases "0 \<le> k")
  case False
  assume b: "0 < b"
  have "- (b * k) div b = - k" using b by (metis mult_minus_right nonzero_mult_div_cancel_left less_irrefl)
  moreover have "b * k < 0" using False b by (simp add: mult_less_0_iff)
  ultimately show ?thesis using b by (simp add: c_div_neg)
qed (simp add: c_div_nonneg)

text \<open>The correction of \<^verbatim>\<open>day_difference\<close> by two cycles does not change the value.\<close>

lemma cycle_correction:
  "(let (d', c) = (if 400 * k > 0 \<and> d < 0 then (d + 2 * 146097, 400 * k - 2 * 400)
                   else if 400 * k < 0 \<and> d > 0 then (d - 2 * 146097, 400 * k + 2 * 400) else (d, 400 * k))
    in c_div c 400 * 146097 + d') = 146097 * k + (d :: int)"
proof -
  have "c_div (400 * k - 800) 400 = k - 2" "c_div (400 * k + 800) 400 = k + 2" "c_div (400 * k) 400 = k"
    using c_div_exact [of 400 "k - 2"] c_div_exact [of 400 "k + 2"] c_div_exact [of 400 k] by (simp_all add: algebra_simps)
  then show ?thesis by simp
qed

lemma day_difference_ord:
  assumes m: "1 \<le> m1" "m1 \<le> 12" "1 \<le> m2" "m2 \<le> 12"
  shows "day_difference y1 m1 d1 y2 m2 d2 = ymd_ord y1 m1 d1 - ymd_ord y2 m2 d2"
proof -
  obtain k1 o1 where 1: "c_mod y1 400 = o1" "y1 = 400 * k1 + o1" by (rule c_divmodE [of 400 y1]) (simp, rule that)
  obtain k2 o2 where 2: "c_mod y2 400 = o2" "y2 = 400 * k2 + o2" by (rule c_divmodE [of 400 y2]) (simp, rule that)
  have o: "ymd_ord y1 m1 d1 = ymd_ord o1 m1 d1 + 146097 * k1" "ymd_ord y2 m2 d2 = ymd_ord o2 m2 d2 + 146097 * k2"
    using ymd_ord_cycle [OF m(1,2), of o1 k1 d1] ymd_ord_cycle [OF m(3,4), of o2 k2 d2] 1(2) 2(2) by (simp_all add: add.commute)
  have c: "(y1 - o1) - (y2 - o2) = 400 * (k1 - k2)" using 1(2) 2(2) by simp
  have "day_difference y1 m1 d1 y2 m2 d2 = 146097 * (k1 - k2) + (ymd_ord o1 m1 d1 - ymd_ord o2 m2 d2)"
    using cycle_correction [of "k1 - k2" "ymd_ord o1 m1 d1 - ymd_ord o2 m2 d2"]
    unfolding day_difference_def 1(1) 2(1) Let_def c .
  then show ?thesis using o by simp
qed

lemma difference_day_ord:
  "valid_fields f \<Longrightarrow> valid_fields g \<Longrightarrow>
     difference_day f g = ymd_ord (fy f) (fm f) (fd f) - ymd_ord (fy g) (fm g) (fd g)"
  unfolding difference_day_def by (rule day_difference_ord) (simp_all add: valid_fields_def valid_date_def)

lemma difference_second_eq:
  "valid_fields f \<Longrightarrow> valid_fields g \<Longrightarrow> difference_second f g = seconds_of f - seconds_of g"
  by (simp add: difference_second_def difference_minute_def difference_hour_def scale_add_eq difference_day_ord
      seconds_split algebra_simps)

text \<open>The length of a unit, for the units of fixed length.\<close>

fun unit_seconds :: "unit_tag \<Rightarrow> int" where
  "unit_seconds second_tag = 1"
| "unit_seconds minute_tag = 60"
| "unit_seconds hour_tag = 3600"
| "unit_seconds day_tag = 86400"
| "unit_seconds _ = 0"

lemma step_normalises:
  assumes v: "valid_fields f" and T: "T \<notin> {month_tag, year_tag}"
  shows "normalises (step T f n) (seconds_of f + unit_seconds T * n)"
proof -
  have t: "0 \<le> fhh f" "fhh f < 24" "0 \<le> fmm f" "fmm f < 60" "0 \<le> fss f" "fss f < 60" "1 \<le> fm f" "fm f \<le> 12"
    using v by (simp_all add: valid_fields_def valid_date_def)
  show ?thesis
  proof (cases T)
    case second_tag
    show ?thesis unfolding second_tag step.simps
      using c_div_mod [of 60 n] normalises_sec [of "fy f" "fm f" "fd f" "fhh f" "fmm f + c_div n 60" "fss f + c_mod n 60"]
      by (elim normalises_cong) (simp_all add: seconds_of_def civil_seconds_def)
  next
    case minute_tag
    show ?thesis unfolding minute_tag step.simps using c_div_mod [of 60 n] t
      by (intro normalises_cong [OF normalises_min]) (auto simp: seconds_of_def civil_seconds_def)
  next
    case hour_tag
    show ?thesis unfolding hour_tag step.simps using c_div_mod [of 24 n] t
      by (intro normalises_cong [OF normalises_hour]) (auto simp: seconds_of_def civil_seconds_def)
  next
    case day_tag
    show ?thesis unfolding day_tag step.simps using t
      by (intro normalises_cong [OF normalises_day]) (auto simp: seconds_of_def civil_seconds_def)
  qed (use T in auto)
qed

lemma step_month_valid:
  assumes v: "valid_fields f" and a: "align month_tag f = f"
  shows "\<exists>g. step month_tag f n = Some g \<and> valid_fields g \<and> align month_tag g = g \<and> difference_month g f = n"
proof -
  have f: "fd f = 1" "fhh f = 0" "fmm f = 0" "fss f = 0" using a by (metis align.simps(5) mk_fields_sel)+
  define k where "k = 12 * fy f + fm f - 1 + n"
  define y m where "y = k div 12" and "m = k mod 12 + 1"
  have m: "1 \<le> m" "m \<le> 12" unfolding m_def by simp_all
  have km: "k = 12 * y + m - 1" by (simp add: y_def m_def)
  have "12 * (fy f + c_div n 12) + (fm f + c_mod n 12) - 1 = k" using c_div_mod [of 12 n] by (simp add: k_def)
  then have mo: "month_ord (fy f + c_div n 12) (fm f + c_mod n 12) = month_at k" by (simp add: month_ord_at)
  have "normalises (step month_tag f n) (86400 * month_at k)"
    using normalises_mon [of 0 0 0 "fy f + c_div n 12" "fm f + c_mod n 12" 1 0] mo f by simp
  then obtain g where g: "step month_tag f n = Some g" "valid_fields g" "seconds_of g = 86400 * month_at k"
    by (auto simp: normalises_def)
  obtain j where j: "days_per_month y m = Some j" "28 \<le> j" using days_per_month_ord [OF m] by blast
  have h: "valid_fields (mk_fields y m 1 0 0 0)" using m j by (simp add: valid_fields_def valid_date_def)
  have "seconds_of (mk_fields y m 1 0 0 0) = 86400 * month_at k"
    using km by (simp add: seconds_of_def civil_seconds_def month_ord_at)
  then have "g = mk_fields y m 1 0 0 0" using seconds_of_inj [OF g(2) h] g(3) by simp
  then show ?thesis using g(1,2) km by (simp add: difference_month_def difference_year_def scale_add_eq k_def algebra_simps)
qed

lemma small_multiple:
  assumes "0 \<le> r" "r < b" "r = b * (k :: int)"
  shows "r = 0 \<and> k = 0"
proof -
  have b: "0 < b" using assms by linarith
  have "r div b = k" unfolding assms(3) using b by simp
  moreover have "r div b = 0" using assms(1,2) by (rule div_pos_pos_trivial)
  ultimately have "k = 0" by simp
  then show ?thesis using assms(3) by simp
qed

text \<open>The remainder of the seconds below a unit vanishes for aligned fields.\<close>

lemma seconds_unit:
  assumes v: "valid_fields f" "valid_fields g" and T: "T \<notin> {month_tag, year_tag}" and a: "align T f = f"
    and s: "seconds_of g = seconds_of f + unit_seconds T * n"
  shows "align T g = g \<and> difference T g f = n"
proof -
  let ?D = "\<lambda>f. ymd_ord (fy f) (fm f) (fd f)"
  have sf: "seconds_of f = ?D f * 86400 + fhh f * 3600 + fmm f * 60 + fss f" and
    sg: "seconds_of g = ?D g * 86400 + fhh g * 3600 + fmm g * 60 + fss g"
    using v by (simp_all add: seconds_split)
  have b: "0 \<le> fhh g" "fhh g < 24" "0 \<le> fmm g" "fmm g < 60" "0 \<le> fss g" "fss g < 60" using v(2) by (simp_all add: valid_fields_def)
  have dd: "difference_day g f = ?D g - ?D f" using v by (simp add: difference_day_ord)
  have eq: "mk_fields (fy h) (fm h) (fd h) (fhh h) (fmm h) (fss h) = h" for h by (simp add: mk_fields_def)
  show ?thesis
  proof (cases T)
    case second_tag
    then show ?thesis using s v by (simp add: difference_second_eq)
  next
    case minute_tag
    then have "fss f = 0" using a by (metis align.simps(2) mk_fields_sel(6))
    then have "fss g = 60 * (n - ((?D g - ?D f) * 1440 + (fhh g - fhh f) * 60 + (fmm g - fmm f)))"
      using s sf sg minute_tag by simp
    then have "fss g = 0 \<and> n - ((?D g - ?D f) * 1440 + (fhh g - fhh f) * 60 + (fmm g - fmm f)) = 0"
      by (rule small_multiple [OF b(5,6)])
    then show ?thesis using minute_tag eq [of g] dd
      by (simp add: difference_minute_def difference_hour_def scale_add_eq)
  next
    case hour_tag
    then have "fss f = 0" "fmm f = 0" using a by (metis align.simps(3) mk_fields_sel)+
    then have "fmm g * 60 + fss g = 3600 * (n - ((?D g - ?D f) * 24 + (fhh g - fhh f)))"
      using s sf sg hour_tag by simp
    then have "fmm g * 60 + fss g = 0 \<and> n - ((?D g - ?D f) * 24 + (fhh g - fhh f)) = 0"
      by (rule small_multiple [rotated 2]) (use b in linarith)+
    moreover from this have "fmm g = 0" "fss g = 0" using b by linarith+
    ultimately show ?thesis using hour_tag eq [of g] dd by (simp add: difference_hour_def scale_add_eq)
  next
    case day_tag
    then have "fss f = 0" "fmm f = 0" "fhh f = 0" using a by (metis align.simps(4) mk_fields_sel)+
    then have "fhh g * 3600 + fmm g * 60 + fss g = 86400 * (n - (?D g - ?D f))"
      using s sf sg day_tag by simp
    then have "fhh g * 3600 + fmm g * 60 + fss g = 0 \<and> n - (?D g - ?D f) = 0"
      by (rule small_multiple [rotated 2]) (use b in linarith)+
    moreover from this have "fhh g = 0" "fmm g = 0" "fss g = 0" using b by linarith+
    ultimately show ?thesis using day_tag eq [of g] dd by simp
  qed (use T in auto)
qed

lemma civil_plus_ok:
  assumes v: "valid_fields f" and a: "align T f = f"
  shows "\<exists>g. civil_plus T f n = Some g \<and> valid_fields g \<and> align T g = g \<and> civil_difference T g f = n"
proof (cases "T = month_tag \<or> T = year_tag")
  case False
  then obtain g where "step T f n = Some g" "valid_fields g" "seconds_of g = seconds_of f + unit_seconds T * n"
    using step_normalises [OF v, of T n] by (auto simp: normalises_def)
  then show ?thesis using seconds_unit [OF v, of g T n] False a by (simp add: civil_plus_def civil_difference_def)
next
  case True
  then show ?thesis
  proof
    assume T: "T = month_tag"
    then show ?thesis using step_month_valid [OF v, of n] a by (simp add: civil_plus_def civil_difference_def)
  next
    assume T: "T = year_tag"
    then have f: "fm f = 1" "fd f = 1" "fhh f = 0" "fmm f = 0" "fss f = 0"
      using a by (metis align.simps(6) mk_fields_sel)+
    obtain j where "days_per_month (fy f + n) 1 = Some j" "28 \<le> j" using days_per_month_ord [of 1 "fy f + n"] by auto
    then show ?thesis using T f
      by (simp add: civil_plus_def civil_difference_def difference_year_def valid_fields_def valid_date_def)
  qed
qed

lemma difference_trans:
  "valid_fields f \<Longrightarrow> valid_fields g \<Longrightarrow> valid_fields h \<Longrightarrow> difference T h f = difference T h g + difference T g f"
  by (cases T) (simp_all add: difference_year_def difference_month_def difference_hour_def difference_minute_def
      difference_second_def scale_add_eq difference_day_ord algebra_simps)

lemma civil_minus_ok:
  assumes v: "valid_fields f" and a: "align T f = f"
  shows "\<exists>g. civil_minus T f n = Some g \<and> valid_fields g \<and> align T g = g \<and> civil_difference T g f = - n"
proof (cases "n = diff_min")
  case False
  then show ?thesis using civil_plus_ok [OF v a, of "- n"] by (simp add: civil_minus_def civil_plus_def)
next
  case True
  obtain g where g: "step T f (- (n + 1)) = Some g" "valid_fields g" "align T g = g" "difference T g f = - (n + 1)"
    using civil_plus_ok [OF v a, of "- (n + 1)"] by (auto simp: civil_plus_def civil_difference_def)
  obtain h where h: "step T g 1 = Some h" "valid_fields h" "align T h = h" "difference T h g = 1"
    using civil_plus_ok [OF g(2,3), of 1] by (auto simp: civil_plus_def civil_difference_def)
  show ?thesis using True g(1,4) h difference_trans [OF v g(2) h(2), of T]
    by (simp add: civil_minus_def civil_difference_def)
qed

subsection \<open>Weekdays\<close>

text \<open>The reference: day 0 was a Thursday.\<close>

definition weekday_of :: "int \<Rightarrow> weekday" where
  "weekday_of n = [thursday, friday, saturday, sunday, monday, tuesday, wednesday] ! nat (n mod 7)"

lemma weekday_cases:
  obtains "r = 0" | "r = 1" | "r = 2" | "r = 3" | "r = 4" | "r = 5" | "r = (6 :: int)" | "\<not> (0 \<le> r \<and> r < 7)"
  by atomize_elim presburger

lemma weekday_at: "0 \<le> w \<Longrightarrow> table_at k_weekday_by_mon_off (c_mod w 7 + 6) = Some (weekday_of (w + 3))"
proof -
  assume w: "0 \<le> w"
  define r where "r = w mod 7"
  have r: "0 \<le> r" "r < 7" "c_mod w 7 = r" using w by (simp_all add: r_def c_mod_nonneg)
  have "(w + 3) mod 7 = (r + 3) mod 7" by (simp add: r_def mod_add_left_eq)
  then have e: "weekday_of (w + 3) = weekday_of (r + 3)" by (simp add: weekday_of_def)
  show ?thesis unfolding r(3) e
    by (rule weekday_cases [of r]) (use r in \<open>simp_all add: table_at_def k_weekday_by_mon_off_def weekday_of_def\<close>)
qed

lemma weekday_of_cong: "7 dvd a - b \<Longrightarrow> weekday_of a = weekday_of b"
  by (simp add: weekday_of_def mod_eq_dvd_iff [symmetric])

lemma get_weekday_ok:
  assumes v: "valid_date (fy f) (fm f) (fd f)"
  shows "get_weekday f = Some (weekday_of (ymd_ord (fy f) (fm f) (fd f)))"
proof -
  define y m where "y = fy f" and "m = fm f"
  have m: "1 \<le> m" "m \<le> 12" and d: "1 \<le> fd f" using v by (simp_all add: valid_date_def m_def)
  obtain k r where kr: "c_mod y 400 = r" "y = 400 * k + r" "- 400 < r" "r < 400"
    by (rule c_divmodE [of 400 y]) (simp, rule that)
  define w where "w = 2400 + r - of_bool (m < 3)"
  have w0: "0 \<le> w" using kr(3) by (simp add: w_def)
  have e: "eyear y m = w + 400 * (k - 6)" using kr(2) by (simp add: eyear_def w_def)
  obtain off where off: "table_at k_weekday_offsets m = Some off" "0 \<le> off" "7 dvd mdays m - off - 5"
    by (rule month_cases [OF m]) (simp_all add: table_at_def k_weekday_offsets_def mdays_def)
  define wd where "wd = w + (w div 4 - w div 100 + w div 400) + (off + fd f)"
  have pos: "0 \<le> wd"
  proof -
    define q r' where "q = w div 100" and "r' = w mod 100"
    have "w = 100 * q + r'" "0 \<le> q" "0 \<le> r'" using w0 by (simp_all add: q_def r'_def)
    then have "0 \<le> w - w div 100" unfolding q_def [symmetric] by linarith
    moreover have "0 \<le> w div 4" "0 \<le> w div 400" using w0 by simp_all
    ultimately show ?thesis using off(2) d by (simp add: wd_def)
  qed
  have "get_weekday f = Some (weekday_of (wd + 3))"
    using weekday_at [OF pos] off(1) w0
    unfolding get_weekday_def Let_def y_def [symmetric] m_def [symmetric] kr(1) w_def [symmetric] wd_def
    by (simp add: c_div_nonneg)
  moreover have "ymd_ord y m (fd f) - (wd + 3) = 7 * (20871 * (k - 6) + 52 * w - 102781) + (mdays m - off - 5)"
    unfolding ymd_ord_eq [OF m] e Ydays_years by (simp add: Ydays_def wd_def)
  then have "7 dvd ymd_ord y m (fd f) - (wd + 3)" using off(3) by (simp only: dvd_add dvd_triv_left)
  ultimately show ?thesis using weekday_of_cong by (metis y_def m_def)
qed

text \<open>How far the two loops of \<^verbatim>\<open>next_weekday\<close> and \<^verbatim>\<open>prev_weekday\<close> go, for all pairs of weekdays.\<close>

lemma weekday_search:
  "\<exists>i j. find_from (weekday_of n) 0 k_weekdays_forw = Some i \<and>
     find_from wd (i + 1) (drop (i + 1) k_weekdays_forw) = Some j \<and> i < j \<and> j \<le> i + 7 \<and>
     weekday_of (n + (int j - int i)) = wd"
  "\<exists>i j. find_from (weekday_of n) 0 k_weekdays_back = Some i \<and>
     find_from wd (i + 1) (drop (i + 1) k_weekdays_back) = Some j \<and> i < j \<and> j \<le> i + 7 \<and>
     weekday_of (n - (int j - int i)) = wd"
proof -
  define r where "r = n mod 7"
  have r: "0 \<le> r" "r < 7" by (simp_all add: r_def)
  have e: "weekday_of n = weekday_of r" "weekday_of (n + k) = weekday_of (r + k)" "weekday_of (n - k) = weekday_of (r - k)" for k
    by (simp_all add: weekday_of_def r_def mod_add_left_eq mod_diff_left_eq)
  show "\<exists>i j. find_from (weekday_of n) 0 k_weekdays_forw = Some i \<and>
     find_from wd (i + 1) (drop (i + 1) k_weekdays_forw) = Some j \<and> i < j \<and> j \<le> i + 7 \<and>
     weekday_of (n + (int j - int i)) = wd"
    unfolding e by (rule weekday_cases [of r]; cases wd) (use r in \<open>simp_all add: weekday_of_def k_weekdays_forw_def\<close>)
  show "\<exists>i j. find_from (weekday_of n) 0 k_weekdays_back = Some i \<and>
     find_from wd (i + 1) (drop (i + 1) k_weekdays_back) = Some j \<and> i < j \<and> j \<le> i + 7 \<and>
     weekday_of (n - (int j - int i)) = wd"
    unfolding e by (rule weekday_cases [of r]; cases wd) (use r in \<open>simp_all add: weekday_of_def k_weekdays_back_def\<close>)
qed

lemma get_yearday_ok:
  assumes m: "1 \<le> fm f" "fm f \<le> 12"
  shows "get_yearday f = Some (ymd_ord (fy f) (fm f) (fd f) - ymd_ord (fy f) 1 1 + 1)"
proof -
  have e: "eyear (fy f) 2 = fy f - 1" by (simp add: eyear_def)
  have feb: "Ydays (fy f) = Ydays (fy f - 1) + (if is_leap_year (fy f) then 366 else 365)"
    using Ydays_chunks(3) [of "fy f" 2] by (simp add: e days_per_year_def)
  note defs = get_yearday_def table_at_def k_month_offsets_def ymd_ord_eq mdays_def eyear_def
  show ?thesis by (rule month_cases [OF m]) (use feb in \<open>simp_all add: defs\<close>)
qed

text \<open>The day after a date, by the calendar.\<close>

definition next_date :: "int \<Rightarrow> int \<Rightarrow> int \<Rightarrow> int \<times> int \<times> int" where
  "next_date y m d =
     (if (case days_per_month y m of None \<Rightarrow> False | Some n \<Rightarrow> d < n) then (y, m, d + 1)
      else if m < 12 then (y, m + 1, 1) else (y + 1, 1, 1))"

lemma next_date_ord:
  assumes v: "valid_date y m d" and n: "next_date y m d = (y', m', d')"
  shows "valid_date y' m' d' \<and> ymd_ord y' m' d' = ymd_ord y m d + 1"
proof -
  have m: "1 \<le> m" "m \<le> 12" using v by (simp_all add: valid_date_def)
  obtain k where k: "days_per_month y m = Some k" "28 \<le> k"
    "(if m + 1 > 12 then ymd_ord (y + 1) 1 1 else ymd_ord y (m + 1) 1) = ymd_ord y m 1 + k"
    using days_per_month_ord [OF m] by blast
  have dk: "1 \<le> d" "d \<le> k" using v k(1) by (simp_all add: valid_date_def)
  have first: "valid_date a b 1" if "1 \<le> b" "b \<le> 12" for a b
    using days_per_month_ord [OF that, of a] that by (auto simp: valid_date_def)
  show ?thesis
  proof (cases "d < k")
    case True
    then show ?thesis using n k(1) m dk ymd_ord_add [of y m d 1] by (auto simp: next_date_def valid_date_def)
  next
    case False
    then have "d = k" using dk by simp
    then have "ymd_ord y m d = ymd_ord y m 1 + k - 1" using ymd_ord_add [of y m 1 "k - 1"] by simp
    then show ?thesis using n k(1,3) False m first [of "m + 1" y] first [of 1 "y + 1"]
      by (auto simp: next_date_def split: if_splits)
  qed
qed

subsection \<open>Properties\<close>




text \<open>
  Adding \<open>n\<close> units to a civil time of any alignment and taking the difference gives \<open>n\<close> back, and
  subtracting gives \<open>- n\<close>, the least 64-bit integer included; the results are in range and aligned.
\<close>

theorem civil_step_difference:
  assumes "valid_fields f" and "align T f = f"
  shows "(\<exists>g. civil_plus T f n = Some g \<and> valid_fields g \<and> align T g = g \<and> civil_difference T g f = n) \<and>
    (\<exists>g. civil_minus T f n = Some g \<and> valid_fields g \<and> align T g = g \<and> civil_difference T g f = - n)"
  using civil_plus_ok [OF assms, of n] civil_minus_ok [OF assms, of n] by blast

theorem civil_step_difference_witness:
  "\<exists>g. civil_plus month_tag (mk_fields 2020 11 1 0 0 0) 27 = Some g \<and>
     civil_difference month_tag g (mk_fields 2020 11 1 0 0 0) = 27"
proof -
  have "valid_fields (mk_fields 2020 11 1 0 0 0)" "align month_tag (mk_fields 2020 11 1 0 0 0) = mk_fields 2020 11 1 0 0 0"
    by (simp_all add: valid_fields_def valid_date_def days_per_month_def table_at_def k_days_per_month_def)
  then show ?thesis using civil_step_difference [of "mk_fields 2020 11 1 0 0 0" month_tag 27] by blast
qed

text \<open>
  The relational operators order civil times as the seconds they denote, and no two normalised
  values denote the same second.
\<close>

theorem civil_order:
  assumes "valid_fields f" and "valid_fields g"
  shows "(civil_less f g \<longleftrightarrow> seconds_of f < seconds_of g) \<and> (civil_le f g \<longleftrightarrow> seconds_of f \<le> seconds_of g) \<and>
    (civil_eq f g \<longleftrightarrow> seconds_of f = seconds_of g)"
proof -
  have "civil_eq f g \<longleftrightarrow> f = g" by (auto simp: civil_eq_def)
  then show ?thesis
    using civil_less_seconds [OF assms] civil_less_seconds [OF assms(2,1)] civil_less_total [of f g] seconds_of_inj [OF assms]
    by (auto simp: civil_le_def)
qed

theorem civil_order_witness:
  "civil_less (mk_fields 2019 12 31 23 59 59) (mk_fields 2020 1 1 0 0 0) \<and>
   seconds_of (mk_fields 2019 12 31 23 59 59) < seconds_of (mk_fields 2020 1 1 0 0 0)"
proof -
  have "valid_fields (mk_fields 2019 12 31 23 59 59)" "valid_fields (mk_fields 2020 1 1 0 0 0)"
    by (simp_all add: valid_fields_def valid_date_def days_per_month_def table_at_def k_days_per_month_def)
  then show ?thesis using civil_order [of "mk_fields 2019 12 31 23 59 59" "mk_fields 2020 1 1 0 0 0"]
    by (simp add: civil_less_def)
qed

text \<open>
  \<^verbatim>\<open>get_weekday\<close> and \<^verbatim>\<open>get_yearday\<close> agree with the day count, and \<^verbatim>\<open>next_weekday\<close> and
  \<^verbatim>\<open>prev_weekday\<close> find the nearest day with the weekday asked for: one to seven days ahead or back.
\<close>

theorem civil_weekdays:
  assumes v: "valid_fields f" and a: "align day_tag f = f"
  shows "get_weekday f = Some (weekday_of (ymd_ord (fy f) (fm f) (fd f))) \<and>
    get_yearday f = Some (ymd_ord (fy f) (fm f) (fd f) - ymd_ord (fy f) 1 1 + 1) \<and>
    (\<exists>g. next_weekday f wd = Some g \<and> get_weekday g = Some wd \<and> civil_difference day_tag g f \<in> {1..7}) \<and>
    (\<exists>g. prev_weekday f wd = Some g \<and> get_weekday g = Some wd \<and> civil_difference day_tag f g \<in> {1..7})"
proof -
  let ?D = "\<lambda>f. ymd_ord (fy f) (fm f) (fd f)"
  have vd: "valid_date (fy h) (fm h) (fd h)" if "valid_fields h" for h using that by (simp add: valid_fields_def)
  have diff: "civil_difference day_tag g h = ?D g - ?D h" if "valid_fields g" "valid_fields h" for g h
    using difference_day_ord [OF that] by (simp add: civil_difference_def)
  have w: "get_weekday f = Some (weekday_of (?D f))" by (rule get_weekday_ok [OF vd [OF v]])
  have yd: "get_yearday f = Some (?D f - ymd_ord (fy f) 1 1 + 1)"
    by (rule get_yearday_ok) (use vd [OF v] in \<open>simp_all add: valid_date_def\<close>)
  have "\<exists>g. next_weekday f wd = Some g \<and> get_weekday g = Some wd \<and> civil_difference day_tag g f \<in> {1..7}"
  proof -
    obtain i j where ij: "find_from (weekday_of (?D f)) 0 k_weekdays_forw = Some i"
      "find_from wd (i + 1) (drop (i + 1) k_weekdays_forw) = Some j" "i < j" "j \<le> i + 7"
      "weekday_of (?D f + (int j - int i)) = wd"
      using weekday_search(1) by blast
    obtain g where g: "civil_plus day_tag f (int j - int i) = Some g" "valid_fields g"
      "civil_difference day_tag g f = int j - int i"
      using civil_plus_ok [OF v a, of "int j - int i"] by blast
    have "?D g = ?D f + (int j - int i)" using g(3) diff [OF g(2) v] by simp
    then have "get_weekday g = Some wd" using get_weekday_ok [OF vd [OF g(2)]] ij(5) by simp
    moreover have "next_weekday f wd = Some g" using w ij(1,2) g(1) by (simp add: next_weekday_def)
    ultimately show ?thesis using g(3) ij(3,4) by auto
  qed
  moreover have "\<exists>g. prev_weekday f wd = Some g \<and> get_weekday g = Some wd \<and> civil_difference day_tag f g \<in> {1..7}"
  proof -
    obtain i j where ij: "find_from (weekday_of (?D f)) 0 k_weekdays_back = Some i"
      "find_from wd (i + 1) (drop (i + 1) k_weekdays_back) = Some j" "i < j" "j \<le> i + 7"
      "weekday_of (?D f - (int j - int i)) = wd"
      using weekday_search(2) by blast
    obtain g where g: "civil_minus day_tag f (int j - int i) = Some g" "valid_fields g"
      "civil_difference day_tag g f = - (int j - int i)"
      using civil_minus_ok [OF v a, of "int j - int i"] by blast
    have D: "?D g = ?D f - (int j - int i)" using g(3) diff [OF g(2) v] by simp
    then have "get_weekday g = Some wd" using get_weekday_ok [OF vd [OF g(2)]] ij(5) by simp
    moreover have "prev_weekday f wd = Some g" using w ij(1,2) g(1) by (simp add: prev_weekday_def)
    ultimately show ?thesis using D diff [OF v g(2)] ij(3,4) by auto
  qed
  ultimately show ?thesis using w yd by blast
qed

theorem civil_weekdays_witness:
  "get_weekday (mk_fields 2000 1 1 0 0 0) = Some saturday \<and>
   (\<exists>g. next_weekday (mk_fields 2000 1 1 0 0 0) saturday = Some g \<and>
      civil_difference day_tag g (mk_fields 2000 1 1 0 0 0) \<in> {1..7})"
proof -
  let ?f = "mk_fields 2000 1 1 0 0 0"
  have "valid_fields ?f" "align day_tag ?f = ?f"
    by (simp_all add: valid_fields_def valid_date_def days_per_month_def table_at_def k_days_per_month_def)
  moreover have "weekday_of (ymd_ord (fy ?f) (fm ?f) (fd ?f)) = saturday"
    by (simp add: ymd_ord_eq eyear_def mdays_def Ydays_def weekday_of_def)
  ultimately show ?thesis using civil_weekdays [of ?f saturday] by auto
qed

end
