(* ===== verification/Int128.thy ===== *)
theory Int128
  imports Prelude
begin

section \<open>128-bit integers\<close>

text \<open>
  \<^verbatim>\<open>absl/numeric/int128.h\<close>: the class \<^verbatim>\<open>uint128\<close>, a pair of 64-bit words. Where the header has two
  bodies for an operator, one for compilers with the type \<^verbatim>\<open>unsigned __int128\<close> and a portable one,
  both are modelled: the name of the first ends in \<open>_intrinsic\<close>. The compiler's type is \<open>128 word\<close>.
  A shift by an amount outside the width of its operand is the fault \<open>ShiftOutOfRange\<close>.
  Division is in the compiled library and a parameter.
\<close>

unbundle bit_operations_syntax

subsection \<open>The type and its construction\<close>

record uint128 =
  lo64 :: "64 word"
  hi64 :: "64 word"

definition uint128_make :: "64 word \<Rightarrow> 64 word \<Rightarrow> uint128" where
  "uint128_make high low = \<lparr>lo64 = low, hi64 = high\<rparr>"

definition MakeUint128 :: "64 word \<Rightarrow> 64 word \<Rightarrow> uint128" where
  "MakeUint128 high low = uint128_make high low"

definition Uint128Low64 :: "uint128 \<Rightarrow> 64 word" where
  "Uint128Low64 v = lo64 v"

definition Uint128High64 :: "uint128 \<Rightarrow> 64 word" where
  "Uint128High64 v = hi64 v"

text \<open>The constructors from \<^verbatim>\<open>int\<close>, \<^verbatim>\<open>long\<close> and \<^verbatim>\<open>long long\<close>, and from their unsigned versions.\<close>

definition uint128_of_signed :: "'a::len word \<Rightarrow> uint128" where
  "uint128_of_signed v = \<lparr>lo64 = scast v, hi64 = (if sint v < 0 then - 1 else 0)\<rparr>"

definition uint128_of_unsigned :: "'a::len word \<Rightarrow> uint128" where
  "uint128_of_unsigned v = \<lparr>lo64 = ucast v, hi64 = 0\<rparr>"

definition uint128_of_intrinsic :: "128 word \<Rightarrow> uint128" where
  "uint128_of_intrinsic v = \<lparr>lo64 = ucast (v AND ucast (NOT (0 :: 64 word))), hi64 = ucast (drop_bit 64 v)\<rparr>"

subsection \<open>Conversions\<close>

text \<open>All conversions to built-in integer types are casts of the low word.\<close>

definition uint128_to_integer :: "uint128 \<Rightarrow> 'a::len word" where
  "uint128_to_integer v = ucast (lo64 v)"

definition uint128_to_intrinsic :: "uint128 \<Rightarrow> 128 word" where
  "uint128_to_intrinsic v = push_bit 64 (ucast (hi64 v)) + ucast (lo64 v)"

definition BitCastToSigned :: "64 word \<Rightarrow> int" where
  "BitCastToSigned v =
     (if v AND push_bit 63 1 \<noteq> 0 then NOT (uint (NOT v)) else uint v)"

subsection \<open>Comparisons\<close>

definition u128_eq :: "uint128 \<Rightarrow> uint128 \<Rightarrow> bool" where
  "u128_eq lhs rhs \<longleftrightarrow>
     Uint128Low64 lhs = Uint128Low64 rhs \<and> Uint128High64 lhs = Uint128High64 rhs"

definition u128_less_intrinsic :: "uint128 \<Rightarrow> uint128 \<Rightarrow> bool" where
  "u128_less_intrinsic lhs rhs \<longleftrightarrow> uint128_to_intrinsic lhs < uint128_to_intrinsic rhs"

definition u128_less :: "uint128 \<Rightarrow> uint128 \<Rightarrow> bool" where
  "u128_less lhs rhs =
     (if Uint128High64 lhs = Uint128High64 rhs then Uint128Low64 lhs < Uint128Low64 rhs
      else Uint128High64 lhs < Uint128High64 rhs)"

subsection \<open>Unary and bitwise operators\<close>

definition u128_uminus :: "uint128 \<Rightarrow> uint128" where
  "u128_uminus val =
     (let hi = NOT (Uint128High64 val); lo = NOT (Uint128Low64 val) + 1
      in MakeUint128 (if lo = 0 then hi + 1 else hi) lo)"

definition u128_not :: "uint128 \<Rightarrow> uint128" where
  "u128_not val = MakeUint128 (NOT (Uint128High64 val)) (NOT (Uint128Low64 val))"

definition u128_or :: "uint128 \<Rightarrow> uint128 \<Rightarrow> uint128" where
  "u128_or lhs rhs =
     MakeUint128 (Uint128High64 lhs OR Uint128High64 rhs) (Uint128Low64 lhs OR Uint128Low64 rhs)"

definition u128_and :: "uint128 \<Rightarrow> uint128 \<Rightarrow> uint128" where
  "u128_and lhs rhs =
     MakeUint128 (Uint128High64 lhs AND Uint128High64 rhs) (Uint128Low64 lhs AND Uint128Low64 rhs)"

definition u128_xor :: "uint128 \<Rightarrow> uint128 \<Rightarrow> uint128" where
  "u128_xor lhs rhs =
     MakeUint128 (Uint128High64 lhs XOR Uint128High64 rhs) (Uint128Low64 lhs XOR Uint128Low64 rhs)"

subsection \<open>Shifts\<close>

text \<open>The built-in shifts, undefined for amounts outside the width.\<close>

definition c_shl :: "'a::len word \<Rightarrow> int \<Rightarrow> 'a word res" where
  "c_shl w amount =
     (if 0 \<le> amount \<and> amount < int (size w) then Inr (push_bit (nat amount) w) else Inl ShiftOutOfRange)"

definition c_shr :: "'a::len word \<Rightarrow> int \<Rightarrow> 'a word res" where
  "c_shr w amount =
     (if 0 \<le> amount \<and> amount < int (size w) then Inr (drop_bit (nat amount) w) else Inl ShiftOutOfRange)"

definition u128_shl_intrinsic :: "uint128 \<Rightarrow> int \<Rightarrow> uint128 res" where
  "u128_shl_intrinsic lhs amount =
     res_bind (c_shl (uint128_to_intrinsic lhs) amount) (\<lambda>r. Inr (uint128_of_intrinsic r))"

definition u128_shl :: "uint128 \<Rightarrow> int \<Rightarrow> uint128 res" where
  "u128_shl lhs amount =
     (if amount < 64 then
        if amount \<noteq> 0 then
          res_bind (c_shl (Uint128High64 lhs) amount) (\<lambda>h.
          res_bind (c_shr (Uint128Low64 lhs) (64 - amount)) (\<lambda>c.
          res_bind (c_shl (Uint128Low64 lhs) amount) (\<lambda>l.
          Inr (MakeUint128 (h OR c) l))))
        else Inr lhs
      else res_bind (c_shl (Uint128Low64 lhs) (amount - 64)) (\<lambda>h. Inr (MakeUint128 h 0)))"

definition u128_shr_intrinsic :: "uint128 \<Rightarrow> int \<Rightarrow> uint128 res" where
  "u128_shr_intrinsic lhs amount =
     res_bind (c_shr (uint128_to_intrinsic lhs) amount) (\<lambda>r. Inr (uint128_of_intrinsic r))"

definition u128_shr :: "uint128 \<Rightarrow> int \<Rightarrow> uint128 res" where
  "u128_shr lhs amount =
     (if amount < 64 then
        if amount \<noteq> 0 then
          res_bind (c_shr (Uint128High64 lhs) amount) (\<lambda>h.
          res_bind (c_shr (Uint128Low64 lhs) amount) (\<lambda>l.
          res_bind (c_shl (Uint128High64 lhs) (64 - amount)) (\<lambda>c.
          Inr (MakeUint128 h (l OR c)))))
        else Inr lhs
      else res_bind (c_shr (Uint128High64 lhs) (amount - 64)) (\<lambda>l. Inr (MakeUint128 0 l)))"

subsection \<open>Arithmetic\<close>

definition u128_add :: "uint128 \<Rightarrow> uint128 \<Rightarrow> uint128" where
  "u128_add lhs rhs =
     (let result = MakeUint128 (Uint128High64 lhs + Uint128High64 rhs) (Uint128Low64 lhs + Uint128Low64 rhs)
      in if Uint128Low64 result < Uint128Low64 lhs
         then MakeUint128 (Uint128High64 result + 1) (Uint128Low64 result)
         else result)"

definition u128_sub :: "uint128 \<Rightarrow> uint128 \<Rightarrow> uint128" where
  "u128_sub lhs rhs =
     (let result = MakeUint128 (Uint128High64 lhs - Uint128High64 rhs) (Uint128Low64 lhs - Uint128Low64 rhs)
      in if Uint128Low64 lhs < Uint128Low64 rhs
         then MakeUint128 (Uint128High64 result - 1) (Uint128Low64 result)
         else result)"

definition u128_add_assign :: "uint128 \<Rightarrow> uint128 \<Rightarrow> uint128" where
  "u128_add_assign this other = u128_add this other"

definition u128_mul_intrinsic :: "uint128 \<Rightarrow> uint128 \<Rightarrow> uint128" where
  "u128_mul_intrinsic lhs rhs = uint128_of_intrinsic (uint128_to_intrinsic lhs * uint128_to_intrinsic rhs)"

definition u128_mul :: "uint128 \<Rightarrow> uint128 \<Rightarrow> uint128 res" where
  "u128_mul lhs rhs =
     res_bind (c_shr (Uint128Low64 lhs) 32) (\<lambda>a32.
     let a00 = Uint128Low64 lhs AND 0xffffffff in
     res_bind (c_shr (Uint128Low64 rhs) 32) (\<lambda>b32.
     let b00 = Uint128Low64 rhs AND 0xffffffff;
         result = MakeUint128 (Uint128High64 lhs * Uint128Low64 rhs
                    + Uint128Low64 lhs * Uint128High64 rhs + a32 * b32) (a00 * b00) in
     res_bind (u128_shl (uint128_of_unsigned (a32 * b00)) 32) (\<lambda>x.
     let result = u128_add_assign result x in
     res_bind (u128_shl (uint128_of_unsigned (a00 * b32)) 32) (\<lambda>y.
     Inr (u128_add_assign result y)))))"

subsection \<open>Lemmas: the high part and the low part in 128 bits\<close>

abbreviation val128 :: "uint128 \<Rightarrow> 128 word" where
  "val128 \<equiv> uint128_to_intrinsic"

abbreviation high128 :: "64 word \<Rightarrow> 128 word" where
  "high128 h \<equiv> 2 ^ 64 * ucast h"

lemmas u128_fields = MakeUint128_def uint128_make_def Uint128Low64_def Uint128High64_def

lemma val128_eq: "val128 v = high128 (hi64 v) + ucast (lo64 v)"
  by (simp add: uint128_to_intrinsic_def push_bit_eq_mult mult.commute)

lemma val128_make [simp]: "val128 (MakeUint128 h l) = high128 h + ucast l"
  by (simp add: val128_eq u128_fields)

lemma bit_val128: "bit (val128 v) n \<longleftrightarrow> (if n < 64 then bit (lo64 v) n else bit (hi64 v) (n - 64))"
proof -
  have "val128 v = push_bit 64 (ucast (hi64 v)) OR ucast (lo64 v)"
    unfolding uint128_to_intrinsic_def
    by (rule disjunctive_add) (auto simp: bit_simps dest: bit_imp_le_length)
  then show ?thesis
    by (auto simp: bit_simps dest: bit_imp_le_length)
qed

lemma val128_of_intrinsic [simp]: "val128 (uint128_of_intrinsic w) = w"
  by (rule bit_word_eqI) (auto simp: bit_val128 uint128_of_intrinsic_def bit_simps)

lemma of_intrinsic_val128 [simp]: "uint128_of_intrinsic (val128 v) = v"
proof -
  have "lo64 (uint128_of_intrinsic (val128 v)) = lo64 v"
    by (rule bit_word_eqI) (simp add: uint128_of_intrinsic_def bit_simps bit_val128)
  moreover have "hi64 (uint128_of_intrinsic (val128 v)) = hi64 v"
    by (rule bit_word_eqI) (simp add: uint128_of_intrinsic_def bit_simps bit_val128)
  ultimately show ?thesis by simp
qed

lemma val128_inject [simp]: "val128 u = val128 v \<longleftrightarrow> u = v"
  by (metis of_intrinsic_val128)

lemma of_intrinsic_eq: "uint128_of_intrinsic w = v \<longleftrightarrow> w = val128 v"
  by (metis of_intrinsic_val128 val128_of_intrinsic)

lemma two_64_sq: "(2 ^ 64 :: 128 word) * 2 ^ 64 = 0"
proof -
  have "(2 ^ 64 :: 128 word) * 2 ^ 64 = 2 ^ 128"
    by (simp only: power_add [symmetric]) simp
  then show ?thesis by simp
qed

lemma ucast_of_nat: "(ucast (w :: 64 word) :: 128 word) = of_nat (unat w)"
  by simp

lemma high128_of_nat: "high128 (of_nat n) = 2 ^ 64 * of_nat n"
proof -
  let ?u = "unat (of_nat n :: 64 word)" and ?q = "n div 2 ^ 64"
  have "n = ?u + 2 ^ 64 * ?q"
    by (simp add: unat_of_nat)
  then have "(of_nat n :: 128 word) = of_nat (?u + 2 ^ 64 * ?q)"
    by (rule arg_cong)
  also have "\<dots> = of_nat ?u + 2 ^ 64 * of_nat ?q"
    by (simp only: of_nat_add of_nat_mult of_nat_power of_nat_numeral)
  finally have "2 ^ 64 * (of_nat n :: 128 word) = 2 ^ 64 * of_nat ?u + (2 ^ 64 * 2 ^ 64) * of_nat ?q"
    by (simp only: distrib_left mult.assoc)
  then show ?thesis unfolding two_64_sq ucast_of_nat by simp
qed

lemma high128_add: "high128 (a + b) = high128 a + high128 b"
proof -
  have "high128 (a + b) = high128 (of_nat (unat a + unat b))" by simp
  also have "\<dots> = 2 ^ 64 * of_nat (unat a + unat b)" by (rule high128_of_nat)
  finally show ?thesis by (simp add: distrib_left)
qed

lemma high128_mult: "high128 (a * b) = 2 ^ 64 * (ucast a * ucast b)"
proof -
  have "high128 (a * b) = high128 (of_nat (unat a * unat b))" by simp
  also have "\<dots> = 2 ^ 64 * of_nat (unat a * unat b)" by (rule high128_of_nat)
  finally show ?thesis by simp
qed

lemma high128_diff: "high128 (a - b) = high128 a - high128 b"
  using high128_add [of "a - b" b] by (simp add: algebra_simps)

lemmas high128_simps = high128_add [simplified] high128_diff [simplified]

text \<open>The low halves: the sum of the low words with its carry.\<close>

lemma unat_less_64: "unat (a :: 64 word) < 2 ^ 64"
  using unsigned_less [of a] by simp

lemma plus_one_wraps: "(a :: 64 word) + 1 < a \<longleftrightarrow> a + 1 = 0"
proof -
  have "unat (a + 1) = (if unat a + 1 < 2 ^ 64 then unat a + 1 else 0)"
    using unat_less_64 [of a] by (simp add: unat_plus_if')
  then show ?thesis
    using unat_less_64 [of a] unfolding word_less_nat_alt word_unat_eq_iff by simp
qed

lemma ucast_add_carry:
  fixes a b :: "64 word"
  shows "(ucast (a + b) :: 128 word) + (if a + b < a then 2 ^ 64 else 0) = ucast a + ucast b"
proof -
  have "unat (a + b) + (if a + b < a then 2 ^ 64 else 0) = unat a + unat b"
    using unat_less_64 [of a] unat_less_64 [of b]
    by (auto simp: word_less_nat_alt unat_plus_if')
  then have "(of_nat (unat (a + b) + (if a + b < a then 2 ^ 64 else 0)) :: 128 word) = of_nat (unat a + unat b)"
    by (rule arg_cong)
  then show ?thesis by (simp split: if_splits)
qed

lemma ucast_diff_borrow:
  fixes a b :: "64 word"
  shows "(ucast (a - b) :: 128 word) + ucast b = ucast a + (if a < b then 2 ^ 64 else 0)"
proof -
  have "unat (a - b) + unat b = unat a + (if a < b then 2 ^ 64 else 0)"
    using unat_less_64 [of a] unat_less_64 [of b]
    by (auto simp: word_less_nat_alt unat_sub_if')
  then have "(of_nat (unat (a - b) + unat b) :: 128 word) = of_nat (unat a + (if a < b then 2 ^ 64 else 0))"
    by (rule arg_cong)
  then show ?thesis by (simp split: if_splits)
qed

subsection \<open>Lemmas: the operators compute in 128 bits\<close>

lemma val128_add: "val128 (u128_add a b) = val128 a + val128 b"
proof -
  have "val128 (u128_add a b) = high128 (hi64 a + hi64 b)
      + (ucast (lo64 a + lo64 b) + (if lo64 a + lo64 b < lo64 a then 2 ^ 64 else 0))"
    by (simp add: u128_add_def Let_def val128_eq u128_fields high128_simps distrib_left)
  then show ?thesis
    unfolding ucast_add_carry high128_add val128_eq by (simp add: algebra_simps)
qed

lemma val128_sub: "val128 (u128_sub a b) = val128 a - val128 b"
proof -
  have "val128 (u128_sub a b) = high128 (hi64 a - hi64 b)
      - (if lo64 a < lo64 b then 2 ^ 64 else 0) + ucast (lo64 a - lo64 b)"
    by (simp add: u128_sub_def Let_def val128_eq u128_fields high128_simps right_diff_distrib)
  moreover have "(ucast (lo64 a - lo64 b) :: 128 word)
      = ucast (lo64 a) + (if lo64 a < lo64 b then 2 ^ 64 else 0) - ucast (lo64 b)"
    using ucast_diff_borrow [of "lo64 a" "lo64 b"] by (simp add: eq_diff_eq)
  ultimately show ?thesis
    unfolding high128_diff val128_eq by simp
qed

lemma val128_not: "val128 (u128_not a) = NOT (val128 a)"
  by (rule bit_word_eqI) (auto simp: bit_val128 u128_not_def u128_fields bit_simps)

lemma val128_or: "val128 (u128_or a b) = val128 a OR val128 b"
  by (rule bit_word_eqI) (auto simp: bit_val128 u128_or_def u128_fields bit_simps)

lemma val128_and: "val128 (u128_and a b) = val128 a AND val128 b"
  by (rule bit_word_eqI) (auto simp: bit_val128 u128_and_def u128_fields bit_simps)

lemma val128_xor: "val128 (u128_xor a b) = val128 a XOR val128 b"
  by (rule bit_word_eqI) (auto simp: bit_val128 u128_xor_def u128_fields bit_simps)

lemma val128_of_unsigned:
  assumes "LENGTH('a::len) \<le> 64"
  shows "val128 (uint128_of_unsigned (w :: 'a word)) = ucast w"
  by (rule bit_word_eqI)
    (use assms in \<open>auto simp: bit_val128 uint128_of_unsigned_def bit_simps dest: bit_imp_le_length\<close>)

lemma val128_of_signed:
  assumes "LENGTH('a::len) \<le> 64"
  shows "val128 (uint128_of_signed (w :: 'a word)) = scast w"
proof (rule bit_word_eqI)
  have sgn: "sint w < 0 \<longleftrightarrow> bit w (LENGTH('a) - 1)"
    by (simp add: bit_last_iff)
  fix n
  assume "n < LENGTH(128)"
  then show "bit (val128 (uint128_of_signed w)) n = bit (scast w :: 128 word) n"
    using assms by (auto simp: bit_val128 uint128_of_signed_def bit_simps sgn min_def)
qed

lemma val128_uminus: "val128 (u128_uminus a) = - val128 a"
proof -
  have 1: "(ucast (NOT (lo64 a) + 1) :: 128 word) + (if NOT (lo64 a) + 1 < NOT (lo64 a) then 2 ^ 64 else 0)
      = ucast (NOT (lo64 a)) + 1"
    using ucast_add_carry [of "NOT (lo64 a)" 1] by simp
  have 2: "NOT (lo64 a) + 1 < NOT (lo64 a) \<longleftrightarrow> NOT (lo64 a) + 1 = 0"
    by (rule plus_one_wraps)
  have "val128 (u128_uminus a) = high128 (NOT (hi64 a)) + (ucast (NOT (lo64 a) + 1)
      + (if NOT (lo64 a) + 1 = 0 then 2 ^ 64 else 0))"
    by (simp add: u128_uminus_def Let_def val128_eq u128_fields high128_simps distrib_left)
  also have "\<dots> = val128 (u128_not a) + 1"
    using 1 unfolding 2 by (simp add: val128_eq u128_not_def u128_fields)
  finally show ?thesis by (simp add: val128_not minus_eq_not_plus_1)
qed

lemma val128_less: "u128_less a b \<longleftrightarrow> val128 a < val128 b"
proof -
  have unat: "unat (val128 v) = 2 ^ 64 * unat (hi64 v) + unat (lo64 v)" for v
  proof -
    have "of_nat (2 ^ 64 * unat (hi64 v) + unat (lo64 v)) = val128 v"
      by (simp add: val128_eq)
    moreover have "2 ^ 64 * unat (hi64 v) + unat (lo64 v) < 2 ^ 128"
      using unat_less_64 [of "hi64 v"] unat_less_64 [of "lo64 v"] by simp
    ultimately show ?thesis by (intro of_nat_inverse) simp_all
  qed
  show ?thesis
    using unat_less_64 [of "lo64 a"] unat_less_64 [of "lo64 b"]
    by (auto simp: u128_less_def u128_fields word_less_nat_alt unat word_unat_eq_iff)
qed

lemma c_shift_simps:
  "0 \<le> n \<Longrightarrow> n < int LENGTH('a) \<Longrightarrow> c_shl (w :: 'a::len word) n = Inr (push_bit (nat n) w)"
  "0 \<le> n \<Longrightarrow> n < int LENGTH('a) \<Longrightarrow> c_shr w n = Inr (drop_bit (nat n) w)"
  "n < 0 \<or> int LENGTH('a) \<le> n \<Longrightarrow> c_shl w n = Inl ShiftOutOfRange"
  "n < 0 \<or> int LENGTH('a) \<le> n \<Longrightarrow> c_shr w n = Inl ShiftOutOfRange"
  by (auto simp: c_shl_def c_shr_def word_size)

lemma push_bit_val128:
  "n < 64 \<Longrightarrow> push_bit n (val128 a) =
     val128 (MakeUint128 (push_bit n (hi64 a) OR drop_bit (64 - n) (lo64 a)) (push_bit n (lo64 a)))"
  "64 \<le> n \<Longrightarrow> push_bit n (val128 a) = val128 (MakeUint128 (push_bit (n - 64) (lo64 a)) 0)"
  by (rule bit_word_eqI;
      auto simp: bit_val128 u128_fields bit_simps add.commute dest: bit_imp_le_length)+

lemma drop_bit_val128:
  "n < 64 \<Longrightarrow> drop_bit n (val128 a) =
     val128 (MakeUint128 (drop_bit n (hi64 a)) (drop_bit n (lo64 a) OR push_bit (64 - n) (hi64 a)))"
  "64 \<le> n \<Longrightarrow> drop_bit n (val128 a) = val128 (MakeUint128 0 (drop_bit (n - 64) (hi64 a)))"
  by (rule bit_word_eqI;
      auto simp: bit_val128 u128_fields bit_simps add.commute dest: bit_imp_le_length)+

lemma amount_cases:
  obtains "n < 0" | "n = 0" | "0 < n" "n < 64" | "64 \<le> n" "n < 128" | "(128 :: int) \<le> n"
  by linarith

lemma u128_shl_intrinsic: "u128_shl a n = u128_shl_intrinsic a n"
proof (cases n rule: amount_cases)
  case 3
  then have "nat n < 64" "64 - nat n = nat (64 - n)" by linarith+
  then show ?thesis
    using 3 push_bit_val128(1) [of "nat n" a]
    by (simp add: u128_shl_def u128_shl_intrinsic_def c_shift_simps u128_fields)
next
  case 4
  then have "64 \<le> nat n" "nat n - 64 = nat (n - 64)" by linarith+
  then show ?thesis
    using 4 push_bit_val128(2) [of "nat n" a]
    by (simp add: u128_shl_def u128_shl_intrinsic_def c_shift_simps u128_fields)
qed (simp_all add: u128_shl_def u128_shl_intrinsic_def c_shift_simps)

lemma u128_shr_intrinsic: "u128_shr a n = u128_shr_intrinsic a n"
proof (cases n rule: amount_cases)
  case 3
  then have "nat n < 64" "64 - nat n = nat (64 - n)" by linarith+
  then show ?thesis
    using 3 drop_bit_val128(1) [of "nat n" a]
    by (simp add: u128_shr_def u128_shr_intrinsic_def c_shift_simps u128_fields)
next
  case 4
  then have "64 \<le> nat n" "nat n - 64 = nat (n - 64)" by linarith+
  then show ?thesis
    using 4 drop_bit_val128(2) [of "nat n" a]
    by (simp add: u128_shr_def u128_shr_intrinsic_def c_shift_simps u128_fields)
qed (simp_all add: u128_shr_def u128_shr_intrinsic_def c_shift_simps)

text \<open>Multiplication of two 64-bit words by halves.\<close>

lemma halves:
  fixes w :: "64 word"
  defines "h \<equiv> drop_bit 32 w" and "l \<equiv> w AND 0xffffffff"
  shows "(ucast w :: 128 word) = 2 ^ 32 * ucast h + ucast l" and "unat h < 2 ^ 32" and "unat l < 2 ^ 32"
proof -
  have l: "l = take_bit 32 w"
    unfolding l_def by (simp add: take_bit_eq_mask mask_eq_exp_minus_1)
  have uh: "unat h = unat w div 2 ^ 32" by (simp only: h_def unat_drop_bit_eq) (simp only: drop_bit_eq_div)
  have ul: "unat l = unat w mod 2 ^ 32" by (simp only: l unsigned_take_bit_eq) (simp add: take_bit_eq_mod)
  show "unat h < 2 ^ 32" "unat l < 2 ^ 32"
    unfolding uh ul using unat_less_64 [of w] by simp_all
  have "unat w = 2 ^ 32 * unat h + unat l" unfolding uh ul by simp
  then have "(of_nat (unat w) :: 128 word) = of_nat (2 ^ 32 * unat h + unat l)" by (rule arg_cong)
  then show "(ucast w :: 128 word) = 2 ^ 32 * ucast h + ucast l" by simp
qed

lemma ucast_mult_small:
  fixes a b :: "64 word"
  assumes "unat a < 2 ^ 32" and "unat b < 2 ^ 32"
  shows "(ucast (a * b) :: 128 word) = ucast a * ucast b"
proof -
  have "unat a * unat b < 2 ^ 32 * 2 ^ 32"
    using assms by (intro mult_strict_mono') simp_all
  then have "unat (a * b) = unat a * unat b"
    by (simp add: unat_mult_lem [symmetric])
  then have "(of_nat (unat (a * b)) :: 128 word) = of_nat (unat a * unat b)" by (rule arg_cong)
  then show ?thesis by simp
qed

lemma mult_by_words:
  fixes K :: "'a::comm_semiring_1"
  assumes "K * K = 0"
  shows "(K * h + l) * (K * h' + l') = K * (h * l') + K * (l * h') + l * l'"
proof -
  have "(K * h + l) * (K * h' + l') = (K * K) * (h * h') + K * (h * l') + K * (l * h') + l * l'"
    by (simp only: distrib_left distrib_right ac_simps)
  then show ?thesis using assms by simp
qed

lemma shl_32_unsigned:
  "u128_shl (uint128_of_unsigned (w :: 64 word)) 32 = Inr (uint128_of_intrinsic (2 ^ 32 * ucast w))"
  unfolding u128_shl_intrinsic u128_shl_intrinsic_def
  by (simp add: c_shift_simps val128_of_unsigned push_bit_eq_mult mult.commute)

lemma u128_mul_intrinsic: "u128_mul a b = Inr (u128_mul_intrinsic a b)"
proof -
  define la lb where "la = lo64 a" and "lb = lo64 b"
  define a32 a00 where "a32 = drop_bit 32 la" and "a00 = la AND 0xffffffff"
  define b32 b00 where "b32 = drop_bit 32 lb" and "b00 = lb AND 0xffffffff"
  note A = halves [of la, folded a32_def a00_def] and B = halves [of lb, folded b32_def b00_def]
  define r where "r = MakeUint128 (hi64 a * lb + la * hi64 b + a32 * b32) (a00 * b00)"
  define x y where "x = uint128_of_intrinsic (2 ^ 32 * ucast (a32 * b00))"
    and "y = uint128_of_intrinsic (2 ^ 32 * ucast (a00 * b32))"
  have run: "u128_mul a b = Inr (u128_add (u128_add r x) y)"
    unfolding u128_mul_def Uint128Low64_def Uint128High64_def la_def [symmetric] lb_def [symmetric]
      a00_def [symmetric] b00_def [symmetric] Let_def
    by (simp add: c_shift_simps a32_def [symmetric] b32_def [symmetric] shl_32_unsigned
        u128_add_assign_def r_def x_def y_def del: power_numeral)
  have prods: "ucast (a00 * b00) = (ucast a00 * ucast b00 :: 128 word)"
    "ucast (a32 * b00) = (ucast a32 * ucast b00 :: 128 word)"
    "ucast (a00 * b32) = (ucast a00 * ucast b32 :: 128 word)"
    using A B by (simp_all add: ucast_mult_small)
  have "val128 (u128_add (u128_add r x) y) =
      2 ^ 64 * (ucast (hi64 a) * ucast lb) + 2 ^ 64 * (ucast la * ucast (hi64 b))
      + (2 ^ 64 * (ucast a32 * ucast b32) + ucast a00 * ucast b00
         + 2 ^ 32 * (ucast a32 * ucast b00) + 2 ^ 32 * (ucast a00 * ucast b32))"
    unfolding val128_add r_def x_def y_def val128_make val128_of_intrinsic high128_add high128_mult prods
    by (simp only: add.assoc)
  also have "2 ^ 64 * (ucast a32 * ucast b32) + ucast a00 * ucast b00
         + 2 ^ 32 * (ucast a32 * ucast b00) + 2 ^ 32 * (ucast a00 * ucast b32)
      = (ucast la * ucast lb :: 128 word)"
    unfolding A(1) B(1) by (simp add: algebra_simps)
  finally have "val128 (u128_add (u128_add r x) y) = val128 a * val128 b"
    unfolding val128_eq la_def lb_def mult_by_words [OF two_64_sq] .
  then show ?thesis
    unfolding run u128_mul_intrinsic_def by (simp add: of_intrinsic_eq eq_commute)
qed

lemma BitCastToSigned_sint: "BitCastToSigned v = sint v"
proof -
  have top: "v AND push_bit 63 1 \<noteq> 0 \<longleftrightarrow> bit v 63"
    by (simp only: and_exp_eq_0_iff_not_bit push_bit_of_1 not_not)
  have s: "sint v = (if bit v 63 then uint v - 2 ^ 64 else uint v)"
    using signed_take_bit_eq_take_bit_add [of 63 "uint v"] take_bit_int_eq_self [of "uint v" 64]
      uint_lt2p [of v]
    by (simp add: sint_uint bit_uint_iff not_int_def mask_eq_exp_minus_1)
  have "uint (NOT v) = 2 ^ 64 - 1 - uint v"
    using take_bit_int_eq_self [of "uint v" 64] uint_lt2p [of v]
    by (simp add: unsigned_not_eq take_bit_not_eq_mask_diff mask_eq_exp_minus_1)
  then show ?thesis
    unfolding BitCastToSigned_def top s by (simp add: not_int_def)
qed

subsection \<open>Properties\<close>

text \<open>
  C21. The portable operators of \<^verbatim>\<open>uint128\<close> compute what the compiler's 128-bit type computes, on all
  operands: sum, difference, product, negation, complement, order, and shifts, which are undefined for
  the same amounts. The conversions between the two types are inverse to each other.
\<close>

theorem uint128_portable_is_intrinsic:
  "uint128_of_intrinsic (uint128_to_intrinsic a) = a \<and>
   uint128_to_intrinsic (uint128_of_intrinsic w) = w \<and>
   u128_add a b = uint128_of_intrinsic (uint128_to_intrinsic a + uint128_to_intrinsic b) \<and>
   u128_sub a b = uint128_of_intrinsic (uint128_to_intrinsic a - uint128_to_intrinsic b) \<and>
   u128_mul a b = Inr (u128_mul_intrinsic a b) \<and>
   u128_uminus a = uint128_of_intrinsic (- uint128_to_intrinsic a) \<and>
   u128_not a = uint128_of_intrinsic (NOT (uint128_to_intrinsic a)) \<and>
   u128_less a b = u128_less_intrinsic a b \<and>
   (u128_eq a b \<longleftrightarrow> uint128_to_intrinsic a = uint128_to_intrinsic b) \<and>
   u128_shl a n = u128_shl_intrinsic a n \<and>
   u128_shr a n = u128_shr_intrinsic a n \<and>
   BitCastToSigned (Uint128High64 a) = sint (hi64 a)"
proof -
  have eq: "u128_eq a b \<longleftrightarrow> uint128_to_intrinsic a = uint128_to_intrinsic b"
    by (auto simp: u128_eq_def u128_fields)
  show ?thesis
    using u128_mul_intrinsic [of a b] u128_shl_intrinsic [of a n] u128_shr_intrinsic [of a n] eq
    by (simp add: val128_add [symmetric] val128_sub [symmetric] val128_uminus [symmetric]
        val128_not [symmetric] val128_less u128_less_intrinsic_def BitCastToSigned_sint Uint128High64_def)
qed

end
