(* ===== verification/SeqNum.thy ===== *)
theory SeqNum
  imports Prelude
begin

section \<open>Wrapping sequence numbers\<close>

text \<open>
  \<^verbatim>\<open>rtc_base/numerics/mod_ops.h\<close>, \<^verbatim>\<open>rtc_base/numerics/sequence_number_util.h\<close> and
  \<^verbatim>\<open>modules/include/module_common_types_public.h\<close>: arithmetic modulo \<open>M\<close>, the order of sequence numbers
  that wrap around, and the two unwrappers, which turn them into 64-bit numbers. An unsigned type
  \<^verbatim>\<open>T\<close> is a word type; the template argument \<open>M\<close> is a parameter, with \<open>0\<close> for the whole range of
  \<^verbatim>\<open>T\<close>. The 64-bit results are mathematical integers.
\<close>

unbundle bit_operations_syntax

subsection \<open>Sums and differences modulo M\<close>

definition mod_Add :: "64 word \<Rightarrow> 64 word \<Rightarrow> 64 word \<Rightarrow> 64 word res" where
  "mod_Add M a b =
     (if \<not> a < M then Inl DcheckFailed
      else let t = M - b mod M; r = a - t
           in if t > a then Inr (r + M) else Inr r)"

definition mod_Subtract :: "64 word \<Rightarrow> 64 word \<Rightarrow> 64 word \<Rightarrow> 64 word res" where
  "mod_Subtract M a b =
     (if \<not> a < M then Inl DcheckFailed
      else let sub = b mod M
           in if a < sub then Inr (M - (sub - a)) else Inr (a - sub))"

definition ForwardDiff_mod :: "'t::len word \<Rightarrow> 't word \<Rightarrow> 't word \<Rightarrow> 't word res" where
  "ForwardDiff_mod M a b =
     (if \<not> a < M then Inl DcheckFailed
      else if \<not> b < M then Inl DcheckFailed
      else Inr (if a \<le> b then b - a else M - (a - b)))"

definition ForwardDiff_wrap :: "'t::len word \<Rightarrow> 't word \<Rightarrow> 't word" where
  "ForwardDiff_wrap a b = b - a"

definition ForwardDiff :: "'t::len word \<Rightarrow> 't word \<Rightarrow> 't word \<Rightarrow> 't word res" where
  "ForwardDiff M a b = (if M > 0 then ForwardDiff_mod M a b else Inr (ForwardDiff_wrap a b))"

definition ReverseDiff_mod :: "'t::len word \<Rightarrow> 't word \<Rightarrow> 't word \<Rightarrow> 't word res" where
  "ReverseDiff_mod M a b =
     (if \<not> a < M then Inl DcheckFailed
      else if \<not> b < M then Inl DcheckFailed
      else Inr (if b \<le> a then a - b else M - (b - a)))"

definition ReverseDiff_wrap :: "'t::len word \<Rightarrow> 't word \<Rightarrow> 't word" where
  "ReverseDiff_wrap a b = a - b"

definition ReverseDiff :: "'t::len word \<Rightarrow> 't word \<Rightarrow> 't word \<Rightarrow> 't word res" where
  "ReverseDiff M a b = (if M > 0 then ReverseDiff_mod M a b else Inr (ReverseDiff_wrap a b))"

definition MinDiff :: "'t::len word \<Rightarrow> 't word \<Rightarrow> 't word \<Rightarrow> 't word res" where
  "MinDiff M a b =
     res_bind (ForwardDiff M a b) (\<lambda>f. res_bind (ReverseDiff M a b) (\<lambda>r. Inr (min f r)))"

subsection \<open>The order of sequence numbers\<close>

text \<open>
  A difference of two values of \<^verbatim>\<open>T\<close> before conversion: types narrower than \<^verbatim>\<open>int\<close> are promoted to
  \<^verbatim>\<open>int\<close> and the difference may be negative, wider ones wrap around.
\<close>

definition promoted_diff :: "'t::len word \<Rightarrow> 't word \<Rightarrow> int" where
  "promoted_diff a b = (if LENGTH('t) < 32 then uint a - uint b else uint (a - b))"

definition AheadOrAt_mod :: "'t::len word \<Rightarrow> 't word \<Rightarrow> 't word \<Rightarrow> bool res" where
  "AheadOrAt_mod M a b =
     (let maxDist = M div 2 in
      res_bind (if M AND 1 = 0 then res_bind (MinDiff M a b) (\<lambda>d. Inr (d = maxDist)) else Inr False)
        (\<lambda>tie. if tie then Inr (b < a)
               else res_bind (ForwardDiff M b a) (\<lambda>f. Inr (f \<le> maxDist))))"

definition AheadOrAt_wrap :: "'t::len word \<Rightarrow> 't word \<Rightarrow> bool" where
  "AheadOrAt_wrap a b =
     (let maxDist = (- 1) div 2 + 1 in
      if promoted_diff a b = uint (maxDist :: 't word) then b < a
      else ForwardDiff_wrap b a < maxDist)"

definition AheadOrAt :: "'t::len word \<Rightarrow> 't word \<Rightarrow> 't word \<Rightarrow> bool res" where
  "AheadOrAt M a b = (if M > 0 then AheadOrAt_mod M a b else Inr (AheadOrAt_wrap a b))"

definition AheadOf :: "'t::len word \<Rightarrow> 't word \<Rightarrow> 't word \<Rightarrow> bool res" where
  "AheadOf M a b = (if a \<noteq> b then AheadOrAt M a b else Inr False)"

definition AscendingSeqNumComp :: "'t::len word \<Rightarrow> 't word \<Rightarrow> 't word \<Rightarrow> bool res" where
  "AscendingSeqNumComp M a b = AheadOf M a b"

definition DescendingSeqNumComp :: "'t::len word \<Rightarrow> 't word \<Rightarrow> 't word \<Rightarrow> bool res" where
  "DescendingSeqNumComp M a b = AheadOf M b a"

definition IsNewer :: "'u::len word \<Rightarrow> 'u word \<Rightarrow> bool" where
  "IsNewer val prev_value =
     (let kBreakpoint = drop_bit 1 (- 1) + 1 in
      if promoted_diff val prev_value = uint (kBreakpoint :: 'u word) then val > prev_value
      else val \<noteq> prev_value \<and> val - prev_value < kBreakpoint)"

definition IsNewerSequenceNumber :: "16 word \<Rightarrow> 16 word \<Rightarrow> bool" where
  "IsNewerSequenceNumber a b = IsNewer a b"

definition IsNewerTimestamp :: "32 word \<Rightarrow> 32 word \<Rightarrow> bool" where
  "IsNewerTimestamp a b = IsNewer a b"

definition LatestSequenceNumber :: "16 word \<Rightarrow> 16 word \<Rightarrow> 16 word" where
  "LatestSequenceNumber a b = (if IsNewerSequenceNumber a b then a else b)"

definition LatestTimestamp :: "32 word \<Rightarrow> 32 word \<Rightarrow> 32 word" where
  "LatestTimestamp a b = (if IsNewerTimestamp a b then a else b)"

subsection \<open>Unwrapping\<close>

record 'v seq_unwrapper =
  last_unwrapped :: int
  last_seq :: "'v option"

definition seq_unwrapper_new :: "'t::len word seq_unwrapper" where
  "seq_unwrapper_new = \<lparr>last_unwrapped = 0, last_seq = None\<rparr>"

definition seq_Unwrap ::
  "'t::len word \<Rightarrow> 't word seq_unwrapper \<Rightarrow> 't word \<Rightarrow> (int \<times> 't word seq_unwrapper) res" where
  "seq_Unwrap M s v =
     res_bind (case last_seq s of
         None \<Rightarrow> Inr (s\<lparr>last_unwrapped := uint v\<rparr>)
       | Some l \<Rightarrow>
           res_bind (ForwardDiff M l v) (\<lambda>f.
           let s = s\<lparr>last_unwrapped := last_unwrapped s + uint f\<rparr> in
           res_bind (AheadOrAt M v l) (\<lambda>ahead.
           if \<not> ahead
           then let kBackwardAdjustment = (if M = 0 then uint (- 1 :: 't word) + 1 else uint M)
                in Inr (s\<lparr>last_unwrapped := last_unwrapped s - kBackwardAdjustment\<rparr>)
           else Inr s)))
       (\<lambda>s. let s = s\<lparr>last_seq := Some v\<rparr> in Inr (last_unwrapped s, s))"

record unwrapper_state =
  last_value :: "int option"

definition unwrapper_new :: unwrapper_state where
  "unwrapper_new = \<lparr>last_value = None\<rparr>"

definition UnwrapWithoutUpdate :: "unwrapper_state \<Rightarrow> 'u::len word \<Rightarrow> int" where
  "UnwrapWithoutUpdate s v =
     (case last_value s of
        None \<Rightarrow> uint v
      | Some l \<Rightarrow>
          let kMaxPlusOne = uint (- 1 :: 'u word) + 1;
              cropped_last = word_of_int l;
              delta = promoted_diff v cropped_last;
              delta = (if IsNewer v cropped_last
                       then if delta < 0 then delta + kMaxPlusOne else delta
                       else if delta > 0 \<and> l + delta - kMaxPlusOne \<ge> 0 then delta - kMaxPlusOne
                       else delta)
          in l + delta)"

definition UpdateLast :: "int \<Rightarrow> unwrapper_state \<Rightarrow> unwrapper_state" where
  "UpdateLast l s = s\<lparr>last_value := Some l\<rparr>"

definition Unwrap :: "unwrapper_state \<Rightarrow> 'u::len word \<Rightarrow> int \<times> unwrapper_state" where
  "Unwrap s v = (let unwrapped = UnwrapWithoutUpdate s v in (unwrapped, UpdateLast unwrapped s))"

text \<open>A stream of values given to an unwrapper, with the stream of results.\<close>

fun feed :: "('s \<Rightarrow> 'v \<Rightarrow> (int \<times> 's) res) \<Rightarrow> 's \<Rightarrow> 'v list \<Rightarrow> (int list \<times> 's) res" where
  "feed f s [] = Inr ([], s)"
| "feed f s (v # vs) =
     res_bind (f s v) (\<lambda>(x, s). res_bind (feed f s vs) (\<lambda>(xs, s). Inr (x # xs, s)))"

subsection \<open>Lemmas\<close>

text \<open>The modulus of a template instance, and its half.\<close>

definition modulus :: "'t::len word \<Rightarrow> int" where
  "modulus M = (if M = 0 then 2 ^ LENGTH('t) else uint M)"

abbreviation in_range :: "'t::len word \<Rightarrow> 't word \<Rightarrow> bool" where
  "in_range M a \<equiv> M = 0 \<or> a < M"

lemma modulus_pos: "0 < modulus M"
  by (simp add: modulus_def word_neq_0_conv word_less_def)

lemma in_range_uint: "in_range M a \<Longrightarrow> 0 \<le> uint a \<and> uint a < modulus M"
  using uint_lt2p [of a] by (auto simp: modulus_def word_less_def)

lemma in_range_of_int:
  assumes "0 \<le> x" and "x < modulus (M :: 't::len word)"
  shows "in_range M (word_of_int x)" and "uint (word_of_int x :: 't word) = x"
proof -
  have "modulus M \<le> 2 ^ LENGTH('t)"
    using less_imp_le [OF uint_lt2p [of M]] by (simp add: modulus_def)
  then show u: "uint (word_of_int x :: 't word) = x"
    using assms by (simp add: uint_word_of_int_eq take_bit_int_eq_self)
  show "in_range M (word_of_int x)"
    unfolding word_less_def u using assms by (simp add: modulus_def split: if_splits)
qed

lemma uint_diff_words: "uint (b - a) = (if uint a \<le> uint b then uint b - uint a else uint b - uint a + 2 ^ LENGTH('t))"
  for a b :: "'t::len word"
  by (simp add: uint_sub_if')

text \<open>The distance from \<open>a\<close> forward to \<open>b\<close>.\<close>

definition ahead_by :: "int \<Rightarrow> int \<Rightarrow> int \<Rightarrow> int" where
  "ahead_by K a b = (if a \<le> b then b - a else b - a + K)"

lemma ForwardDiff_value:
  assumes "in_range M a" and "in_range M b"
  obtains f where "ForwardDiff M a b = Inr f" and "uint f = ahead_by (modulus M) (uint a) (uint b)"
proof (cases "M = 0")
  case True
  then show thesis
    using that [of "b - a"]
    by (simp add: ForwardDiff_def ForwardDiff_wrap_def ahead_by_def modulus_def uint_diff_words)
next
  case False
  with assms have r: "a < M" "b < M" "M > 0" by (auto simp: word_neq_0_conv)
  then have u: "uint a < uint M" "uint b < uint M" by (simp_all add: word_less_def)
  have d: "uint a - uint b \<le> uint M" using u uint_ge_0 [of b] by linarith
  have "uint (if a \<le> b then b - a else M - (a - b)) = ahead_by (uint M) (uint a) (uint b)"
    using u d by (simp add: ahead_by_def uint_diff_words word_le_def)
  then show thesis
    using that r False by (simp add: ForwardDiff_def ForwardDiff_mod_def modulus_def)
qed

lemma ReverseDiff_ForwardDiff:
  "in_range M a \<Longrightarrow> in_range M b \<Longrightarrow> ReverseDiff M a b = ForwardDiff M b a"
  by (auto simp: ReverseDiff_def ForwardDiff_def ReverseDiff_mod_def ForwardDiff_mod_def
      ReverseDiff_wrap_def ForwardDiff_wrap_def)

text \<open>What the order means: \<open>b\<close> is at most half the modulus behind, and ties go to the larger value.\<close>

definition at_or_ahead :: "int \<Rightarrow> int \<Rightarrow> int \<Rightarrow> bool" where
  "at_or_ahead K a b \<longleftrightarrow> 2 * ahead_by K b a < K \<or> 2 * ahead_by K b a = K \<and> b < a"
lemma half_word:
  "(- 1 :: 't::len word) div 2 + 1 = 2 ^ (LENGTH('t) - 1)"
  "drop_bit 1 (- 1 :: 't word) + 1 = 2 ^ (LENGTH('t) - 1)"
  "uint (2 ^ (LENGTH('t) - 1) :: 't word) = 2 ^ (LENGTH('t) - 1)"
proof -
  have m: "drop_bit 1 (- 1 :: 't word) = mask (LENGTH('t) - 1)"
    by (rule bit_word_eqI) (auto simp: bit_simps)
  then show d: "drop_bit 1 (- 1 :: 't word) + 1 = 2 ^ (LENGTH('t) - 1)"
    by (simp add: mask_eq_exp_minus_1)
  have "(- 1 :: 't word) div 2 = drop_bit 1 (- 1)" by (simp only: drop_bit_eq_div power_one_right)
  with d show "(- 1 :: 't word) div 2 + 1 = 2 ^ (LENGTH('t) - 1)" by simp
  have "(2 ^ (LENGTH('t) - 1) :: 't word) = word_of_int (2 ^ (LENGTH('t) - 1))" by simp
  moreover have "uint (word_of_int (2 ^ (LENGTH('t) - 1)) :: 't word) = 2 ^ (LENGTH('t) - 1)"
    by (simp only: uint_word_of_int_eq) (simp add: take_bit_int_eq_self)
  ultimately show "uint (2 ^ (LENGTH('t) - 1) :: 't word) = 2 ^ (LENGTH('t) - 1)" by metis
qed

lemma two_half: "2 * 2 ^ (LENGTH('t::len) - 1) = (2 ^ LENGTH('t) :: int)"
  by (metis One_nat_def Suc_pred len_gt_0 power_Suc)

lemma uint_max: "uint (- 1 :: 't::len word) + 1 = 2 ^ LENGTH('t)"
  by (simp add: unsigned_minus_1_eq_mask mask_eq_exp_minus_1)

lemma promoted_half:
  fixes a b :: "'t::len word"
  shows "(if promoted_diff a b = 2 ^ (LENGTH('t) - 1) then b < a else uint (a - b) < 2 ^ (LENGTH('t) - 1))
    \<longleftrightarrow> at_or_ahead (2 ^ LENGTH('t)) (uint a) (uint b)"
proof -
  define H K where "H = (2 ^ (LENGTH('t) - 1) :: int)" and "K = (2 ^ LENGTH('t) :: int)"
  have HK: "2 * H = K" unfolding H_def K_def by (rule two_half)
  have "uint a < K" "uint b < K" "0 \<le> uint a" "0 \<le> uint b" "0 < H" unfolding K_def H_def by simp_all
  then show ?thesis
    unfolding promoted_diff_def uint_diff_words at_or_ahead_def ahead_by_def word_less_def
      H_def [symmetric] K_def [symmetric] HK [symmetric]
    by auto
qed

lemma AheadOrAt_wrap_value:
  "AheadOrAt_wrap a b \<longleftrightarrow> at_or_ahead (2 ^ LENGTH('t)) (uint a) (uint (b :: 't::len word))"
  unfolding promoted_half [symmetric] AheadOrAt_wrap_def Let_def half_word ForwardDiff_wrap_def
    word_less_def [of _ "2 ^ _"] by (rule refl)

lemma IsNewer_value:
  "IsNewer a b \<longleftrightarrow> a \<noteq> b \<and> at_or_ahead (2 ^ LENGTH('t)) (uint a) (uint (b :: 't::len word))"
  unfolding promoted_half [symmetric] IsNewer_def Let_def half_word word_less_def [of _ "2 ^ _"]
  by auto

lemma AheadOrAt_mod_value:
  assumes "a < M" and "b < M"
  shows "AheadOrAt_mod M a b = Inr (at_or_ahead (uint M) (uint a) (uint b))"
proof -
  have r: "in_range M a" "in_range M b" and M: "modulus M = uint M"
    using assms by (auto simp: modulus_def)
  obtain f where f: "ForwardDiff M a b = Inr f" "uint f = ahead_by (uint M) (uint a) (uint b)"
    using ForwardDiff_value [OF r] unfolding M by blast
  obtain g where g: "ForwardDiff M b a = Inr g" "uint g = ahead_by (uint M) (uint b) (uint a)"
    using ForwardDiff_value [OF r(2,1)] unfolding M by blast
  have u: "uint a < uint M" "uint b < uint M" "0 \<le> uint a" "0 \<le> uint b"
    using assms by (simp_all add: word_less_def)
  have half: "uint (M div 2) = uint M div 2"
  proof -
    have "M div 2 = drop_bit 1 M" by (simp only: drop_bit_eq_div power_one_right)
    then show ?thesis by (simp only: unsigned_drop_bit_eq) (simp add: drop_bit_eq_div take_bit_int_eq_self)
  qed
  have even: "M AND 1 = 0 \<longleftrightarrow> even (uint M)"
  proof -
    have "odd (uint M) \<longleftrightarrow> odd M" by (simp only: bit_0 [symmetric] bit_uint_iff) simp
    then show ?thesis by (metis and_one_eq even_iff_mod_2_eq_zero)
  qed
  have min: "uint (min f g) = min (uint f) (uint g)"
    by (simp add: min_def word_le_def)
  have "MinDiff M a b = Inr (min f g)"
    by (simp add: MinDiff_def f ReverseDiff_ForwardDiff [OF r] g)
  then have "AheadOrAt_mod M a b = Inr (if even (uint M) \<and> min (uint f) (uint g) = uint M div 2
      then uint b < uint a else uint g \<le> uint M div 2)"
    unfolding AheadOrAt_mod_def Let_def even
    by (simp add: g word_uint_eq_iff half min word_le_def word_less_def)
  also have "\<dots> = Inr (at_or_ahead (uint M) (uint a) (uint b))"
  proof (rule arg_cong [where f = Inr], cases "even (uint M)")
    case True
    then obtain h where h: "uint M = 2 * h" by (elim evenE)
    have "0 < h" using h u by linarith
    then have "h \<noteq> 0 \<and> 0 \<le> h" by simp
    with h show "(if even (uint M) \<and> min (uint f) (uint g) = uint M div 2
      then uint b < uint a else uint g \<le> uint M div 2) = at_or_ahead (uint M) (uint a) (uint b)"
      using u unfolding f(2) g(2) at_or_ahead_def ahead_by_def by (auto simp: min_def)
  next
    case False
    then obtain h where "uint M = 2 * h + 1" by (elim oddE)
    then show "(if even (uint M) \<and> min (uint f) (uint g) = uint M div 2
      then uint b < uint a else uint g \<le> uint M div 2) = at_or_ahead (uint M) (uint a) (uint b)"
      using u unfolding f(2) g(2) at_or_ahead_def ahead_by_def by auto
  qed
  finally show ?thesis .
qed

lemma AheadOrAt_value:
  assumes "in_range M a" and "in_range M b"
  shows "AheadOrAt M a b = Inr (at_or_ahead (modulus M) (uint a) (uint b))"
  using assms AheadOrAt_mod_value [of a M b]
  by (auto simp: AheadOrAt_def modulus_def AheadOrAt_wrap_value word_neq_0_conv)

lemma at_or_ahead_total:
  assumes "0 \<le> a" "a < K" "0 \<le> b" "b < K" "a \<noteq> b"
  shows "at_or_ahead K b a \<longleftrightarrow> \<not> at_or_ahead K a b"
  using assms unfolding at_or_ahead_def ahead_by_def by auto

lemma mod_sum_cases:
  fixes x y K :: int
  assumes "0 \<le> x" "x < K" "0 \<le> y" "y < K"
  shows "(x + y) mod K = (if x + y < K then x + y else x + y - K)"
    and "(x - y) mod K = (if y \<le> x then x - y else x - y + K)"
proof -
  have "(x + y) mod K = (x + y - K) mod K" by simp
  then show "(x + y) mod K = (if x + y < K then x + y else x + y - K)"
    using assms mod_pos_pos_trivial [of "x + y" K] mod_pos_pos_trivial [of "x + y - K" K] by auto
  have "(x - y) mod K = (x - y + K) mod K" by simp
  then show "(x - y) mod K = (if y \<le> x then x - y else x - y + K)"
    using assms mod_pos_pos_trivial [of "x - y" K] mod_pos_pos_trivial [of "x - y + K" K] by auto
qed

lemma mod_Add_value:
  assumes "a < M"
  obtains r where "mod_Add M a b = Inr r" and "uint r = (uint a + uint b) mod uint M"
proof -
  define q where "q = uint b mod uint M"
  have a: "0 \<le> uint a" "uint a < uint M" using assms by (simp_all add: word_less_def)
  then have "0 < uint M" by linarith
  then have q: "0 \<le> q" "q < uint M" "uint (b mod M) = q" unfolding q_def by (simp_all add: uint_mod)
  have sum: "(uint a + uint b) mod uint M = (if uint a + q < uint M then uint a + q else uint a + q - uint M)"
    using mod_sum_cases(1) [OF a q(1,2)] unfolding q_def by (simp add: mod_add_right_eq)
  have t: "uint (M - b mod M) = uint M - q" using q by (simp add: uint_diff_words)
  show thesis
  proof (cases "M - b mod M > a")
    case True
    then have lt: "uint a < uint M - q" unfolding word_less_def t .
    have "a - (M - b mod M) + M = a + b mod M" by simp
    moreover have "uint (a + b mod M) = uint a + q"
      using a q lt less_imp_le [OF uint_lt2p [of M]] by (simp add: uint_plus_if' )
    ultimately show thesis
      using that [of "a + b mod M"] True assms lt sum by (simp add: mod_Add_def Let_def)
  next
    case False
    then have ge: "uint M - q \<le> uint a" unfolding word_less_def t by simp
    then have "uint (a - (M - b mod M)) = uint a + q - uint M"
      using t by (simp only: uint_diff_words [of a]) simp
    then show thesis
      using that [of "a - (M - b mod M)"] False assms ge sum by (simp add: mod_Add_def Let_def)
  qed
qed

lemma mod_Subtract_value:
  assumes "a < M"
  obtains r where "mod_Subtract M a b = Inr r" and "uint r = (uint a - uint b) mod uint M"
proof -
  define q where "q = uint b mod uint M"
  have a: "0 \<le> uint a" "uint a < uint M" using assms by (simp_all add: word_less_def)
  then have "0 < uint M" by linarith
  then have q: "0 \<le> q" "q < uint M" "uint (b mod M) = q" unfolding q_def by (simp_all add: uint_mod)
  have diff: "(uint a - uint b) mod uint M = (if q \<le> uint a then uint a - q else uint a - q + uint M)"
    using mod_sum_cases(2) [OF a q(1,2)] unfolding q_def by (simp add: mod_diff_right_eq)
  have le: "q - uint a \<le> uint M" using a q by linarith
  have "uint (if a < b mod M then M - (b mod M - a) else a - b mod M) = (uint a - uint b) mod uint M"
    unfolding diff using a q le by (simp add: uint_diff_words word_less_def)
  then show thesis
    using that [of "if a < b mod M then M - (b mod M - a) else a - b mod M"] assms
    by (simp add: mod_Subtract_def Let_def)
qed

lemma ahead_by_mod:
  assumes "0 < K"
  shows "ahead_by K (p mod K) (q mod K) = (q - p) mod K"
proof -
  have "(q - p) mod K = (q mod K - p mod K) mod K" by (simp add: mod_diff_eq)
  then show ?thesis
    using mod_sum_cases(2) [of "q mod K" K "p mod K"] assms by (simp add: ahead_by_def)
qed

text \<open>Two positions less than half the modulus apart are told apart by their residues.\<close>

lemma near_mod:
  fixes p q K :: int
  assumes "2 * \<bar>q - p\<bar> < K"
  shows "ahead_by K (p mod K) (q mod K) = (if p \<le> q then q - p else q - p + K)"
    and "at_or_ahead K (q mod K) (p mod K) \<longleftrightarrow> p \<le> q"
    and "q mod K = p mod K \<longleftrightarrow> q = p"
proof -
  have K: "0 < K" by (rule le_less_trans [OF _ assms]) simp
  have b: "2 * (q - p) < K" "2 * (p - q) < K"
    using assms K by (simp_all add: abs_if split: if_splits)
  have d: "(q - p) mod K = (if p \<le> q then q - p else q - p + K)"
  proof (cases "p \<le> q")
    case True
    then show ?thesis using assms by (simp add: mod_pos_pos_trivial)
  next
    case False
    have "(q - p) mod K = (q - p + K) mod K" by simp
    also have "\<dots> = q - p + K" using False b K by (intro mod_pos_pos_trivial) arith+
    finally show ?thesis using False by simp
  qed
  show a: "ahead_by K (p mod K) (q mod K) = (if p \<le> q then q - p else q - p + K)"
    by (simp only: ahead_by_mod [OF K] d)
  show "at_or_ahead K (q mod K) (p mod K) \<longleftrightarrow> p \<le> q"
    unfolding at_or_ahead_def a using assms by auto
  show "q mod K = p mod K \<longleftrightarrow> q = p"
    using a assms by (auto simp: ahead_by_def split: if_splits)
qed

subsection \<open>The interface of an unwrapper\<close>

text \<open>
  What a user of an unwrapper relies on: \<open>holds s p\<close> says that the unwrapper has last returned the
  position \<open>p\<close>; a value cropped from a position near the last one is unwrapped to that position.
\<close>

locale unwrapping =
  fixes unwrap :: "'s \<Rightarrow> 'v \<Rightarrow> (int \<times> 's) res"
    and fresh :: 's
    and holds :: "'s \<Rightarrow> int \<Rightarrow> bool"
    and crop :: "int \<Rightarrow> 'v"
    and first :: "int \<Rightarrow> bool"
    and near :: "int \<Rightarrow> int \<Rightarrow> bool"
  assumes unwrap_first: "first q \<Longrightarrow> \<exists>s. unwrap fresh (crop q) = Inr (q, s) \<and> holds s q"
    and unwrap_next: "holds s p \<Longrightarrow> near p q \<Longrightarrow> \<exists>s'. unwrap s (crop q) = Inr (q, s') \<and> holds s' q"
begin

lemma feed_from:
  assumes "holds s p" and "successively near (p # qs)"
  shows "\<exists>s'. feed unwrap s (map crop qs) = Inr (qs, s') \<and> holds s' (last (p # qs))"
  using assms
proof (induction qs arbitrary: s p)
  case (Cons q qs)
  then obtain s1 where s1: "unwrap s (crop q) = Inr (q, s1)" "holds s1 q"
    using unwrap_next [of s p q] by (auto simp: successively_Cons)
  then obtain s2 where "feed unwrap s1 (map crop qs) = Inr (qs, s2)" "holds s2 (last (q # qs))"
    using Cons.IH [of s1 q] Cons.prems(2) by auto
  with s1 show ?case by simp
qed simp

lemma feed_recovers:
  assumes "first q" and "successively near (q # qs)"
  shows "\<exists>s. feed unwrap fresh (map crop (q # qs)) = Inr (q # qs, s) \<and> holds s (last (q # qs))"
proof -
  obtain s1 where s1: "unwrap fresh (crop q) = Inr (q, s1)" "holds s1 q"
    using unwrap_first [OF assms(1)] by blast
  then obtain s2 where "feed unwrap s1 (map crop qs) = Inr (qs, s2)" "holds s2 (last (q # qs))"
    using feed_from assms(2) by blast
  with s1 show ?thesis by simp
qed

end

text \<open>The class \<^verbatim>\<open>SeqNumUnwrapper\<close>.\<close>

definition seq_holds :: "'t::len word \<Rightarrow> 't word seq_unwrapper \<Rightarrow> int \<Rightarrow> bool" where
  "seq_holds M s p \<longleftrightarrow> last_unwrapped s = p \<and> last_seq s = Some (word_of_int (p mod modulus M))"

lemma residue_word:
  shows "in_range M (word_of_int (p mod modulus M))"
    and "uint (word_of_int (p mod modulus M) :: 't::len word) = p mod modulus (M :: 't word)"
  using in_range_of_int [of "p mod modulus M" M] modulus_pos [of M] by simp_all

lemma modulus_adjustment: "(if M = 0 then uint (- 1 :: 't::len word) + 1 else uint M) = modulus (M :: 't word)"
  by (simp only: modulus_def uint_max)

lemma seq_Unwrap_next:
  assumes "seq_holds M s p" and near: "2 * \<bar>q - p\<bar> < modulus M"
  shows "\<exists>s'. seq_Unwrap M s (word_of_int (q mod modulus M)) = Inr (q, s') \<and> seq_holds M s' q"
proof -
  let ?l = "word_of_int (p mod modulus M)" and ?v = "word_of_int (q mod modulus M)"
  obtain f where f: "ForwardDiff M ?l ?v = Inr f" "uint f = (if p \<le> q then q - p else q - p + modulus M)"
    using ForwardDiff_value [OF residue_word(1) residue_word(1), of M p q]
    unfolding residue_word(2) near_mod(1) [OF near] by blast
  have a: "AheadOrAt M ?v ?l = Inr (p \<le> q)"
    using AheadOrAt_value [OF residue_word(1) residue_word(1), of M q p]
    unfolding residue_word(2) near_mod(2) [OF near] .
  show ?thesis
    using assms(1) f a unfolding seq_Unwrap_def seq_holds_def
    by (simp add: Let_def modulus_adjustment)
qed

interpretation seq_unwrapping: unwrapping "seq_Unwrap M" seq_unwrapper_new "seq_holds M"
  "\<lambda>q. word_of_int (q mod modulus M)" "\<lambda>q. 0 \<le> q \<and> q < modulus M"
  "\<lambda>p q. 2 * \<bar>q - p\<bar> < modulus M" for M :: "'t::len word"
proof
  fix q
  assume "0 \<le> q \<and> q < modulus M"
  then show "\<exists>s. seq_Unwrap M seq_unwrapper_new (word_of_int (q mod modulus M)) = Inr (q, s) \<and> seq_holds M s q"
    using residue_word(2) [of q M]
    by (simp add: seq_Unwrap_def seq_unwrapper_new_def seq_holds_def Let_def mod_pos_pos_trivial)
qed (rule seq_Unwrap_next)

text \<open>The class \<^verbatim>\<open>Unwrapper\<close>.\<close>

definition unwrapper_holds :: "unwrapper_state \<Rightarrow> int \<Rightarrow> bool" where
  "unwrapper_holds s p \<longleftrightarrow> last_value s = Some p \<and> 0 \<le> p"

lemma Unwrap_next:
  fixes u :: "'u::len itself"
  assumes "unwrapper_holds s p" and near: "2 * \<bar>q - p\<bar> < 2 ^ LENGTH('u)" and "0 \<le> q"
  shows "\<exists>s'. Unwrap s (word_of_int q :: 'u word) = (q, s') \<and> unwrapper_holds s' q"
proof -
  define K where "K = (2 ^ LENGTH('u) :: int)"
  let ?l = "word_of_int p :: 'u word" and ?v = "word_of_int q :: 'u word"
  have u: "uint (word_of_int x :: 'u word) = x mod K" for x
    unfolding K_def by (simp only: uint_word_of_int_eq take_bit_eq_mod)
  note near' = near [folded K_def]
  have newer: "IsNewer ?v ?l \<longleftrightarrow> p < q"
    unfolding IsNewer_value K_def [symmetric] u near_mod(2) [OF near'] word_uint_eq_iff near_mod(3) [OF near']
    by auto
  have "promoted_diff ?v ?l = q mod K - p mod K \<or>
      promoted_diff ?v ?l = (if p mod K \<le> q mod K then q mod K - p mod K else q mod K - p mod K + K)"
    unfolding promoted_diff_def uint_diff_words u K_def [symmetric] by simp
  then have "promoted_diff ?v ?l = q - p \<or> promoted_diff ?v ?l = q - p + K \<and> q < p \<or>
      promoted_diff ?v ?l = q - p - K \<and> p \<le> q \<and> p \<noteq> q"
    using near_mod(1) [OF near'] near_mod(3) [OF near'] unfolding ahead_by_def by (simp split: if_splits; linarith)
  then have "UnwrapWithoutUpdate s ?v = q"
    using assms newer near' unfolding UnwrapWithoutUpdate_def unwrapper_holds_def
    by (auto simp: Let_def uint_max K_def [symmetric])
  then show ?thesis
    using assms by (simp add: Unwrap_def Let_def UpdateLast_def unwrapper_holds_def)
qed

interpretation unwrapping_16: unwrapping "\<lambda>s v. Inr (Unwrap s (v :: 16 word))" unwrapper_new
  unwrapper_holds word_of_int "\<lambda>q. 0 \<le> q \<and> q < 2 ^ 16" "\<lambda>p q. 2 * \<bar>q - p\<bar> < 2 ^ 16 \<and> 0 \<le> q"
proof
  fix s p q
  assume "unwrapper_holds s p" and "2 * \<bar>q - p\<bar> < 2 ^ 16 \<and> 0 \<le> q"
  then show "\<exists>s'. Inr (Unwrap s (word_of_int q :: 16 word)) = Inr (q, s') \<and> unwrapper_holds s' q"
    using Unwrap_next [of s p q, where ?'u = 16] by simp
qed (simp add: Unwrap_def UnwrapWithoutUpdate_def unwrapper_new_def unwrapper_holds_def UpdateLast_def
    Let_def uint_word_of_int_eq take_bit_int_eq_self)

interpretation unwrapping_32: unwrapping "\<lambda>s v. Inr (Unwrap s (v :: 32 word))" unwrapper_new
  unwrapper_holds word_of_int "\<lambda>q. 0 \<le> q \<and> q < 2 ^ 32" "\<lambda>p q. 2 * \<bar>q - p\<bar> < 2 ^ 32 \<and> 0 \<le> q"
proof
  fix s p q
  assume "unwrapper_holds s p" and "2 * \<bar>q - p\<bar> < 2 ^ 32 \<and> 0 \<le> q"
  then show "\<exists>s'. Inr (Unwrap s (word_of_int q :: 32 word)) = Inr (q, s') \<and> unwrapper_holds s' q"
    using Unwrap_next [of s p q, where ?'u = 32] by simp
qed (simp add: Unwrap_def UnwrapWithoutUpdate_def unwrapper_new_def unwrapper_holds_def UpdateLast_def
    Let_def uint_word_of_int_eq take_bit_int_eq_self)

subsection \<open>Properties\<close>

text \<open>
  C22. A stream of positions, each less than half the modulus from the one before, is recovered from
  its residues: \<^verbatim>\<open>SeqNumUnwrapper\<close> for any modulus, when the first position is a residue; \<^verbatim>\<open>Unwrapper\<close>
  for 16 and 32 bits, when no position is negative.
\<close>

theorem unwrappers_recover_streams:
  fixes M :: "'t::len word"
  shows "(0 \<le> q \<and> q < modulus M \<and> successively (\<lambda>p q. 2 * \<bar>q - p\<bar> < modulus M) (q # qs) \<longrightarrow>
      (\<exists>s. feed (seq_Unwrap M) seq_unwrapper_new (map (\<lambda>q. word_of_int (q mod modulus M)) (q # qs))
        = Inr (q # qs, s))) \<and>
    (0 \<le> q \<and> q < 2 ^ 16 \<and> successively (\<lambda>p q. 2 * \<bar>q - p\<bar> < 2 ^ 16 \<and> 0 \<le> q) (q # qs) \<longrightarrow>
      (\<exists>s. feed (\<lambda>s v. Inr (Unwrap s v)) unwrapper_new (map (word_of_int :: int \<Rightarrow> 16 word) (q # qs))
        = Inr (q # qs, s))) \<and>
    (0 \<le> q \<and> q < 2 ^ 32 \<and> successively (\<lambda>p q. 2 * \<bar>q - p\<bar> < 2 ^ 32 \<and> 0 \<le> q) (q # qs) \<longrightarrow>
      (\<exists>s. feed (\<lambda>s v. Inr (Unwrap s v)) unwrapper_new (map (word_of_int :: int \<Rightarrow> 32 word) (q # qs))
        = Inr (q # qs, s)))"
  using seq_unwrapping.feed_recovers [of q M qs] unwrapping_16.feed_recovers [of q qs]
    unwrapping_32.feed_recovers [of q qs]
  by blast

theorem unwrappers_recover_streams_witness:
  "(\<exists>s. feed (seq_Unwrap (10 :: 8 word)) seq_unwrapper_new (map word_of_int [8, 2, 6, 9]) = Inr ([8, 12, 16, 19], s)) \<and>
   (\<exists>s. feed (\<lambda>s v. Inr (Unwrap s v)) unwrapper_new (map (word_of_int :: int \<Rightarrow> 16 word) [65530, 65546, 65535])
        = Inr ([65530, 65546, 65535], s))"
  using unwrappers_recover_streams [of 8 "10 :: 8 word" "[12, 16, 19]"]
    unwrappers_recover_streams [of 65530 "0 :: 8 word" "[65546, 65535]"]
  by (simp add: modulus_def)

text \<open>
  Sequence numbers that differ are ordered: exactly one of the two is ahead of the other, for
  every modulus. \<^verbatim>\<open>IsNewer\<close>, written separately, is the same order for the whole range of its type.
\<close>

theorem sequence_numbers_ordered:
  assumes "M = 0 \<or> a < M \<and> b < M" and "a \<noteq> b"
  shows "(AheadOf M a b = Inr True \<and> AheadOf M b a = Inr False \<or>
      AheadOf M a b = Inr False \<and> AheadOf M b a = Inr True) \<and>
    AheadOf 0 a b = Inr (IsNewer a b)"
proof -
  have r: "in_range M a" "in_range M b" using assms(1) by auto
  have ne: "uint a \<noteq> uint b" using assms(2) by (simp add: word_uint_eq_iff)
  show ?thesis
    using assms(2) AheadOrAt_value [OF r] AheadOrAt_value [OF r(2,1)]
      at_or_ahead_total [of "uint a" "modulus M" "uint b"] in_range_uint [OF r(1)] in_range_uint [OF r(2)] ne
    by (auto simp: AheadOf_def AheadOrAt_def [of 0] AheadOrAt_wrap_value IsNewer_value)
qed

theorem sequence_numbers_ordered_witness:
  "AheadOf (10 :: 8 word) 2 8 = Inr True \<and> AheadOf (10 :: 8 word) 8 2 = Inr False"
proof -
  have "AheadOf (10 :: 8 word) 8 2 \<noteq> Inr True" 
    by code_simp
  then show ?thesis
    using sequence_numbers_ordered [of "10 :: 8 word" 2 8] by simp
qed

text \<open>
  \<^verbatim>\<open>Add\<close> and \<^verbatim>\<open>Subtract\<close> compute the sum and the difference modulo \<open>M\<close> without overflow, for
  all 64-bit operands and moduli.
\<close>

theorem mod_ops_do_not_overflow:
  assumes "a < M"
  shows "\<exists>r r'. mod_Add M a b = Inr r \<and> uint r = (uint a + uint b) mod uint M \<and>
    mod_Subtract M a b = Inr r' \<and> uint r' = (uint a - uint b) mod uint M"
  using mod_Add_value [OF assms] mod_Subtract_value [OF assms] by metis

theorem mod_ops_do_not_overflow_witness:
  "mod_Add (- 1) (- 2) (- 2) = Inr (- 3)"
proof -
  have "(- 2 :: 64 word) < - 1" by simp
  then obtain r where "mod_Add (- 1) (- 2) (- 2) = Inr r"
      "uint r = (uint (- 2 :: 64 word) + uint (- 2 :: 64 word)) mod uint (- 1 :: 64 word)"
    using mod_ops_do_not_overflow by blast
  moreover have "uint (- 1 :: 64 word) = 2 ^ 64 - 1" by (simp add: unsigned_minus_1_eq_mask mask_eq_exp_minus_1)
  ultimately show ?thesis by (simp add: word_uint_eq_iff)
qed

end
