(* ===== verification/BigUnsigned.thy ===== *)
theory BigUnsigned
  imports Prelude
begin

section \<open>Large fixed-width integers\<close>

text \<open>
  \<^verbatim>\<open>absl/strings/internal/charconv_bigint.h\<close>: the class template \<^verbatim>\<open>BigUnsigned<max_words>\<close>, an array of
  32-bit words with the number of words in use. \<open>max_words\<close> is the length of the list of words.
  The tables \<open>kFiveToNth\<close> and \<open>kTenToNth\<close> and the function \<open>MultiplyStep\<close> are defined in a file that is
  not part of the tree; they are parameters. The window and the accumulator of the loops are
  64-bit words.
\<close>

unbundle bit_operations_syntax

subsection \<open>The type\<close>

record big_unsigned =
  size_of :: nat
  words_of :: "32 word list"

abbreviation max_words :: "big_unsigned \<Rightarrow> nat" where
  "max_words b \<equiv> length (words_of b)"

definition kMaxSmallPowerOfFive :: int where
  "kMaxSmallPowerOfFive = 13"

definition kMaxSmallPowerOfTen :: int where
  "kMaxSmallPowerOfTen = 9"

definition big_new :: "nat \<Rightarrow> big_unsigned" where
  "big_new m = \<lparr>size_of = 0, words_of = replicate m 0\<rparr>"

definition big_of_uint64 :: "nat \<Rightarrow> 64 word \<Rightarrow> big_unsigned" where
  "big_of_uint64 m v =
     \<lparr>size_of = (if drop_bit 32 v \<noteq> 0 then 2 else if v \<noteq> 0 then 1 else 0),
      words_of = [ucast (v AND 0xffffffff), ucast (drop_bit 32 v)] @ replicate (m - 2) 0\<rparr>"

definition Digits10 :: "nat \<Rightarrow> nat" where
  "Digits10 m = m * 9975007 div 1035508"

definition SetToZero :: "big_unsigned \<Rightarrow> big_unsigned" where
  "SetToZero b = b\<lparr>words_of := replicate (size_of b) 0 @ drop (size_of b) (words_of b), size_of := 0\<rparr>"

definition GetWord :: "big_unsigned \<Rightarrow> int \<Rightarrow> 32 word" where
  "GetWord b index = (if index < 0 \<or> index \<ge> int (size_of b) then 0 else words_of b ! nat index)"

subsection \<open>Shifting\<close>

text \<open>\<^verbatim>\<open>std::copy_backward(p, p + n, p + d)\<close> within one array.\<close>

fun copy_backward :: "nat \<Rightarrow> nat \<Rightarrow> 'a list \<Rightarrow> 'a list" where
  "copy_backward 0 d xs = xs"
| "copy_backward (Suc n) d xs = copy_backward n (d - 1) (xs[d - 1 := xs ! n])"

text \<open>The loop from \<open>i\<close> down to \<open>word_shift\<close>, exclusive.\<close>

fun shift_loop :: "nat \<Rightarrow> nat \<Rightarrow> nat \<Rightarrow> 32 word list \<Rightarrow> 32 word list" where
  "shift_loop word_shift count 0 ws = ws"
| "shift_loop word_shift count (Suc i) ws =
     (if Suc i > word_shift
      then shift_loop word_shift count i
        (ws[Suc i := push_bit count (ws ! (Suc i - word_shift)) OR
                     drop_bit (32 - count) (ws ! (Suc i - word_shift - 1))])
      else ws)"

definition ShiftLeft :: "int \<Rightarrow> big_unsigned \<Rightarrow> big_unsigned" where
  "ShiftLeft count b =
     (if count > 0 then
        let word_shift = nat count div 32 in
        if word_shift \<ge> max_words b then SetToZero b
        else
          let b = b\<lparr>size_of := min (size_of b + word_shift) (max_words b)\<rparr>;
              count = nat count mod 32;
              b = (if count = 0
                   then b\<lparr>words_of := copy_backward (size_of b - word_shift) (size_of b) (words_of b)\<rparr>
                   else
                     let ws = shift_loop word_shift count (min (size_of b) (max_words b - 1)) (words_of b);
                         ws = ws[word_shift := push_bit count (ws ! 0)]
                     in b\<lparr>words_of := ws,
                          size_of := (if size_of b < max_words b \<and> ws ! size_of b \<noteq> 0
                                      then size_of b + 1 else size_of b)\<rparr>)
          in b\<lparr>words_of := replicate word_shift 0 @ drop word_shift (words_of b)\<rparr>
      else b)"

subsection \<open>Multiplication\<close>

fun mul_loop :: "nat \<Rightarrow> nat \<Rightarrow> 64 word \<Rightarrow> 64 word \<Rightarrow> 32 word list \<Rightarrow> 64 word \<times> 32 word list" where
  "mul_loop 0 i factor window ws = (window, ws)"
| "mul_loop (Suc n) i factor window ws =
     (let window = window + factor * ucast (ws ! i);
          ws = ws[i := ucast (window AND 0xffffffff)]
      in mul_loop n (Suc i) factor (drop_bit 32 window) ws)"

definition MultiplyBy :: "32 word \<Rightarrow> big_unsigned \<Rightarrow> big_unsigned" where
  "MultiplyBy v b =
     (if size_of b = 0 \<or> v = 1 then b
      else if v = 0 then SetToZero b
      else let (window, ws) = mul_loop (size_of b) 0 (ucast v) 0 (words_of b);
               b = b\<lparr>words_of := ws\<rparr>
           in if window \<noteq> 0 \<and> size_of b < max_words b
              then b\<lparr>words_of := ws[size_of b := ucast (window AND 0xffffffff)], size_of := size_of b + 1\<rparr>
              else b)"

type_synonym multiply_step =
  "nat \<Rightarrow> 32 word list \<Rightarrow> nat \<Rightarrow> nat \<Rightarrow> big_unsigned \<Rightarrow> big_unsigned"

fun step_loop :: "multiply_step \<Rightarrow> nat \<Rightarrow> 32 word list \<Rightarrow> nat \<Rightarrow> nat \<Rightarrow> big_unsigned \<Rightarrow> big_unsigned" where
  "step_loop MultiplyStep original_size other other_size 0 b = b"
| "step_loop MultiplyStep original_size other other_size (Suc step) b =
     step_loop MultiplyStep original_size other other_size step
       (MultiplyStep original_size other other_size step b)"

definition MultiplyBy_words :: "multiply_step \<Rightarrow> nat \<Rightarrow> 32 word list \<Rightarrow> big_unsigned \<Rightarrow> big_unsigned" where
  "MultiplyBy_words MultiplyStep other_size other b =
     (let original_size = size_of b;
          first_step = min (int original_size + int other_size - 2) (int (max_words b) - 1)
      in step_loop MultiplyStep original_size other other_size (nat (first_step + 1)) b)"

definition MultiplyBy_uint64 :: "multiply_step \<Rightarrow> 64 word \<Rightarrow> big_unsigned \<Rightarrow> big_unsigned" where
  "MultiplyBy_uint64 MultiplyStep v b =
     (let words = [ucast v, ucast (drop_bit 32 v)]
      in if words ! 1 = 0 then MultiplyBy (words ! 0) b else MultiplyBy_words MultiplyStep 2 words b)"

function five_loop :: "(int \<Rightarrow> 32 word) \<Rightarrow> int \<Rightarrow> big_unsigned \<Rightarrow> int \<times> big_unsigned" where
  "five_loop kFiveToNth n b =
     (if n \<ge> kMaxSmallPowerOfFive
      then five_loop kFiveToNth (n - kMaxSmallPowerOfFive) (MultiplyBy (kFiveToNth kMaxSmallPowerOfFive) b)
      else (n, b))"
  by pat_completeness auto

termination five_loop
  by (relation "measure (\<lambda>(_, n, _). nat n)") (auto simp: kMaxSmallPowerOfFive_def)

declare five_loop.simps [simp del]

definition MultiplyByFiveToTheNth :: "(int \<Rightarrow> 32 word) \<Rightarrow> int \<Rightarrow> big_unsigned \<Rightarrow> big_unsigned" where
  "MultiplyByFiveToTheNth kFiveToNth n b =
     (let (n, b) = five_loop kFiveToNth n b
      in if n > 0 then MultiplyBy (kFiveToNth n) b else b)"

definition MultiplyByTenToTheNth ::
  "(int \<Rightarrow> 32 word) \<Rightarrow> (int \<Rightarrow> 32 word) \<Rightarrow> int \<Rightarrow> big_unsigned \<Rightarrow> big_unsigned" where
  "MultiplyByTenToTheNth kFiveToNth kTenToNth n b =
     (if n > kMaxSmallPowerOfTen then ShiftLeft n (MultiplyByFiveToTheNth kFiveToNth n b)
      else if n > 0 then MultiplyBy (kTenToNth n) b
      else b)"

subsection \<open>Addition and division\<close>

function add_loop :: "nat \<Rightarrow> 32 word \<Rightarrow> 32 word list \<Rightarrow> nat \<times> 32 word list" where
  "add_loop index v ws =
     (if index < length ws \<and> v > 0
      then let ws = ws[index := ws ! index + v]
           in if v > ws ! index then add_loop (index + 1) 1 ws else (index, ws)
      else (index, ws))"
  by pat_completeness auto

termination add_loop
  by (relation "measure (\<lambda>(index, _, ws). length ws - index)") auto

declare add_loop.simps [simp del]

definition AddWithCarry :: "nat \<Rightarrow> 32 word \<Rightarrow> big_unsigned \<Rightarrow> big_unsigned" where
  "AddWithCarry index v b =
     (if v \<noteq> 0
      then let (index, ws) = add_loop index v (words_of b)
           in b\<lparr>words_of := ws, size_of := min (max_words b) (max (index + 1) (size_of b))\<rparr>
      else b)"

definition AddWithCarry_uint64 :: "nat \<Rightarrow> 64 word \<Rightarrow> big_unsigned \<Rightarrow> big_unsigned" where
  "AddWithCarry_uint64 index v b =
     (if v \<noteq> 0 \<and> index < max_words b
      then let high = ucast (drop_bit 32 v);
               low = ucast (v AND 0xffffffff);
               b = b\<lparr>words_of := (words_of b)[index := words_of b ! index + low]\<rparr>;
               carry = (words_of b ! index < low);
               high = (if carry then high + 1 else high)
           in if carry \<and> high = 0 then AddWithCarry (index + 2) 1 b
              else if high > 0 then AddWithCarry (index + 1) high b
              else b\<lparr>size_of := min (max_words b) (max (index + 1) (size_of b))\<rparr>
      else b)"

fun div_loop :: "32 word \<Rightarrow> nat \<Rightarrow> 64 word \<Rightarrow> 32 word list \<Rightarrow> 64 word \<times> 32 word list" where
  "div_loop divisor 0 accumulator ws = (accumulator, ws)"
| "div_loop divisor (Suc i) accumulator ws =
     (let accumulator = push_bit 32 accumulator + ucast (ws ! i);
          ws = ws[i := ucast (accumulator div ucast divisor)]
      in div_loop divisor i (accumulator mod ucast divisor) ws)"

fun shrink :: "32 word list \<Rightarrow> nat \<Rightarrow> nat" where
  "shrink ws 0 = 0"
| "shrink ws (Suc n) = (if ws ! n = 0 then shrink ws n else Suc n)"

definition DivMod :: "32 word \<Rightarrow> big_unsigned \<Rightarrow> 32 word \<times> big_unsigned" where
  "DivMod divisor b =
     (let (accumulator, ws) = div_loop divisor (size_of b) 0 (words_of b)
      in (ucast accumulator, b\<lparr>words_of := ws, size_of := shrink ws (size_of b)\<rparr>))"

subsection \<open>Construction from a decimal string\<close>

text \<open>\<^verbatim>\<open>ReadDigits\<close> reads digits into the object and returns the power of ten that is left.\<close>

definition ascii_isdigit :: "char \<Rightarrow> bool" where
  "ascii_isdigit c \<longleftrightarrow> (of_char c :: nat) \<ge> of_char CHR ''0'' \<and> (of_char c :: nat) \<le> of_char CHR ''9''"

definition big_of_string ::
  "(string \<Rightarrow> nat \<Rightarrow> big_unsigned \<Rightarrow> int \<times> big_unsigned) \<Rightarrow> (int \<Rightarrow> 32 word) \<Rightarrow> (int \<Rightarrow> 32 word)
    \<Rightarrow> nat \<Rightarrow> string \<Rightarrow> big_unsigned" where
  "big_of_string ReadDigits kFiveToNth kTenToNth m sv =
     (let b = big_new m in
      if \<not> list_all ascii_isdigit sv \<or> sv = [] then b
      else let (exponent_adjust, b) = ReadDigits sv (Digits10 m + 1) b
           in if exponent_adjust > 0 then MultiplyByTenToTheNth kFiveToNth kTenToNth exponent_adjust b else b)"

subsection \<open>Comparison\<close>

fun compare_loop :: "nat \<Rightarrow> big_unsigned \<Rightarrow> big_unsigned \<Rightarrow> int" where
  "compare_loop 0 lhs rhs = 0"
| "compare_loop (Suc i) lhs rhs =
     (if GetWord lhs (int i) < GetWord rhs (int i) then - 1
      else if GetWord lhs (int i) > GetWord rhs (int i) then 1
      else compare_loop i lhs rhs)"

definition Compare :: "big_unsigned \<Rightarrow> big_unsigned \<Rightarrow> int" where
  "Compare lhs rhs = compare_loop (max (size_of lhs) (size_of rhs)) lhs rhs"

fun equal_loop :: "nat \<Rightarrow> nat \<Rightarrow> big_unsigned \<Rightarrow> big_unsigned \<Rightarrow> bool" where
  "equal_loop 0 i lhs rhs = True"
| "equal_loop (Suc n) i lhs rhs =
     (if GetWord lhs (int i) \<noteq> GetWord rhs (int i) then False else equal_loop n (Suc i) lhs rhs)"

definition big_eq :: "big_unsigned \<Rightarrow> big_unsigned \<Rightarrow> bool" where
  "big_eq lhs rhs = equal_loop (max (size_of lhs) (size_of rhs)) 0 lhs rhs"

definition big_less :: "big_unsigned \<Rightarrow> big_unsigned \<Rightarrow> bool" where
  "big_less lhs rhs \<longleftrightarrow> Compare lhs rhs = - 1"

subsection \<open>Lemmas: the number an array stands for\<close>

fun words_val :: "32 word list \<Rightarrow> nat" where
  "words_val [] = 0"
| "words_val (w # ws) = unat w + 2 ^ 32 * words_val ws"

abbreviation big_val :: "big_unsigned \<Rightarrow> nat" where
  "big_val b \<equiv> words_val (words_of b)"

definition big_inv :: "big_unsigned \<Rightarrow> bool" where
  "big_inv b \<longleftrightarrow> size_of b \<le> max_words b \<and> (\<forall>k. size_of b \<le> k \<and> k < max_words b \<longrightarrow> words_of b ! k = 0)"

text \<open>The object \<open>b\<close> of \<open>m\<close> words stands for the number \<open>n\<close>, as far as it fits.\<close>

definition big_rep :: "nat \<Rightarrow> nat \<Rightarrow> big_unsigned \<Rightarrow> bool" where
  "big_rep m n b \<longleftrightarrow> big_inv b \<and> max_words b = m \<and> big_val b = n mod 2 ^ (32 * m)"

lemma unat_less_32: "unat (w :: 32 word) < 2 ^ 32"
  using unsigned_less [of w] by simp

lemma words_val_less: "words_val ws < 2 ^ (32 * length ws)"
proof (induction ws)
  case (Cons w ws)
  have "unat w + 2 ^ 32 * words_val ws < 2 ^ 32 * (words_val ws + 1)"
    using unat_less_32 [of w] by simp
  also have "\<dots> \<le> 2 ^ 32 * 2 ^ (32 * length ws)"
    using Cons by (intro mult_le_mono2) simp
  finally show ?case by (simp add: power_add)
qed simp

lemma words_val_append: "words_val (us @ vs) = words_val us + 2 ^ (32 * length us) * words_val vs"
  by (induction us) (simp_all add: power_add algebra_simps)

lemma words_val_zeros [simp]: "words_val (replicate n 0) = 0"
  by (induction n) simp_all

lemma words_val_all_zero:
  assumes "\<And>k. k < length ws \<Longrightarrow> ws ! k = 0"
  shows "words_val ws = 0"
proof -
  have "ws = replicate (length ws) 0" using assms by (simp add: list_eq_iff_nth_eq)
  then show ?thesis by (metis words_val_zeros)
qed

lemma words_val_update:
  assumes "i < length ws"
  shows "words_val (ws[i := x]) + 2 ^ (32 * i) * unat (ws ! i) = words_val ws + 2 ^ (32 * i) * unat x"
proof -
  let ?u = "take i ws" and ?v = "drop (Suc i) ws"
  have l: "length ?u = i" using assms by simp
  have "ws[i := x] = ?u @ x # ?v" "ws = ?u @ ws ! i # ?v"
    using assms by (simp_all add: upd_conv_take_nth_drop id_take_nth_drop)
  then show ?thesis
    using words_val_append [of ?u "x # ?v"] words_val_append [of ?u "ws ! i # ?v"] unfolding l
    by (simp add: algebra_simps)
qed

lemma words_val_take:
  assumes "\<And>k. n \<le> k \<Longrightarrow> k < length ws \<Longrightarrow> ws ! k = 0" and "n \<le> length ws"
  shows "words_val (take n ws) = words_val ws"
proof -
  have "words_val (drop n ws) = 0"
    using assms by (intro words_val_all_zero) simp
  then show ?thesis
    using words_val_append [of "take n ws" "drop n ws"] by simp
qed

lemma bit_words_val: "bit (words_val ws) n \<longleftrightarrow> n div 32 < length ws \<and> bit (ws ! (n div 32)) (n mod 32)"
proof (induction ws arbitrary: n)
  case (Cons w ws)
  have "words_val (w # ws) = unat w + push_bit 32 (words_val ws)"
    by (simp add: push_bit_eq_mult)
  also have "\<dots> = unat w OR push_bit 32 (words_val ws)"
    by (rule disjunctive_add) (auto simp: bit_simps dest: bit_imp_le_length)
  finally have "words_val (w # ws) = unat w OR push_bit 32 (words_val ws)" .
  then have b: "bit (words_val (w # ws)) n \<longleftrightarrow> (if n < 32 then bit w n else bit (words_val ws) (n - 32))"
    by (auto simp: bit_simps dest: bit_imp_le_length)
  show ?case
  proof (cases "n < 32")
    case False
    then have "n div 32 = Suc ((n - 32) div 32)" "n mod 32 = (n - 32) mod 32"
      by (simp_all add: le_div_geq le_mod_geq)
    then show ?thesis using b False Cons [of "n - 32"] by (simp del: words_val.simps)
  qed (simp add: b del: words_val.simps)
qed simp

subsection \<open>Lemmas: shifting\<close>

lemma length_copy_backward [simp]: "length (copy_backward n d xs) = length xs"
  by (induction n d xs rule: copy_backward.induct) simp_all

lemma copy_backward_nth:
  assumes "n \<le> d" and "d \<le> length xs" and "k < length xs"
  shows "copy_backward n d xs ! k = (if d - n \<le> k \<and> k < d then xs ! (k - (d - n)) else xs ! k)"
  using assms
proof (induction n d xs rule: copy_backward.induct)
  case (2 n d xs)
  let ?xs = "xs[d - 1 := xs ! n]"
  have ih: "copy_backward n (d - 1) ?xs ! k =
      (if d - 1 - n \<le> k \<and> k < d - 1 then ?xs ! (k - (d - 1 - n)) else ?xs ! k)"
    using 2 by simp
  have "?xs ! (k - (d - 1 - n)) = xs ! (k - (d - 1 - n))" if "k < d - 1" "d - 1 - n \<le> k"
  proof (cases "k - (d - 1 - n) = d - 1")
    case True
    then show ?thesis using that by linarith
  qed simp
  moreover have "k = d - 1 \<Longrightarrow> ?xs ! k = xs ! (k - (d - Suc n))"
    using 2 by simp
  moreover have "k \<noteq> d - 1 \<Longrightarrow> ?xs ! k = xs ! k" by simp
  ultimately show ?case
    unfolding copy_backward.simps ih using 2(2) by (cases "k = d - 1") auto
qed auto

lemma length_shift_loop [simp]: "length (shift_loop s c i ws) = length ws"
  by (induction s c i ws rule: shift_loop.induct) simp_all

lemma shift_loop_nth:
  assumes "i < length ws" and "k < length ws"
  shows "shift_loop s c i ws ! k =
    (if s < k \<and> k \<le> i then push_bit c (ws ! (k - s)) OR drop_bit (32 - c) (ws ! (k - s - 1)) else ws ! k)"
  using assms
proof (induction s c i ws rule: shift_loop.induct)
  case (2 s c i ws)
  define f where "f us j = push_bit c (us ! (j - s)) OR drop_bit (32 - c) (us ! (j - s - 1))" for us :: "32 word list" and j
  define us where "us = ws[Suc i := f ws (Suc i)]"
  have us: "us ! j = ws ! j" if "j \<noteq> Suc i" for j using that by (simp add: us_def)
  have top: "us ! Suc i = f ws (Suc i)" using 2(2) by (simp add: us_def)
  show ?case
  proof (cases "Suc i > s")
    case True
    then have "shift_loop s c (Suc i) ws = shift_loop s c i us" by (simp add: us_def f_def)
    moreover have "shift_loop s c i us ! k = (if s < k \<and> k \<le> i then f us k else us ! k)"
      using 2(1) [OF True] 2(2,3) unfolding us_def f_def by simp
    moreover have "f us k = f ws k" if "k \<le> i"
      using that unfolding f_def by (simp add: us)
    ultimately show ?thesis
      unfolding f_def [symmetric] using True us [of k] top by (cases "k = Suc i") auto
  next
    case False
    then show ?thesis by auto
  qed
qed simp

text \<open>Word \<open>k\<close> of the array shifted by \<open>s\<close> words and \<open>c\<close> bits.\<close>

definition shifted_word :: "nat \<Rightarrow> nat \<Rightarrow> 32 word list \<Rightarrow> nat \<Rightarrow> 32 word" where
  "shifted_word s c ws k =
     (if k < s then 0
      else push_bit c (ws ! (k - s)) OR (if s < k then drop_bit (32 - c) (ws ! (k - s - 1)) else 0))"

lemma bit_words_val_at: "j < 32 \<Longrightarrow> bit (words_val ws) (32 * k + j) \<longleftrightarrow> k < length ws \<and> bit (ws ! k) j"
  by (simp add: bit_words_val)

lemma bit_shifted_word:
  assumes "c < 32" and "j < 32" and "k < length ws"
  shows "bit (shifted_word s c ws k) j \<longleftrightarrow>
    32 * s + c \<le> 32 * k + j \<and> bit (words_val ws) (32 * k + j - (32 * s + c))"
proof -
  consider "k < s" | "s \<le> k" "c \<le> j" | "j < c" "k = s" | "s < k" "j < c" by linarith
  then show ?thesis
  proof cases
    case 1
    then show ?thesis using assms by (simp add: shifted_word_def)
  next
    case 2
    have i: "32 * k + j - (32 * s + c) = 32 * (k - s) + (j - c)" using 2 by simp
    have "\<not> bit w (32 - c + j)" for w :: "32 word"
      using 2 bit_imp_le_length [of w "32 - c + j"] assms(1) by auto
    then have "bit (shifted_word s c ws k) j \<longleftrightarrow> bit (ws ! (k - s)) (j - c)"
      using 2 assms(2) by (simp add: shifted_word_def bit_or_iff bit_push_bit_iff bit_drop_bit_eq)
    then show ?thesis
      unfolding i using 2 assms bit_words_val_at [of "j - c" ws "k - s"] by auto
  next
    case 3
    then show ?thesis by (simp add: shifted_word_def bit_push_bit_iff)
  next
    case 4
    have i: "32 * k + j - (32 * s + c) = 32 * (k - s - 1) + (32 - c + j)" using 4 assms(1) by simp
    have "bit (shifted_word s c ws k) j \<longleftrightarrow> bit (ws ! (k - s - 1)) (32 - c + j)"
      using 4 by (simp add: shifted_word_def bit_or_iff bit_push_bit_iff bit_drop_bit_eq)
    then show ?thesis
      unfolding i using 4 assms bit_words_val_at [of "32 - c + j" ws "k - s - 1"] by auto
  qed
qed

lemma shifted_word_val:
  assumes "length us = length ws" and "c < 32"
    and "\<And>k. k < length ws \<Longrightarrow> us ! k = shifted_word s c ws k"
  shows "words_val us = (words_val ws * 2 ^ (32 * s + c)) mod 2 ^ (32 * length ws)"
proof -
  have "words_val us = take_bit (32 * length ws) (push_bit (32 * s + c) (words_val ws))"
  proof (rule bit_eqI)
    fix n :: nat
    define k j where "k = n div 32" and "j = n mod 32"
    have n: "n = 32 * k + j" "j < 32" unfolding k_def j_def by simp_all
    then have "n < 32 * length ws \<longleftrightarrow> k < length ws" by auto
    moreover have "bit (words_val us) n \<longleftrightarrow> k < length ws \<and> bit (us ! k) j"
      unfolding n(1) bit_words_val_at [OF n(2)] assms(1) ..
    moreover have "k < length ws \<Longrightarrow> bit (us ! k) j \<longleftrightarrow> 32 * s + c \<le> n \<and> bit (words_val ws) (n - (32 * s + c))"
      unfolding n(1) using bit_shifted_word [OF assms(2) n(2)] assms(3) by metis
    ultimately show "bit (words_val us) n \<longleftrightarrow>
        bit (take_bit (32 * length ws) (push_bit (32 * s + c) (words_val ws))) n"
      by (auto simp: bit_take_bit_iff bit_push_bit_iff)
  qed
  then show ?thesis by (simp add: take_bit_eq_mod push_bit_eq_mult)
qed

lemma big_inv_zero: "big_inv b \<Longrightarrow> size_of b \<le> k \<Longrightarrow> k < max_words b \<Longrightarrow> words_of b ! k = 0"
  by (simp add: big_inv_def)

lemma SetToZero_rep: "big_rep m n b \<Longrightarrow> big_rep m 0 (SetToZero b)"
proof -
  assume r: "big_rep m n b"
  have z: "words_of (SetToZero b) ! k = 0" if "k < m" for k
    using r that by (simp add: SetToZero_def big_rep_def big_inv_def nth_append)
  have "max_words (SetToZero b) = m" using r by (simp add: SetToZero_def big_rep_def big_inv_def)
  then show ?thesis
    using z by (simp add: big_rep_def big_inv_def words_val_all_zero) (simp add: SetToZero_def)
qed

lemma drop_bit_all: "drop_bit 32 (w :: 32 word) = 0"
  by (rule bit_word_eqI) (auto simp: bit_simps dest: bit_imp_le_length)

lemma shifted_word_zero:
  assumes "big_inv b" and "size_of b + s + (if c = 0 then 0 else 1) \<le> k" and "k < max_words b"
  shows "shifted_word s c (words_of b) k = 0"
  using assms big_inv_zero [OF assms(1), of "k - s"] big_inv_zero [OF assms(1), of "k - s - 1"]
  by (auto simp: shifted_word_def drop_bit_all split: if_splits)

text \<open>The two ways the array is moved.\<close>

lemma copied_words:
  assumes "big_inv b" and "s < max_words b" and "k < max_words b"
    and z: "z = min (size_of b + s) (max_words b)"
  shows "(replicate s 0 @ drop s (copy_backward (z - s) z (words_of b))) ! k = shifted_word s 0 (words_of b) k"
proof (cases "k < s")
  case True
  then show ?thesis by (simp add: nth_append shifted_word_def)
next
  case False
  have "s \<le> z" "z \<le> max_words b" using z assms(2) by simp_all
  then have "copy_backward (z - s) z (words_of b) ! k = (if s \<le> k \<and> k < z then words_of b ! (k - s) else words_of b ! k)"
    using copy_backward_nth [of "z - s" z "words_of b" k] assms(3) by simp
  moreover have "\<not> k < z \<Longrightarrow> words_of b ! k = 0 \<and> words_of b ! (k - s) = 0"
    using z assms(3) big_inv_zero [OF assms(1), of k] big_inv_zero [OF assms(1), of "k - s"] by simp
  ultimately show ?thesis
    using False assms(2,3) by (simp add: nth_append shifted_word_def drop_bit_all)
qed

lemma looped_words:
  assumes "big_inv b" and "s < max_words b" and "k < max_words b" and "0 < c"
    and z: "z = min (size_of b + s) (max_words b)"
    and us: "us = shift_loop s c (min z (max_words b - 1)) (words_of b)"
  shows "(us[s := push_bit c (us ! 0)]) ! k = (if k < s then words_of b ! k else shifted_word s c (words_of b) k)"
proof -
  let ?i = "min z (max_words b - 1)"
  have n: "us ! j = (if s < j \<and> j \<le> ?i then shifted_word s c (words_of b) j else words_of b ! j)"
    if "j < max_words b" for j
    unfolding us using shift_loop_nth [of ?i "words_of b" j s c] that assms(2)
    by (simp add: shifted_word_def)
  have "\<not> k \<le> ?i \<Longrightarrow> shifted_word s c (words_of b) k = 0 \<and> words_of b ! k = 0"
    using z assms(3) big_inv_zero [OF assms(1), of k] shifted_word_zero [OF assms(1) _ assms(3), of s c]
    by auto
  moreover have "us ! 0 = words_of b ! 0" using n [OF le_less_trans [OF le0 assms(2)]] by simp
  moreover have "length us = max_words b" by (simp add: us)
  moreover have "shifted_word s c (words_of b) s = push_bit c (words_of b ! 0)"
    by (simp add: shifted_word_def)
  ultimately show ?thesis
    using n [OF assms(3)] assms(2) by (cases "k = s") (auto simp: nth_list_update)
qed

lemma shifted_rep:
  assumes "big_rep m n b" and "c < 32" and "max_words b' = m"
    and w: "\<And>k. k < m \<Longrightarrow> words_of b' ! k = shifted_word s c (words_of b) k"
    and "size_of b' \<le> m" and z: "\<And>k. size_of b' \<le> k \<Longrightarrow> k < m \<Longrightarrow> words_of b' ! k = 0"
  shows "big_rep m (n * 2 ^ (32 * s + c)) b'"
proof -
  have "big_val b' = (big_val b * 2 ^ (32 * s + c)) mod 2 ^ (32 * max_words b)"
    using assms by (intro shifted_word_val) (simp_all add: big_rep_def)
  also have "\<dots> = (n * 2 ^ (32 * s + c)) mod 2 ^ (32 * m)"
    using assms(1) by (simp add: big_rep_def mod_mult_left_eq)
  finally show ?thesis using assms by (simp add: big_rep_def big_inv_def)
qed

lemma ShiftLeft_rep_words:
  assumes r: "big_rep m n b" and "nat count = 32 * s" and "0 < s" and "s < m"
  shows "big_rep m (n * 2 ^ nat count) (ShiftLeft count b)"
proof -
  have inv: "big_inv b" and m: "max_words b = m" using r by (simp_all add: big_rep_def)
  define z where "z = min (size_of b + s) (max_words b)"
  have lt: "s < max_words b" using assms(4) m by simp
  have zs: "s \<le> z" "z \<le> m" unfolding z_def using lt m by simp_all
  define ws where "ws = replicate s 0 @ drop s (copy_backward (z - s) z (words_of b))"
  have b': "ShiftLeft count b = b\<lparr>words_of := ws, size_of := z\<rparr>"
    using assms m unfolding ShiftLeft_def z_def ws_def Let_def by simp
  have w: "ws ! k = shifted_word s 0 (words_of b) k" if "k < m" for k
    unfolding ws_def using that m copied_words [OF inv lt _ z_def] by simp
  have "ws ! k = 0" if "z \<le> k" "k < m" for k
    using that w shifted_word_zero [OF inv, of s 0 k] m by (simp add: z_def)
  with w zs have "big_rep m (n * 2 ^ (32 * s + 0)) (ShiftLeft count b)"
    unfolding b' using m lt by (intro shifted_rep [OF r]) (simp_all add: ws_def)
  then show ?thesis using assms(2) by simp
qed

lemma ShiftLeft_rep_bits:
  assumes r: "big_rep m n b" and sc: "nat count = 32 * s + c" "c < 32" "0 < c" and "s < m"
  shows "big_rep m (n * 2 ^ nat count) (ShiftLeft count b)"
proof -
  have inv: "big_inv b" and m: "max_words b = m" using r by (simp_all add: big_rep_def)
  define z where "z = min (size_of b + s) (max_words b)"
  have lt: "s < max_words b" using assms(5) m by simp
  have zs: "s \<le> z" "z \<le> m" unfolding z_def using lt m by simp_all
  have dm: "nat count div 32 = s" "nat count mod 32 = c" "0 < count" using sc by auto
  define us where "us = shift_loop s c (min z (max_words b - 1)) (words_of b)"
  define ws where "ws = us[s := push_bit c (us ! 0)]"
  define z' where "z' = (if z < m \<and> ws ! z \<noteq> 0 then z + 1 else z)"
  have b': "ShiftLeft count b = b\<lparr>words_of := replicate s 0 @ drop s ws, size_of := z'\<rparr>"
    using lt m sc(3) unfolding ShiftLeft_def dm z'_def ws_def us_def z_def Let_def
    by (simp add: dm)
  have l: "length ws = m" by (simp add: ws_def us_def m)
  have w: "(replicate s 0 @ drop s ws) ! k = shifted_word s c (words_of b) k"
    and w': "s \<le> k \<Longrightarrow> ws ! k = shifted_word s c (words_of b) k" if "k < m" for k
    using that looped_words [OF inv lt _ sc(3) z_def us_def, of k] l m
    by (simp_all add: nth_append ws_def [symmetric] shifted_word_def [of s c _ k])
  have "(replicate s 0 @ drop s ws) ! k = 0" if "z' \<le> k" "k < m" for k
  proof (cases "k = z")
    case True
    then show ?thesis using that w [of k] w' [of k] zs by (auto simp: z'_def split: if_splits)
  next
    case False
    then have "size_of b + s + 1 \<le> k" using that by (auto simp: z'_def z_def m split: if_splits)
    then show ?thesis using w that shifted_word_zero [OF inv, of s c k] sc(3) m by simp
  qed
  with w zs l show ?thesis
    unfolding sc(1) b' using lt m by (intro shifted_rep [OF r sc(2)]) (auto simp: z'_def)
qed

lemma ShiftLeft_rep:
  assumes r: "big_rep m n b"
  shows "big_rep m (n * 2 ^ nat count) (ShiftLeft count b)"
proof (cases "nat count = 0")
  case True
  then show ?thesis using r by (simp add: ShiftLeft_def)
next
  case pos: False
  define s c where "s = nat count div 32" and "c = nat count mod 32"
  have sc: "nat count = 32 * s + c" "c < 32" unfolding s_def c_def by simp_all
  show ?thesis
  proof (cases "s < m")
    case True
    then show ?thesis
      using ShiftLeft_rep_words [OF r, of count s] ShiftLeft_rep_bits [OF r sc] sc pos by (cases "c = 0") auto
  next
    case False
    then have "(2 :: nat) ^ (32 * m) dvd 2 ^ nat count" using sc by (intro le_imp_power_dvd) simp
    then have "n * 2 ^ nat count mod 2 ^ (32 * m) = 0" by (simp add: dvd_mult)
    moreover have "ShiftLeft count b = SetToZero b"
      using pos False r by (simp add: ShiftLeft_def s_def big_rep_def)
    ultimately show ?thesis using SetToZero_rep [OF r] by (simp add: big_rep_def)
  qed
qed

subsection \<open>Lemmas: multiplication\<close>

lemma unat_low_half: "unat (ucast ((x :: 64 word) AND 0xffffffff) :: 32 word) = unat x mod 2 ^ 32"
proof -
  have "x AND 0xffffffff = take_bit 32 x" by (simp add: take_bit_eq_mask mask_eq_exp_minus_1)
  then show ?thesis by (simp only: unsigned_ucast_eq unsigned_take_bit_eq) (simp add: take_bit_eq_mod)
qed

lemma unat_high_half: "unat (drop_bit 32 (x :: 64 word)) = unat x div 2 ^ 32"
  by (simp only: unat_drop_bit_eq) (simp only: drop_bit_eq_div)

lemma unat_less_64_bits: "unat (x :: 64 word) < 2 ^ 64"
  using unsigned_less [of x] by simp

lemma unat_ucast_32: "unat (ucast (w :: 32 word) :: 64 word) = unat w"
  using unat_less_32 [of w] by (simp add: unsigned_ucast_eq take_bit_nat_eq_self)

lemma unat_ucast_small: "unat (y :: 64 word) < 2 ^ 32 \<Longrightarrow> unat (ucast y :: 32 word) = unat y"
  by (simp add: unsigned_ucast_eq take_bit_nat_eq_self)

lemma unat_mul_add:
  fixes window f :: "64 word" and w :: "32 word"
  assumes "unat window < 2 ^ 32" and "unat f < 2 ^ 32"
  shows "unat (window + f * ucast w) = unat window + unat f * unat w"
proof -
  have "unat f * unat w \<le> (2 ^ 32 - 1) * (2 ^ 32 - 1)"
    using assms(2) unat_less_32 [of w] by (intro mult_le_mono) simp_all
  then have lt: "unat f * unat w + 2 ^ 32 \<le> 2 ^ 64" by simp
  then have "unat f * unat (ucast w :: 64 word) < 2 ^ LENGTH(64)" by (simp add: unat_ucast_32)
  then have "unat (f * ucast w) = unat f * unat (ucast w :: 64 word)"
    by (rule unat_mult_lem [THEN iffD1])
  then have f: "unat (f * ucast w) = unat f * unat w" by (simp only: unat_ucast_32)
  then have "unat window + unat (f * ucast w) < 2 ^ LENGTH(64)" using lt assms(1) by simp
  then have "unat (window + f * ucast w) = unat window + unat (f * ucast w)"
    by (rule unat_add_lem [THEN iffD1])
  then show ?thesis by (simp only: f)
qed

lemma mul_step_arith:
  fixes P B :: nat
  assumes ih: "us + R + B * P * V = ws1 + B * P * hi + f * (B * P * V)"
    and u: "ws1 + P * w = ws + P * lo" and split: "x = lo + B * hi" and x: "x = window + f * w"
  shows "us + R + P * (w + B * V) = ws + P * window + f * (P * (w + B * V))"
proof -
  have "us + R + P * (w + B * V) = (us + R + B * P * V) + P * w"
    by (simp only: distrib_left ac_simps)
  also have "\<dots> = (ws1 + P * w) + B * P * hi + f * (B * P * V)"
    unfolding ih by (simp only: ac_simps)
  also have "\<dots> = ws + P * (lo + B * hi) + f * (B * P * V)"
    unfolding u by (simp only: distrib_left ac_simps)
  also have "\<dots> = ws + P * window + f * (P * (w + B * V))"
    unfolding split [symmetric] x by (simp only: distrib_left ac_simps)
  finally show ?thesis .
qed

lemma mul_loop_val:
  assumes "i + n \<le> length ws" and "unat window < 2 ^ 32" and "unat f < 2 ^ 32"
    and "mul_loop n i f window ws = (c, us)"
  shows "length us = length ws \<and> unat c < 2 ^ 32 \<and> (\<forall>k. i + n \<le> k \<longrightarrow> us ! k = ws ! k) \<and>
    words_val us + 2 ^ (32 * (i + n)) * unat c + 2 ^ (32 * i) * words_val (take n (drop i ws))
    = words_val ws + 2 ^ (32 * i) * unat window + unat f * (2 ^ (32 * i) * words_val (take n (drop i ws)))"
  using assms
proof (induction n i f window ws rule: mul_loop.induct)
  case (2 n i f window ws)
  define x where "x = window + f * ucast (ws ! i)"
  define lo :: "32 word" where "lo = ucast (x AND 0xffffffff)"
  define hi where "hi = drop_bit 32 x"
  define ws1 where "ws1 = ws[i := lo]"
  define P where "P = (2 :: nat) ^ (32 * i)"
  define V where "V = words_val (take n (drop (Suc i) ws))"
  have x: "unat x = unat window + unat f * unat (ws ! i)"
    unfolding x_def using 2(3,4) by (rule unat_mul_add)
  have split: "unat x = unat lo + 2 ^ 32 * unat hi" and hi: "unat hi < 2 ^ 32"
    unfolding lo_def hi_def unat_low_half unat_high_half using unat_less_64_bits [of x] by simp_all
  have run: "mul_loop n (Suc i) f hi ws1 = (c, us)"
    using 2(5) by (simp add: Let_def x_def lo_def hi_def ws1_def)
  have d: "drop (Suc i) ws1 = drop (Suc i) ws" "length ws1 = length ws" by (simp_all add: ws1_def)
  have ih: "length us = length ws \<and> unat c < 2 ^ 32 \<and> (\<forall>k. Suc i + n \<le> k \<longrightarrow> us ! k = ws1 ! k) \<and>
      words_val us + 2 ^ (32 * (i + Suc n)) * unat c + 2 ^ 32 * P * V
      = words_val ws1 + 2 ^ 32 * P * unat hi + unat f * (2 ^ 32 * P * V)"
    using 2(1) [OF x_def refl, folded lo_def hi_def ws1_def, OF _ hi 2(4) run] 2(2) d
    unfolding V_def P_def by (simp add: power_add mult.commute mult.left_commute del: power_numeral)
  have u: "words_val ws1 + P * unat (ws ! i) = words_val ws + P * unat lo"
    using words_val_update [of i ws lo] 2(2) unfolding ws1_def P_def by simp
  have t: "words_val (take (Suc n) (drop i ws)) = unat (ws ! i) + 2 ^ 32 * V"
    unfolding V_def using 2(2) by (simp add: Cons_nth_drop_Suc [symmetric])
  have "words_val us + 2 ^ (32 * (i + Suc n)) * unat c + P * (unat (ws ! i) + 2 ^ 32 * V)
      = words_val ws + P * unat window + unat f * (P * (unat (ws ! i) + 2 ^ 32 * V))"
    using ih u split x by (intro mul_step_arith) blast+
  then show ?case
    unfolding t P_def [symmetric] using ih by (auto simp: ws1_def)
qed simp

lemma val_mod_unique:
  assumes "words_val us + 2 ^ (32 * m) * q = x" and "length us = m"
  shows "words_val us = x mod 2 ^ (32 * m)"
  using assms words_val_less [of us] by auto

lemma MultiplyBy_rep_loop:
  assumes r: "big_rep m n b" and nz: "size_of b \<noteq> 0" "v \<noteq> 1" "v \<noteq> 0"
  shows "big_rep m (n * unat v) (MultiplyBy v b)"
proof -
  have inv: "big_inv b" "size_of b \<le> m" and m: "max_words b = m" and val: "big_val b = n mod 2 ^ (32 * m)"
    using r by (simp_all add: big_rep_def big_inv_def)
  define z where "z = size_of b"
  obtain c us where run: "mul_loop z 0 (ucast v) 0 (words_of b) = (c, us)" by (metis surj_pair)
  have "words_val (take z (words_of b)) = big_val b"
    using inv m by (intro words_val_take) (auto simp: z_def big_inv_def)
  then have us: "length us = m" "unat c < 2 ^ 32" "\<And>k. z \<le> k \<Longrightarrow> us ! k = words_of b ! k"
    "words_val us + 2 ^ (32 * z) * unat c = unat v * big_val b"
    using mul_loop_val [OF _ _ _ run] inv(2) m unat_less_32 [of v] by (auto simp: z_def unat_ucast_32)
  define grow where "grow \<longleftrightarrow> c \<noteq> 0 \<and> z < m"
  define vs where "vs = (if grow then us[z := ucast (c AND 0xffffffff)] else us)"
  have b': "MultiplyBy v b = b\<lparr>words_of := vs, size_of := (if grow then z + 1 else z)\<rparr>"
    using nz run us(1) by (simp add: MultiplyBy_def Let_def vs_def grow_def z_def)
  have zero: "us ! k = 0" if "z \<le> k" "k < m" for k
    using that us(3) inv(1) m by (simp add: big_inv_def z_def)
  have "\<exists>q. words_val vs + 2 ^ (32 * m) * q = unat v * big_val b"
  proof (cases "z < m")
    case True
    then have "words_val (us[z := ucast (c AND 0xffffffff)]) = words_val us + 2 ^ (32 * z) * unat c"
      using words_val_update [of z us "ucast (c AND 0xffffffff)"] us(1,2) zero [of z]
      by (simp add: unat_low_half)
    then show ?thesis using us(4) True by (intro exI [of _ 0]) (auto simp: vs_def grow_def)
  next
    case False
    then show ?thesis using us(4) inv(2) by (intro exI [of _ "unat c"]) (simp add: vs_def grow_def z_def)
  qed
  then have "words_val vs = n * unat v mod 2 ^ (32 * m)"
    using val_mod_unique [of vs m] us(1) val
    by (metis length_list_update mod_mult_right_eq mult.commute vs_def)
  then show ?thesis
    unfolding b' big_rep_def big_inv_def using us(1) zero inv(2) by (auto simp: vs_def grow_def z_def)
qed

lemma MultiplyBy_rep:
  assumes r: "big_rep m n b"
  shows "big_rep m (n * unat v) (MultiplyBy v b)"
proof -
  have inv: "big_inv b" "size_of b \<le> m" and m: "max_words b = m" and val: "big_val b = n mod 2 ^ (32 * m)"
    using r by (simp_all add: big_rep_def big_inv_def)
  consider "size_of b = 0" | "size_of b \<noteq> 0" "v = 1" | "size_of b \<noteq> 0" "v = 0" | "size_of b \<noteq> 0" "v \<noteq> 1" "v \<noteq> 0" by blast
  then show ?thesis
  proof cases
    case 1
    then have "big_val b = 0" using inv by (intro words_val_all_zero) (simp add: big_inv_def)
    then have "n * unat v mod 2 ^ (32 * m) = 0" using val by (metis mod_mult_left_eq mult_0 mod_0)
    then show ?thesis using 1 r \<open>big_val b = 0\<close> by (simp add: MultiplyBy_def big_rep_def)
  next
    case 2
    then show ?thesis using r by (simp add: MultiplyBy_def)
  next
    case 3
    then show ?thesis using SetToZero_rep [OF r] by (simp add: MultiplyBy_def)
  next
    case 4
    then show ?thesis by (rule MultiplyBy_rep_loop [OF r])
  qed
qed

text \<open>The tables hold the powers that fit a 32-bit word.\<close>

definition power_table :: "nat \<Rightarrow> int \<Rightarrow> (int \<Rightarrow> 32 word) \<Rightarrow> bool" where
  "power_table base kMax t \<longleftrightarrow> (\<forall>n. 0 \<le> n \<and> n \<le> kMax \<longrightarrow> unat (t n) = base ^ nat n)"

lemma five_loop_rep:
  assumes "power_table 5 kMaxSmallPowerOfFive t" and "0 \<le> k" and "big_rep m n b"
  shows "\<exists>k' b'. five_loop t k b = (k', b') \<and> 0 \<le> k' \<and> k' < kMaxSmallPowerOfFive \<and>
    (\<exists>x. big_rep m x b' \<and> x * 5 ^ nat k' = n * 5 ^ nat k)"
  using assms
proof (induction t k b arbitrary: n rule: five_loop.induct)
  case (1 t k b)
  show ?case
  proof (cases "k \<ge> kMaxSmallPowerOfFive")
    case True
    have u: "unat (t kMaxSmallPowerOfFive) = 5 ^ 13"
      using 1(2) by (simp add: power_table_def kMaxSmallPowerOfFive_def)
    have "nat k = 13 + nat (k - kMaxSmallPowerOfFive)" using True by (simp add: kMaxSmallPowerOfFive_def)
    then have p: "(5 :: nat) ^ nat k = 5 ^ 13 * 5 ^ nat (k - kMaxSmallPowerOfFive)" by (simp only: power_add)
    show ?thesis
      using 1(1) [OF True 1(2) _ MultiplyBy_rep [OF 1(4), of "t kMaxSmallPowerOfFive"]] True
      unfolding five_loop.simps [of t k] u p by (simp add: mult.assoc)
  next
    case False
    then show ?thesis using 1(3,4) by (subst five_loop.simps) auto
  qed
qed

lemma MultiplyByFiveToTheNth_rep:
  assumes "power_table 5 kMaxSmallPowerOfFive t" and "big_rep m n b"
  shows "big_rep m (n * 5 ^ nat k) (MultiplyByFiveToTheNth t k b)"
proof (cases "0 \<le> k")
  case True
  then obtain k' b' x where l: "five_loop t k b = (k', b')" "0 \<le> k'" "k' < kMaxSmallPowerOfFive"
    "big_rep m x b'" "x * 5 ^ nat k' = n * 5 ^ nat k"
    using five_loop_rep [OF assms(1) _ assms(2)] by blast
  moreover have "unat (t k') = 5 ^ nat k'" using assms(1) l(2,3) by (simp add: power_table_def)
  ultimately show ?thesis
    using MultiplyBy_rep [OF l(4), of "t k'"] by (cases "k' = 0") (simp_all add: MultiplyByFiveToTheNth_def)
next
  case False
  then show ?thesis
    using assms(2) by (simp add: MultiplyByFiveToTheNth_def five_loop.simps kMaxSmallPowerOfFive_def)
qed

lemma MultiplyByTenToTheNth_rep:
  assumes "power_table 5 kMaxSmallPowerOfFive t5" and "power_table 10 kMaxSmallPowerOfTen t10"
    and "big_rep m n b"
  shows "big_rep m (n * 10 ^ nat k) (MultiplyByTenToTheNth t5 t10 k b)"
proof (cases "k > kMaxSmallPowerOfTen")
  case True
  have "big_rep m (n * 5 ^ nat k * 2 ^ nat k) (ShiftLeft k (MultiplyByFiveToTheNth t5 k b))"
    by (intro ShiftLeft_rep MultiplyByFiveToTheNth_rep assms)
  moreover have "n * 5 ^ nat k * 2 ^ nat k = n * 10 ^ nat k"
    by (simp add: mult.assoc power_mult_distrib [symmetric])
  ultimately show ?thesis using True by (simp add: MultiplyByTenToTheNth_def)
next
  case False
  moreover have "0 < k \<Longrightarrow> unat (t10 k) = 10 ^ nat k"
    using False assms(2) by (simp add: power_table_def)
  ultimately show ?thesis
    using assms(3) MultiplyBy_rep [OF assms(3), of "t10 k"]
    by (cases "0 < k") (simp_all add: MultiplyByTenToTheNth_def)
qed

subsection \<open>Lemmas: addition\<close>

lemma unat_add_carry:
  fixes w v :: "32 word"
  shows "unat (w + v) + (if v > w + v then 2 ^ 32 else 0) = unat w + unat v"
  using unat_less_32 [of w] unat_less_32 [of v]
  by (auto simp: word_less_nat_alt unat_plus_if')

lemma add_word_val:
  assumes "index < length ws"
  shows "words_val (ws[index := ws ! index + v]) + 2 ^ (32 * index) * (if v > ws ! index + v then 2 ^ 32 else 0)
    = words_val ws + 2 ^ (32 * index) * unat v"
proof -
  let ?P = "(2 :: nat) ^ (32 * index)" and ?w = "ws ! index"
  have "?P * unat (?w + v) + ?P * (if v > ?w + v then 2 ^ 32 else 0) = ?P * unat ?w + ?P * unat v"
    by (simp only: distrib_left [symmetric] unat_add_carry)
  then show ?thesis using words_val_update [OF assms, of "?w + v"] by linarith
qed

lemma add_loop_val:
  assumes "add_loop index v ws = (j, us)"
  shows "length us = length ws \<and> index \<le> j \<and> (\<forall>k. j < k \<longrightarrow> us ! k = ws ! k) \<and>
    (\<exists>q. words_val us + 2 ^ (32 * length ws) * q = words_val ws + 2 ^ (32 * index) * unat v)"
  using assms
proof (induction index v ws rule: add_loop.induct)
  case (1 index v ws)
  define ws1 where "ws1 = ws[index := ws ! index + v]"
  show ?case
  proof (cases "index < length ws \<and> v > 0")
    case True
    then have step: "words_val ws1 + 2 ^ (32 * index) * (if v > ws1 ! index then 2 ^ 32 else 0)
        = words_val ws + 2 ^ (32 * index) * unat v"
      using add_word_val [of index ws v] by (simp add: ws1_def)
    show ?thesis
    proof (cases "v > ws1 ! index")
      case carry: True
      then have run: "add_loop (index + 1) 1 ws1 = (j, us)"
        using True 1(2) by (simp add: add_loop.simps [of index v ws] Let_def ws1_def)
      have "length us = length ws \<and> index + 1 \<le> j \<and> (\<forall>k. j < k \<longrightarrow> us ! k = ws1 ! k) \<and>
          (\<exists>q. words_val us + 2 ^ (32 * length ws) * q = words_val ws1 + 2 ^ (32 * (index + 1)) * unat (1 :: 32 word))"
        using 1(1) [OF True ws1_def _ run] carry by (simp add: ws1_def)
      moreover have "2 ^ (32 * (index + 1)) * unat (1 :: 32 word) = (2 :: nat) ^ (32 * index) * 2 ^ 32"
        by (simp add: power_add)
      ultimately show ?thesis
        using step carry by (auto simp: ws1_def)
    next
      case False
      then have "j = index" "us = ws1"
        using True 1(2) by (auto simp: add_loop.simps [of index v ws] Let_def ws1_def)
      then show ?thesis using step False by (auto simp: ws1_def intro: exI [of _ 0])
    qed
  next
    case False
    then have *: "j = index" "us = ws" using 1(2) by (auto simp: add_loop.simps [of index v ws])
    show ?thesis
    proof (cases "v = 0")
      case True
      then show ?thesis using * by (auto intro: exI [of _ 0])
    next
      case False
      with \<open>\<not> (index < length ws \<and> v > 0)\<close> have "length ws \<le> index" by (simp add: word_gt_0)
      then have "(2 :: nat) ^ (32 * index) = 2 ^ (32 * length ws) * 2 ^ (32 * (index - length ws))"
        by (simp add: power_add [symmetric] algebra_simps)
      then show ?thesis
        using * by (auto simp: mult.assoc intro: exI [of _ "2 ^ (32 * (index - length ws)) * unat v"])
    qed
  qed
qed

lemma AddWithCarry_loose:
  assumes "max_words b = m" and "size_of b \<le> m" and "v \<noteq> 0"
    and z: "\<And>k. size_of b \<le> k \<Longrightarrow> index \<le> k \<Longrightarrow> k < m \<Longrightarrow> words_of b ! k = 0"
  shows "big_rep m (big_val b + 2 ^ (32 * index) * unat v) (AddWithCarry index v b)"
proof -
  obtain j us where run: "add_loop index v (words_of b) = (j, us)" by (metis surj_pair)
  have b': "AddWithCarry index v b = b\<lparr>words_of := us, size_of := min m (max (j + 1) (size_of b))\<rparr>"
    using run assms(1,3) by (simp add: AddWithCarry_def)
  obtain q where us: "length us = m" "index \<le> j" "\<And>k. j < k \<Longrightarrow> us ! k = words_of b ! k"
    "words_val us + 2 ^ (32 * m) * q = big_val b + 2 ^ (32 * index) * unat v"
    using add_loop_val [OF run] assms(1) by auto
  then have "us ! k = 0" if "min m (max (j + 1) (size_of b)) \<le> k" "k < m" for k
    using that z by (simp add: min_def split: if_splits)
  moreover have "words_val us = (big_val b + 2 ^ (32 * index) * unat v) mod 2 ^ (32 * m)"
    using us(4,1) by (rule val_mod_unique)
  ultimately show ?thesis unfolding b' big_rep_def big_inv_def using us(1) by simp
qed

lemma big_rep_add_mod:
  "big_rep m (n mod 2 ^ (32 * m) + x) b \<longleftrightarrow> big_rep m (n + x) b"
  by (simp add: big_rep_def mod_add_left_eq)

lemma AddWithCarry_rep:
  assumes r: "big_rep m n b"
  shows "big_rep m (n + 2 ^ (32 * index) * unat v) (AddWithCarry index v b)"
proof (cases "v = 0")
  case True
  then show ?thesis using r by (simp add: AddWithCarry_def)
next
  case False
  then show ?thesis
    using AddWithCarry_loose [of b m v index] r by (simp add: big_rep_def big_inv_def mod_add_left_eq)
qed

lemma unat_halves: "unat (v :: 64 word) = unat (ucast (v AND 0xffffffff) :: 32 word) + 2 ^ 32 * unat (ucast (drop_bit 32 v) :: 32 word)"
proof -
  have lt: "unat (drop_bit 32 v) < 2 ^ 32" unfolding unat_high_half using unat_less_64_bits [of v] by simp
  then have "unat (ucast (drop_bit 32 v) :: 32 word) = unat v div 2 ^ 32"
    by (simp only: unat_ucast_small unat_high_half)
  then show ?thesis by (simp only: unat_low_half) simp
qed

lemma big_rep_beyond:
  assumes "big_rep m n b" and "m \<le> index"
  shows "big_rep m (n + 2 ^ (32 * index) * x) b"
proof -
  have "(2 :: nat) ^ (32 * m) dvd 2 ^ (32 * index) * x"
    using assms(2) by (simp add: le_imp_power_dvd dvd_mult2)
  then obtain q where "2 ^ (32 * index) * x = 2 ^ (32 * m) * q" by (elim dvdE)
  then show ?thesis using assms(1) by (simp add: big_rep_def)
qed

text \<open>The three ways the 64-bit addition goes on after the low word.\<close>

lemma add_uint64_cases:
  fixes high :: "32 word" and P :: nat
  assumes v: "v = low + 2 ^ 32 * unat high"
    and b1: "b1 + P * (if carry then 2 ^ 32 else 0) = b + P * low"
    and h: "high' = (if carry then high + 1 else high)"
  shows "carry \<Longrightarrow> high' = 0 \<Longrightarrow> b1 + P * 2 ^ 32 * 2 ^ 32 * unat (1 :: 32 word) = b + P * v"
    and "high' > 0 \<Longrightarrow> b1 + P * 2 ^ 32 * unat high' = b + P * v"
    and "\<not> carry \<Longrightarrow> high' = 0 \<Longrightarrow> b1 = b + P * v"
proof -
  define B where "B = (2 :: nat) ^ 32"
  have e: "b1 + P * (if carry then B else 0) + P * B * unat high = b + P * v"
    using b1 unfolding v B_def [symmetric] by (simp only: distrib_left ac_simps)
  have wrap: "unat (high + 1) = (if high + 1 = 0 then 0 else unat high + 1)" "high + 1 = 0 \<Longrightarrow> unat high + 1 = B"
    using unat_less_32 [of high] unfolding B_def
    by (auto simp: unat_plus_if' word_unat_eq_iff [of "high + 1"] split: if_splits)
  show "carry \<Longrightarrow> high' = 0 \<Longrightarrow> b1 + P * 2 ^ 32 * 2 ^ 32 * unat (1 :: 32 word) = b + P * v"
  proof -
    assume "carry" "high' = 0"
    then have "unat high + 1 = B" "b1 + P * B + P * B * unat high = b + P * v" using e wrap h by simp_all
    then show ?thesis unfolding B_def [symmetric] by (metis add.assoc add.commute mult.right_neutral distrib_left unat_1)
  qed
  show "high' > 0 \<Longrightarrow> b1 + P * 2 ^ 32 * unat high' = b + P * v"
    using e wrap(1) h unfolding B_def [symmetric] by (cases carry) (auto simp: distrib_left)
  show "\<not> carry \<Longrightarrow> high' = 0 \<Longrightarrow> b1 = b + P * v"
    using e h by simp
qed

lemma AddWithCarry_uint64_rep:
  assumes r: "big_rep m n b"
  shows "big_rep m (n + 2 ^ (32 * index) * unat v) (AddWithCarry_uint64 index v b)"
proof (cases "v \<noteq> 0 \<and> index < m")
  case False
  then show ?thesis
    using r big_rep_beyond [OF r, of index] by (auto simp: AddWithCarry_uint64_def big_rep_def)
next
  case True
  define P where "P = (2 :: nat) ^ (32 * index)"
  have inv: "size_of b \<le> m" "\<And>k. size_of b \<le> k \<Longrightarrow> k < m \<Longrightarrow> words_of b ! k = 0"
    and m: "max_words b = m" and val: "big_val b = n mod 2 ^ (32 * m)"
    using r by (simp_all add: big_rep_def big_inv_def)
  define low :: "32 word" where "low = ucast (v AND 0xffffffff)"
  define high :: "32 word" where "high = ucast (drop_bit 32 v)"
  define b1 where "b1 = b\<lparr>words_of := (words_of b)[index := words_of b ! index + low]\<rparr>"
  define carry where "carry \<longleftrightarrow> words_of b1 ! index < low"
  define high' where "high' = (if carry then high + 1 else high)"
  have b1: "max_words b1 = m" "size_of b1 = size_of b" "\<And>k. k \<noteq> index \<Longrightarrow> words_of b1 ! k = words_of b ! k"
    using m by (simp_all add: b1_def)
  have "big_val b1 + P * (if carry then 2 ^ 32 else 0) = big_val b + P * unat low"
    using add_word_val [of index "words_of b" low] True m unfolding carry_def b1_def P_def by simp
  note cases = add_uint64_cases [OF unat_halves [of v, folded low_def high_def] this high'_def]
  have pow: "2 ^ (32 * (index + 1)) = P * 2 ^ 32" "2 ^ (32 * (index + 2)) = P * 2 ^ 32 * 2 ^ 32"
    unfolding P_def by (simp_all add: power_add)
  have loose: "big_rep m (big_val b1 + 2 ^ (32 * i) * unat w) (AddWithCarry i w b1)"
    if "w \<noteq> 0" "index < i" for i w
    using that inv b1 by (intro AddWithCarry_loose) simp_all
  have run: "AddWithCarry_uint64 index v b = (if carry \<and> high' = 0 then AddWithCarry (index + 2) 1 b1
      else if high' > 0 then AddWithCarry (index + 1) high' b1
      else b1\<lparr>size_of := min m (max (index + 1) (size_of b))\<rparr>)"
    using True m unfolding AddWithCarry_uint64_def Let_def low_def [symmetric] high_def [symmetric]
    by (simp add: b1_def carry_def high'_def)
  have "big_rep m (big_val b + P * unat v) (AddWithCarry_uint64 index v b)"
  proof (cases "high' = 0")
    case nz: False
    then show ?thesis
      using loose [OF nz, of "index + 1"] cases(2) unfolding run pow by (simp add: word_gt_0)
  next
    case z: True
    show ?thesis
    proof (cases carry)
      case True
      then show ?thesis
        using z loose [of 1 "index + 2"] cases(1) [OF True z] unfolding run pow by simp
    next
      case False
      have "words_of b1 ! k = 0" if "min m (max (index + 1) (size_of b)) \<le> k" "k < m" for k
        using that inv(2) [of k] b1(3) [of k] by (simp add: min_def split: if_splits)
      then show ?thesis
        using z False cases(3) [OF False z] words_val_less [of "words_of b1"] b1(1)
        unfolding run big_rep_def big_inv_def by simp
    qed
  qed
  then show ?thesis unfolding val P_def big_rep_add_mod .
qed

subsection \<open>Lemmas: division\<close>

lemma div_word_step:
  fixes acc :: "64 word" and w d :: "32 word"
  assumes "unat acc < unat d"
  defines "x \<equiv> push_bit 32 acc + ucast w"
  shows "unat x = 2 ^ 32 * unat acc + unat w"
    and "unat (ucast (x div ucast d) :: 32 word) = unat x div unat d"
    and "unat (x mod ucast d) = unat x mod unat d"
proof -
  have a: "unat acc + 1 \<le> unat d" "unat d < 2 ^ 32" using assms(1) unat_less_32 [of d] by simp_all
  have "unat (push_bit 32 acc) = take_bit 64 (push_bit 32 (unat acc))" by (simp add: unsigned_push_bit_eq)
  also have "\<dots> = 2 ^ 32 * unat acc"
    using a by (simp add: push_bit_eq_mult take_bit_nat_eq_self)
  finally have p: "unat (push_bit 32 acc) = 2 ^ 32 * unat acc" .
  then have "unat (push_bit 32 acc) + unat (ucast w :: 64 word) < 2 ^ LENGTH(64)"
    using a unat_less_32 [of w] by (simp add: unat_ucast_32)
  then have "unat x = unat (push_bit 32 acc) + unat (ucast w :: 64 word)"
    unfolding x_def by (rule unat_add_lem [THEN iffD1])
  then show x: "unat x = 2 ^ 32 * unat acc + unat w" by (simp only: p unat_ucast_32)
  have "unat x < 2 ^ 32 * unat d"
    using x a unat_less_32 [of w] mult_le_mono2 [OF a(1), of "2 ^ 32"] by simp
  then have "unat x div unat d < 2 ^ 32" by (simp add: less_mult_imp_div_less)
  then show "unat (ucast (x div ucast d) :: 32 word) = unat x div unat d"
    using unat_ucast_small [of "x div ucast d"] by (simp only: unat_div unat_ucast_32)
  show "unat (x mod ucast d) = unat x mod unat d" by (simp only: unat_mod unat_ucast_32)
qed

lemma div_loop_val:
  assumes "i \<le> length ws" and "unat acc < unat d" and "div_loop d i acc ws = (r, us)"
  shows "length us = length ws \<and> unat r < unat d \<and> (\<forall>k. i \<le> k \<longrightarrow> us ! k = ws ! k) \<and>
    words_val (take i ws) + 2 ^ (32 * i) * unat acc = unat d * words_val (take i us) + unat r"
  using assms
proof (induction d i acc ws rule: div_loop.induct)
  case (2 d i acc ws)
  define x where "x = push_bit 32 acc + ucast (ws ! i)"
  define ws1 where "ws1 = ws[i := ucast (x div ucast d)]"
  note x = div_word_step [OF 2(3), of "ws ! i", folded x_def]
  have i: "i < length ws" using 2(2) by simp
  have "unat (x mod ucast d) < unat d" using x(3) 2(3) by simp
  then have ih: "length us = length ws" "unat r < unat d" "\<forall>k. i \<le> k \<longrightarrow> us ! k = ws1 ! k"
    "words_val (take i ws1) + 2 ^ (32 * i) * unat (x mod ucast d) = unat d * words_val (take i us) + unat r"
    using 2(1) [OF x_def ws1_def] 2(2,4) by (simp_all add: Let_def x_def ws1_def)
  let ?P = "(2 :: nat) ^ (32 * i)" and ?q = "unat x div unat d"
  have at: "unat (us ! i) = ?q" using ih(3) i x(2) by (simp add: ws1_def)
  have tk: "words_val (take (Suc i) vs) = words_val (take i vs) + ?P * unat (vs ! i)" if "length vs = length ws" for vs
    using that i words_val_append [of "take i vs" "[vs ! i]"] by (simp add: take_Suc_conv_app_nth)
  have "?P * unat x = ?P * (unat d * ?q + unat x mod unat d)" by (simp only: mult_div_mod_eq)
  then have dm: "?P * unat x = unat d * (?P * ?q) + ?P * (unat x mod unat d)"
    by (simp only: distrib_left ac_simps)
  have "words_val (take (Suc i) ws) + 2 ^ (32 * Suc i) * unat acc = words_val (take i ws) + ?P * unat x"
    unfolding x(1) tk [OF refl] by (simp add: power_add distrib_left)
  also have "\<dots> = words_val (take i ws) + ?P * unat (x mod ucast d) + unat d * (?P * ?q)"
    unfolding x(3) dm by (simp only: add.assoc add.commute)
  also have "\<dots> = unat d * words_val (take (Suc i) us) + unat r"
    using ih(4) unfolding tk [OF ih(1)] at by (simp add: ws1_def distrib_left)
  finally show ?case using ih by (simp add: ws1_def)
qed simp

lemma shrink_props: "shrink ws n \<le> n" "shrink ws n \<le> k \<Longrightarrow> k < n \<Longrightarrow> ws ! k = 0"
  by (induction n) (auto simp: less_Suc_eq split: if_splits)

lemma DivMod_val:
  assumes "big_inv b" and "d \<noteq> 0"
  shows "unat (fst (DivMod d b)) = big_val b mod unat d \<and> big_val (snd (DivMod d b)) = big_val b div unat d \<and>
    big_inv (snd (DivMod d b)) \<and> max_words (snd (DivMod d b)) = max_words b"
proof -
  let ?z = "size_of b"
  obtain r us where run: "div_loop d ?z 0 (words_of b) = (r, us)" by (metis surj_pair)
  have d: "0 < unat d" using assms(2) by (simp add: unat_gt_0)
  have us: "length us = max_words b" "unat r < unat d" "\<And>k. ?z \<le> k \<Longrightarrow> us ! k = words_of b ! k"
    "words_val (take ?z (words_of b)) = unat d * words_val (take ?z us) + unat r"
    using div_loop_val [OF _ _ run] assms(1) d by (auto simp: big_inv_def)
  have z: "us ! k = 0" if "?z \<le> k" "k < max_words b" for k
    using that us(3) assms(1) by (simp add: big_inv_def)
  have "words_val (take ?z (words_of b)) = big_val b" "words_val (take ?z us) = words_val us"
    using assms(1) z us(1) by (intro words_val_take; auto simp: big_inv_def)+
  then have e: "big_val b = unat d * words_val us + unat r" using us(4) by simp
  have rr: "unat (ucast r :: 32 word) = unat r"
    using us(2) unat_less_32 [of d] by (intro unat_ucast_small) simp
  have out: "DivMod d b = (ucast r, b\<lparr>words_of := us, size_of := shrink us ?z\<rparr>)"
    by (simp add: DivMod_def run)
  have "us ! k = 0" if "shrink us ?z \<le> k" "k < max_words b" for k
    using that z shrink_props(2) [of us ?z k] by (cases "k < ?z") auto
  moreover have "shrink us ?z \<le> max_words b"
    using shrink_props(1) [of us ?z] assms(1) by (simp add: big_inv_def)
  ultimately show ?thesis
    using us(1,2) e rr d unfolding out big_inv_def by (simp add: div_mult_self4)
qed

subsection \<open>Lemmas: comparison\<close>

definition low_words :: "nat \<Rightarrow> big_unsigned \<Rightarrow> 32 word list" where
  "low_words i b = map (\<lambda>k. GetWord b (int k)) [0..<i]"

lemma low_words_Suc: "words_val (low_words (Suc i) b) = words_val (low_words i b) + 2 ^ (32 * i) * unat (GetWord b (int i))"
  using words_val_append [of "low_words i b" "[GetWord b (int i)]"] by (simp add: low_words_def)

lemma low_words_val:
  assumes "big_inv b" and "size_of b \<le> i"
  shows "words_val (low_words i b) = big_val b"
proof -
  let ?z = "size_of b"
  have z: "low_words i b ! k = 0" if "?z \<le> k" "k < i" for k
    using that by (simp add: low_words_def GetWord_def)
  have "words_val (low_words i b) = words_val (take ?z (low_words i b))"
    using z assms(2) by (intro words_val_take [symmetric]) (simp_all add: low_words_def)
  also have "take ?z (low_words i b) = take ?z (words_of b)"
    using assms by (intro nth_equalityI) (auto simp: low_words_def GetWord_def big_inv_def)
  also have "words_val \<dots> = big_val b"
    using assms(1) by (intro words_val_take) (auto simp: big_inv_def)
  finally show ?thesis .
qed

lemma digit_order:
  fixes a b P x y :: nat
  assumes "a < P" and "b < P" and "x < y"
  shows "a + P * x < b + P * y"
proof -
  have "a + P * x < P * (x + 1)" using assms(1) by simp
  also have "\<dots> \<le> P * y" using assms(3) by (intro mult_le_mono2) simp
  finally show ?thesis by simp
qed

lemma compare_loop_val:
  "compare_loop i l r =
    (if words_val (low_words i l) < words_val (low_words i r) then - 1
     else if words_val (low_words i l) > words_val (low_words i r) then 1 else 0)"
proof (induction i)
  case (Suc i)
  have "words_val (low_words i b) < 2 ^ (32 * i)" for b
    using words_val_less [of "low_words i b"] by (simp add: low_words_def)
  note lt = digit_order [OF this [of l] this [of r]] digit_order [OF this [of r] this [of l]]
  consider "GetWord l (int i) < GetWord r (int i)" | "GetWord l (int i) > GetWord r (int i)"
    | "GetWord l (int i) = GetWord r (int i)" by (rule linorder_cases)
  then show ?case
  proof cases
    case 1
    then show ?thesis using lt(1) [of "unat (GetWord l (int i))" "unat (GetWord r (int i))"]
      unfolding low_words_Suc by (simp add: word_less_nat_alt)
  next
    case 2
    then show ?thesis using lt(2) [of "unat (GetWord r (int i))" "unat (GetWord l (int i))"]
      unfolding low_words_Suc by (simp add: word_less_nat_alt)
  next
    case 3
    then show ?thesis using Suc unfolding low_words_Suc by simp
  qed
qed (simp add: low_words_def)

lemma Compare_val:
  assumes "big_inv l" and "big_inv r"
  shows "Compare l r = (if big_val l < big_val r then - 1 else if big_val l > big_val r then 1 else 0)"
  unfolding Compare_def compare_loop_val using assms by (simp add: low_words_val)

lemma equal_loop_all: "equal_loop n i l r \<longleftrightarrow> (\<forall>k. i \<le> k \<and> k < i + n \<longrightarrow> GetWord l (int k) = GetWord r (int k))"
proof (induction n arbitrary: i)
  case (Suc n)
  have "i \<le> k \<and> k < i + Suc n \<longleftrightarrow> k = i \<or> Suc i \<le> k \<and> k < Suc i + n" for k by auto
  then show ?case using Suc by auto
qed auto

lemma compare_loop_zero: "compare_loop n l r = 0 \<longleftrightarrow> (\<forall>k<n. GetWord l (int k) = GetWord r (int k))"
  by (induction n) (auto simp: less_Suc_eq)

lemma big_eq_val: "big_inv l \<Longrightarrow> big_inv r \<Longrightarrow> big_eq l r \<longleftrightarrow> big_val l = big_val r"
  using Compare_val [of l r] compare_loop_zero [of "max (size_of l) (size_of r)" l r]
  by (auto simp: big_eq_def equal_loop_all Compare_def split: if_splits)

subsection \<open>Programs over large integers\<close>

lemma big_of_uint64_rep:
  assumes "2 \<le> m"
  shows "big_rep m (unat v) (big_of_uint64 m v)"
proof -
  let ?lo = "ucast (v AND 0xffffffff) :: 32 word" and ?hi = "ucast (drop_bit 32 v) :: 32 word"
  have val: "big_val (big_of_uint64 m v) = unat v"
    using unat_halves [of v] words_val_append [of "[?lo, ?hi]" "replicate (m - 2) 0"]
    by (simp add: big_of_uint64_def)
  have len: "max_words (big_of_uint64 m v) = m" using assms by (simp add: big_of_uint64_def)
  have "words_of (big_of_uint64 m v) ! k = 0" if "size_of (big_of_uint64 m v) \<le> k" "k < m" for k
  proof (cases "k < 2")
    case False
    then show ?thesis using that(2) by (auto simp: big_of_uint64_def nth_append numeral_2_eq_2 nth_Cons split: nat.splits)
  next
    case True
    then show ?thesis using that(1)
      by (auto simp: big_of_uint64_def less_2_cases_iff split: if_splits)
  qed
  moreover have "size_of (big_of_uint64 m v) \<le> m" using assms by (simp add: big_of_uint64_def)
  ultimately show ?thesis
    using val len words_val_less [of "words_of (big_of_uint64 m v)"] by (simp add: big_rep_def big_inv_def)
qed

datatype big_op =
    OpShift int
  | OpMultiply "32 word"
  | OpFive int
  | OpTen int
  | OpAdd nat "32 word"
  | OpAdd64 nat "64 word"
  | OpZero

text \<open>The operations on the object and what they mean for numbers.\<close>

fun big_do :: "(int \<Rightarrow> 32 word) \<Rightarrow> (int \<Rightarrow> 32 word) \<Rightarrow> big_op \<Rightarrow> big_unsigned \<Rightarrow> big_unsigned" where
  "big_do t5 t10 (OpShift k) b = ShiftLeft k b"
| "big_do t5 t10 (OpMultiply v) b = MultiplyBy v b"
| "big_do t5 t10 (OpFive k) b = MultiplyByFiveToTheNth t5 k b"
| "big_do t5 t10 (OpTen k) b = MultiplyByTenToTheNth t5 t10 k b"
| "big_do t5 t10 (OpAdd i v) b = AddWithCarry i v b"
| "big_do t5 t10 (OpAdd64 i v) b = AddWithCarry_uint64 i v b"
| "big_do t5 t10 OpZero b = SetToZero b"

fun num_do :: "big_op \<Rightarrow> nat \<Rightarrow> nat" where
  "num_do (OpShift k) n = n * 2 ^ nat k"
| "num_do (OpMultiply v) n = n * unat v"
| "num_do (OpFive k) n = n * 5 ^ nat k"
| "num_do (OpTen k) n = n * 10 ^ nat k"
| "num_do (OpAdd i v) n = n + 2 ^ (32 * i) * unat v"
| "num_do (OpAdd64 i v) n = n + 2 ^ (32 * i) * unat v"
| "num_do OpZero n = 0"

lemma big_do_rep:
  assumes "power_table 5 kMaxSmallPowerOfFive t5" and "power_table 10 kMaxSmallPowerOfTen t10"
    and "big_rep m n b"
  shows "big_rep m (num_do p n) (big_do t5 t10 p b)"
  using assms
  by (cases p) (simp_all add: ShiftLeft_rep MultiplyBy_rep MultiplyByFiveToTheNth_rep MultiplyByTenToTheNth_rep
      AddWithCarry_rep AddWithCarry_uint64_rep SetToZero_rep)

lemma big_run_rep:
  assumes "power_table 5 kMaxSmallPowerOfFive t5" and "power_table 10 kMaxSmallPowerOfTen t10"
    and "big_rep m n b"
  shows "big_rep m (fold num_do ps n) (fold (big_do t5 t10) ps b)"
  using assms(3) by (induction ps arbitrary: n b) (simp_all add: big_do_rep [OF assms(1,2)])

subsection \<open>Properties\<close>

text \<open>
  C23. Large integers of at least two words, made from a 64-bit number and changed by any sequence of
  shifts, multiplications, additions and powers, hold the number that the same sequence gives for
  natural numbers, modulo the width of the array; words beyond the size are zero all along.
\<close>

theorem big_unsigned_computes:
  assumes "power_table 5 kMaxSmallPowerOfFive t5" and "power_table 10 kMaxSmallPowerOfTen t10" and "2 \<le> m"
  shows "big_val (fold (big_do t5 t10) ps (big_of_uint64 m v)) = fold num_do ps (unat v) mod 2 ^ (32 * m) \<and>
    max_words (fold (big_do t5 t10) ps (big_of_uint64 m v)) = m \<and>
    big_inv (fold (big_do t5 t10) ps (big_of_uint64 m v))"
  using big_run_rep [OF assms(1,2) big_of_uint64_rep [OF assms(3)]] by (simp add: big_rep_def)

definition pow_words :: "nat \<Rightarrow> int \<Rightarrow> 32 word" where
  "pow_words base n = of_nat (base ^ nat n)"

lemma power_table_pow_words:
  assumes "base ^ nat kMax < 2 ^ 32" and "0 < base"
  shows "power_table base kMax (pow_words base)"
proof -
  have "base ^ nat n < 2 ^ 32" if "0 \<le> n" "n \<le> kMax" for n
    using power_increasing [of "nat n" "nat kMax" base] nat_mono [OF that(2)] assms by simp
  then show ?thesis
    unfolding power_table_def pow_words_def unat_of_nat by simp
qed

theorem big_unsigned_computes_witness:
  "big_val (fold (big_do (pow_words 5) (pow_words 10)) [OpTen 30, OpAdd 0 7, OpShift 40] (big_of_uint64 4 12))
    = (12 * 10 ^ 30 + 7) * 2 ^ 40 mod 2 ^ 128"
proof -
  have "power_table 5 kMaxSmallPowerOfFive (pow_words 5)" "power_table 10 kMaxSmallPowerOfTen (pow_words 10)"
    by (intro power_table_pow_words; simp add: kMaxSmallPowerOfFive_def kMaxSmallPowerOfTen_def)+
  from big_unsigned_computes [OF this, of 4 "[OpTen 30, OpAdd 0 7, OpShift 40]" 12]
  show ?thesis by simp
qed

text \<open>
  On well-formed objects \<^verbatim>\<open>Compare\<close>, \<^verbatim>\<open>==\<close> and \<^verbatim>\<open><\<close> compare the numbers, also
  between objects of different widths and sizes, and \<^verbatim>\<open>DivMod\<close> divides in place and returns the
  remainder.
\<close>

theorem big_unsigned_compare_divide:
  assumes "big_inv l" and "big_inv r" and "d \<noteq> 0"
  shows "Compare l r = (if big_val l < big_val r then - 1 else if big_val l > big_val r then 1 else 0) \<and>
    (big_eq l r \<longleftrightarrow> big_val l = big_val r) \<and>
    (big_less l r \<longleftrightarrow> big_val l < big_val r) \<and>
    unat (fst (DivMod d l)) = big_val l mod unat d \<and> big_val (snd (DivMod d l)) = big_val l div unat d \<and>
    big_inv (snd (DivMod d l))"
  using Compare_val [OF assms(1,2)] Compare_val [OF assms(2,1)] big_eq_val [OF assms(1,2)] DivMod_val [OF assms(1,3)]
  by (auto simp: big_less_def)

theorem big_unsigned_compare_divide_witness:
  "big_less (big_of_uint64 4 1234) (big_of_uint64 3 5000000000) \<and> unat (fst (DivMod 10 (big_of_uint64 4 1234))) = 4"
proof -
  have "big_rep 4 (unat (1234 :: 64 word)) (big_of_uint64 4 1234)"
    "big_rep 3 (unat (5000000000 :: 64 word)) (big_of_uint64 3 5000000000)"
    by (rule big_of_uint64_rep, simp)+
  then have "big_inv (big_of_uint64 4 1234)" "big_inv (big_of_uint64 3 5000000000)"
    and val: "big_val (big_of_uint64 4 1234) = 1234" "big_val (big_of_uint64 3 5000000000) = 5000000000"
    by (simp_all add: big_rep_def)
  from big_unsigned_compare_divide [OF this(1,2), of 10, unfolded val] show ?thesis by simp
qed

text \<open>For the smaller width in use, \<^verbatim>\<open>Digits10\<close> is the largest number of decimal digits that fits.\<close>

lemma Digits10_fits:
  "Digits10 4 = 38" "(10 :: nat) ^ 38 \<le> 2 ^ (32 * 4)" "(2 :: nat) ^ (32 * 4) < 10 ^ 39"
  by (simp_all add: Digits10_def)

end
