(* ===== verification/SwapQueue.thy ===== *)
theory SwapQueue
  imports Prelude
begin

section \<open>The queue between two threads\<close>

text \<open>
  \<^verbatim>\<open>rtc_base/swap_queue.h\<close>: a queue of fixed size between one producer and one consumer that run
  concurrently. Every access to the shared counter and to a slot is an operation of its own; the
  member functions are compositions of them, and the two threads interleave them in any order. The
  acquire and release orderings of the source are taken as sequential consistency. The verifier of
  items is a parameter.
\<close>

subsection \<open>The queue\<close>

record 'a swap_queue =
  slots :: "'a list"
  next_write_index :: nat
  next_read_index :: nat
  num_elements :: nat

definition VerifyQueueSlots :: "('a \<Rightarrow> bool) \<Rightarrow> 'a swap_queue \<Rightarrow> bool" where
  "VerifyQueueSlots verifier q = list_all verifier (slots q)"

definition SwapQueue_new :: "('a \<Rightarrow> bool) \<Rightarrow> nat \<Rightarrow> 'a \<Rightarrow> 'a swap_queue res" where
  "SwapQueue_new verifier n prototype =
     (let q = \<lparr>slots = replicate n prototype, next_write_index = 0, next_read_index = 0, num_elements = 0\<rparr>
      in if VerifyQueueSlots verifier q then Inr q else Inl DcheckFailed)"

text \<open>The accesses of the producer.\<close>

definition insert_full :: "'a swap_queue \<Rightarrow> bool" where
  "insert_full q \<longleftrightarrow> num_elements q = length (slots q)"

definition insert_swap :: "'a \<Rightarrow> 'a swap_queue \<Rightarrow> 'a \<times> 'a swap_queue" where
  "insert_swap x q =
     (slots q ! next_write_index q, q\<lparr>slots := (slots q)[next_write_index q := x]\<rparr>)"

definition insert_count :: "'a swap_queue \<Rightarrow> 'a swap_queue" where
  "insert_count q = q\<lparr>num_elements := num_elements q + 1\<rparr>"

definition insert_advance :: "'a swap_queue \<Rightarrow> 'a swap_queue" where
  "insert_advance q =
     (let q = q\<lparr>next_write_index := next_write_index q + 1\<rparr>
      in if next_write_index q = length (slots q) then q\<lparr>next_write_index := 0\<rparr> else q)"

text \<open>\<open>input\<close> is the pointer argument, \<open>None\<close> for null; the result holds what it points to afterwards.\<close>

definition sq_Insert ::
  "('a \<Rightarrow> bool) \<Rightarrow> 'a option \<Rightarrow> 'a swap_queue \<Rightarrow> (bool \<times> 'a \<times> 'a swap_queue) res" where
  "sq_Insert verifier input q =
     (case input of
        None \<Rightarrow> Inl DcheckFailed
      | Some x \<Rightarrow>
          if \<not> verifier x then Inl DcheckFailed
          else if insert_full q then Inr (False, x, q)
          else let (y, q) = insert_swap x q;
                   old_num_elements = num_elements q;
                   q = insert_advance (insert_count q)
               in if next_write_index q < length (slots q) \<and> old_num_elements < length (slots q)
                  then Inr (True, y, q) else Inl DcheckFailed)"

text \<open>The accesses of the consumer.\<close>

definition remove_empty :: "'a swap_queue \<Rightarrow> bool" where
  "remove_empty q \<longleftrightarrow> num_elements q = 0"

definition remove_swap :: "'a \<Rightarrow> 'a swap_queue \<Rightarrow> 'a \<times> 'a swap_queue" where
  "remove_swap y q =
     (slots q ! next_read_index q, q\<lparr>slots := (slots q)[next_read_index q := y]\<rparr>)"

definition remove_count :: "'a swap_queue \<Rightarrow> 'a swap_queue" where
  "remove_count q = q\<lparr>num_elements := num_elements q - 1\<rparr>"

definition remove_advance :: "'a swap_queue \<Rightarrow> 'a swap_queue" where
  "remove_advance q =
     (let q = q\<lparr>next_read_index := next_read_index q + 1\<rparr>
      in if next_read_index q = length (slots q) then q\<lparr>next_read_index := 0\<rparr> else q)"

definition sq_Remove ::
  "('a \<Rightarrow> bool) \<Rightarrow> 'a option \<Rightarrow> 'a swap_queue \<Rightarrow> (bool \<times> 'a \<times> 'a swap_queue) res" where
  "sq_Remove verifier output q =
     (case output of
        None \<Rightarrow> Inl DcheckFailed
      | Some y \<Rightarrow>
          if \<not> verifier y then Inl DcheckFailed
          else if remove_empty q then Inr (False, y, q)
          else let (x, q) = remove_swap y q;
                   q = remove_advance (remove_count q)
               in if next_read_index q < length (slots q) then Inr (True, x, q) else Inl DcheckFailed)"

definition clear_exchange :: "'a swap_queue \<Rightarrow> nat \<times> 'a swap_queue" where
  "clear_exchange q = (num_elements q, q\<lparr>num_elements := 0\<rparr>)"

definition clear_advance :: "nat \<Rightarrow> 'a swap_queue \<Rightarrow> 'a swap_queue" where
  "clear_advance k q =
     (let q = q\<lparr>next_read_index := next_read_index q + k\<rparr>
      in if next_read_index q \<ge> length (slots q)
         then q\<lparr>next_read_index := next_read_index q - length (slots q)\<rparr> else q)"

definition sq_Clear :: "'a swap_queue \<Rightarrow> 'a swap_queue res" where
  "sq_Clear q =
     (let (k, q) = clear_exchange q;
          q = clear_advance k q
      in if next_read_index q < length (slots q) then Inr q else Inl DcheckFailed)"

definition SizeAtLeast :: "'a swap_queue \<Rightarrow> nat" where
  "SizeAtLeast q = num_elements q"

subsection \<open>Two threads\<close>

text \<open>Where a thread is: between calls, or before its next access.\<close>

datatype 'a producer = PIdle | PSwap 'a | PCount 'a | PAdvance 'a
datatype 'a consumer = CIdle | CSwap 'a | CCount 'a | CAdvance 'a | CClear nat

text \<open>
  The state of the system, with two histories: \<open>sent\<close> holds the items in the order in which the
  counter was raised for them, \<open>gone\<close> those for which it was lowered, by \<^verbatim>\<open>Remove\<close> or \<^verbatim>\<open>Clear\<close>.
\<close>

record 'a sq_system =
  sq :: "'a swap_queue"
  prod :: "'a producer"
  cons :: "'a consumer"
  sent :: "'a list"
  gone :: "'a list"

definition slots_from :: "'a swap_queue \<Rightarrow> nat \<Rightarrow> nat \<Rightarrow> 'a list" where
  "slots_from q r n = map (\<lambda>i. slots q ! ((r + i) mod length (slots q))) [0..<n]"

inductive sq_step :: "('a \<Rightarrow> bool) \<Rightarrow> 'a sq_system \<Rightarrow> 'a sq_system \<Rightarrow> bool" for verifier where
  call_insert:
    "prod s = PIdle \<Longrightarrow> verifier x \<Longrightarrow> \<not> insert_full (sq s) \<Longrightarrow> sq_step verifier s (s\<lparr>prod := PSwap x\<rparr>)"
| insert_swap:
    "prod s = PSwap x \<Longrightarrow> insert_swap x (sq s) = (y, q) \<Longrightarrow> sq_step verifier s (s\<lparr>sq := q, prod := PCount x\<rparr>)"
| insert_count:
    "prod s = PCount x \<Longrightarrow>
     sq_step verifier s (s\<lparr>sq := insert_count (sq s), sent := sent s @ [x], prod := PAdvance x\<rparr>)"
| insert_advance:
    "prod s = PAdvance x \<Longrightarrow> sq_step verifier s (s\<lparr>sq := insert_advance (sq s), prod := PIdle\<rparr>)"
| call_remove:
    "cons s = CIdle \<Longrightarrow> verifier y \<Longrightarrow> \<not> remove_empty (sq s) \<Longrightarrow> sq_step verifier s (s\<lparr>cons := CSwap y\<rparr>)"
| remove_swap:
    "cons s = CSwap y \<Longrightarrow> remove_swap y (sq s) = (x, q) \<Longrightarrow> sq_step verifier s (s\<lparr>sq := q, cons := CCount x\<rparr>)"
| remove_count:
    "cons s = CCount x \<Longrightarrow>
     sq_step verifier s (s\<lparr>sq := remove_count (sq s), gone := gone s @ [x], cons := CAdvance x\<rparr>)"
| remove_advance:
    "cons s = CAdvance x \<Longrightarrow> sq_step verifier s (s\<lparr>sq := remove_advance (sq s), cons := CIdle\<rparr>)"
| clear_exchange:
    "cons s = CIdle \<Longrightarrow> clear_exchange (sq s) = (k, q) \<Longrightarrow>
     sq_step verifier s (s\<lparr>sq := q, gone := gone s @ slots_from (sq s) (next_read_index (sq s)) k, cons := CClear k\<rparr>)"
| clear_advance:
    "cons s = CClear k \<Longrightarrow> sq_step verifier s (s\<lparr>sq := clear_advance k (sq s), cons := CIdle\<rparr>)"

definition sq_init :: "'a swap_queue \<Rightarrow> 'a sq_system" where
  "sq_init q = \<lparr>sq = q, prod = PIdle, cons = CIdle, sent = [], gone = []\<rparr>"

inductive sq_reach :: "('a \<Rightarrow> bool) \<Rightarrow> 'a sq_system \<Rightarrow> 'a sq_system \<Rightarrow> bool" for verifier where
  refl: "sq_reach verifier s s"
| step: "sq_reach verifier s t \<Longrightarrow> sq_step verifier t u \<Longrightarrow> sq_reach verifier s u"

inductive_cases sq_stepE: "sq_step verifier s t"

subsection \<open>Invariant\<close>

text \<open>
  The position of the oldest item and the items in the queue: while the consumer has lowered the
  counter and not yet moved its index, the oldest item is further on; while it holds an item it has
  swapped out, that item still counts.
\<close>

definition read_pos :: "'a swap_queue \<Rightarrow> 'a consumer \<Rightarrow> nat" where
  "read_pos q c = (case c of
      CAdvance x \<Rightarrow> next_read_index q + 1
    | CClear k \<Rightarrow> next_read_index q + k
    | _ \<Rightarrow> next_read_index q)"

definition write_pos :: "'a swap_queue \<Rightarrow> 'a producer \<Rightarrow> nat" where
  "write_pos q p = (case p of PAdvance x \<Rightarrow> next_write_index q + 1 | _ \<Rightarrow> next_write_index q)"

definition contents :: "'a swap_queue \<Rightarrow> 'a consumer \<Rightarrow> 'a list" where
  "contents q c = (case c of
      CCount x \<Rightarrow> x # slots_from q (read_pos q c + 1) (num_elements q - 1)
    | _ \<Rightarrow> slots_from q (read_pos q c) (num_elements q))"

definition prod_ok :: "('a \<Rightarrow> bool) \<Rightarrow> 'a swap_queue \<Rightarrow> 'a producer \<Rightarrow> bool" where
  "prod_ok verifier q p = (case p of
      PSwap x \<Rightarrow> num_elements q < length (slots q) \<and> verifier x
    | PCount x \<Rightarrow> num_elements q < length (slots q) \<and> slots q ! next_write_index q = x
    | _ \<Rightarrow> True)"

definition cons_ok :: "('a \<Rightarrow> bool) \<Rightarrow> 'a swap_queue \<Rightarrow> 'a consumer \<Rightarrow> bool" where
  "cons_ok verifier q c = (case c of
      CSwap y \<Rightarrow> 0 < num_elements q \<and> verifier y
    | CCount x \<Rightarrow> 0 < num_elements q
    | CClear k \<Rightarrow> k \<le> length (slots q)
    | _ \<Rightarrow> True)"

text \<open>The indices are in range, and the items lie between the two positions.\<close>

definition queue_ok :: "('a \<Rightarrow> bool) \<Rightarrow> 'a swap_queue \<Rightarrow> 'a producer \<Rightarrow> 'a consumer \<Rightarrow> bool" where
  "queue_ok verifier q p c \<longleftrightarrow>
     next_write_index q < length (slots q) \<and> next_read_index q < length (slots q) \<and>
     num_elements q \<le> length (slots q) \<and> list_all verifier (slots q) \<and>
     write_pos q p mod length (slots q) = (read_pos q c + num_elements q) mod length (slots q)"

definition sq_inv :: "('a \<Rightarrow> bool) \<Rightarrow> 'a sq_system \<Rightarrow> bool" where
  "sq_inv verifier s \<longleftrightarrow>
     queue_ok verifier (sq s) (prod s) (cons s) \<and>
     prod_ok verifier (sq s) (prod s) \<and> cons_ok verifier (sq s) (cons s) \<and>
     sent s = gone s @ contents (sq s) (cons s)"

subsection \<open>Lemmas\<close>

lemma mod_distinct:
  fixes a b N :: nat
  assumes "a < b" and "b < a + N"
  shows "a mod N \<noteq> b mod N"
proof
  assume "a mod N = b mod N"
  then have "N dvd b - a" using assms(1) mod_eq_dvd_iff_nat [of a b N] by simp
  moreover have "0 < b - a" "b - a < N" using assms by simp_all
  ultimately show False using nat_dvd_not_less by blast
qed

lemma slots_from_0 [simp]: "slots_from q r 0 = []"
  by (simp add: slots_from_def)

lemma slots_from_mod: "r mod length (slots q) = r' mod length (slots q) \<Longrightarrow> slots_from q r n = slots_from q r' n"
  unfolding slots_from_def by (metis mod_add_left_eq)

lemma slots_from_end: "slots_from q r (n + 1) = slots_from q r n @ [slots q ! ((r + n) mod length (slots q))]"
  by (simp add: slots_from_def)

lemma slots_from_front:
  "0 < n \<Longrightarrow> slots_from q r n = slots q ! (r mod length (slots q)) # slots_from q (r + 1) (n - 1)"
  by (cases n) (simp_all add: slots_from_def upt_conv_Cons map_Suc_upt [symmetric] del: upt_Suc)

lemma slots_from_cong: "slots q = slots q' \<Longrightarrow> slots_from q r n = slots_from q' r n"
  by (simp add: slots_from_def)

lemma slots_from_upd:
  assumes "\<And>j. j < n \<Longrightarrow> (r + j) mod length (slots q) \<noteq> i"
  shows "slots_from (q\<lparr>slots := (slots q)[i := x]\<rparr>) r n = slots_from q r n"
proof -
  have "(slots q)[i := x] ! ((r + j) mod length (slots q)) = slots q ! ((r + j) mod length (slots q))" if "j < n" for j
    using assms [OF that] by (intro nth_list_update_neq) blast
  then show ?thesis by (simp add: slots_from_def)
qed

text \<open>A slot outside the items can be written, and the slot of the oldest item after it was taken.\<close>

lemma write_outside:
  assumes "w < length (slots q)" and "w = (r + n) mod length (slots q)" and "n < length (slots q)"
  shows "slots_from (q\<lparr>slots := (slots q)[w := x]\<rparr>) r n = slots_from q r n"
    and "0 < n \<Longrightarrow> slots_from (q\<lparr>slots := (slots q)[w := x]\<rparr>) (r + 1) (n - 1) = slots_from q (r + 1) (n - 1)"
proof -
  show "slots_from (q\<lparr>slots := (slots q)[w := x]\<rparr>) r n = slots_from q r n"
    unfolding assms(2) by (rule slots_from_upd) (use assms(3) in \<open>intro mod_distinct; simp\<close>)
  show "slots_from (q\<lparr>slots := (slots q)[w := x]\<rparr>) (r + 1) (n - 1) = slots_from q (r + 1) (n - 1)" if "0 < n"
    unfolding assms(2) by (rule slots_from_upd) (use assms(3) that in \<open>intro mod_distinct; simp\<close>)
qed

lemma write_taken:
  assumes "r < length (slots q)" and "n \<le> length (slots q)"
  shows "slots_from (q\<lparr>slots := (slots q)[r := x]\<rparr>) (r + 1) (n - 1) = slots_from q (r + 1) (n - 1)"
proof (rule slots_from_upd)
  fix j
  assume "j < n - 1"
  then have "r mod length (slots q) \<noteq> (r + 1 + j) mod length (slots q)"
    using assms(2) by (intro mod_distinct) simp_all
  then show "(r + 1 + j) mod length (slots q) \<noteq> r" using assms(1) by simp
qed

lemma advance_props:
  assumes "next_write_index q < length (slots q)" and "next_read_index q < length (slots q)" and "k \<le> length (slots q)"
  shows "insert_advance q = q\<lparr>next_write_index := (next_write_index q + 1) mod length (slots q)\<rparr>"
    and "remove_advance q = q\<lparr>next_read_index := (next_read_index q + 1) mod length (slots q)\<rparr>"
    and "clear_advance k q = q\<lparr>next_read_index := (next_read_index q + k) mod length (slots q)\<rparr>"
  using assms
  by (auto simp: insert_advance_def remove_advance_def clear_advance_def Let_def mod_if)

lemmas sq_defs = sq_inv_def queue_ok_def prod_ok_def cons_ok_def write_pos_def

lemma read_pos_simps [simp]:
  "read_pos (q\<lparr>slots := u\<rparr>) c = read_pos q c" "read_pos (q\<lparr>num_elements := k\<rparr>) c = read_pos q c"
  "read_pos (q\<lparr>next_write_index := k\<rparr>) c = read_pos q c"
  by (simp_all add: read_pos_def split: consumer.splits)

lemma contents_write_index [simp]: "contents (q\<lparr>next_write_index := k\<rparr>) c = contents q c"
  by (simp add: contents_def slots_from_def split: consumer.splits)

lemma queue_ok_write:
  assumes "queue_ok verifier q p c" and "\<And>x. p \<noteq> PAdvance x"
  shows "next_write_index q < length (slots q)"
    and "next_write_index q = (read_pos q c + num_elements q) mod length (slots q)"
proof -
  have "write_pos q p = next_write_index q" using assms(2) by (simp add: write_pos_def split: producer.splits)
  then show "next_write_index q < length (slots q)"
    "next_write_index q = (read_pos q c + num_elements q) mod length (slots q)"
    using assms(1) mod_less [of "next_write_index q" "length (slots q)"] unfolding queue_ok_def by metis+
qed

text \<open>The producer's write leaves the items as they are, and so does the consumer's.\<close>

lemma contents_write:
  assumes "queue_ok verifier q (PSwap x) c" and "num_elements q < length (slots q)" and "cons_ok verifier q c"
  shows "contents (q\<lparr>slots := (slots q)[next_write_index q := y]\<rparr>) c = contents q c"
proof -
  note wr = write_outside [OF queue_ok_write [OF assms(1)] assms(2), of y]
  show ?thesis
    using wr assms(3) by (auto simp: contents_def cons_ok_def split: consumer.splits)
qed

lemma contents_take:
  assumes "queue_ok verifier q p (CSwap y)" and "0 < num_elements q"
  shows "contents (q\<lparr>slots := (slots q)[next_read_index q := y]\<rparr>) (CCount (slots q ! next_read_index q))
    = contents q (CSwap y)"
proof -
  have r: "next_read_index q < length (slots q)" "num_elements q \<le> length (slots q)"
    using assms(1) by (simp_all add: queue_ok_def)
  have "slots_from q (next_read_index q) (num_elements q)
      = slots q ! next_read_index q # slots_from q (next_read_index q + 1) (num_elements q - 1)"
    using slots_from_front [OF assms(2), of q "next_read_index q"] r(1) by simp
  then show ?thesis
    using write_taken [OF r, of y] by (simp add: contents_def read_pos_def)
qed

lemma contents_raise:
  assumes "queue_ok verifier q (PCount x) c" and "cons_ok verifier q c" and "slots q ! next_write_index q = x"
  shows "contents (q\<lparr>num_elements := num_elements q + 1\<rparr>) c = contents q c @ [x]"
proof -
  have x: "slots q ! ((read_pos q c + num_elements q) mod length (slots q)) = x"
    using queue_ok_write(2) [OF assms(1)] assms(3) by auto
  have "slots_from (q\<lparr>num_elements := k\<rparr>) r n = slots_from q r n" for k r n
    by (simp add: slots_from_def)
  then show ?thesis
    using assms(2) x slots_from_end [of q "read_pos q c" "num_elements q"]
      slots_from_end [of q "read_pos q c + 1" "num_elements q - 1"]
    by (simp add: contents_def cons_ok_def split: consumer.splits)
qed

lemma contents_lower:
  "contents q (CCount x) = x # contents (q\<lparr>num_elements := num_elements q - 1\<rparr>) (CAdvance x)"
  by (simp add: contents_def read_pos_def slots_from_def)

text \<open>Each access keeps the invariant.\<close>

lemma inv_insert_swap:
  assumes "sq_inv verifier s" and "prod s = PSwap x" and "insert_swap x (sq s) = (y, q)"
  shows "sq_inv verifier (s\<lparr>sq := q, prod := PCount x\<rparr>)"
proof -
  define r where "r = sq s"
  have q: "q = r\<lparr>slots := (slots r)[next_write_index r := x]\<rparr>"
    using assms(3) by (simp add: insert_swap_def r_def)
  have ok: "queue_ok verifier r (PSwap x) (cons s)" "num_elements r < length (slots r)" "verifier x"
    "cons_ok verifier r (cons s)" "sent s = gone s @ contents r (cons s)"
    using assms(1,2) by (simp_all add: sq_inv_def prod_ok_def r_def)
  have "contents q (cons s) = contents r (cons s)" unfolding q by (rule contents_write [OF ok(1,2,4)])
  then show ?thesis
    using ok unfolding q by (auto simp: sq_inv_def queue_ok_def prod_ok_def write_pos_def list_all_update
        cons_ok_def split: consumer.splits)
qed

lemma inv_insert_count:
  assumes "sq_inv verifier s" and "prod s = PCount x"
  shows "sq_inv verifier (s\<lparr>sq := insert_count (sq s), sent := sent s @ [x], prod := PAdvance x\<rparr>)"
proof -
  define r where "r = sq s"
  have ok: "queue_ok verifier r (PCount x) (cons s)" "num_elements r < length (slots r)"
    "slots r ! next_write_index r = x" "cons_ok verifier r (cons s)" "sent s = gone s @ contents r (cons s)"
    using assms by (simp_all add: sq_inv_def prod_ok_def r_def)
  have "(next_write_index r + 1) mod length (slots r) = (read_pos r (cons s) + (num_elements r + 1)) mod length (slots r)"
    using queue_ok_write(2) [OF ok(1)] by (simp add: mod_Suc_eq)
  then show ?thesis
    using ok contents_raise [OF ok(1,4,3)] unfolding r_def [symmetric] insert_count_def
    by (auto simp: sq_inv_def queue_ok_def prod_ok_def write_pos_def cons_ok_def r_def [symmetric] split: consumer.splits)
qed

lemma inv_insert_advance:
  assumes "sq_inv verifier s" and "prod s = PAdvance x"
  shows "sq_inv verifier (s\<lparr>sq := insert_advance (sq s), prod := PIdle\<rparr>)"
proof -
  have "next_write_index (sq s) < length (slots (sq s))" "next_read_index (sq s) < length (slots (sq s))"
    using assms(1) by (simp_all add: sq_inv_def queue_ok_def)
  note adv = advance_props(1) [OF this le0]
  show ?thesis
    using assms unfolding adv
    by (auto simp: sq_inv_def queue_ok_def prod_ok_def write_pos_def cons_ok_def split: consumer.splits
        intro!: mod_less_divisor)
qed

lemma inv_remove_swap:
  assumes "sq_inv verifier s" and "cons s = CSwap y" and "remove_swap y (sq s) = (x, q)"
  shows "sq_inv verifier (s\<lparr>sq := q, cons := CCount x\<rparr>)"
proof -
  define r where "r = sq s"
  have q: "q = r\<lparr>slots := (slots r)[next_read_index r := y]\<rparr>" and x: "x = slots r ! next_read_index r"
    using assms(3) by (simp_all add: remove_swap_def r_def)
  have ok: "queue_ok verifier r (prod s) (CSwap y)" "0 < num_elements r" "verifier y"
    "prod_ok verifier r (prod s)" "sent s = gone s @ contents r (CSwap y)"
    using assms(1,2) by (simp_all add: sq_inv_def cons_ok_def r_def)
  have c: "contents q (CCount x) = contents r (CSwap y)" unfolding q x by (rule contents_take [OF ok(1,2)])
  have "slots q ! next_write_index r = slots r ! next_write_index r" if "prod s = PCount z" for z
  proof -
    have "num_elements r < length (slots r)" using ok(4) that by (simp add: prod_ok_def)
    then have "next_read_index r mod length (slots r) \<noteq> (next_read_index r + num_elements r) mod length (slots r)"
      using ok(2) by (intro mod_distinct) simp_all
    moreover have "next_write_index r = (next_read_index r + num_elements r) mod length (slots r)"
      using queue_ok_write(2) [OF ok(1)] that by (simp add: read_pos_def)
    ultimately have "next_read_index r \<noteq> next_write_index r"
      using ok(1) by (auto simp: queue_ok_def)
    then show ?thesis unfolding q by simp
  qed
  then have "prod_ok verifier q (prod s)"
    using ok(4) unfolding prod_ok_def by (simp add: q split: producer.splits)
  moreover have "queue_ok verifier q (prod s) (CCount x)"
    using ok(1,3) by (simp add: q queue_ok_def write_pos_def read_pos_def list_all_update cong: producer.case_cong)
  ultimately show ?thesis
    using ok c by (simp add: sq_inv_def cons_ok_def q)
qed

lemma inv_remove_count:
  assumes "sq_inv verifier s" and "cons s = CCount x"
  shows "sq_inv verifier (s\<lparr>sq := remove_count (sq s), gone := gone s @ [x], cons := CAdvance x\<rparr>)"
  using assms contents_lower [of "sq s" x]
  by (auto simp: sq_inv_def queue_ok_def prod_ok_def write_pos_def cons_ok_def remove_count_def read_pos_def
      split: producer.splits)

lemma inv_read_advance:
  assumes "sq_inv verifier s" and "k \<le> length (slots (sq s))"
    and "cons s = CAdvance x \<and> k = 1 \<or> cons s = CClear k"
  shows "sq_inv verifier (s\<lparr>sq := (sq s)\<lparr>next_read_index := (next_read_index (sq s) + k) mod length (slots (sq s))\<rparr>,
    cons := CIdle\<rparr>)"
proof -
  define r where "r = sq s"
  define q where "q = r\<lparr>next_read_index := (next_read_index r + k) mod length (slots r)\<rparr>"
  have rp: "read_pos r (cons s) = next_read_index r + k" "\<And>z. cons s \<noteq> CCount z"
    using assms(3) by (auto simp: read_pos_def)
  have c: "contents r (cons s) = slots_from r (next_read_index r + k) (num_elements r)"
    using rp assms(3) by (auto simp: contents_def)
  have "contents q CIdle = slots_from r ((next_read_index r + k) mod length (slots r)) (num_elements r)"
    by (simp add: contents_def q_def read_pos_def slots_from_def)
  also have "\<dots> = contents r (cons s)" unfolding c by (rule slots_from_mod) simp
  finally have "contents q CIdle = contents r (cons s)" .
  moreover have "0 < length (slots r)" using assms(1) by (auto simp: sq_inv_def queue_ok_def r_def)
  ultimately show ?thesis
    using assms(1) rp unfolding r_def [symmetric] q_def [symmetric]
    by (auto simp: sq_inv_def queue_ok_def prod_ok_def write_pos_def cons_ok_def r_def [symmetric] q_def read_pos_def [of _ CIdle]
        mod_add_left_eq split: producer.splits)
qed

lemma inv_clear_exchange:
  assumes "sq_inv verifier s" and "cons s = CIdle" and "clear_exchange (sq s) = (k, q)"
  shows "sq_inv verifier (s\<lparr>sq := q, gone := gone s @ slots_from (sq s) (next_read_index (sq s)) k, cons := CClear k\<rparr>)"
  using assms
  by (auto simp: sq_inv_def queue_ok_def prod_ok_def write_pos_def cons_ok_def clear_exchange_def read_pos_def
      contents_def split: producer.splits)

lemma sq_inv_step:
  assumes "sq_step verifier s t" and "sq_inv verifier s"
  shows "sq_inv verifier t"
  using assms(1)
proof cases
  case (call_insert x)
  then show ?thesis
    using assms(2) by (simp add: sq_inv_def queue_ok_def prod_ok_def write_pos_def insert_full_def)
next
  case (call_remove y)
  then show ?thesis
    using assms(2)
    by (simp add: sq_inv_def queue_ok_def cons_ok_def read_pos_def contents_def remove_empty_def)
next
  case (remove_advance x)
  have i: "next_write_index (sq s) < length (slots (sq s))" "next_read_index (sq s) < length (slots (sq s))"
    using assms(2) by (simp_all add: sq_inv_def queue_ok_def)
  then show ?thesis
    using remove_advance inv_read_advance [OF assms(2), of 1 x] unfolding remove_advance(1) advance_props(2) [OF i le0]
    by simp
next
  case (clear_advance k)
  have i: "next_write_index (sq s) < length (slots (sq s))" "next_read_index (sq s) < length (slots (sq s))"
    and k: "k \<le> length (slots (sq s))"
    using assms(2) clear_advance(2) by (simp_all add: sq_inv_def queue_ok_def cons_ok_def)
  then show ?thesis
    using clear_advance inv_read_advance [OF assms(2) k] unfolding clear_advance(1) advance_props(3) [OF i k]
    by simp
qed (use assms(2) inv_insert_swap inv_insert_count inv_insert_advance inv_remove_swap inv_remove_count
      inv_clear_exchange in \<open>simp_all\<close>)

lemma sq_inv_reach: "sq_reach verifier s t \<Longrightarrow> sq_inv verifier s \<Longrightarrow> sq_inv verifier t"
  by (induction rule: sq_reach.induct) (auto intro: sq_inv_step)

lemma sq_step_length: "sq_step verifier s t \<Longrightarrow> length (slots (sq t)) = length (slots (sq s))"
  by (elim sq_stepE)
    (auto simp: insert_swap_def insert_count_def insert_advance_def remove_swap_def remove_count_def
      remove_advance_def clear_exchange_def clear_advance_def Let_def)

lemma sq_reach_length: "sq_reach verifier s t \<Longrightarrow> length (slots (sq t)) = length (slots (sq s))"
  by (induction rule: sq_reach.induct) (auto dest: sq_step_length)

lemma sq_inv_new:
  assumes "SwapQueue_new verifier n prototype = Inr q" and "0 < n"
  shows "sq_inv verifier (sq_init q)" and "length (slots q) = n"
  using assms
  by (auto simp: SwapQueue_new_def VerifyQueueSlots_def Let_def sq_init_def sq_inv_def queue_ok_def prod_ok_def
      cons_ok_def write_pos_def read_pos_def contents_def split: if_splits)

lemma length_contents: "cons_ok verifier q c \<Longrightarrow> length (contents q c) = num_elements q"
  by (auto simp: contents_def cons_ok_def slots_from_def split: consumer.splits)

text \<open>When both threads are about to access a slot, the slots differ.\<close>

lemma no_race:
  assumes "sq_inv verifier s" and "prod s = PSwap x" and "cons s = CSwap y"
  shows "next_write_index (sq s) \<noteq> next_read_index (sq s)"
proof -
  let ?q = "sq s"
  have ok: "queue_ok verifier ?q (PSwap x) (CSwap y)" "num_elements ?q < length (slots ?q)" "0 < num_elements ?q"
    using assms by (simp_all add: sq_inv_def prod_ok_def cons_ok_def)
  have "next_read_index ?q mod length (slots ?q) \<noteq> (next_read_index ?q + num_elements ?q) mod length (slots ?q)"
    using ok(2,3) by (intro mod_distinct) simp_all
  moreover have "next_write_index ?q = (next_read_index ?q + num_elements ?q) mod length (slots ?q)"
    using queue_ok_write(2) [OF ok(1)] by (simp add: read_pos_def)
  ultimately show ?thesis using ok(1) by (auto simp: queue_ok_def)
qed

subsection \<open>The member functions\<close>

lemma sq_reach_4:
  "sq_step verifier s a \<Longrightarrow> sq_step verifier a b \<Longrightarrow> sq_step verifier b c \<Longrightarrow> sq_step verifier c d \<Longrightarrow>
    sq_reach verifier s d"
  by (rule sq_reach.step [OF sq_reach.step [OF sq_reach.step [OF sq_reach.step [OF sq_reach.refl]]]])

text \<open>A call that finds the other thread idle runs through the accesses in order.\<close>

lemma Insert_runs:
  assumes "prod s = PIdle" and "sq_Insert verifier (Some x) (sq s) = Inr (True, y, q)"
  shows "sq_reach verifier s (s\<lparr>sq := q, sent := sent s @ [x]\<rparr>)"
proof -
  obtain y' q1 where sw: "insert_swap x (sq s) = (y', q1)" by (metis surj_pair)
  have v: "verifier x" "\<not> insert_full (sq s)" and q: "q = insert_advance (insert_count q1)"
    using assms(2) sw by (auto simp: sq_Insert_def Let_def split: if_splits)
  let ?s1 = "s\<lparr>prod := PSwap x\<rparr>"
  let ?s2 = "?s1\<lparr>sq := q1, prod := PCount x\<rparr>"
  let ?s3 = "?s2\<lparr>sq := insert_count q1, sent := sent s @ [x], prod := PAdvance x\<rparr>"
  have st1: "sq_step verifier s ?s1" using assms(1) v by (rule call_insert)
  have st2: "sq_step verifier ?s1 ?s2" using sw by (intro insert_swap) simp_all
  have st3: "sq_step verifier ?s2 ?s3" using insert_count [of ?s2 x verifier] by simp
  have st4: "sq_step verifier ?s3 (?s3\<lparr>sq := q, prod := PIdle\<rparr>)"
    using insert_advance [of ?s3 x verifier] by (simp add: q)
  have "?s3\<lparr>sq := q, prod := PIdle\<rparr> = s\<lparr>sq := q, sent := sent s @ [x]\<rparr>"
    using assms(1) by simp
  then show ?thesis using sq_reach_4 [OF st1 st2 st3 st4] by simp
qed

lemma Remove_runs:
  assumes "cons s = CIdle" and "sq_Remove verifier (Some y) (sq s) = Inr (True, x, q)"
  shows "sq_reach verifier s (s\<lparr>sq := q, gone := gone s @ [x]\<rparr>)"
proof -
  obtain x' q1 where sw: "remove_swap y (sq s) = (x', q1)" by (metis surj_pair)
  have v: "verifier y" "\<not> remove_empty (sq s)" and q: "q = remove_advance (remove_count q1)" "x' = x"
    using assms(2) sw by (auto simp: sq_Remove_def Let_def split: if_splits)
  let ?s1 = "s\<lparr>cons := CSwap y\<rparr>"
  let ?s2 = "?s1\<lparr>sq := q1, cons := CCount x\<rparr>"
  let ?s3 = "?s2\<lparr>sq := remove_count q1, gone := gone s @ [x], cons := CAdvance x\<rparr>"
  have st1: "sq_step verifier s ?s1" using assms(1) v by (rule call_remove)
  have st2: "sq_step verifier ?s1 ?s2" using sw q(2) by (intro remove_swap) simp_all
  have st3: "sq_step verifier ?s2 ?s3" using remove_count [of ?s2 x verifier] by simp
  have st4: "sq_step verifier ?s3 (?s3\<lparr>sq := q, cons := CIdle\<rparr>)"
    using remove_advance [of ?s3 x verifier] by (simp add: q)
  have "?s3\<lparr>sq := q, cons := CIdle\<rparr> = s\<lparr>sq := q, gone := gone s @ [x]\<rparr>"
    using assms(1) by simp
  then show ?thesis using sq_reach_4 [OF st1 st2 st3 st4] by simp
qed

subsection \<open>Properties\<close>

text \<open>
  C24. However the accesses of the producer and the consumer are interleaved: items leave the queue in
  the order in which they entered, none is lost or duplicated (\<^verbatim>\<open>Clear\<close> drops the oldest ones), the
  item the consumer has taken is the oldest that has not left, at most \<open>n\<close> items are in the queue,
  all slots pass the verifier, and the two threads never access the same slot at the same time.
\<close>

theorem swap_queue_is_fifo:
  assumes "SwapQueue_new verifier n prototype = Inr q" and "0 < n" and "sq_reach verifier (sq_init q) s"
  shows "sent s = gone s @ contents (sq s) (cons s) \<and> length (contents (sq s) (cons s)) \<le> n \<and>
    (\<forall>x. cons s = CCount x \<longrightarrow> (\<exists>xs. sent s = gone s @ x # xs)) \<and>
    next_write_index (sq s) < n \<and> next_read_index (sq s) < n \<and> list_all verifier (slots (sq s)) \<and>
    (\<forall>x y. prod s = PSwap x \<and> cons s = CSwap y \<longrightarrow> next_write_index (sq s) \<noteq> next_read_index (sq s))"
proof -
  note new = sq_inv_new [OF assms(1,2)]
  have inv: "sq_inv verifier s" using assms(3) new(1) by (rule sq_inv_reach)
  have n: "length (slots (sq s)) = n" using sq_reach_length [OF assms(3)] new(2) by (simp add: sq_init_def)
  have "\<exists>xs. contents (sq s) (CCount x) = x # xs" for x by (simp add: contents_def)
  then have "\<forall>x. cons s = CCount x \<longrightarrow> (\<exists>xs. sent s = gone s @ x # xs)" using inv by (auto simp: sq_inv_def)
  then show ?thesis
    using inv n length_contents [of verifier "sq s" "cons s"] no_race [OF inv]
    by (simp add: sq_inv_def queue_ok_def)
qed

theorem swap_queue_is_fifo_witness:
  "\<exists>q s xs. SwapQueue_new (\<lambda>x :: nat. True) 2 0 = Inr q \<and> sq_reach (\<lambda>x. True) (sq_init q) s \<and>
     prod s = PAdvance 5 \<and> cons s = CCount 5 \<and> sent s = gone s @ 5 # xs"
proof -
  let ?v = "\<lambda>x :: nat. True"
  define q where "q = \<lparr>slots = [0, 0 :: nat], next_write_index = 0, next_read_index = 0, num_elements = 0\<rparr>"
  have new: "SwapQueue_new ?v 2 0 = Inr q"
    by (simp add: SwapQueue_new_def VerifyQueueSlots_def q_def numeral_2_eq_2)
  define s1 where "s1 = (sq_init q)\<lparr>prod := PSwap 5\<rparr>"
  define s2 where "s2 = s1\<lparr>sq := q\<lparr>slots := [5, 0]\<rparr>, prod := PCount 5\<rparr>"
  define s3 where "s3 = s2\<lparr>sq := q\<lparr>slots := [5, 0], num_elements := 1\<rparr>, sent := [5], prod := PAdvance 5\<rparr>"
  define s4 where "s4 = s3\<lparr>cons := CSwap 9\<rparr>"
  define s5 where "s5 = s4\<lparr>sq := q\<lparr>slots := [9, 0], num_elements := 1\<rparr>, cons := CCount 5\<rparr>"
  note d = s1_def s2_def s3_def s4_def s5_def q_def sq_init_def
  have "sq_step ?v (sq_init q) s1" unfolding s1_def by (rule call_insert) (simp_all add: d insert_full_def)
  moreover have "sq_step ?v s1 s2" unfolding s2_def by (rule insert_swap) (simp_all add: d insert_swap_def)
  moreover have "sq_step ?v s2 s3" using insert_count [of s2 5 ?v] by (simp add: d insert_count_def)
  moreover have "sq_step ?v s3 s4" unfolding s4_def by (rule call_remove) (simp_all add: d remove_empty_def)
  ultimately have "sq_reach ?v (sq_init q) s4" by (rule sq_reach_4)
  moreover have "sq_step ?v s4 s5" unfolding s5_def by (rule remove_swap) (simp_all add: d remove_swap_def)
  ultimately have r: "sq_reach ?v (sq_init q) s5" by (rule sq_reach.step)
  have "prod s5 = PAdvance 5" "cons s5 = CCount 5" by (simp_all add: d)
  moreover have "\<exists>xs. sent s5 = gone s5 @ 5 # xs"
    using swap_queue_is_fifo [OF new zero_less_numeral r] \<open>cons s5 = CCount 5\<close> by blast
  ultimately show ?thesis using new r by blast
qed

text \<open>Between calls the member functions are the operations of a bounded queue.\<close>

lemma sq_Insert_queue:
  assumes "sq_inv verifier s" and "prod s = PIdle" and "cons s = CIdle" and "verifier x"
  shows "\<exists>y q. sq_Insert verifier (Some x) (sq s) = Inr (num_elements (sq s) < length (slots (sq s)), y, q) \<and>
    contents q CIdle = (if num_elements (sq s) < length (slots (sq s)) then contents (sq s) CIdle @ [x]
      else contents (sq s) CIdle)"
proof (cases "num_elements (sq s) < length (slots (sq s))")
  case False
  then have "insert_full (sq s)" using assms(1) by (simp add: sq_inv_def queue_ok_def insert_full_def)
  with False assms(4) show ?thesis by (simp add: sq_Insert_def)
next
  case True
  obtain y q1 where sw: "insert_swap x (sq s) = (y, q1)" by (metis surj_pair)
  have i: "next_write_index (sq s) < length (slots (sq s))" using assms(1) by (simp add: sq_inv_def queue_ok_def)
  have run: "sq_Insert verifier (Some x) (sq s) = Inr (True, y, insert_advance (insert_count q1))"
    using True sw assms(4) i
    by (auto simp: sq_Insert_def insert_full_def Let_def insert_swap_def insert_count_def insert_advance_def)
  have "sq_inv verifier (s\<lparr>sq := insert_advance (insert_count q1), sent := sent s @ [x]\<rparr>)"
    using sq_inv_reach [OF Insert_runs [OF assms(2) run] assms(1)] .
  then have "contents (insert_advance (insert_count q1)) CIdle = contents (sq s) CIdle @ [x]"
    using assms(1,3) by (simp add: sq_inv_def)
  with run True show ?thesis by simp
qed

end
