(* ===== verification/Filters.thy ===== *)
theory Filters
  imports Prelude "HOL-Library.Multiset"
begin

section \<open>Filters over streams of samples\<close>

text \<open>
  \<^verbatim>\<open>rtc_base/numerics\<close>: \<^verbatim>\<open>moving_max_counter.h\<close>, \<^verbatim>\<open>percentile_filter.h\<close> and \<^verbatim>\<open>moving_median_filter.h\<close>.
  Times are mathematical integers. A \<^verbatim>\<open>std::multiset\<close> is its sorted list of elements; an iterator is a
  position in it, and a position outside it that is followed is the fault \<open>OutOfBounds\<close>. The product of
  the percentile and the size, computed in floating point, is the parameter \<open>target\<close>.
\<close>

subsection \<open>MovingMaxCounter\<close>

record 'a moving_max =
  window_length_ms :: int
  max_samples :: "(int \<times> 'a) list"
  last_call_time_ms :: int

definition moving_max_new :: "int \<Rightarrow> 'a moving_max" where
  "moving_max_new w = \<lparr>window_length_ms = w, max_samples = [], last_call_time_ms = - (2 ^ 63)\<rparr>"

text \<open>The loop over the obsolete samples at the front, and the one over dominated samples at the back.\<close>

fun skip_old :: "int \<Rightarrow> (int \<times> 'a) list \<Rightarrow> (int \<times> 'a) list" where
  "skip_old window_begin_ms [] = []"
| "skip_old window_begin_ms (s # ss) =
     (if fst s < window_begin_ms then skip_old window_begin_ms ss else s # ss)"

definition RollWindow :: "int \<Rightarrow> 'a moving_max \<Rightarrow> 'a moving_max res" where
  "RollWindow new_time_ms m =
     (if \<not> new_time_ms \<ge> last_call_time_ms m then Inl DcheckFailed
      else let m = m\<lparr>last_call_time_ms := new_time_ms\<rparr>;
               window_begin_ms = new_time_ms - window_length_ms m
           in Inr (m\<lparr>max_samples := skip_old window_begin_ms (max_samples m)\<rparr>))"

function pop_smaller :: "'a::linorder \<Rightarrow> (int \<times> 'a) list \<Rightarrow> (int \<times> 'a) list" where
  "pop_smaller sample ss =
     (if ss \<noteq> [] \<and> snd (last ss) \<le> sample then pop_smaller sample (butlast ss) else ss)"
  by pat_completeness auto

termination pop_smaller
  by (relation "measure (length \<circ> snd)") auto

declare pop_smaller.simps [simp del]

definition mm_Add :: "'a::linorder \<Rightarrow> int \<Rightarrow> 'a moving_max \<Rightarrow> 'a moving_max res" where
  "mm_Add sample current_time_ms m =
     res_bind (RollWindow current_time_ms m) (\<lambda>m.
       let ss = pop_smaller sample (max_samples m)
       in Inr (m\<lparr>max_samples :=
            (if ss = [] \<or> fst (last ss) < current_time_ms then ss @ [(current_time_ms, sample)] else ss)\<rparr>))"

definition mm_Max :: "int \<Rightarrow> 'a moving_max \<Rightarrow> ('a option \<times> 'a moving_max) res" where
  "mm_Max current_time_ms m =
     res_bind (RollWindow current_time_ms m) (\<lambda>m.
       Inr (if max_samples m \<noteq> [] then Some (snd (hd (max_samples m))) else None, m))"

definition mm_Reset :: "'a moving_max \<Rightarrow> 'a moving_max" where
  "mm_Reset m = m\<lparr>max_samples := []\<rparr>"

subsection \<open>PercentileFilter\<close>

record 'a percentile_filter =
  elems :: "'a list"
  percentile_it :: nat
  percentile_index :: int

definition percentile_new :: "'a percentile_filter" where
  "percentile_new = \<lparr>elems = [], percentile_it = 0, percentile_index = 0\<rparr>"

text \<open>
  \<^verbatim>\<open>set_.insert\<close> puts an element behind its equals; an iterator keeps to its element. \<open>it_deref\<close> reads
  through an iterator and \<open>it_advance\<close> moves it.
\<close>

definition upper_bound :: "'a::linorder \<Rightarrow> 'a list \<Rightarrow> nat" where
  "upper_bound x xs = length (takeWhile (\<lambda>y. y \<le> x) xs)"

definition lower_bound :: "'a::linorder \<Rightarrow> 'a list \<Rightarrow> nat" where
  "lower_bound x xs = length (takeWhile (\<lambda>y. y < x) xs)"

definition set_insert :: "'a::linorder \<Rightarrow> 'a percentile_filter \<Rightarrow> 'a percentile_filter" where
  "set_insert x f =
     (let u = upper_bound x (elems f)
      in f\<lparr>elems := take u (elems f) @ x # drop u (elems f),
           percentile_it := (if u \<le> percentile_it f then percentile_it f + 1 else percentile_it f)\<rparr>)"

definition set_erase :: "nat \<Rightarrow> 'a percentile_filter \<Rightarrow> 'a percentile_filter" where
  "set_erase l f =
     f\<lparr>elems := take l (elems f) @ drop (l + 1) (elems f),
       percentile_it := (if l < percentile_it f then percentile_it f - 1 else percentile_it f)\<rparr>"

definition it_deref :: "'a percentile_filter \<Rightarrow> 'a res" where
  "it_deref f = (if percentile_it f < length (elems f) then Inr (elems f ! percentile_it f) else Inl OutOfBounds)"

definition it_advance :: "int \<Rightarrow> 'a percentile_filter \<Rightarrow> 'a percentile_filter res" where
  "it_advance d f =
     (let p = int (percentile_it f) + d
      in if 0 \<le> p \<and> p \<le> int (length (elems f)) then Inr (f\<lparr>percentile_it := nat p\<rparr>) else Inl OutOfBounds)"

definition UpdatePercentileIterator ::
  "(nat \<Rightarrow> nat) \<Rightarrow> 'a percentile_filter \<Rightarrow> 'a percentile_filter res" where
  "UpdatePercentileIterator target f =
     (if elems f = [] then Inr f
      else let index = int (target (length (elems f)))
           in res_bind (it_advance (index - percentile_index f) f) (\<lambda>f. Inr (f\<lparr>percentile_index := index\<rparr>)))"

definition pf_Insert ::
  "(nat \<Rightarrow> nat) \<Rightarrow> 'a::linorder \<Rightarrow> 'a percentile_filter \<Rightarrow> 'a percentile_filter res" where
  "pf_Insert target x f =
     (let f = set_insert x f in
      res_bind
        (if length (elems f) = 1 then Inr (f\<lparr>percentile_it := 0, percentile_index := 0\<rparr>)
         else res_bind (it_deref f) (\<lambda>y.
           Inr (if x < y then f\<lparr>percentile_index := percentile_index f + 1\<rparr> else f)))
        (UpdatePercentileIterator target))"

definition pf_Erase ::
  "(nat \<Rightarrow> nat) \<Rightarrow> 'a::linorder \<Rightarrow> 'a percentile_filter \<Rightarrow> (bool \<times> 'a percentile_filter) res" where
  "pf_Erase target x f =
     (let l = lower_bound x (elems f) in
      if l = length (elems f) \<or> elems f ! l \<noteq> x then Inr (False, f)
      else res_bind
        (if l = percentile_it f then Inr (set_erase l f)
         else let f = set_erase l f in
           res_bind (it_deref f) (\<lambda>y.
             Inr (if x \<le> y then f\<lparr>percentile_index := percentile_index f - 1\<rparr> else f)))
        (\<lambda>f. res_bind (UpdatePercentileIterator target f) (\<lambda>f. Inr (True, f))))"

definition GetPercentileValue :: "'a::zero percentile_filter \<Rightarrow> 'a res" where
  "GetPercentileValue f = (if elems f = [] then Inr 0 else it_deref f)"

definition pf_Reset :: "'a percentile_filter \<Rightarrow> 'a percentile_filter" where
  "pf_Reset f = f\<lparr>elems := [], percentile_it := 0, percentile_index := 0\<rparr>"

subsection \<open>MovingMedianFilter\<close>

record 'a median_filter =
  filter_of :: "'a percentile_filter"
  med_samples :: "'a list"
  samples_stored :: nat
  window_size :: nat

definition median_new :: "nat \<Rightarrow> 'a median_filter res" where
  "median_new w =
     (if w > 0 then Inr \<lparr>filter_of = percentile_new, med_samples = [], samples_stored = 0, window_size = w\<rparr>
      else Inl DcheckFailed)"

definition med_Insert ::
  "(nat \<Rightarrow> nat) \<Rightarrow> 'a::linorder \<Rightarrow> 'a median_filter \<Rightarrow> 'a median_filter res" where
  "med_Insert target x m =
     res_bind (pf_Insert target x (filter_of m)) (\<lambda>f.
       let m = m\<lparr>filter_of := f, med_samples := med_samples m @ [x], samples_stored := samples_stored m + 1\<rparr>
       in if samples_stored m > window_size m
          then res_bind (pf_Erase target (hd (med_samples m)) (filter_of m)) (\<lambda>(b, f).
            Inr (m\<lparr>filter_of := f, med_samples := tl (med_samples m), samples_stored := samples_stored m - 1\<rparr>))
          else Inr m)"

definition GetFilteredValue :: "'a::zero median_filter \<Rightarrow> 'a res" where
  "GetFilteredValue m = GetPercentileValue (filter_of m)"

definition med_Reset :: "'a median_filter \<Rightarrow> 'a median_filter" where
  "med_Reset m = m\<lparr>filter_of := pf_Reset (filter_of m), med_samples := [], samples_stored := 0\<rparr>"

definition GetNumberOfSamplesStored :: "'a median_filter \<Rightarrow> nat" where
  "GetNumberOfSamplesStored m = samples_stored m"

subsection \<open>Lemmas: the moving maximum\<close>

text \<open>Times rise and samples fall strictly; every sample of the window is below a later one that is kept.\<close>

abbreviation kept :: "(int \<times> 'a::linorder) list \<Rightarrow> bool" where
  "kept ss \<equiv> sorted_wrt (\<lambda>s s'. fst s < fst s' \<and> snd s' < snd s) ss"

definition covered :: "(int \<times> 'a::linorder) set \<Rightarrow> int \<times> 'a \<Rightarrow> bool" where
  "covered S s \<longleftrightarrow> (\<exists>s'\<in>S. fst s \<le> fst s' \<and> snd s \<le> snd s')"

definition mm_inv :: "int \<Rightarrow> (int \<times> 'a::linorder) set \<Rightarrow> 'a moving_max \<Rightarrow> bool" where
  "mm_inv w H m \<longleftrightarrow> window_length_ms m = w \<and> kept (max_samples m) \<and> set (max_samples m) \<subseteq> H \<and>
     (\<forall>s\<in>H. fst s \<le> last_call_time_ms m \<and>
       (last_call_time_ms m - w \<le> fst s \<longrightarrow> covered (set (max_samples m)) s))"

lemma skip_old_filter: "kept ss \<Longrightarrow> skip_old b ss = filter (\<lambda>s. b \<le> fst s) ss"
  by (induction b ss rule: skip_old.induct) (auto intro!: filter_True [symmetric])

lemma kept_filter: "kept ss \<Longrightarrow> kept (filter P ss)"
  by (rule sorted_wrt_filter)

lemma RollWindow_inv:
  assumes "mm_inv w H m" and "last_call_time_ms m \<le> t"
  obtains m' where "RollWindow t m = Inr m'" and "mm_inv w H m'" and "last_call_time_ms m' = t"
    and "\<forall>s\<in>set (max_samples m'). t - w \<le> fst s"
proof -
  let ?m = "m\<lparr>last_call_time_ms := t, max_samples := filter (\<lambda>s. t - w \<le> fst s) (max_samples m)\<rparr>"
  have "RollWindow t m = Inr ?m"
    using assms by (simp add: RollWindow_def Let_def mm_inv_def skip_old_filter)
  moreover have "mm_inv w H ?m"
    unfolding mm_inv_def
  proof (intro conjI ballI impI)
    fix s
    assume s: "s \<in> H"
    then show "fst s \<le> last_call_time_ms ?m" using assms by (auto simp: mm_inv_def)
    assume "last_call_time_ms ?m - w \<le> fst s"
    then have b: "t - w \<le> fst s" by simp
    then have "covered (set (max_samples m)) s" using assms s by (auto simp: mm_inv_def)
    then show "covered (set (max_samples ?m)) s" using b by (force simp: covered_def)
  qed (use assms in \<open>auto simp: mm_inv_def kept_filter\<close>)
  ultimately show thesis by (rule that) simp_all
qed

lemma pop_smaller_props:
  assumes "kept ss"
  shows "\<exists>us vs. ss = us @ vs \<and> pop_smaller x ss = us \<and> (\<forall>v\<in>set vs. snd v \<le> x) \<and> (us \<noteq> [] \<longrightarrow> x < snd (last us))"
  using assms
proof (induction x ss rule: pop_smaller.induct)
  case (1 x ss)
  show ?case
  proof (cases "ss \<noteq> [] \<and> snd (last ss) \<le> x")
    case True
    then have ss: "ss = butlast ss @ [last ss]" by simp
    have "kept (butlast ss @ [last ss])" using 1(2) ss by (rule back_subst)
    then have "kept (butlast ss)" by (simp only: sorted_wrt_append)
    then obtain us vs where u: "butlast ss = us @ vs" "pop_smaller x (butlast ss) = us"
      "\<forall>v\<in>set vs. snd v \<le> x" "us \<noteq> [] \<longrightarrow> x < snd (last us)"
      using 1(1) True by blast
    have "ss = us @ (vs @ [last ss])" using ss u(1) by simp
    moreover have "pop_smaller x ss = us" using True u(2) by (simp add: pop_smaller.simps [of x ss])
    ultimately show ?thesis using u(3,4) True by (intro exI [of _ us] exI [of _ "vs @ [last ss]"]) auto
  next
    case False
    then show ?thesis by (intro exI [of _ ss] exI [of _ "[]"]) (auto simp: pop_smaller.simps [of x ss])
  qed
qed

lemma kept_snoc: "kept (us @ [s]) \<longleftrightarrow> kept us \<and> (\<forall>u\<in>set us. fst u < fst s \<and> snd s < snd u)"
  by (auto simp: sorted_wrt_append)

lemma kept_last:
  assumes "kept us" and "u \<in> set us"
  shows "fst u \<le> fst (last us) \<and> snd (last us) \<le> snd u"
proof -
  have e: "us = butlast us @ [last us]" using assms(2) by (cases us) simp_all
  then have "kept (butlast us @ [last us])" using assms(1) by simp
  moreover have "u = last us \<or> u \<in> set (butlast us)" using assms(2) e by (metis in_set_conv_decomp_last Un_iff empty_iff empty_set set_ConsD set_append)
  ultimately show ?thesis unfolding kept_snoc by auto
qed

lemma mm_Add_inv:
  assumes "mm_inv w H m" and "last_call_time_ms m \<le> t"
  obtains m' where "mm_Add x t m = Inr m'" and "mm_inv w (insert (t, x) H) m'"
proof -
  obtain m1 where m1: "RollWindow t m = Inr m1" "mm_inv w H m1" "last_call_time_ms m1 = t"
    using RollWindow_inv [OF assms] by blast
  have kept: "kept (max_samples m1)" using m1(2) by (simp add: mm_inv_def)
  obtain us vs where u: "max_samples m1 = us @ vs" "pop_smaller x (max_samples m1) = us"
    "\<forall>v\<in>set vs. snd v \<le> x" "us \<noteq> [] \<longrightarrow> x < snd (last us)"
    using pop_smaller_props [OF kept] by blast
  define new where "new = (if us = [] \<or> fst (last us) < t then us @ [(t, x)] else us)"
  have run: "mm_Add x t m = Inr (m1\<lparr>max_samples := new\<rparr>)"
    unfolding mm_Add_def m1(1) by (simp add: Let_def u(2) new_def)
  have ku: "kept us" using kept unfolding u(1) by (simp add: sorted_wrt_append)
  have le: "fst s \<le> t" if "s \<in> set us \<union> set vs" for s
    using m1(2,3) that u(1) by (auto simp: mm_inv_def)
  have kn: "kept new"
  proof (cases "us = [] \<or> fst (last us) < t")
    case True
    then have "fst s < t \<and> x < snd s" if "s \<in> set us" for s
      using kept_last [OF ku that] u(4) that by fastforce
    then show ?thesis using ku unfolding new_def if_P [OF True] kept_snoc by simp
  qed (simp add: new_def ku)
  have top: "\<exists>s\<in>set new. t \<le> fst s \<and> x \<le> snd s"
    using u(4) by (auto simp: new_def intro!: bexI [of _ "last us"])
  have keep: "covered (set new) s" if c: "covered (set (max_samples m1)) s" for s
  proof -
    obtain s' where s': "s' \<in> set us \<union> set vs" "fst s \<le> fst s'" "snd s \<le> snd s'"
      using c u(1) by (force simp: covered_def)
    show ?thesis
    proof (cases "s' \<in> set us")
      case True
      then show ?thesis using s' by (auto simp: covered_def new_def)
    next
      case False
      then have "snd s' \<le> x" "fst s' \<le> t" using s'(1) u(3) le by auto
      then show ?thesis unfolding covered_def using top s'(2,3) by (meson order_trans)
    qed
  qed
  have "mm_inv w (insert (t, x) H) (m1\<lparr>max_samples := new\<rparr>)"
    using m1(2,3) kn keep top u(1) by (auto simp: mm_inv_def covered_def new_def)
  with run show thesis by (rule that)
qed

text \<open>The samples in the window that ends at \<open>t\<close>.\<close>

definition in_window :: "int \<Rightarrow> int \<Rightarrow> (int \<times> 'a) set \<Rightarrow> 'a set" where
  "in_window w t H = {x. \<exists>s. t - w \<le> s \<and> (s, x) \<in> H}"

lemma mm_Max_value:
  assumes "mm_inv w H m" and "finite H" and "last_call_time_ms m \<le> t"
  obtains m' where "mm_Max t m = Inr (if in_window w t H = {} then None else Some (Max (in_window w t H)), m')"
    and "mm_inv w H m'"
proof -
  obtain m1 where m1: "RollWindow t m = Inr m1" "mm_inv w H m1" "last_call_time_ms m1 = t"
    "\<forall>s\<in>set (max_samples m1). t - w \<le> fst s"
    using RollWindow_inv [OF assms(1,3)] by blast
  have fin: "finite (in_window w t H)"
    by (rule finite_subset [of _ "snd ` H"]) (use assms(2) in \<open>force simp: in_window_def\<close>)+
  have cov: "covered (set (max_samples m1)) (s, x)" if "t - w \<le> s" "(s, x) \<in> H" for s x
    using m1(2,3) that by (auto simp: mm_inv_def)
  have "(if max_samples m1 \<noteq> [] then Some (snd (hd (max_samples m1))) else None)
      = (if in_window w t H = {} then None else Some (Max (in_window w t H)))"
  proof (cases "max_samples m1")
    case Nil
    then have "in_window w t H = {}" using cov by (auto simp: in_window_def covered_def)
    then show ?thesis using Nil by simp
  next
    case (Cons h ss)
    then have "kept (h # ss)" "h \<in> H" "t - w \<le> fst h" using m1(2,4) by (auto simp: mm_inv_def)
    then have h: "snd h \<in> in_window w t H" "\<forall>s\<in>set (max_samples m1). snd s \<le> snd h"
      using Cons by (auto simp: in_window_def intro: exI [of _ "fst h"])
    have "x \<le> snd h" if "x \<in> in_window w t H" for x
      using that cov h(2) by (fastforce simp: in_window_def covered_def)
    then have "Max (in_window w t H) = snd h" using fin h(1) by (intro Max_eqI) simp_all
    then show ?thesis using Cons h(1) by auto
  qed
  then show thesis using that m1 by (simp add: mm_Max_def)
qed

text \<open>A counter and the samples added since it was made or reset.\<close>

inductive mm_reach :: "int \<Rightarrow> (int \<times> 'a::linorder) set \<Rightarrow> 'a moving_max \<Rightarrow> bool" for w where
  mm_start: "mm_reach w {} (moving_max_new w)"
| mm_add: "mm_reach w H m \<Longrightarrow> mm_Add x t m = Inr m' \<Longrightarrow> mm_reach w (insert (t, x) H) m'"
| mm_get: "mm_reach w H m \<Longrightarrow> mm_Max t m = Inr (r, m') \<Longrightarrow> mm_reach w H m'"
| mm_reset: "mm_reach w H m \<Longrightarrow> mm_reach w {} (mm_Reset m)"

lemma mm_reach_inv: "mm_reach w H m \<Longrightarrow> mm_inv w H m \<and> finite H"
proof (induction rule: mm_reach.induct)
  case (mm_add H m x t m')
  then have "last_call_time_ms m \<le> t" by (auto simp: mm_Add_def RollWindow_def split: if_splits)
  then show ?case using mm_add mm_Add_inv [of w H m t x] by auto
next
  case (mm_get H m t r m')
  then have "last_call_time_ms m \<le> t" by (auto simp: mm_Max_def RollWindow_def split: if_splits)
  then show ?case using mm_get mm_Max_value [of w H m t] by auto
qed (auto simp: mm_inv_def moving_max_new_def mm_Reset_def)

subsection \<open>Lemmas: percentiles\<close>

text \<open>
  The elements are sorted, and between calls the iterator and the index agree on the target.
\<close>

definition pf_inv :: "(nat \<Rightarrow> nat) \<Rightarrow> 'a::linorder percentile_filter \<Rightarrow> bool" where
  "pf_inv target f \<longleftrightarrow> sorted (elems f) \<and>
     (elems f \<noteq> [] \<longrightarrow> percentile_it f = target (length (elems f)) \<and> percentile_index f = int (percentile_it f))"

definition target_ok :: "(nat \<Rightarrow> nat) \<Rightarrow> bool" where
  "target_ok target \<longleftrightarrow> (\<forall>n>0. target n < n)"

lemma upper_bound_split:
  assumes "sorted xs"
  shows "upper_bound x xs \<le> length xs" and "\<And>y. y \<in> set (take (upper_bound x xs) xs) \<Longrightarrow> y \<le> x"
    and "\<And>y. y \<in> set (drop (upper_bound x xs) xs) \<Longrightarrow> x < y"
proof -
  show "upper_bound x xs \<le> length xs" by (simp add: upper_bound_def length_takeWhile_le)
  have t: "take (upper_bound x xs) xs = takeWhile (\<lambda>y. y \<le> x) xs"
    and d: "drop (upper_bound x xs) xs = dropWhile (\<lambda>y. y \<le> x) xs"
    by (simp_all add: upper_bound_def takeWhile_eq_take [symmetric] dropWhile_eq_drop [symmetric])
  show "y \<le> x" if "y \<in> set (take (upper_bound x xs) xs)" for y
    using that set_takeWhileD unfolding t by fastforce
  show "x < y" if "y \<in> set (drop (upper_bound x xs) xs)" for y
    using that assms unfolding d by (induction xs) (auto split: if_splits)
qed

lemma upper_bound_less:
  assumes "sorted xs" and "i < length xs"
  shows "x < xs ! i \<longleftrightarrow> upper_bound x xs \<le> i"
proof
  assume lt: "x < xs ! i"
  show "upper_bound x xs \<le> i"
  proof (rule ccontr)
    assume "\<not> upper_bound x xs \<le> i"
    then have "xs ! i \<in> set (take (upper_bound x xs) xs)"
      using assms(2) by (auto simp: in_set_conv_nth intro!: exI [of _ i])
    then show False using upper_bound_split(2) [OF assms(1)] lt by fastforce
  qed
next
  assume le: "upper_bound x xs \<le> i"
  then have "xs ! i = drop (upper_bound x xs) xs ! (i - upper_bound x xs)"
    "i - upper_bound x xs < length (drop (upper_bound x xs) xs)"
    using assms(2) by simp_all
  then have "xs ! i \<in> set (drop (upper_bound x xs) xs)" using nth_mem by metis
  then show "x < xs ! i" by (rule upper_bound_split(3) [OF assms(1)])
qed

lemma lower_bound_split:
  assumes "sorted xs" and "x \<in> set xs"
  shows "lower_bound x xs < length xs" and "xs ! lower_bound x xs = x"
    and "\<And>k. k < lower_bound x xs \<Longrightarrow> xs ! k < x"
proof -
  have "\<not> (\<forall>y\<in>set xs. y < x)" using assms(2) by blast
  then show l: "lower_bound x xs < length xs"
    unfolding lower_bound_def by (induction xs) auto
  then have "\<not> xs ! lower_bound x xs < x"
    unfolding lower_bound_def by (rule nth_length_takeWhile)
  moreover show lt: "xs ! k < x" if "k < lower_bound x xs" for k
    using that unfolding lower_bound_def by (metis nth_mem set_takeWhileD takeWhile_nth)
  obtain i where i: "i < length xs" "xs ! i = x" using assms(2) by (auto simp: in_set_conv_nth)
  have "lower_bound x xs \<le> i" using lt [of i] i by (metis less_irrefl not_le)
  then have "xs ! lower_bound x xs \<le> x" using sorted_nth_mono [OF assms(1) _ i(1)] i(2) by blast
  ultimately show "xs ! lower_bound x xs = x" by simp
qed

lemma lower_bound_missing: "sorted xs \<Longrightarrow> x \<notin> set xs \<Longrightarrow> lower_bound x xs = length xs \<or> xs ! lower_bound x xs \<noteq> x"
  by (metis le_neq_implies_less length_takeWhile_le lower_bound_def nth_mem)

lemma Update_value:
  assumes "target_ok target" and "elems f \<noteq> []" and "percentile_index f = int (percentile_it f)"
  shows "UpdatePercentileIterator target f
    = Inr (f\<lparr>percentile_it := target (length (elems f)), percentile_index := int (target (length (elems f)))\<rparr>)"
proof -
  have "target (length (elems f)) < length (elems f)" using assms(1,2) by (simp add: target_ok_def)
  then show ?thesis
    using assms(2,3) by (simp add: UpdatePercentileIterator_def it_advance_def Let_def)
qed

lemma pf_Insert_inv:
  assumes "target_ok target" and "pf_inv target f"
  obtains f' where "pf_Insert target x f = Inr f'" and "pf_inv target f'" and "mset (elems f') = add_mset x (mset (elems f))"
proof -
  define u where "u = upper_bound x (elems f)"
  define xs where "xs = take u (elems f) @ x # drop u (elems f)"
  have so: "sorted (elems f)" using assms(2) by (simp add: pf_inv_def)
  note ub = upper_bound_split [OF so, where x = x, folded u_def]
  have "sorted (take u (elems f) @ drop u (elems f))" using so by simp
  then have sx: "sorted xs"
    unfolding xs_def sorted_append using ub(2,3) by (auto intro: less_imp_le order_trans)
  have "mset xs = add_mset x (mset (take u (elems f) @ drop u (elems f)))"
    unfolding xs_def by (simp only: mset_append mset.simps union_mset_add_mset_right)
  then have mx: "mset xs = add_mset x (mset (elems f))" by (simp only: append_take_drop_id)
  have upd: "UpdatePercentileIterator target g = Inr (g\<lparr>percentile_it := target (length xs), percentile_index := int (target (length xs))\<rparr>)"
    if "elems g = xs" "percentile_index g = int (percentile_it g)" for g
    using Update_value [OF assms(1), of g] that by (simp add: xs_def)
  have "\<exists>g. elems g = xs \<and> pf_Insert target x f = UpdatePercentileIterator target g \<and>
      percentile_index g = int (percentile_it g)"
  proof (cases "elems f = []")
    case True
    then show ?thesis
      by (intro exI [of _ "f\<lparr>elems := xs, percentile_it := 0, percentile_index := 0\<rparr>"])
        (simp add: pf_Insert_def set_insert_def Let_def u_def [symmetric] xs_def)
  next
    case False
    let ?i = "percentile_it f"
    have i: "?i < length (elems f)" "percentile_index f = int ?i"
      using assms False by (simp_all add: pf_inv_def target_ok_def)
    define j where "j = (if u \<le> ?i then ?i + 1 else ?i)"
    have at: "xs ! j = elems f ! ?i" "j < length xs"
      using i(1) ub(1) by (auto simp: xs_def j_def nth_append Suc_diff_le)
    have "x < xs ! j \<longleftrightarrow> u \<le> ?i"
      unfolding at(1) u_def by (rule upper_bound_less [OF so i(1)])
    moreover have "set_insert x f = f\<lparr>elems := xs, percentile_it := j\<rparr>"
      by (simp add: set_insert_def Let_def u_def [symmetric] xs_def j_def)
    moreover have "length xs \<noteq> 1" using False ub(1) by (simp add: xs_def)
    ultimately have "pf_Insert target x f = UpdatePercentileIterator target
        (if u \<le> ?i then f\<lparr>elems := xs, percentile_it := j, percentile_index := percentile_index f + 1\<rparr>
         else f\<lparr>elems := xs, percentile_it := j\<rparr>)"
      using at(2) by (simp add: pf_Insert_def Let_def it_deref_def)
    then show ?thesis
      using i(2) by (intro exI [of _ "if u \<le> ?i then f\<lparr>elems := xs, percentile_it := j,
        percentile_index := percentile_index f + 1\<rparr> else f\<lparr>elems := xs, percentile_it := j\<rparr>"]) (simp add: j_def)
  qed
  then obtain g where "elems g = xs" "pf_Insert target x f = UpdatePercentileIterator target g"
    "percentile_index g = int (percentile_it g)" by blast
  with upd have "pf_Insert target x f = Inr (g\<lparr>percentile_it := target (length xs), percentile_index := int (target (length xs))\<rparr>)"
    by simp
  then show thesis
    using \<open>elems g = xs\<close> sx mx by (elim that) (simp_all add: pf_inv_def)
qed

lemma pf_Erase_inv:
  assumes "target_ok target" and "pf_inv target f" and "x \<in> set (elems f)"
  obtains f' where "pf_Erase target x f = Inr (True, f')" and "pf_inv target f'"
    and "mset (elems f') = mset (elems f) - {#x#}"
proof -
  define l where "l = lower_bound x (elems f)"
  define xs where "xs = take l (elems f) @ drop (l + 1) (elems f)"
  have so: "sorted (elems f)" and ne: "elems f \<noteq> []" using assms(2,3) by (auto simp: pf_inv_def)
  note lb = lower_bound_split [OF so assms(3), folded l_def]
  have e: "elems f = take l (elems f) @ x # drop (l + 1) (elems f)"
    using id_take_nth_drop [OF lb(1)] lb(2) by simp
  then have "mset (elems f) = add_mset x (mset xs)" unfolding xs_def by (metis mset_append mset.simps(2) union_mset_add_mset_right)
  then have mx: "mset xs = mset (elems f) - {#x#}" by simp
  have sx: "sorted xs"
    using so unfolding xs_def by (subst (asm) e) (auto simp: sorted_append)
  let ?i = "percentile_it f"
  have i: "?i < length (elems f)" "percentile_index f = int ?i"
    using assms ne by (simp_all add: pf_inv_def target_ok_def)
  define j where "j = (if l < ?i then ?i - 1 else ?i)"
  have len: "length xs = length (elems f) - 1" using lb(1) by (simp add: xs_def)
  have "\<exists>g. elems g = xs \<and> percentile_index g = int (percentile_it g) \<and>
      pf_Erase target x f = res_bind (UpdatePercentileIterator target g) (\<lambda>f. Inr (True, f))"
  proof (cases "l = ?i")
    case True
    then show ?thesis
      using lb i by (intro exI [of _ "f\<lparr>elems := xs\<rparr>"])
        (simp add: pf_Erase_def Let_def l_def [symmetric] set_erase_def xs_def)
  next
    case False
    then have j: "j < length xs" "xs ! j = elems f ! ?i"
      using i(1) lb(1) len by (auto simp: j_def xs_def nth_append)
    have "x \<le> xs ! j \<longleftrightarrow> l < ?i"
    proof (cases "l < ?i")
      case True
      then show ?thesis using sorted_nth_mono [OF so, of l ?i] i(1) lb(2) j(2) by simp
    next
      case False
      then show ?thesis using lb(3) [of ?i] \<open>l \<noteq> ?i\<close> j(2) by (simp add: not_le [symmetric])
    qed
    moreover have "set_erase l f = f\<lparr>elems := xs, percentile_it := j\<rparr>"
      by (simp add: set_erase_def xs_def j_def)
    ultimately have "pf_Erase target x f = res_bind (UpdatePercentileIterator target
        (if l < ?i then f\<lparr>elems := xs, percentile_it := j, percentile_index := percentile_index f - 1\<rparr>
         else f\<lparr>elems := xs, percentile_it := j\<rparr>)) (\<lambda>f. Inr (True, f))"
      using lb(1,2) False j(1) by (simp add: pf_Erase_def Let_def l_def [symmetric] it_deref_def)
    then show ?thesis
      using i(2) by (intro exI [of _ "if l < ?i then f\<lparr>elems := xs, percentile_it := j,
        percentile_index := percentile_index f - 1\<rparr> else f\<lparr>elems := xs, percentile_it := j\<rparr>"])
        (simp add: j_def of_nat_diff)
  qed
  then obtain g where g: "elems g = xs" "percentile_index g = int (percentile_it g)"
    "pf_Erase target x f = res_bind (UpdatePercentileIterator target g) (\<lambda>f. Inr (True, f))" by blast
  show thesis
  proof (cases "xs = []")
    case True
    then show thesis
      using that [of g] g mx by (simp add: UpdatePercentileIterator_def pf_inv_def)
  next
    case False
    then show thesis
      using that [of "g\<lparr>percentile_it := target (length xs), percentile_index := int (target (length xs))\<rparr>"]
        Update_value [OF assms(1), of g] g sx mx by (simp add: pf_inv_def)
  qed
qed

lemma pf_Erase_missing:
  "pf_inv target f \<Longrightarrow> x \<notin> set (elems f) \<Longrightarrow> pf_Erase target x f = Inr (False, f)"
  using lower_bound_missing [of "elems f" x] by (simp add: pf_Erase_def Let_def pf_inv_def)

lemma GetPercentileValue_value:
  assumes "target_ok target" and "pf_inv target f"
  shows "GetPercentileValue f = Inr (if elems f = [] then 0
    else sorted_list_of_multiset (mset (elems f)) ! target (length (elems f)))"
proof -
  have "sorted_list_of_multiset (mset (elems f)) = elems f"
    using assms(2) by (simp add: pf_inv_def sorted_sort_id)
  then show ?thesis
    using assms by (simp add: GetPercentileValue_def it_deref_def pf_inv_def target_ok_def)
qed

subsection \<open>Lemmas: the moving median\<close>

definition med_inv :: "(nat \<Rightarrow> nat) \<Rightarrow> nat \<Rightarrow> 'a::linorder list \<Rightarrow> 'a median_filter \<Rightarrow> bool" where
  "med_inv target w xs m \<longleftrightarrow> pf_inv target (filter_of m) \<and> mset (elems (filter_of m)) = mset (med_samples m) \<and>
     med_samples m = drop (length xs - w) xs \<and> samples_stored m = length (med_samples m) \<and>
     window_size m = w \<and> 0 < w"

lemma med_Insert_inv:
  assumes "target_ok target" and "med_inv target w xs m"
  obtains m' where "med_Insert target x m = Inr m'" and "med_inv target w (xs @ [x]) m'"
proof -
  have inv: "pf_inv target (filter_of m)" "mset (elems (filter_of m)) = mset (med_samples m)"
    "med_samples m = drop (length xs - w) xs" "samples_stored m = length (med_samples m)" "window_size m = w" "0 < w"
    using assms(2) by (simp_all add: med_inv_def)
  obtain f where f: "pf_Insert target x (filter_of m) = Inr f" "pf_inv target f"
    "mset (elems f) = add_mset x (mset (elems (filter_of m)))"
    using pf_Insert_inv [OF assms(1) inv(1)] by blast
  define ys where "ys = med_samples m @ [x]"
  have ms: "mset (elems f) = mset ys" using f(3) inv(2) by (simp add: ys_def)
  show thesis
  proof (cases "length ys > w")
    case False
    let ?m = "m\<lparr>filter_of := f, med_samples := ys, samples_stored := samples_stored m + 1\<rparr>"
    have "med_Insert target x m = Inr ?m"
      using f(1) False inv(4,5) by (simp add: med_Insert_def Let_def ys_def)
    moreover have "med_inv target w (xs @ [x]) ?m"
      using False f(2) ms inv by (simp add: med_inv_def ys_def)
    ultimately show thesis by (rule that)
  next
    case True
    have hd: "ys = hd ys # tl ys" by (simp add: ys_def)
    then have "hd ys \<in> set (elems f)" using ms by (metis list.set_intros(1) set_mset_mset)
    then obtain g where g: "pf_Erase target (hd ys) f = Inr (True, g)" "pf_inv target g"
      "mset (elems g) = mset (elems f) - {#hd ys#}"
      using pf_Erase_inv [OF assms(1) f(2)] by blast
    let ?m = "m\<lparr>filter_of := g, med_samples := tl ys, samples_stored := samples_stored m\<rparr>"
    have "med_Insert target x m = Inr ?m"
      using f(1) g(1) True inv(4,5) by (simp add: med_Insert_def Let_def ys_def)
    moreover have "mset (elems g) = mset (tl ys)"
      using g(3) ms hd by (metis add_mset_remove_trivial mset.simps(2))
    moreover have "tl ys = drop (length (xs @ [x]) - w) (xs @ [x])"
    proof -
      have "w \<le> length xs" "drop (length xs - w) xs \<noteq> []" using True inv(3,6) by (auto simp: ys_def)
      then show ?thesis using inv(3,6) by (simp add: ys_def tl_append2 tl_drop drop_Suc Suc_diff_le)
    qed
    moreover have "samples_stored m = length (tl ys)" using inv(4) by (simp add: ys_def)
    ultimately show thesis
      using that [of ?m] g(2) inv(5,6) by (simp add: med_inv_def)
  qed
qed

fun med_feed :: "(nat \<Rightarrow> nat) \<Rightarrow> 'a::linorder list \<Rightarrow> 'a median_filter \<Rightarrow> 'a median_filter res" where
  "med_feed target [] m = Inr m"
| "med_feed target (x # xs) m = res_bind (med_Insert target x m) (med_feed target xs)"

lemma med_feed_inv:
  assumes "target_ok target" and "med_inv target w ys m"
  shows "\<exists>m'. med_feed target xs m = Inr m' \<and> med_inv target w (ys @ xs) m'"
  using assms(2)
proof (induction xs arbitrary: ys m)
  case (Cons x xs)
  obtain m1 where "med_Insert target x m = Inr m1" "med_inv target w (ys @ [x]) m1"
    using med_Insert_inv [OF assms(1) Cons.prems] by blast
  then show ?case using Cons.IH [of "ys @ [x]" m1] by simp
qed simp

subsection \<open>Properties\<close>

text \<open>
  C25. Whatever samples were added, and whenever the maximum was asked for or the counter reset, \<^verbatim>\<open>Max\<close>
  returns the greatest of the samples added since in the window that ends now, and nothing when there
  is none, although the counter keeps only a falling sequence of them.
\<close>

theorem moving_max_is_window_max:
  assumes "mm_reach w H m" and "last_call_time_ms m \<le> t"
  shows "\<exists>m'. mm_Max t m = Inr (if in_window w t H = {} then None else Some (Max (in_window w t H)), m')"
  using mm_reach_inv [OF assms(1)] mm_Max_value [of w H m t] assms(2) by metis

theorem moving_max_is_window_max_witness:
  "\<exists>m m'. mm_reach 10 {(7, 4), (1, 9 :: nat)} m \<and> mm_Max 12 m = Inr (Some 4, m')"
proof -
  define m1 where "m1 = \<lparr>window_length_ms = 10, max_samples = [(1, 9 :: nat)], last_call_time_ms = 1\<rparr>"
  define m2 where "m2 = \<lparr>window_length_ms = 10, max_samples = [(1, 9 :: nat), (7, 4)], last_call_time_ms = 7\<rparr>"
  have "mm_Add 9 1 (moving_max_new 10) = Inr m1"
    by (simp add: mm_Add_def RollWindow_def moving_max_new_def Let_def pop_smaller.simps m1_def)
  then have "mm_reach 10 {(1, 9)} m1" by (rule mm_add [OF mm_start])
  moreover have "mm_Add 4 7 m1 = Inr m2"
    by (simp add: mm_Add_def RollWindow_def Let_def pop_smaller.simps m1_def m2_def)
  ultimately have r: "mm_reach 10 {(7, 4), (1, 9)} m2" by (rule mm_add)
  have win: "in_window 10 12 {(7, 4), (1, 9 :: nat)} = {4}" by (auto simp: in_window_def)
  have "last_call_time_ms m2 \<le> 12" by (simp add: m2_def)
  from moving_max_is_window_max [OF r this] r show ?thesis unfolding win by auto
qed

text \<open>
  The moving median filter, with a window of \<open>w\<close> samples, returns the element at the target index of
  the sorted list of the last \<open>w\<close> samples (zero when there are none); no iterator leaves the set on the
  way, and no more than \<open>w\<close> samples are stored.
\<close>

theorem moving_median_of_window:
  fixes xs :: "'a::{linorder,zero} list"
  assumes "target_ok target" and "0 < w"
  shows "\<exists>m0 m. median_new w = Inr m0 \<and> med_feed target xs m0 = Inr m \<and>
    GetFilteredValue m = Inr (if xs = [] then 0
      else sort (drop (length xs - w) xs) ! target (min w (length xs))) \<and>
    GetNumberOfSamplesStored m = min w (length xs)"
proof -
  define m0 :: "'a median_filter" where
    "m0 = \<lparr>filter_of = percentile_new, med_samples = [], samples_stored = 0, window_size = w\<rparr>"
  have new: "median_new w = Inr m0" "med_inv target w [] m0"
    using assms(2) by (simp_all add: median_new_def m0_def med_inv_def percentile_new_def pf_inv_def)
  obtain m where m: "med_feed target xs m0 = Inr m" "med_inv target w xs m"
    using med_feed_inv [OF assms(1) new(2), of xs] by auto
  define ys where "ys = drop (length xs - w) xs"
  have len: "length ys = min w (length xs)" by (auto simp: ys_def)
  have inv: "pf_inv target (filter_of m)" "mset (elems (filter_of m)) = mset ys" "samples_stored m = length ys"
    using m(2) by (simp_all add: med_inv_def ys_def)
  then have l: "length (elems (filter_of m)) = length ys" by (metis size_mset)
  have "elems (filter_of m) = [] \<longleftrightarrow> xs = []" using l len assms(2) by (simp add: min_def flip: length_0_conv)
  then have "GetFilteredValue m = Inr (if xs = [] then 0 else sort ys ! target (length ys))"
    using GetPercentileValue_value [OF assms(1) inv(1)] inv(2) l
    by (simp add: GetFilteredValue_def sorted_list_of_multiset_mset)
  then show ?thesis
    using new(1) m(1) inv(3) len unfolding ys_def by (simp add: GetNumberOfSamplesStored_def)
qed

theorem moving_median_of_window_witness:
  "\<exists>m0 m. median_new 3 = Inr m0 \<and> med_feed (\<lambda>n. (n - 1) div 2) [5, 1, 9, 3 :: int] m0 = Inr m \<and>
    GetFilteredValue m = Inr 3"
proof -
  have "target_ok (\<lambda>n. (n - 1) div 2)" by (auto simp: target_ok_def)
  from moving_median_of_window [OF this, of 3 "[5, 1, 9, 3 :: int]"] show ?thesis by simp blast
qed

end
