(* ===== verification/Units.thy ===== *)
theory Units
  imports Prelude
begin

section \<open>Units: times, rates, sizes and frequencies\<close>

text \<open>
  The integer part of \<^verbatim>\<open>rtc_base/units/unit_base.h\<close> with its five instances in \<^verbatim>\<open>api/units\<close>
  (\<^verbatim>\<open>TimeDelta\<close>, \<^verbatim>\<open>Timestamp\<close>, \<^verbatim>\<open>DataRate\<close>, \<^verbatim>\<open>DataSize\<close>, \<^verbatim>\<open>Frequency\<close>), the conversions
  between them, and \<^verbatim>\<open>rtc_base/numerics/divide_round.h\<close>. A unit is the \<^verbatim>\<open>int64_t\<close> it stores; the
  template argument is a value of \<open>unit_kind\<close>. The template argument \<^verbatim>\<open>T\<close> of the conversions is
  \<^verbatim>\<open>int64_t\<close>, its default; the overloads for floating point are left out.
\<close>

subsection \<open>64-bit integers\<close>

text \<open>Signed arithmetic has a result only when it fits; \<open>c_div\<close> truncates as C does.\<close>

definition int64_max :: int where
  "int64_max = 2 ^ 63 - 1"

definition int64_min :: int where
  "int64_min = - (2 ^ 63)"

definition is_int64 :: "int \<Rightarrow> bool" where
  "is_int64 x \<longleftrightarrow> int64_min \<le> x \<and> x \<le> int64_max"

definition i64 :: "int \<Rightarrow> int res" where
  "i64 x = (if is_int64 x then Inr x else Inl SignedOverflow)"

definition i64_div :: "int \<Rightarrow> int \<Rightarrow> int res" where
  "i64_div a b = (if b = 0 then Inl DivisionByZero else i64 (c_div a b))"

definition check :: "bool \<Rightarrow> 'a res \<Rightarrow> 'a res" where
  "check c r = (if c then r else Inl DcheckFailed)"

subsection \<open>UnitBase\<close>

datatype unit_kind = TimeDelta | Timestamp | DataRate | DataSize | Frequency

fun one_sided :: "unit_kind \<Rightarrow> bool" where
  "one_sided TimeDelta = False"
| "one_sided Timestamp = True"
| "one_sided DataRate = True"
| "one_sided DataSize = True"
| "one_sided Frequency = True"

definition PlusInfinityVal :: int where
  "PlusInfinityVal = int64_max"

definition MinusInfinityVal :: int where
  "MinusInfinityVal = int64_min"

definition unit_Zero :: int where
  "unit_Zero = 0"

definition PlusInfinity :: int where
  "PlusInfinity = PlusInfinityVal"

definition MinusInfinity :: int where
  "MinusInfinity = MinusInfinityVal"

definition IsZero :: "int \<Rightarrow> bool" where
  "IsZero v \<longleftrightarrow> v = 0"

definition IsInfinite :: "int \<Rightarrow> bool" where
  "IsInfinite v \<longleftrightarrow> v = PlusInfinityVal \<or> v = MinusInfinityVal"

definition IsFinite :: "int \<Rightarrow> bool" where
  "IsFinite v \<longleftrightarrow> \<not> IsInfinite v"

definition IsPlusInfinity :: "int \<Rightarrow> bool" where
  "IsPlusInfinity v \<longleftrightarrow> v = PlusInfinityVal"

definition IsMinusInfinity :: "int \<Rightarrow> bool" where
  "IsMinusInfinity v \<longleftrightarrow> v = MinusInfinityVal"

definition unit_eq :: "int \<Rightarrow> int \<Rightarrow> bool" where
  "unit_eq v other \<longleftrightarrow> v = other"

definition unit_ne :: "int \<Rightarrow> int \<Rightarrow> bool" where
  "unit_ne v other \<longleftrightarrow> v \<noteq> other"

definition unit_le :: "int \<Rightarrow> int \<Rightarrow> bool" where
  "unit_le v other \<longleftrightarrow> v \<le> other"

definition unit_ge :: "int \<Rightarrow> int \<Rightarrow> bool" where
  "unit_ge v other \<longleftrightarrow> v \<ge> other"

definition unit_gt :: "int \<Rightarrow> int \<Rightarrow> bool" where
  "unit_gt v other \<longleftrightarrow> v > other"

definition unit_lt :: "int \<Rightarrow> int \<Rightarrow> bool" where
  "unit_lt v other \<longleftrightarrow> v < other"

definition FromValue :: "unit_kind \<Rightarrow> int \<Rightarrow> int res" where
  "FromValue u v =
     check (one_sided u \<longrightarrow> v \<ge> 0)
       (check (v > MinusInfinityVal) (check (v < PlusInfinityVal) (Inr v)))"

definition FromFraction :: "unit_kind \<Rightarrow> int \<Rightarrow> int \<Rightarrow> int res" where
  "FromFraction u denominator v =
     check (one_sided u \<longrightarrow> v \<ge> 0)
       (check (v > c_div MinusInfinityVal denominator)
         (check (v < c_div PlusInfinityVal denominator)
           (i64 (v * denominator))))"

definition ToValue :: "int \<Rightarrow> int res" where
  "ToValue v = check (IsFinite v) (Inr v)"

definition ToValueOr :: "int \<Rightarrow> int \<Rightarrow> int" where
  "ToValueOr fallback_value v = (if IsFinite v then v else fallback_value)"

definition DivRoundPositiveToNearest :: "int \<Rightarrow> int \<Rightarrow> int res" where
  "DivRoundPositiveToNearest n d = res_bind (i64 (n + c_div d 2)) (\<lambda>x. i64_div x d)"

definition DivRoundToNearest :: "int \<Rightarrow> int \<Rightarrow> int res" where
  "DivRoundToNearest n d =
     res_bind (i64 (n + (if n \<ge> 0 then c_div d 2 else c_div (- d) 2))) (\<lambda>x. i64_div x d)"

definition ToFraction :: "unit_kind \<Rightarrow> int \<Rightarrow> int \<Rightarrow> int res" where
  "ToFraction u Denominator v =
     check (IsFinite v)
       (if one_sided u then DivRoundPositiveToNearest v Denominator
        else DivRoundToNearest v Denominator)"

definition ToFractionOr :: "unit_kind \<Rightarrow> int \<Rightarrow> int \<Rightarrow> int \<Rightarrow> int res" where
  "ToFractionOr u Denominator fallback_value v =
     (if IsFinite v
      then if one_sided u then DivRoundPositiveToNearest v Denominator
           else DivRoundToNearest v Denominator
      else Inr fallback_value)"

definition ToMultiple :: "int \<Rightarrow> int \<Rightarrow> int res" where
  "ToMultiple Factor v =
     res_bind (ToValue v) (\<lambda>x.
       check (x \<ge> c_div int64_min Factor) (check (x \<le> c_div int64_max Factor) (i64 (x * Factor))))"

subsection \<open>RelativeUnit\<close>

definition Clamped :: "int \<Rightarrow> int \<Rightarrow> int \<Rightarrow> int" where
  "Clamped min_value max_value v = max min_value (min v max_value)"

definition Clamp :: "int \<Rightarrow> int \<Rightarrow> int \<Rightarrow> int" where
  "Clamp min_value max_value this = Clamped min_value max_value this"

definition unit_add :: "unit_kind \<Rightarrow> int \<Rightarrow> int \<Rightarrow> int res" where
  "unit_add u a b =
     (if IsPlusInfinity a \<or> IsPlusInfinity b
      then check (\<not> IsMinusInfinity a) (check (\<not> IsMinusInfinity b) (Inr PlusInfinity))
      else if IsMinusInfinity a \<or> IsMinusInfinity b
      then check (\<not> IsPlusInfinity a) (check (\<not> IsPlusInfinity b) (Inr MinusInfinity))
      else res_bind (ToValue a) (\<lambda>x. res_bind (ToValue b) (\<lambda>y. res_bind (i64 (x + y)) (FromValue u))))"

definition unit_sub :: "unit_kind \<Rightarrow> int \<Rightarrow> int \<Rightarrow> int res" where
  "unit_sub u a b =
     (if IsPlusInfinity a \<or> IsMinusInfinity b
      then check (\<not> IsMinusInfinity a) (check (\<not> IsPlusInfinity b) (Inr PlusInfinity))
      else if IsMinusInfinity a \<or> IsPlusInfinity b
      then check (\<not> IsPlusInfinity a) (check (\<not> IsMinusInfinity b) (Inr MinusInfinity))
      else res_bind (ToValue a) (\<lambda>x. res_bind (ToValue b) (\<lambda>y. res_bind (i64 (x - y)) (FromValue u))))"

text \<open>The assignments return the new value of the object.\<close>

definition unit_add_assign :: "unit_kind \<Rightarrow> int \<Rightarrow> int \<Rightarrow> int res" where
  "unit_add_assign u this other = unit_add u this other"

definition unit_sub_assign :: "unit_kind \<Rightarrow> int \<Rightarrow> int \<Rightarrow> int res" where
  "unit_sub_assign u this other = unit_sub u this other"

definition unit_mul :: "unit_kind \<Rightarrow> int \<Rightarrow> int \<Rightarrow> int res" where
  "unit_mul u a scalar = res_bind (ToValue a) (\<lambda>x. res_bind (i64 (x * scalar)) (FromValue u))"

definition scalar_mul :: "unit_kind \<Rightarrow> int \<Rightarrow> int \<Rightarrow> int res" where
  "scalar_mul u scalar other = unit_mul u other scalar"

text \<open>The roundings build a unit from the quotient and multiply it, so they exist for relative units.\<close>

definition RoundTo :: "unit_kind \<Rightarrow> int \<Rightarrow> int \<Rightarrow> int res" where
  "RoundTo u resolution v =
     check (IsFinite v) (check (IsFinite resolution) (check (resolution > 0)
       (res_bind (i64 (v + c_div resolution 2)) (\<lambda>x.
        res_bind (i64_div x resolution) (\<lambda>q. unit_mul u q resolution)))))"

definition RoundUpTo :: "unit_kind \<Rightarrow> int \<Rightarrow> int \<Rightarrow> int res" where
  "RoundUpTo u resolution v =
     check (IsFinite v) (check (IsFinite resolution) (check (resolution > 0)
       (res_bind (i64 (v + resolution)) (\<lambda>x.
        res_bind (i64 (x - 1)) (\<lambda>y.
        res_bind (i64_div y resolution) (\<lambda>q. unit_mul u q resolution))))))"

definition RoundDownTo :: "unit_kind \<Rightarrow> int \<Rightarrow> int \<Rightarrow> int res" where
  "RoundDownTo u resolution v =
     check (IsFinite v) (check (IsFinite resolution) (check (resolution > 0)
       (res_bind (i64_div v resolution) (\<lambda>q. unit_mul u q resolution))))"

subsection \<open>TimeDelta\<close>

definition td_Seconds :: "int \<Rightarrow> int res" where
  "td_Seconds v = FromFraction TimeDelta 1000000 v"

definition td_Millis :: "int \<Rightarrow> int res" where
  "td_Millis v = FromFraction TimeDelta 1000 v"

definition td_Micros :: "int \<Rightarrow> int res" where
  "td_Micros v = FromValue TimeDelta v"

definition td_seconds :: "int \<Rightarrow> int res" where
  "td_seconds v = ToFraction TimeDelta 1000000 v"

definition td_ms :: "int \<Rightarrow> int res" where
  "td_ms v = ToFraction TimeDelta 1000 v"

definition td_us :: "int \<Rightarrow> int res" where
  "td_us v = ToValue v"

definition td_ns :: "int \<Rightarrow> int res" where
  "td_ns v = ToMultiple 1000 v"

definition td_seconds_or :: "int \<Rightarrow> int \<Rightarrow> int res" where
  "td_seconds_or fallback_value v = ToFractionOr TimeDelta 1000000 fallback_value v"

definition td_ms_or :: "int \<Rightarrow> int \<Rightarrow> int res" where
  "td_ms_or fallback_value v = ToFractionOr TimeDelta 1000 fallback_value v"

definition td_us_or :: "int \<Rightarrow> int \<Rightarrow> int" where
  "td_us_or fallback_value v = ToValueOr fallback_value v"

definition td_Abs :: "int \<Rightarrow> int res" where
  "td_Abs v =
     res_bind (td_us v) (\<lambda>x.
       if x < 0 then res_bind (td_us v) (\<lambda>y. res_bind (i64 (- y)) td_Micros) else Inr v)"

subsection \<open>Timestamp\<close>

definition ts_Seconds :: "int \<Rightarrow> int res" where
  "ts_Seconds v = FromFraction Timestamp 1000000 v"

definition ts_Millis :: "int \<Rightarrow> int res" where
  "ts_Millis v = FromFraction Timestamp 1000 v"

definition ts_Micros :: "int \<Rightarrow> int res" where
  "ts_Micros v = FromValue Timestamp v"

definition ts_seconds :: "int \<Rightarrow> int res" where
  "ts_seconds v = ToFraction Timestamp 1000000 v"

definition ts_ms :: "int \<Rightarrow> int res" where
  "ts_ms v = ToFraction Timestamp 1000 v"

definition ts_us :: "int \<Rightarrow> int res" where
  "ts_us v = ToValue v"

definition ts_seconds_or :: "int \<Rightarrow> int \<Rightarrow> int res" where
  "ts_seconds_or fallback_value v = ToFractionOr Timestamp 1000000 fallback_value v"

definition ts_ms_or :: "int \<Rightarrow> int \<Rightarrow> int res" where
  "ts_ms_or fallback_value v = ToFractionOr Timestamp 1000 fallback_value v"

definition ts_us_or :: "int \<Rightarrow> int \<Rightarrow> int" where
  "ts_us_or fallback_value v = ToValueOr fallback_value v"

definition ts_plus :: "int \<Rightarrow> int \<Rightarrow> int res" where
  "ts_plus t delta =
     (if IsPlusInfinity t \<or> IsPlusInfinity delta
      then check (\<not> IsMinusInfinity t) (check (\<not> IsMinusInfinity delta) (Inr PlusInfinity))
      else if IsMinusInfinity t \<or> IsMinusInfinity delta
      then check (\<not> IsPlusInfinity t) (check (\<not> IsPlusInfinity delta) (Inr MinusInfinity))
      else res_bind (ts_us t) (\<lambda>x. res_bind (td_us delta) (\<lambda>y. res_bind (i64 (x + y)) ts_Micros)))"

definition ts_minus :: "int \<Rightarrow> int \<Rightarrow> int res" where
  "ts_minus t delta =
     (if IsPlusInfinity t \<or> IsMinusInfinity delta
      then check (\<not> IsMinusInfinity t) (check (\<not> IsPlusInfinity delta) (Inr PlusInfinity))
      else if IsMinusInfinity t \<or> IsPlusInfinity delta
      then check (\<not> IsPlusInfinity t) (check (\<not> IsMinusInfinity delta) (Inr MinusInfinity))
      else res_bind (ts_us t) (\<lambda>x. res_bind (td_us delta) (\<lambda>y. res_bind (i64 (x - y)) ts_Micros)))"

definition ts_diff :: "int \<Rightarrow> int \<Rightarrow> int res" where
  "ts_diff t other =
     (if IsPlusInfinity t \<or> IsMinusInfinity other
      then check (\<not> IsMinusInfinity t) (check (\<not> IsPlusInfinity other) (Inr PlusInfinity))
      else if IsMinusInfinity t \<or> IsPlusInfinity other
      then check (\<not> IsPlusInfinity t) (check (\<not> IsMinusInfinity other) (Inr MinusInfinity))
      else res_bind (ts_us t) (\<lambda>x. res_bind (ts_us other) (\<lambda>y. res_bind (i64 (x - y)) td_Micros)))"

definition ts_minus_assign :: "int \<Rightarrow> int \<Rightarrow> int res" where
  "ts_minus_assign this delta = ts_minus this delta"

definition ts_plus_assign :: "int \<Rightarrow> int \<Rightarrow> int res" where
  "ts_plus_assign this delta = ts_plus this delta"

subsection \<open>DataSize, DataRate, Frequency\<close>

definition ds_Bytes :: "int \<Rightarrow> int res" where
  "ds_Bytes v = FromValue DataSize v"

definition ds_bytes :: "int \<Rightarrow> int res" where
  "ds_bytes v = ToValue v"

definition ds_bytes_or :: "int \<Rightarrow> int \<Rightarrow> int" where
  "ds_bytes_or fallback_value v = ToValueOr fallback_value v"

definition ds_Infinity :: int where
  "ds_Infinity = PlusInfinity"

definition BitsPerSec :: "int \<Rightarrow> int res" where
  "BitsPerSec v = FromValue DataRate v"

definition BytesPerSec :: "int \<Rightarrow> int res" where
  "BytesPerSec v = FromFraction DataRate 8 v"

definition KilobitsPerSec :: "int \<Rightarrow> int res" where
  "KilobitsPerSec v = FromFraction DataRate 1000 v"

definition dr_Infinity :: int where
  "dr_Infinity = PlusInfinity"

definition bps :: "int \<Rightarrow> int res" where
  "bps v = ToValue v"

definition bytes_per_sec :: "int \<Rightarrow> int res" where
  "bytes_per_sec v = ToFraction DataRate 8 v"

definition kbps :: "int \<Rightarrow> int res" where
  "kbps v = ToFraction DataRate 1000 v"

definition bps_or :: "int \<Rightarrow> int \<Rightarrow> int" where
  "bps_or fallback_value v = ToValueOr fallback_value v"

definition kbps_or :: "int \<Rightarrow> int \<Rightarrow> int res" where
  "kbps_or fallback_value v = ToFractionOr DataRate 1000 fallback_value v"

definition MilliHertz :: "int \<Rightarrow> int res" where
  "MilliHertz v = FromValue Frequency v"

definition Hertz :: "int \<Rightarrow> int res" where
  "Hertz v = FromFraction Frequency 1000 v"

definition KiloHertz :: "int \<Rightarrow> int res" where
  "KiloHertz v = FromFraction Frequency 1000000 v"

definition hertz :: "int \<Rightarrow> int res" where
  "hertz v = ToFraction Frequency 1000 v"

definition millihertz :: "int \<Rightarrow> int res" where
  "millihertz v = ToValue v"

subsection \<open>Operations between units\<close>

definition frequency_of_interval :: "int \<Rightarrow> int \<Rightarrow> int res" where
  "frequency_of_interval nominator interval =
     (let kKiloPerMicro = 1000 * 1000000
      in check (nominator \<le> c_div int64_max kKiloPerMicro)
           (check (IsFinite interval) (check (\<not> IsZero interval)
             (res_bind (i64 (nominator * kKiloPerMicro)) (\<lambda>x.
              res_bind (td_us interval) (\<lambda>y. res_bind (i64_div x y) MilliHertz))))))"

definition interval_of_frequency :: "int \<Rightarrow> int \<Rightarrow> int res" where
  "interval_of_frequency nominator frequency =
     (let kMegaPerMilli = 1000000 * 1000
      in check (nominator \<le> c_div int64_max kMegaPerMilli)
           (check (IsFinite frequency) (check (\<not> IsZero frequency)
             (res_bind (i64 (nominator * kMegaPerMilli)) (\<lambda>x.
              res_bind (millihertz frequency) (\<lambda>y. res_bind (i64_div x y) td_Micros))))))"

definition Microbits :: "int \<Rightarrow> int res" where
  "Microbits data_size =
     (let kMaxBeforeConversion = c_div int64_max 8000000
      in res_bind (ds_bytes data_size) (\<lambda>x. check (x \<le> kMaxBeforeConversion) (i64 (x * 8000000))))"

definition MillibytePerSec :: "int \<Rightarrow> int res" where
  "MillibytePerSec rate =
     (let kMaxBeforeConversion = c_div int64_max (c_div 1000 8)
      in res_bind (bps rate) (\<lambda>x. check (x \<le> kMaxBeforeConversion) (i64 (x * c_div 1000 8))))"

definition size_per_time :: "int \<Rightarrow> int \<Rightarrow> int res" where
  "size_per_time data_size duration =
     res_bind (Microbits data_size) (\<lambda>x. res_bind (td_us duration) (\<lambda>y. res_bind (i64_div x y) BitsPerSec))"

definition size_per_rate :: "int \<Rightarrow> int \<Rightarrow> int res" where
  "size_per_rate data_size rate =
     res_bind (Microbits data_size) (\<lambda>x. res_bind (bps rate) (\<lambda>y. res_bind (i64_div x y) td_Micros))"

definition rate_times_time :: "int \<Rightarrow> int \<Rightarrow> int res" where
  "rate_times_time rate duration =
     res_bind (bps rate) (\<lambda>x. res_bind (td_us duration) (\<lambda>y.
     res_bind (i64 (x * y)) (\<lambda>microbits.
     res_bind (i64 (microbits + 4000000)) (\<lambda>z. ds_Bytes (c_div z 8000000)))))"

definition time_times_rate :: "int \<Rightarrow> int \<Rightarrow> int res" where
  "time_times_rate duration rate = rate_times_time rate duration"

definition rate_per_frequency :: "int \<Rightarrow> int \<Rightarrow> int res" where
  "rate_per_frequency rate frequency =
     res_bind (millihertz frequency) (\<lambda>y.
     res_bind (MillibytePerSec rate) (\<lambda>x. res_bind (i64_div x y) ds_Bytes))"

definition rate_per_size :: "int \<Rightarrow> int \<Rightarrow> int res" where
  "rate_per_size rate data_size =
     res_bind (MillibytePerSec rate) (\<lambda>x. res_bind (ds_bytes data_size) (\<lambda>y. res_bind (i64_div x y) MilliHertz))"

definition size_times_frequency :: "int \<Rightarrow> int \<Rightarrow> int res" where
  "size_times_frequency data_size frequency =
     res_bind (if IsZero frequency then Inr True
               else res_bind (ds_bytes data_size) (\<lambda>x. res_bind (millihertz frequency) (\<lambda>y.
                    res_bind (i64_div (c_div int64_max 8) y) (\<lambda>q. Inr (x \<le> q))))) (\<lambda>ok.
     check ok
       (res_bind (ds_bytes data_size) (\<lambda>x. res_bind (i64 (x * 8)) (\<lambda>b.
        res_bind (millihertz frequency) (\<lambda>y.
        res_bind (i64 (b * y)) (\<lambda>millibits_per_second.
        res_bind (i64 (millibits_per_second + 500)) (\<lambda>z. BitsPerSec (c_div z 1000))))))))"

definition frequency_times_size :: "int \<Rightarrow> int \<Rightarrow> int res" where
  "frequency_times_size frequency data_size = size_times_frequency data_size frequency"

subsection \<open>Rounding division\<close>

definition DivideRoundUp :: "int \<Rightarrow> int \<Rightarrow> int res" where
  "DivideRoundUp dividend divisor =
     check (dividend \<ge> 0) (check (divisor > 0)
       (let quotient = c_div dividend divisor;
            remainder = c_mod dividend divisor
        in i64 (quotient + (if remainder > 0 then 1 else 0))))"

definition DivideRoundToNearest :: "int \<Rightarrow> int \<Rightarrow> int res" where
  "DivideRoundToNearest dividend divisor =
     check (dividend \<ge> 0) (check (divisor > 0)
       (let half_of_divisor = c_div (divisor - 1) 2;
            quotient = c_div dividend divisor;
            remainder = c_mod dividend divisor
        in i64 (quotient + (if remainder > half_of_divisor then 1 else 0))))"

subsection \<open>Lemmas on checks and rounding\<close>

named_theorems unit_defs \<open>definitions of the operations on units\<close>

lemma check_Inr [simp]: "check c r = Inr v \<longleftrightarrow> c \<and> r = Inr v"
  by (simp add: check_def)

lemma check_True [simp]: "c \<Longrightarrow> check c r = r"
  by (simp add: check_def)

lemma i64_Inr [simp]: "i64 x = Inr v \<longleftrightarrow> is_int64 x \<and> v = x"
  by (auto simp: i64_def)

lemma i64_div_Inr [simp]: "i64_div a b = Inr v \<longleftrightarrow> b \<noteq> 0 \<and> is_int64 (c_div a b) \<and> v = c_div a b"
  by (auto simp: i64_div_def)

lemma FromValue_Inr [simp]:
  "FromValue u v = Inr w \<longleftrightarrow> w = v \<and> (one_sided u \<longrightarrow> v \<ge> 0) \<and> MinusInfinityVal < v \<and> v < PlusInfinityVal"
  by (auto simp: FromValue_def)

lemma ToValue_Inr [simp]: "ToValue v = Inr w \<longleftrightarrow> w = v \<and> IsFinite v"
  by (auto simp: ToValue_def)

lemmas infinity_defs =
  PlusInfinity_def MinusInfinity_def PlusInfinityVal_def MinusInfinityVal_def IsPlusInfinity_def
  IsMinusInfinity_def IsInfinite_def IsFinite_def

lemmas int64_defs = is_int64_def int64_min_def int64_max_def

lemmas time_defs [unit_defs] =
  td_Seconds_def td_Millis_def td_Micros_def td_seconds_def td_ms_def td_us_def td_ns_def
  ts_Seconds_def ts_Millis_def ts_Micros_def ts_seconds_def ts_ms_def ts_us_def

lemmas data_defs [unit_defs] =
  ds_Bytes_def ds_bytes_def BitsPerSec_def BytesPerSec_def KilobitsPerSec_def bps_def
  bytes_per_sec_def kbps_def MilliHertz_def Hertz_def KiloHertz_def hertz_def millihertz_def

lemma div_floor:
  fixes n d :: int
  assumes "0 < d"
  shows "n div d * d \<le> n" and "n < n div d * d + d"
  using pos_mod_bound [OF assms, of n] pos_mod_sign [OF assms, of n] div_mult_mod_eq [of n d]
  by (metis add_le_cancel_left add.right_neutral, metis add_less_cancel_left)

lemma half_bounds: "2 * (d div 2) \<le> (d::int)" "d \<le> 2 * (d div 2) + 1"
  by presburger+

lemma div_nearest:
  fixes n d :: int
  assumes "0 < d"
  shows "2 * \<bar>n - (n + d div 2) div d * d\<bar> \<le> d"
proof -
  define q where "q = (n + d div 2) div d * d"
  have "q \<le> n + d div 2" "n + d div 2 < q + d"
    unfolding q_def by (rule div_floor [OF assms])+
  then show ?thesis unfolding q_def [symmetric] using half_bounds [of d] by arith
qed

lemma div_unique:
  fixes n d q :: int
  assumes "q * d \<le> n" and "n < q * d + d"
  shows "n div d = q"
  by (rule int_div_pos_eq [where r = "n - q * d"]) (use assms in \<open>simp_all add: mult.commute\<close>)

lemma c_div_le_zero: "a \<le> 0 \<Longrightarrow> 0 < b \<Longrightarrow> c_div a b = - ((- a) div b)"
  by (cases "a = 0") (simp_all add: c_div_neg c_div_nonneg)

lemma c_div_int64: "0 < d \<Longrightarrow> is_int64 a \<Longrightarrow> is_int64 (c_div a d)"
proof -
  assume d: "0 < d" and a: "is_int64 a"
  have abs: "\<bar>a\<bar> div d \<le> \<bar>a\<bar>" using zdiv_mono2 [of "\<bar>a\<bar>" 1 d] d by simp
  have "0 \<le> \<bar>a\<bar> div d" using d by (simp add: pos_imp_zdiv_nonneg_iff)
  moreover have "a < 0 \<Longrightarrow> c_div a d = - (\<bar>a\<bar> div d)" "0 \<le> a \<Longrightarrow> c_div a d = \<bar>a\<bar> div d"
    using d by (simp_all add: c_div_def)
  ultimately show ?thesis using abs a unfolding is_int64_def int64_min_def int64_max_def
    by (cases "a < 0") auto
qed

subsection \<open>Expressions over units\<close>

text \<open>
  A value of a unit: an \<^verbatim>\<open>int64_t\<close>, and for a one-sided unit not negative unless it is minus
  infinity.
\<close>

definition unit_ok :: "unit_kind \<Rightarrow> int \<Rightarrow> bool" where
  "unit_ok u v \<longleftrightarrow> is_int64 v \<and> (one_sided u \<longrightarrow> 0 \<le> v \<or> v = MinusInfinityVal)"

text \<open>
  Expressions a client can write with the public operations; \<open>type_of_exp\<close> resolves the overloads as
  the compiler does, \<open>eval_exp\<close> runs them.
\<close>

datatype unit_exp =
    EPlusInfinity unit_kind
  | EMinusInfinity unit_kind
  | EValue unit_kind int
  | EFraction unit_kind int int
  | EPlus unit_exp unit_exp
  | EMinus unit_exp unit_exp
  | ETimes unit_exp unit_exp
  | EDivide unit_exp unit_exp
  | EScale int unit_exp
  | EInverse int unit_exp
  | EClamped unit_exp unit_exp unit_exp
  | ERound unit_exp unit_exp
  | ERoundUp unit_exp unit_exp
  | ERoundDown unit_exp unit_exp
  | EAbs unit_exp

fun plus_type :: "unit_kind \<Rightarrow> unit_kind \<Rightarrow> unit_kind option" where
  "plus_type Timestamp b = (if b = TimeDelta then Some Timestamp else None)"
| "plus_type a b = (if a = b then Some a else None)"

fun minus_type :: "unit_kind \<Rightarrow> unit_kind \<Rightarrow> unit_kind option" where
  "minus_type Timestamp TimeDelta = Some Timestamp"
| "minus_type Timestamp Timestamp = Some TimeDelta"
| "minus_type a b = (if a = b then Some a else None)"

fun times_type :: "unit_kind \<Rightarrow> unit_kind \<Rightarrow> unit_kind option" where
  "times_type DataRate TimeDelta = Some DataSize"
| "times_type TimeDelta DataRate = Some DataSize"
| "times_type DataSize Frequency = Some DataRate"
| "times_type Frequency DataSize = Some DataRate"
| "times_type _ _ = None"

fun divide_type :: "unit_kind \<Rightarrow> unit_kind \<Rightarrow> unit_kind option" where
  "divide_type DataSize TimeDelta = Some DataRate"
| "divide_type DataSize DataRate = Some TimeDelta"
| "divide_type DataRate Frequency = Some DataSize"
| "divide_type DataRate DataSize = Some Frequency"
| "divide_type _ _ = None"

definition same_relative :: "unit_kind option \<Rightarrow> unit_kind option \<Rightarrow> unit_kind option" where
  "same_relative a b = (if a = b \<and> a \<noteq> Some Timestamp then a else None)"

definition both :: "('a \<Rightarrow> 'b \<Rightarrow> 'c option) \<Rightarrow> 'a option \<Rightarrow> 'b option \<Rightarrow> 'c option" where
  "both f a b = Option.bind a (\<lambda>x. Option.bind b (f x))"

fun type_of_exp :: "unit_exp \<Rightarrow> unit_kind option" where
  "type_of_exp (EPlusInfinity u) = Some u"
| "type_of_exp (EMinusInfinity u) = Some u"
| "type_of_exp (EValue u n) = (if is_int64 n then Some u else None)"
| "type_of_exp (EFraction u d n) = (if is_int64 n \<and> is_int64 d \<and> 0 < d then Some u else None)"
| "type_of_exp (EPlus a b) = both plus_type (type_of_exp a) (type_of_exp b)"
| "type_of_exp (EMinus a b) = both minus_type (type_of_exp a) (type_of_exp b)"
| "type_of_exp (ETimes a b) = both times_type (type_of_exp a) (type_of_exp b)"
| "type_of_exp (EDivide a b) = both divide_type (type_of_exp a) (type_of_exp b)"
| "type_of_exp (EScale k a) = (if is_int64 k then same_relative (type_of_exp a) (type_of_exp a) else None)"
| "type_of_exp (EInverse n a) =
     (if \<not> is_int64 n then None
      else if type_of_exp a = Some TimeDelta then Some Frequency
      else if type_of_exp a = Some Frequency then Some TimeDelta else None)"
| "type_of_exp (EClamped lo hi a) =
     same_relative (type_of_exp a) (same_relative (type_of_exp lo) (type_of_exp hi))"
| "type_of_exp (ERound r a) = same_relative (type_of_exp r) (type_of_exp a)"
| "type_of_exp (ERoundUp r a) = same_relative (type_of_exp r) (type_of_exp a)"
| "type_of_exp (ERoundDown r a) = same_relative (type_of_exp r) (type_of_exp a)"
| "type_of_exp (EAbs a) = (if type_of_exp a = Some TimeDelta then Some TimeDelta else None)"

fun plus_op :: "unit_kind \<Rightarrow> int \<Rightarrow> int \<Rightarrow> int res" where
  "plus_op Timestamp x y = ts_plus x y"
| "plus_op u x y = unit_add u x y"

fun minus_op :: "unit_kind \<Rightarrow> unit_kind \<Rightarrow> int \<Rightarrow> int \<Rightarrow> int res" where
  "minus_op Timestamp TimeDelta x y = ts_minus x y"
| "minus_op Timestamp Timestamp x y = ts_diff x y"
| "minus_op u _ x y = unit_sub u x y"

fun times_op :: "unit_kind \<Rightarrow> int \<Rightarrow> int \<Rightarrow> int res" where
  "times_op DataRate x y = rate_times_time x y"
| "times_op TimeDelta x y = time_times_rate x y"
| "times_op DataSize x y = size_times_frequency x y"
| "times_op _ x y = frequency_times_size x y"

fun divide_op :: "unit_kind \<Rightarrow> unit_kind \<Rightarrow> int \<Rightarrow> int \<Rightarrow> int res" where
  "divide_op DataSize TimeDelta x y = size_per_time x y"
| "divide_op DataSize _ x y = size_per_rate x y"
| "divide_op _ Frequency x y = rate_per_frequency x y"
| "divide_op _ _ x y = rate_per_size x y"

definition bind2 :: "('a \<Rightarrow> 'b \<Rightarrow> 'c res) \<Rightarrow> 'a res \<Rightarrow> 'b res \<Rightarrow> 'c res" where
  "bind2 f a b = res_bind a (\<lambda>x. res_bind b (f x))"

fun eval_exp :: "unit_exp \<Rightarrow> int res" where
  "eval_exp (EPlusInfinity u) = Inr PlusInfinity"
| "eval_exp (EMinusInfinity u) = Inr MinusInfinity"
| "eval_exp (EValue u n) = FromValue u n"
| "eval_exp (EFraction u d n) = FromFraction u d n"
| "eval_exp (EPlus a b) = bind2 (plus_op (the (type_of_exp a))) (eval_exp a) (eval_exp b)"
| "eval_exp (EMinus a b) =
     bind2 (minus_op (the (type_of_exp a)) (the (type_of_exp b))) (eval_exp a) (eval_exp b)"
| "eval_exp (ETimes a b) = bind2 (times_op (the (type_of_exp a))) (eval_exp a) (eval_exp b)"
| "eval_exp (EDivide a b) =
     bind2 (divide_op (the (type_of_exp a)) (the (type_of_exp b))) (eval_exp a) (eval_exp b)"
| "eval_exp (EScale k a) = res_bind (eval_exp a) (scalar_mul (the (type_of_exp a)) k)"
| "eval_exp (EInverse n a) =
     res_bind (eval_exp a)
       (if type_of_exp a = Some TimeDelta then frequency_of_interval n else interval_of_frequency n)"
| "eval_exp (EClamped lo hi a) =
     bind2 (\<lambda>l h. res_bind (eval_exp a) (\<lambda>v. Inr (Clamped l h v))) (eval_exp lo) (eval_exp hi)"
| "eval_exp (ERound r a) = bind2 (RoundTo (the (type_of_exp a))) (eval_exp r) (eval_exp a)"
| "eval_exp (ERoundUp r a) = bind2 (RoundUpTo (the (type_of_exp a))) (eval_exp r) (eval_exp a)"
| "eval_exp (ERoundDown r a) = bind2 (RoundDownTo (the (type_of_exp a))) (eval_exp r) (eval_exp a)"
| "eval_exp (EAbs a) = res_bind (eval_exp a) td_Abs"

subsection \<open>Every operation yields a value of its unit\<close>

lemma bind2_Inr [simp]: "bind2 f a b = Inr v \<longleftrightarrow> (\<exists>x y. a = Inr x \<and> b = Inr y \<and> f x y = Inr v)"
  by (auto simp: bind2_def res_bind_eq_Inr)

lemma both_Some [simp]: "both f a b = Some u \<longleftrightarrow> (\<exists>x y. a = Some x \<and> b = Some y \<and> f x y = Some u)"
  by (auto simp: both_def bind_eq_Some_conv)

lemma same_relative_Some [simp]: "same_relative a b = Some u \<longleftrightarrow> a = Some u \<and> b = Some u \<and> u \<noteq> Timestamp"
  by (auto simp: same_relative_def)

lemma infinity_ok [simp]: "unit_ok u PlusInfinity" "unit_ok u MinusInfinity"
  by (simp_all add: unit_ok_def infinity_defs int64_defs)

lemma FromValue_ok: "FromValue u x = Inr v \<Longrightarrow> unit_ok u v"
  by (auto simp: unit_ok_def infinity_defs is_int64_def)

lemma FromFraction_ok:
  assumes "FromFraction u d x = Inr v" and "0 < d"
  shows "unit_ok u v"
  using assms by (auto simp: unit_ok_def FromFraction_def)

lemma unit_add_ok: "unit_add u x y = Inr v \<Longrightarrow> unit_ok u v"
  by (auto simp: unit_add_def res_bind_eq_Inr simp del: FromValue_Inr dest: FromValue_ok split: if_splits)

lemma unit_sub_ok: "unit_sub u x y = Inr v \<Longrightarrow> unit_ok u v"
  by (auto simp: unit_sub_def res_bind_eq_Inr simp del: FromValue_Inr dest: FromValue_ok split: if_splits)

lemma unit_mul_ok: "unit_mul u x k = Inr v \<Longrightarrow> unit_ok u v"
  by (auto simp: unit_mul_def res_bind_eq_Inr simp del: FromValue_Inr dest: FromValue_ok)

lemma ts_ok:
  "ts_plus t d = Inr v \<Longrightarrow> unit_ok Timestamp v"
  "ts_minus t d = Inr v \<Longrightarrow> unit_ok Timestamp v"
  "ts_diff t t' = Inr v \<Longrightarrow> unit_ok TimeDelta v"
  by (auto simp: ts_plus_def ts_minus_def ts_diff_def unit_defs res_bind_eq_Inr simp del: FromValue_Inr
      dest: FromValue_ok split: if_splits)

lemma round_ok:
  "RoundTo u r x = Inr v \<Longrightarrow> unit_ok u v"
  "RoundUpTo u r x = Inr v \<Longrightarrow> unit_ok u v"
  "RoundDownTo u r x = Inr v \<Longrightarrow> unit_ok u v"
  by (auto simp: RoundTo_def RoundUpTo_def RoundDownTo_def res_bind_eq_Inr dest: unit_mul_ok)

lemma inverse_ok:
  "frequency_of_interval n x = Inr v \<Longrightarrow> unit_ok Frequency v"
  "interval_of_frequency n x = Inr v \<Longrightarrow> unit_ok TimeDelta v"
  by (auto simp: frequency_of_interval_def interval_of_frequency_def unit_defs res_bind_eq_Inr
      simp del: FromValue_Inr dest: FromValue_ok)

lemma times_ok:
  "rate_times_time x y = Inr v \<Longrightarrow> unit_ok DataSize v"
  "time_times_rate y x = Inr v \<Longrightarrow> unit_ok DataSize v"
  "size_times_frequency x y = Inr v \<Longrightarrow> unit_ok DataRate v"
  "frequency_times_size y x = Inr v \<Longrightarrow> unit_ok DataRate v"
  by (auto simp: rate_times_time_def time_times_rate_def size_times_frequency_def frequency_times_size_def
      unit_defs res_bind_eq_Inr simp del: FromValue_Inr dest: FromValue_ok)

lemma divide_ok:
  "size_per_time x y = Inr v \<Longrightarrow> unit_ok DataRate v"
  "size_per_rate x y = Inr v \<Longrightarrow> unit_ok TimeDelta v"
  "rate_per_frequency x y = Inr v \<Longrightarrow> unit_ok DataSize v"
  "rate_per_size x y = Inr v \<Longrightarrow> unit_ok Frequency v"
  by (auto simp: size_per_time_def size_per_rate_def rate_per_frequency_def rate_per_size_def
      unit_defs res_bind_eq_Inr simp del: FromValue_Inr dest: FromValue_ok)

lemma Clamped_ok: "unit_ok u l \<Longrightarrow> unit_ok u h \<Longrightarrow> unit_ok u v \<Longrightarrow> unit_ok u (Clamped l h v)"
  by (auto simp: Clamped_def max_def min_def)

lemma Abs_ok: "td_Abs x = Inr v \<Longrightarrow> unit_ok TimeDelta x \<Longrightarrow> unit_ok TimeDelta v"
  by (auto simp: td_Abs_def unit_defs res_bind_eq_Inr simp del: FromValue_Inr dest: FromValue_ok split: if_splits)

lemma plus_op_ok: "plus_type a b = Some u \<Longrightarrow> plus_op a x y = Inr v \<Longrightarrow> unit_ok u v"
  by (cases a) (auto dest: ts_ok unit_add_ok split: if_splits)

lemma minus_op_ok: "minus_type a b = Some u \<Longrightarrow> minus_op a b x y = Inr v \<Longrightarrow> unit_ok u v"
  by (cases a; cases b) (auto dest: ts_ok unit_sub_ok)

lemma times_op_ok: "times_type a b = Some u \<Longrightarrow> times_op a x y = Inr v \<Longrightarrow> unit_ok u v"
  by (cases a; cases b) (auto dest: times_ok)

lemma divide_op_ok: "divide_type a b = Some u \<Longrightarrow> divide_op a b x y = Inr v \<Longrightarrow> unit_ok u v"
  by (cases a; cases b) (auto dest: divide_ok)

text \<open>The only faults are a failed check, an overflow and a division by zero.\<close>

definition arith_faults :: "'a res \<Rightarrow> bool" where
  "arith_faults r \<longleftrightarrow> (case r of Inl f \<Rightarrow> f \<in> {DcheckFailed, SignedOverflow, DivisionByZero} | Inr _ \<Rightarrow> True)"

named_theorems faults \<open>operations with arithmetic faults only\<close>

lemma arith_faults_basic [faults, intro!]:
  "arith_faults (Inr v)"
  "arith_faults r \<Longrightarrow> arith_faults (check c r)"
  "arith_faults (i64 x)"
  "arith_faults (i64_div x y)"
  by (auto simp: arith_faults_def check_def i64_def i64_div_def)

lemma arith_faults_bind [faults, intro!]:
  "arith_faults m \<Longrightarrow> (\<And>x. m = Inr x \<Longrightarrow> arith_faults (f x)) \<Longrightarrow> arith_faults (res_bind m f)"
  by (cases m) (auto simp: arith_faults_def)

lemma arith_faults_if [faults, intro!]:
  "(c \<Longrightarrow> arith_faults a) \<Longrightarrow> (\<not> c \<Longrightarrow> arith_faults b) \<Longrightarrow> arith_faults (if c then a else b)"
  by simp

lemma arith_faults_values [faults, intro!]:
  "arith_faults (FromValue u x)" "arith_faults (FromFraction u d x)" "arith_faults (ToValue x)"
  by (auto simp: FromValue_def FromFraction_def ToValue_def)

lemma arith_faults_relative [faults, intro!]:
  "arith_faults (unit_add u x y)" "arith_faults (unit_sub u x y)" "arith_faults (unit_mul u x k)"
  "arith_faults (ts_plus x y)" "arith_faults (ts_minus x y)" "arith_faults (ts_diff x y)"
  unfolding unit_add_def unit_sub_def unit_mul_def ts_plus_def ts_minus_def ts_diff_def unit_defs
  by (intro faults)+

lemma arith_faults_round [faults, intro!]:
  "arith_faults (RoundTo u r x)" "arith_faults (RoundUpTo u r x)" "arith_faults (RoundDownTo u r x)"
  "arith_faults (td_Abs x)" "arith_faults (scalar_mul u k x)"
  unfolding RoundTo_def RoundUpTo_def RoundDownTo_def td_Abs_def scalar_mul_def unit_defs
  by (intro faults)+

lemma arith_faults_cross [faults, intro!]:
  "arith_faults (frequency_of_interval n x)" "arith_faults (interval_of_frequency n x)"
  "arith_faults (size_per_time x y)" "arith_faults (size_per_rate x y)"
  "arith_faults (rate_times_time x y)" "arith_faults (time_times_rate x y)"
  "arith_faults (rate_per_frequency x y)" "arith_faults (rate_per_size x y)"
  "arith_faults (size_times_frequency x y)" "arith_faults (frequency_times_size x y)"
  unfolding frequency_of_interval_def interval_of_frequency_def size_per_time_def size_per_rate_def
    rate_times_time_def time_times_rate_def rate_per_frequency_def rate_per_size_def
    size_times_frequency_def frequency_times_size_def Microbits_def MillibytePerSec_def unit_defs Let_def
  by (intro faults)+

lemma arith_faults_ops [faults, intro!]:
  "arith_faults (plus_op a x y)" "arith_faults (minus_op a b x y)"
  "arith_faults (times_op a x y)" "arith_faults (divide_op a b x y)"
  by (cases a, auto) (cases a; cases b, auto)+

lemma arith_faults_bind2 [faults, intro!]:
  "arith_faults a \<Longrightarrow> arith_faults b \<Longrightarrow> (\<And>x y. arith_faults (f x y)) \<Longrightarrow> arith_faults (bind2 f a b)"
  unfolding bind2_def by (intro faults) auto

lemma eval_exp_faults: "arith_faults (eval_exp e)"
  by (induction e) auto

lemma eval_exp_ok: "type_of_exp e = Some u \<Longrightarrow> eval_exp e = Inr v \<Longrightarrow> unit_ok u v"
proof (induction e arbitrary: u v)
  case (EPlus a b)
  then show ?case by (auto dest: plus_op_ok)
next
  case (EMinus a b)
  then show ?case by (auto dest: minus_op_ok)
next
  case (ETimes a b)
  then show ?case by (auto dest: times_op_ok)
next
  case (EDivide a b)
  then show ?case by (auto dest: divide_op_ok)
next
  case (EValue u' n)
  then show ?case by (auto simp del: FromValue_Inr dest: FromValue_ok split: if_splits)
next
  case (EFraction u' d n)
  then show ?case by (auto dest: FromFraction_ok split: if_splits)
next
  case (EClamped lo hi a)
  then show ?case by (auto simp: res_bind_eq_Inr intro!: Clamped_ok)
next
  case (EAbs a)
  then show ?case by (auto simp: res_bind_eq_Inr dest: Abs_ok split: if_splits)
qed (auto simp: res_bind_eq_Inr scalar_mul_def dest: unit_mul_ok round_ok inverse_ok split: if_splits)



subsection \<open>Round trips\<close>

lemma FromFraction_bounds:
  assumes "FromFraction u d x = Inr v" and "0 < d"
  shows "v = x * d" and "v + d \<le> int64_max" and "int64_min \<le> v - d" and "one_sided u \<longrightarrow> 0 \<le> x"
proof -
  have x: "c_div MinusInfinityVal d < x" "x < c_div PlusInfinityVal d"
    and v: "v = x * d" and s: "one_sided u \<longrightarrow> 0 \<le> x"
    using assms(1) by (auto simp: FromFraction_def)
  have "c_div PlusInfinityVal d * d \<le> int64_max"
    using div_floor(1) [OF assms(2), of int64_max] assms(2)
    by (simp add: infinity_defs int64_max_def c_div_nonneg)
  moreover have "(x + 1) * d \<le> c_div PlusInfinityVal d * d"
    using x(2) assms(2) by (intro mult_right_mono) simp_all
  ultimately show "v + d \<le> int64_max" unfolding v by (simp add: distrib_right)
  have "- (- int64_min div d * d) = c_div MinusInfinityVal d * d"
    using assms(2) by (simp add: infinity_defs int64_min_def c_div_le_zero)
  with div_floor(1) [OF assms(2), of "- int64_min"] have "int64_min \<le> c_div MinusInfinityVal d * d" by arith
  moreover have "c_div MinusInfinityVal d * d \<le> (x - 1) * d"
    using x(1) assms(2) by (intro mult_right_mono) simp_all
  ultimately show "int64_min \<le> v - d" unfolding v by (simp add: left_diff_distrib)
qed (use assms in \<open>auto simp: FromFraction_def\<close>)

lemma half_quotient:
  fixes x d :: int
  assumes "0 < d"
  shows "(x * d + d div 2) div d = x"
  by (rule div_unique) (use half_bounds [of d] assms in arith)+

lemma fraction_roundtrip:
  assumes "FromFraction u d x = Inr v" and "0 < d" and "is_int64 d" and "is_int64 x"
  shows "ToFraction u d v = Inr x"
proof -
  note B = FromFraction_bounds [OF assms(1,2)]
  have h: "0 \<le> d div 2" "d div 2 \<le> d" using assms(2) half_bounds [of d] by arith+
  have fin: "IsFinite v" using B(2,3) assms(2) by (auto simp: infinity_defs)
  have half: "c_div d 2 = d div 2" "c_div (- d) 2 = - (d div 2)"
    using assms(2) by (simp_all add: c_div_nonneg c_div_neg)
  have up: "is_int64 (v + d div 2)" "is_int64 (v - d div 2)"
    using B(2,3) h unfolding is_int64_def by arith+
  have pos: "c_div (v + d div 2) d = x" if "0 \<le> v"
    using that h assms(2) half_quotient [OF assms(2), of x] by (simp add: c_div_nonneg B(1))
  have neg: "c_div (v - d div 2) d = x" if "v < 0"
  proof -
    have "c_div (v - d div 2) d = - ((- x * d + d div 2) div d)"
      using that h assms(2) by (simp add: c_div_le_zero B(1))
    then show ?thesis using half_quotient [OF assms(2), of "- x"] by simp
  qed
  have "0 \<le> v" if "one_sided u" using that B(1,4) assms(2) by simp
  then show ?thesis
    using fin half up pos neg assms(2,4)
    by (auto simp: ToFraction_def DivRoundPositiveToNearest_def DivRoundToNearest_def i64_def i64_div_def not_le)
qed

lemma timestamp_roundtrip:
  assumes "ts_plus t d = Inr t'" and "unit_ok Timestamp t" and "unit_ok TimeDelta d"
    and "IsFinite t" and "IsFinite d"
  shows "t' = t + d \<and> ts_diff t' t = Inr d \<and> ts_minus t' d = Inr t"
  using assms
  by (auto simp: ts_plus_def ts_diff_def ts_minus_def unit_defs unit_ok_def infinity_defs is_int64_def
      res_bind_eq_Inr i64_def ToValue_def FromValue_def int64_min_def int64_max_def split: if_splits)

lemma size_roundtrip:
  assumes "size_per_rate s r = Inr d" and "unit_ok DataSize s" and "unit_ok DataRate r" and "r \<le> 4000000"
  shows "rate_times_time r d = Inr s"
proof -
  from assms(1) have fin: "IsFinite s" "IsFinite r" and r0: "r \<noteq> 0" and le: "s \<le> c_div int64_max 8000000"
    and d: "d = c_div (s * 8000000) r" "MinusInfinityVal < d" "d < PlusInfinityVal"
    by (auto simp: size_per_rate_def Microbits_def unit_defs res_bind_eq_Inr)
  have s: "0 \<le> s" "s \<le> 1152921504606" and r: "0 < r"
    using assms(2,3) fin r0 le by (auto simp: unit_ok_def infinity_defs int64_max_def c_div_nonneg)
  have D: "d = s * 8000000 div r" using d(1) s r by (simp add: c_div_nonneg)
  have lo: "d * r \<le> s * 8000000" and hi: "s * 8000000 < d * r + r"
    unfolding D by (rule div_floor [OF r])+
  have nn: "0 \<le> d" unfolding D using s r by (simp add: pos_imp_zdiv_nonneg_iff)
  then have p0: "0 \<le> r * d" using r by simp
  have q: "c_div (r * d + 4000000) 8000000 = s"
  proof -
    have "(r * d + 4000000) div 8000000 = s"
      by (rule div_unique) (use lo hi assms(4) in \<open>simp_all add: mult.commute\<close>)
    then show ?thesis using p0 by (simp add: c_div_nonneg)
  qed
  have "r * d \<le> 9223372036848000000" using lo s(2) by (simp add: mult.commute)
  then have i: "is_int64 (r * d)" "is_int64 (r * d + 4000000)" using p0 by (simp_all add: int64_defs)
  have "IsFinite d" using d by (auto simp: infinity_defs)
  moreover have "MinusInfinityVal < s" "s < PlusInfinityVal" using s by (simp_all add: infinity_defs int64_defs)
  ultimately show ?thesis
    using fin i q s by (simp add: rate_times_time_def unit_defs ToValue_def i64_def FromValue_def)
qed

text \<open>
  C27. Round trips. A number of coarser units (seconds, kilobits, hertz) that can be stored is read
  back exactly. The delay added to a finite timestamp is the difference of the timestamps, and
  subtracting it gives the first timestamp back. At a rate of at most 4 Mbit/s the time a size takes,
  multiplied by the rate, is the size again although the quotient is truncated.
\<close>

theorem unit_roundtrips:
  "(FromFraction u k x = Inr v \<and> 0 < k \<and> is_int64 k \<and> is_int64 x \<longrightarrow> ToFraction u k v = Inr x) \<and>
   (ts_plus t d = Inr t' \<and> unit_ok Timestamp t \<and> unit_ok TimeDelta d \<and> IsFinite t \<and> IsFinite d \<longrightarrow>
      t' = t + d \<and> ts_diff t' t = Inr d \<and> ts_minus t' d = Inr t) \<and>
   (size_per_rate s r = Inr w \<and> unit_ok DataSize s \<and> unit_ok DataRate r \<and> r \<le> 4000000 \<longrightarrow>
      rate_times_time r w = Inr s)"
  using fraction_roundtrip timestamp_roundtrip size_roundtrip by blast

theorem unit_roundtrips_witness:
  "FromFraction TimeDelta 1000 (- 7) = Inr (- 7000) \<and> ToFraction TimeDelta 1000 (- 7000) = Inr (- 7) \<and>
   ts_plus 100 (- 30) = Inr 70 \<and> ts_diff 70 100 = Inr (- 30) \<and> ts_minus 70 (- 30) = Inr 100 \<and>
   size_per_rate 100 3000 = Inr 266666 \<and> rate_times_time 3000 266666 = Inr 100"
proof -
  have f: "FromFraction TimeDelta 1000 (- 7) = Inr (- 7000)" by code_simp
  have t: "ts_plus 100 (- 30) = Inr 70" by code_simp
  have s: "size_per_rate 100 3000 = Inr 266666" by code_simp
  have i: "(0::int) < 1000" "is_int64 1000" "is_int64 (- 7)" "(3000::int) \<le> 4000000" by (simp_all add: int64_defs)
  have ok: "unit_ok Timestamp 100" "unit_ok TimeDelta (- 30)" "unit_ok DataSize 100" "unit_ok DataRate 3000"
    by (simp_all add: unit_ok_def int64_defs)
  have fin: "IsFinite 100" "IsFinite (- 30)" by (simp_all add: infinity_defs int64_defs)
  note R = unit_roundtrips [of TimeDelta 1000 "- 7" "- 7000" 100 "- 30" 70 100 3000 266666]
  show ?thesis using R f t s i ok fin by blast
qed

subsection \<open>Rounding\<close>

lemma DivRound_nearest:
  assumes "0 < d"
  shows "DivRoundToNearest n d = Inr q \<Longrightarrow> 2 * \<bar>n - q * d\<bar> \<le> d"
    and "DivRoundPositiveToNearest n d = Inr q \<Longrightarrow> 0 \<le> n \<Longrightarrow> 2 * \<bar>n - q * d\<bar> \<le> d"
proof -
  have half: "c_div d 2 = d div 2" "c_div (- d) 2 = - (d div 2)" "0 \<le> d div 2"
    using assms by (simp_all add: c_div_nonneg c_div_neg pos_imp_zdiv_nonneg_iff)
  have pos: "c_div (n + d div 2) d = (n + d div 2) div d" if "0 \<le> n"
    using that half assms by (simp add: c_div_nonneg)
  have neg: "c_div (n - d div 2) d = - ((- n + d div 2) div d)" if "n < 0"
    using that half assms by (simp add: c_div_le_zero)
  have sym: "2 * \<bar>n - - ((- n + d div 2) div d) * d\<bar> \<le> d"
    using div_nearest [OF assms, of "- n"] by (metis abs_minus_commute minus_diff_eq minus_mult_left diff_minus_eq_add add.commute abs_minus_cancel uminus_add_conv_diff)
  show "DivRoundToNearest n d = Inr q \<Longrightarrow> 2 * \<bar>n - q * d\<bar> \<le> d"
    using div_nearest [OF assms, of n] sym pos neg
    by (cases "0 \<le> n") (auto simp: DivRoundToNearest_def res_bind_eq_Inr half)
  show "DivRoundPositiveToNearest n d = Inr q \<Longrightarrow> 0 \<le> n \<Longrightarrow> 2 * \<bar>n - q * d\<bar> \<le> d"
    using div_nearest [OF assms, of n] pos by (auto simp: DivRoundPositiveToNearest_def res_bind_eq_Inr half)
qed

lemma ToFraction_nearest:
  assumes "ToFraction u d v = Inr q" and "0 < d" and "unit_ok u v"
  shows "2 * \<bar>v - q * d\<bar> \<le> d"
proof -
  have "0 \<le> v" if "one_sided u" using that assms(1,3) by (auto simp: ToFraction_def unit_ok_def infinity_defs)
  then show ?thesis
    using assms(1) DivRound_nearest [OF assms(2), of v q] by (auto simp: ToFraction_def split: if_splits)
qed

lemma round_nonneg:
  assumes "0 \<le> v"
  shows "RoundTo u r v = Inr w \<Longrightarrow> r dvd w \<and> 2 * \<bar>v - w\<bar> \<le> r"
    and "RoundUpTo u r v = Inr w \<Longrightarrow> r dvd w \<and> v \<le> w \<and> w < v + r"
    and "RoundDownTo u r v = Inr w \<Longrightarrow> r dvd w \<and> w \<le> v \<and> v < w + r"
proof -
  assume "RoundTo u r v = Inr w"
  then have r: "0 < r" and w: "w = c_div (v + c_div r 2) r * r"
    by (auto simp: RoundTo_def unit_mul_def res_bind_eq_Inr)
  have "0 \<le> r div 2" using r by (simp add: pos_imp_zdiv_nonneg_iff)
  then have "w = (v + r div 2) div r * r" unfolding w using r assms by (simp add: c_div_nonneg)
  then show "r dvd w \<and> 2 * \<bar>v - w\<bar> \<le> r" using div_nearest [OF r, of v] by simp
next
  assume "RoundUpTo u r v = Inr w"
  then have r: "0 < r" and w: "w = c_div (v + r - 1) r * r"
    by (auto simp: RoundUpTo_def unit_mul_def res_bind_eq_Inr)
  then have "w = (v + r - 1) div r * r" using assms by (simp add: c_div_nonneg)
  then show "r dvd w \<and> v \<le> w \<and> w < v + r" using div_floor [OF r, of "v + r - 1"] by simp
next
  assume "RoundDownTo u r v = Inr w"
  then have r: "0 < r" and w: "w = c_div v r * r"
    by (auto simp: RoundDownTo_def unit_mul_def res_bind_eq_Inr)
  then show "r dvd w \<and> w \<le> v \<and> v < w + r" using assms div_floor [OF r, of v] by (simp add: c_div_nonneg)
qed

lemma divide_round_agree:
  assumes "DivRoundPositiveToNearest n d = Inr q" and "0 \<le> n" and "0 < d" and "is_int64 n"
  shows "DivideRoundToNearest n d = Inr q"
proof -
  have half: "c_div d 2 = d div 2" "c_div (d - 1) 2 = (d - 1) div 2" "0 \<le> d div 2"
    using assms(3) by (simp_all add: c_div_nonneg pos_imp_zdiv_nonneg_iff)
  have q: "q = (n + d div 2) div d" and i: "is_int64 q"
    using assms(1-3) half by (auto simp: DivRoundPositiveToNearest_def res_bind_eq_Inr c_div_nonneg)
  define a m where "a = n div d * d" and "m = n mod d"
  have n: "n = a + m" "0 \<le> m" "m < d"
    using assms(3) unfolding a_def m_def by simp_all
  have step: "(n + d div 2) div d = n div d + (if m > (d - 1) div 2 then 1 else 0)"
  proof (rule div_unique)
    have *: "(n div d + (if m > (d - 1) div 2 then 1 else 0)) * d = a + (if m > (d - 1) div 2 then d else 0)"
      by (simp add: distrib_right a_def)
    show "(n div d + (if m > (d - 1) div 2 then 1 else 0)) * d \<le> n + d div 2"
      unfolding * using n half_bounds [of d] half_bounds [of "d - 1"] by (cases "m > (d - 1) div 2") simp_all
    show "n + d div 2 < (n div d + (if m > (d - 1) div 2 then 1 else 0)) * d + d"
      unfolding * using n half_bounds [of d] half_bounds [of "d - 1"] by (cases "m > (d - 1) div 2") simp_all
  qed
  then have "i64 (n div d + (if n mod d > (d - 1) div 2 then 1 else 0)) = Inr q"
    using i unfolding q m_def by simp
  then show ?thesis
    using assms(2,3) half by (simp add: DivideRoundToNearest_def c_div_nonneg c_mod_nonneg)
qed

lemma DivideRoundUp_least:
  assumes "DivideRoundUp n d = Inr q"
  shows "n \<le> q * d \<and> q * d < n + d"
proof -
  from assms have d: "0 \<le> n" "0 < d" and q: "q = n div d + (if n mod d > 0 then 1 else 0)"
    by (auto simp: DivideRoundUp_def Let_def c_div_nonneg c_mod_nonneg split: if_splits)
  define a m where "a = n div d * d" and "m = n mod d"
  have n: "n = a + m" "0 \<le> m" "m < d" using d unfolding a_def m_def by simp_all
  have "q * d = a + (if m > 0 then d else 0)" unfolding q a_def m_def by (simp add: distrib_right)
  then show ?thesis using n by (cases "m > 0") simp_all
qed

text \<open>
  Rounding of values that are not negative. Conversions to a coarser unit (also of negative time
  differences) and \<^verbatim>\<open>RoundTo\<close> are off by at most half a unit; \<^verbatim>\<open>RoundUpTo\<close> and \<^verbatim>\<open>RoundDownTo\<close>
  give the next multiple in their direction; \<^verbatim>\<open>DivideRoundUp\<close> is the least quotient that covers the
  dividend and \<^verbatim>\<open>DivideRoundToNearest\<close> agrees with the rounding the units use.
\<close>

theorem unit_rounding:
  "(ToFraction u d x = Inr q \<and> 0 < d \<and> unit_ok u x \<longrightarrow> 2 * \<bar>x - q * d\<bar> \<le> d) \<and>
   (0 \<le> v \<longrightarrow>
      (RoundTo u r v = Inr w \<longrightarrow> r dvd w \<and> 2 * \<bar>v - w\<bar> \<le> r) \<and>
      (RoundUpTo u r v = Inr w \<longrightarrow> r dvd w \<and> v \<le> w \<and> w < v + r) \<and>
      (RoundDownTo u r v = Inr w \<longrightarrow> r dvd w \<and> w \<le> v \<and> v < w + r)) \<and>
   (DivideRoundUp n m = Inr k \<longrightarrow> n \<le> k * m \<and> k * m < n + m) \<and>
   (DivRoundPositiveToNearest n m = Inr l \<and> 0 \<le> n \<and> 0 < m \<and> is_int64 n \<longrightarrow> DivideRoundToNearest n m = Inr l)"
  using ToFraction_nearest [of u d x q] round_nonneg [of v u r w] DivideRoundUp_least [of n m k]
    divide_round_agree [of n m l] by (intro conjI impI) blast+

theorem unit_rounding_witness:
  "ToFraction TimeDelta 1000 (- 1600) = Inr (- 2) \<and> 2 * \<bar>- 1600 - (- 2) * 1000\<bar> \<le> (1000::int) \<and>
   RoundTo DataRate 5 8 = Inr 10 \<and> RoundUpTo DataRate 5 8 = Inr 10 \<and> (5::int) dvd 10 \<and> (8::int) \<le> 10 \<and>
   DivideRoundUp 7 2 = Inr 4 \<and> (7::int) \<le> 4 * 2 \<and>
   DivRoundPositiveToNearest 7 2 = Inr 4 \<and> DivideRoundToNearest 7 2 = Inr 4"
proof -
  have e: "ToFraction TimeDelta 1000 (- 1600) = Inr (- 2)" "RoundTo DataRate 5 8 = Inr 10"
    "RoundUpTo DataRate 5 8 = Inr 10" "DivideRoundUp 7 2 = Inr 4" "DivRoundPositiveToNearest 7 2 = Inr 4"
    by code_simp+
  have ok: "unit_ok TimeDelta (- 1600)" "is_int64 7" "(0::int) < 1000" "(0::int) \<le> 8" "(0::int) \<le> 7" "(0::int) < 2"
    by (simp_all add: unit_ok_def int64_defs)
  note R = unit_rounding [of TimeDelta 1000 "- 1600" "- 2"] unit_rounding [of DataRate _ _ _ 8 5 10 7 2 4 4]
  show ?thesis using R e ok by blast
qed

lemma c_div_multiple: "v < 0 \<Longrightarrow> 0 < r \<Longrightarrow> c_div v r * r = - ((- v) div r * r)"
  by (simp add: c_div_neg)

text \<open>
  The directed roundings go the wrong way below zero, because division truncates: \<^verbatim>\<open>RoundDownTo\<close>
  of a negative time difference that is not a multiple returns a greater value, and \<^verbatim>\<open>RoundUpTo\<close> of a
  negative multiple of the resolution moves it up by a whole unit instead of leaving it alone.
\<close>

theorem directed_rounding_of_negatives:
  assumes "v < 0"
  shows "(RoundDownTo TimeDelta r v = Inr w \<and> \<not> r dvd v \<longrightarrow> v < w) \<and>
    (RoundUpTo TimeDelta r v = Inr w \<and> r dvd v \<and> 1 < r \<longrightarrow> w = v + r)"
proof (intro conjI impI; elim conjE)
  assume "RoundDownTo TimeDelta r v = Inr w" and nd: "\<not> r dvd v"
  then have r: "0 < r" and w: "w = - ((- v) div r * r)"
    using assms by (auto simp: RoundDownTo_def unit_mul_def res_bind_eq_Inr c_div_multiple)
  have "w \<noteq> v" using nd unfolding w by (metis dvd_triv_right dvd_minus_iff)
  then show "v < w" using div_floor(1) [OF r, of "- v"] w by arith
next
  assume "RoundUpTo TimeDelta r v = Inr w" and d: "r dvd v" and r: "1 < r"
  then have w: "w = c_div (v + r - 1) r * r"
    by (auto simp: RoundUpTo_def unit_mul_def res_bind_eq_Inr)
  from d obtain k where k: "v = k * r" by (metis dvdE mult.commute)
  have "k \<le> - 1" using assms r unfolding k by (simp add: mult_less_0_iff)
  then have "k * r \<le> - 1 * r" using r by (intro mult_right_mono) simp_all
  then have neg: "v + r - 1 < 0" unfolding k by simp
  have "(- (v + r - 1)) div r = - k - 1"
    by (rule div_unique) (use r in \<open>simp_all add: k left_diff_distrib\<close>)
  then have "c_div (v + r - 1) r = k + 1" using neg r by (simp add: c_div_neg)
  then show "w = v + r" unfolding w k by (simp add: distrib_right)
qed

theorem directed_rounding_of_negatives_witness:
  "RoundDownTo TimeDelta 5 (- 7) = Inr (- 5) \<and> (- 7 :: int) < - 5 \<and>
   RoundUpTo TimeDelta 5 (- 10) = Inr (- 5) \<and> (- 5 :: int) = - 10 + 5"
proof -
  have e: "RoundDownTo TimeDelta 5 (- 7) = Inr (- 5)" "RoundUpTo TimeDelta 5 (- 10) = Inr (- 5)"
    by code_simp+
  have d: "\<not> (5::int) dvd - 7" "(5::int) dvd - 10" "(- 7::int) < 0" "(- 10::int) < 0" "(1::int) < 5"
    by simp_all
  show ?thesis
    using directed_rounding_of_negatives [OF d(3), of 5 "- 5"] directed_rounding_of_negatives [OF d(4), of 5 "- 5"] d e
    by blast
qed

end
