(* ===== verification/RunningStats.thy ===== *)
theory RunningStats
  imports Complex_Main "HOL-Library.Multiset" Prelude
begin

section \<open>Running statistics and the rolling accumulator\<close>

text \<open>
  \<^verbatim>\<open>rtc_base/numerics/running_statistics.h\<close> (mean and variance by Welford's method, with removal and
  merging) and \<^verbatim>\<open>rtc_base/rolling_accumulator.h\<close> (statistics of the last samples), for samples of
  a floating point type. Arithmetic on \<^verbatim>\<open>double\<close> is that of the real numbers, without rounding; a
  division by zero gives a value that is not a number, written \<open>None\<close>, and every operation on it
  gives \<open>None\<close> again.
\<close>

subsection \<open>Numbers\<close>

type_synonym fp = "real option"

definition fp2 :: "(real \<Rightarrow> real \<Rightarrow> real) \<Rightarrow> fp \<Rightarrow> fp \<Rightarrow> fp" where
  "fp2 f a b = (case a of None \<Rightarrow> None | Some x \<Rightarrow> (case b of None \<Rightarrow> None | Some y \<Rightarrow> Some (f x y)))"

definition fadd :: "fp \<Rightarrow> fp \<Rightarrow> fp" where
  "fadd = fp2 (+)"

definition fsub :: "fp \<Rightarrow> fp \<Rightarrow> fp" where
  "fsub = fp2 (-)"

definition fmul :: "fp \<Rightarrow> fp \<Rightarrow> fp" where
  "fmul = fp2 (*)"

definition fdiv :: "fp \<Rightarrow> fp \<Rightarrow> fp" where
  "fdiv a b = (if b = Some 0 then None else fp2 (/) a b)"

subsection \<open>RunningStatistics\<close>

text \<open>
  \<open>stat_min\<close> and \<open>stat_max\<close> are \<open>None\<close> while they hold the neutral values \<^verbatim>\<open>infinity_or_max\<close> and
  \<^verbatim>\<open>minus_infinity_or_min\<close>.
\<close>

record RunningStatistics =
  stat_size :: int
  stat_min :: "real option"
  stat_max :: "real option"
  stat_mean :: fp
  stat_cumul :: fp

definition RunningStatistics_new :: RunningStatistics where
  "RunningStatistics_new =
     \<lparr>stat_size = 0, stat_min = None, stat_max = None, stat_mean = Some 0, stat_cumul = Some 0\<rparr>"

definition opt2 :: "(real \<Rightarrow> real \<Rightarrow> real) \<Rightarrow> real option \<Rightarrow> real option \<Rightarrow> real option" where
  "opt2 f a b = (case a of None \<Rightarrow> b | Some x \<Rightarrow> (case b of None \<Rightarrow> a | Some y \<Rightarrow> Some (f x y)))"

definition stats_AddSample :: "real \<Rightarrow> RunningStatistics \<Rightarrow> RunningStatistics" where
  "stats_AddSample sample s =
     (let s = s\<lparr>stat_max := opt2 max (stat_max s) (Some sample)\<rparr>;
          s = s\<lparr>stat_min := opt2 min (stat_min s) (Some sample)\<rparr>;
          s = s\<lparr>stat_size := stat_size s + 1\<rparr>;
          delta = fsub (Some sample) (stat_mean s);
          s = s\<lparr>stat_mean := fadd (stat_mean s) (fdiv delta (Some (of_int (stat_size s))))\<rparr>;
          delta2 = fsub (Some sample) (stat_mean s)
      in s\<lparr>stat_cumul := fadd (stat_cumul s) (fmul delta delta2)\<rparr>)"

definition stats_RemoveSample :: "real \<Rightarrow> RunningStatistics \<Rightarrow> RunningStatistics res" where
  "stats_RemoveSample sample s =
     (if \<not> stat_size s > 0 then Inl DcheckFailed
      else if stat_size s = 0 then Inr s
      else
        let s = s\<lparr>stat_size := stat_size s - 1\<rparr>;
            delta = fsub (Some sample) (stat_mean s);
            s = s\<lparr>stat_mean := fsub (stat_mean s) (fdiv delta (Some (of_int (stat_size s))))\<rparr>;
            delta2 = fsub (Some sample) (stat_mean s)
        in Inr (s\<lparr>stat_cumul := fsub (stat_cumul s) (fmul delta delta2)\<rparr>))"

definition merge_delta :: "fp \<Rightarrow> RunningStatistics \<Rightarrow> fp" where
  "merge_delta new_mean stats =
     fmul (Some (of_int (stat_size stats)))
       (fadd (fmul new_mean (fsub new_mean (fmul (Some 2) (stat_mean stats))))
             (fmul (stat_mean stats) (stat_mean stats)))"

definition MergeStatistics :: "RunningStatistics \<Rightarrow> RunningStatistics \<Rightarrow> RunningStatistics" where
  "MergeStatistics other s =
     (if stat_size other = 0 then s
      else
        let s = s\<lparr>stat_max := opt2 max (stat_max s) (stat_max other)\<rparr>;
            s = s\<lparr>stat_min := opt2 min (stat_min s) (stat_min other)\<rparr>;
            new_size = stat_size s + stat_size other;
            new_mean = fdiv (fadd (fmul (stat_mean s) (Some (of_int (stat_size s))))
                                  (fmul (stat_mean other) (Some (of_int (stat_size other)))))
                            (Some (of_int new_size));
            s = s\<lparr>stat_cumul := fadd (fadd (fadd (stat_cumul s) (merge_delta new_mean s)) (stat_cumul other))
                                     (merge_delta new_mean other)\<rparr>;
            s = s\<lparr>stat_mean := new_mean\<rparr>
        in s\<lparr>stat_size := new_size\<rparr>)"

definition GetMin :: "RunningStatistics \<Rightarrow> real option option" where
  "GetMin s = (if stat_size s = 0 then None else Some (stat_min s))"

definition GetMax :: "RunningStatistics \<Rightarrow> real option option" where
  "GetMax s = (if stat_size s = 0 then None else Some (stat_max s))"

definition GetMean :: "RunningStatistics \<Rightarrow> fp option" where
  "GetMean s = (if stat_size s = 0 then None else Some (stat_mean s))"

definition GetVariance :: "RunningStatistics \<Rightarrow> fp option" where
  "GetVariance s =
     (if stat_size s = 0 then None else Some (fdiv (stat_cumul s) (Some (of_int (stat_size s)))))"

definition GetStandardDeviation :: "RunningStatistics \<Rightarrow> fp option" where
  "GetStandardDeviation s =
     (if stat_size s = 0 then None else map_option (map_option sqrt) (GetVariance s))"

subsection \<open>RollingAccumulator\<close>

record RollingAccumulator =
  ra_stats :: RunningStatistics
  ra_next_index :: nat
  ra_max :: real
  ra_max_stale :: bool
  ra_min :: real
  ra_min_stale :: bool
  ra_samples :: "real list"

definition ra_max_count :: "RollingAccumulator \<Rightarrow> nat" where
  "ra_max_count r = length (ra_samples r)"

definition ra_count :: "RollingAccumulator \<Rightarrow> nat" where
  "ra_count r = nat (stat_size (ra_stats r))"

definition ra_Reset :: "RollingAccumulator \<Rightarrow> RollingAccumulator" where
  "ra_Reset r =
     r\<lparr>ra_stats := RunningStatistics_new, ra_next_index := 0, ra_max := 0, ra_max_stale := False,
       ra_min := 0, ra_min_stale := False\<rparr>"

definition RollingAccumulator_new :: "nat \<Rightarrow> RollingAccumulator res" where
  "RollingAccumulator_new max_count =
     (if \<not> max_count > 0 then Inl DcheckFailed
      else Inr (ra_Reset \<lparr>ra_stats = RunningStatistics_new, ra_next_index = 0, ra_max = 0,
             ra_max_stale = False, ra_min = 0, ra_min_stale = False, ra_samples = replicate max_count 0\<rparr>))"

definition ra_AddSample :: "real \<Rightarrow> RollingAccumulator \<Rightarrow> RollingAccumulator res" where
  "ra_AddSample sample r =
     res_bind
       (if ra_count r = ra_max_count r
        then
          let sample_to_remove = ra_samples r ! ra_next_index r
          in res_bind (stats_RemoveSample sample_to_remove (ra_stats r)) (\<lambda>st.
               let r = r\<lparr>ra_stats := st\<rparr>;
                   r = (if sample_to_remove \<ge> ra_max r then r\<lparr>ra_max_stale := True\<rparr> else r);
                   r = (if sample_to_remove \<le> ra_min r then r\<lparr>ra_min_stale := True\<rparr> else r)
               in Inr r)
        else Inr r)
       (\<lambda>r.
         let r = r\<lparr>ra_samples := (ra_samples r)[ra_next_index r := sample]\<rparr>;
             r = (if ra_count r = 0 \<or> sample \<ge> ra_max r
                  then r\<lparr>ra_max := sample, ra_max_stale := False\<rparr> else r);
             r = (if ra_count r = 0 \<or> sample \<le> ra_min r
                  then r\<lparr>ra_min := sample, ra_min_stale := False\<rparr> else r);
             r = r\<lparr>ra_stats := stats_AddSample sample (ra_stats r)\<rparr>
         in Inr (r\<lparr>ra_next_index := (ra_next_index r + 1) mod ra_max_count r\<rparr>))"

definition ra_ComputeMean :: "RollingAccumulator \<Rightarrow> fp" where
  "ra_ComputeMean r = (case GetMean (ra_stats r) of None \<Rightarrow> Some 0 | Some v \<Rightarrow> v)"

text \<open>The loops of \<^verbatim>\<open>ComputeMax\<close> and \<^verbatim>\<open>ComputeMin\<close>: the index, the steps left, the best so far.\<close>

fun scan_samples :: "(real \<Rightarrow> real \<Rightarrow> real) \<Rightarrow> RollingAccumulator \<Rightarrow> nat \<Rightarrow> nat \<Rightarrow> real \<Rightarrow> real" where
  "scan_samples pick r i 0 best = best"
| "scan_samples pick r i (Suc n) best =
     scan_samples pick r (Suc i) n (pick best (ra_samples r ! ((ra_next_index r + i) mod ra_max_count r)))"

definition ra_ComputeMax :: "RollingAccumulator \<Rightarrow> (real \<times> RollingAccumulator) res" where
  "ra_ComputeMax r =
     (if ra_max_stale r
      then if \<not> ra_count r > 0 then Inl DcheckFailed
           else let m = scan_samples max r 1 (ra_count r - 1) (ra_samples r ! ra_next_index r)
                in Inr (m, r\<lparr>ra_max := m, ra_max_stale := False\<rparr>)
      else Inr (ra_max r, r))"

definition ra_ComputeMin :: "RollingAccumulator \<Rightarrow> (real \<times> RollingAccumulator) res" where
  "ra_ComputeMin r =
     (if ra_min_stale r
      then if \<not> ra_count r > 0 then Inl DcheckFailed
           else let m = scan_samples min r 1 (ra_count r - 1) (ra_samples r ! ra_next_index r)
                in Inr (m, r\<lparr>ra_min := m, ra_min_stale := False\<rparr>)
      else Inr (ra_min r, r))"

fun weighted_loop ::
  "real \<Rightarrow> RollingAccumulator \<Rightarrow> nat \<Rightarrow> nat \<Rightarrow> real \<Rightarrow> real \<Rightarrow> real \<Rightarrow> real \<times> real" where
  "weighted_loop rate r i 0 weighted_mean current_weight weight_sum = (weighted_mean, weight_sum)"
| "weighted_loop rate r i (Suc n) weighted_mean current_weight weight_sum =
     (let current_weight = current_weight * rate;
          weight_sum = weight_sum + current_weight;
          max_size = ra_max_count r;
          index = (ra_next_index r + max_size - i - 1) mod max_size;
          weighted_mean = weighted_mean + current_weight * ra_samples r ! index
      in weighted_loop rate r (Suc i) n weighted_mean current_weight weight_sum)"

definition ra_ComputeWeightedMean :: "real \<Rightarrow> RollingAccumulator \<Rightarrow> fp" where
  "ra_ComputeWeightedMean learning_rate r =
     (if ra_count r < 1 \<or> learning_rate \<le> 0 \<or> learning_rate \<ge> 1 then ra_ComputeMean r
      else case weighted_loop learning_rate r 0 (ra_count r) 0 1 0 of
             (weighted_mean, weight_sum) \<Rightarrow> fdiv (Some weighted_mean) (Some weight_sum))"

definition ra_ComputeVariance :: "RollingAccumulator \<Rightarrow> fp" where
  "ra_ComputeVariance r = (case GetVariance (ra_stats r) of None \<Rightarrow> Some 0 | Some v \<Rightarrow> v)"

subsection \<open>Welford's updates\<close>

lemma fp_simps [simp]:
  "fadd (Some x) (Some y) = Some (x + y)" "fsub (Some x) (Some y) = Some (x - y)"
  "fmul (Some x) (Some y) = Some (x * y)" "y \<noteq> 0 \<Longrightarrow> fdiv (Some x) (Some y) = Some (x / y)"
  "fdiv a (Some 0) = None"
  "fadd None b = None" "fadd a None = None" "fsub None b = None" "fsub a None = None"
  "fmul None b = None" "fmul a None = None" "fdiv None b = None"
  by (auto simp: fadd_def fsub_def fmul_def fdiv_def fp2_def split: option.splits)

text \<open>The mean of a list of samples, and the sum of the squared distances from it.\<close>

definition avg :: "real list \<Rightarrow> real" where
  "avg xs = sum_list xs / real (length xs)"

definition sq_dist :: "real list \<Rightarrow> real" where
  "sq_dist xs = (\<Sum>x\<leftarrow>xs. (x - avg xs)\<^sup>2)"

definition stats_of :: "real list \<Rightarrow> RunningStatistics \<Rightarrow> bool" where
  "stats_of xs s \<longleftrightarrow>
     stat_size s = int (length xs) \<and> stat_mean s = Some (avg xs) \<and> stat_cumul s = Some (sq_dist xs)"

definition sum_sq :: "real list \<Rightarrow> real" where
  "sum_sq xs = (\<Sum>x\<leftarrow>xs. x\<^sup>2)"

lemma sq_dist_shift: "(\<Sum>x\<leftarrow>xs. (x - c)\<^sup>2) = sum_sq xs - 2 * c * sum_list xs + real (length xs) * c\<^sup>2"
  by (induction xs) (simp_all add: sum_sq_def power2_eq_square algebra_simps)

lemma sq_dist_eq: "sq_dist xs = sum_sq xs - (sum_list xs)\<^sup>2 / real (length xs)"
proof (cases "xs = []")
  case False
  then have n: "real (length xs) \<noteq> 0" by simp
  show ?thesis unfolding sq_dist_def sq_dist_shift avg_def using n by (simp add: field_simps power2_eq_square)
qed (simp add: sq_dist_def sum_sq_def)

lemma avg_mset: "mset xs = mset ys \<Longrightarrow> avg xs = avg ys"
  unfolding avg_def by (metis mset_eq_length sum_mset_sum_list)

lemma sum_sq_mset: "mset xs = mset ys \<Longrightarrow> sum_sq xs = sum_sq ys"
  unfolding sum_sq_def by (metis mset_map sum_mset_sum_list)

lemma stats_of_mset:
  assumes "stats_of xs s" and "mset xs = mset ys"
  shows "stats_of ys s"
  using assms avg_mset [OF assms(2)] sum_sq_mset [OF assms(2)] mset_eq_length [OF assms(2)]
    sum_mset_sum_list [of xs] sum_mset_sum_list [of ys]
  by (simp add: stats_of_def sq_dist_eq)

lemma stats_of_new: "stats_of [] RunningStatistics_new"
  by (simp add: stats_of_def RunningStatistics_new_def avg_def sq_dist_def)

lemma mean_times:
  fixes S n :: real
  assumes "n = 0 \<Longrightarrow> S = 0"
  obtains m where "S / n = m" and "S = m * n"
  using assms by (cases "n = 0") (auto intro: that [of "S / n"])

lemma welford_mean:
  fixes S n x :: real
  assumes "0 \<le> n" and "n = 0 \<Longrightarrow> S = 0"
  shows "S / n + (x - S / n) / (n + 1) = (S + x) / (n + 1)"
proof -
  obtain m where m: "S / n = m" "S = m * n" using mean_times [OF assms(2)] by metis
  have "n + 1 \<noteq> 0" using assms(1) by simp
  then show ?thesis unfolding m(1) m(2) by (simp add: field_simps)
qed

lemma welford_cumul:
  fixes S Q n x :: real
  assumes "0 \<le> n" and "n = 0 \<Longrightarrow> S = 0"
  shows "Q - S\<^sup>2 / n + (x - S / n) * (x - (S + x) / (n + 1)) = Q + x\<^sup>2 - (S + x)\<^sup>2 / (n + 1)"
proof -
  obtain m where m: "S / n = m" "S = m * n" using mean_times [OF assms(2)] by metis
  have q: "S\<^sup>2 / n = m * S" unfolding m(1) [symmetric] by (simp add: power2_eq_square)
  have "n + 1 \<noteq> 0" using assms(1) by simp
  then show ?thesis unfolding q m(1) unfolding m(2) by (simp add: field_simps power2_eq_square)
qed

lemma AddSample_stats:
  assumes "stats_of xs s"
  shows "stats_of (xs @ [x]) (stats_AddSample x s)"
proof -
  let ?n = "real (length xs)" and ?S = "sum_list xs"
  have z: "?n = 0 \<Longrightarrow> ?S = 0" by simp
  note M = welford_mean [of ?n ?S x, OF _ z] and C = welford_cumul [of ?n ?S "sum_sq xs" x, OF _ z]
  have "sum_sq (xs @ [x]) = sum_sq xs + x\<^sup>2" by (simp add: sum_sq_def)
  then show ?thesis
    using assms M C
    by (simp add: stats_of_def stats_AddSample_def Let_def avg_def sq_dist_eq add.commute)
qed

lemma remove_mean:
  fixes S n x :: real
  assumes "1 < n"
  shows "S / n - (x - S / n) / (n - 1) = (S - x) / (n - 1)"
proof -
  obtain m where m: "S / n = m" "S = m * n" using mean_times [of n S] assms by fastforce
  have "n - 1 \<noteq> 0" using assms by simp
  then show ?thesis unfolding m(1) m(2) by (simp add: field_simps)
qed

lemma remove_cumul:
  fixes S Q n x :: real
  assumes "1 < n"
  shows "Q - S\<^sup>2 / n - (x - S / n) * (x - (S - x) / (n - 1)) = Q - x\<^sup>2 - (S - x)\<^sup>2 / (n - 1)"
proof -
  obtain m where m: "S / n = m" "S = m * n" using mean_times [of n S] assms by fastforce
  have q: "S\<^sup>2 / n = m * S" unfolding m(1) [symmetric] by (simp add: power2_eq_square)
  have "n - 1 \<noteq> 0" using assms by simp
  then show ?thesis unfolding q m(1) unfolding m(2) by (simp add: field_simps power2_eq_square)
qed

lemma RemoveSample_stats:
  assumes "stats_of (x # xs) s" and "xs \<noteq> []"
  shows "\<exists>s'. stats_RemoveSample x s = Inr s' \<and> stats_of xs s'"
proof -
  let ?n = "real (length (x # xs))" and ?S = "sum_list (x # xs)" and ?Q = "sum_sq (x # xs)"
  have n: "1 < ?n" using assms(2) by (cases xs) auto
  have l: "?n - 1 = real (length xs)" by simp
  have q: "?S - x = sum_list xs" "?Q - x\<^sup>2 = sum_sq xs" by (simp_all add: sum_sq_def)
  note M = remove_mean [OF n, of ?S x, unfolded l q(1)] and C = remove_cumul [OF n, of ?Q ?S x, unfolded l q]
  have "stat_size s = int (length xs) + 1" "stat_mean s = Some (?S / ?n)" "stat_cumul s = Some (?Q - ?S\<^sup>2 / ?n)"
    using assms(1) by (simp_all add: stats_of_def avg_def sq_dist_eq)
  then show ?thesis
    using assms(2) M C unfolding stats_RemoveSample_def Let_def stats_of_def avg_def sq_dist_eq by simp
qed

lemma merge_mean:
  fixes S T n m :: real
  assumes "0 \<le> n" and "0 < m" and "n = 0 \<Longrightarrow> S = 0"
  shows "(S / n * n + T / m * m) / (n + m) = (S + T) / (n + m)"
  using assms by (cases "n = 0") auto

lemma merge_cumul:
  fixes S T n m c d :: real
  assumes "S = c * n" and "T = d * m" and "M * (n + m) = S + T"
  shows "Q - c * S + n * (M * (M - 2 * c) + c * c) + (P - d * T) + m * (M * (M - 2 * d) + d * d) =
    Q + P - M * (S + T)"
proof -
  have "n * (M * (M - 2 * c) + c * c) = M * (M * n) - 2 * M * (c * n) + c * (c * n)"
    "m * (M * (M - 2 * d) + d * d) = M * (M * m) - 2 * M * (d * m) + d * (d * m)"
    by (simp_all add: algebra_simps)
  moreover have "M * (M * n) + M * (M * m) = M * (S + T)"
    unfolding assms(3) [symmetric] by (simp add: algebra_simps)
  ultimately show ?thesis unfolding assms(1,2) by (simp add: algebra_simps)
qed

lemma MergeStatistics_stats:
  assumes "stats_of xs s" and "stats_of ys t"
  shows "stats_of (xs @ ys) (MergeStatistics t s)"
proof (cases "ys = []")
  case True
  then show ?thesis using assms by (simp add: MergeStatistics_def stats_of_def)
next
  case False
  let ?n = "real (length xs)" and ?m = "real (length ys)" and ?S = "sum_list xs" and ?T = "sum_list ys"
  let ?M = "(?S + ?T) / (?n + ?m)"
  have m: "0 < ?m" using False by simp
  have s: "stat_size s = int (length xs)" "stat_mean s = Some (avg xs)" "stat_cumul s = Some (sq_dist xs)"
    and t: "stat_size t = int (length ys)" "stat_mean t = Some (avg ys)" "stat_cumul t = Some (sq_dist ys)"
    using assms by (simp_all add: stats_of_def)
  have S: "?S = avg xs * ?n" "?T = avg ys * ?m" using m by (cases "xs = []"; simp add: avg_def)+
  have nm: "?n + ?m \<noteq> 0" using m of_nat_0_le_iff [of "length xs"] by linarith
  have M: "?M * (?n + ?m) = ?S + ?T" using nm by simp
  have q: "sq_dist xs = sum_sq xs - avg xs * ?S" "sq_dist ys = sum_sq ys - avg ys * ?T"
    by (simp_all add: sq_dist_eq avg_def power2_eq_square)
  have app: "avg (xs @ ys) = ?M" "sum_sq (xs @ ys) = sum_sq xs + sum_sq ys" by (simp_all add: avg_def sum_sq_def)
  have Q: "sq_dist (xs @ ys) = sum_sq xs + sum_sq ys - ?M * (?S + ?T)"
    by (simp add: sq_dist_eq app power2_eq_square)
  note C = merge_cumul [OF S M, of "sum_sq xs" "sum_sq ys"]
  have "(avg xs * ?n + avg ys * ?m) / (?n + ?m) = ?M" using S by simp
  then show ?thesis
    using s t False nm C unfolding stats_of_def MergeStatistics_def merge_delta_def app(1) Q q by simp
qed

subsection \<open>Running extremes\<close>

text \<open>
  The maximum and the minimum are tracked alike: a flag says that the stored value may have left the
  window. The contract of the comparison, and what removing the oldest and adding a new sample keep.
\<close>

locale extremes =
  fixes better :: "real \<Rightarrow> real \<Rightarrow> bool"
  assumes better_total: "better a b \<or> better b a"
    and better_trans: "better a b \<Longrightarrow> better b c \<Longrightarrow> better a c"
begin

definition tracks :: "real \<Rightarrow> bool \<Rightarrow> real list \<Rightarrow> bool" where
  "tracks b stale w \<longleftrightarrow> (w \<noteq> [] \<longrightarrow> (\<forall>y\<in>set w. better b y) \<and> (\<not> stale \<longrightarrow> b \<in> set w))"

lemma better_refl: "better a a"
  using better_total by blast

lemma tracks_drop:
  assumes "tracks b stale w" and "w \<noteq> []"
  shows "tracks b (stale \<or> better (hd w) b) (tl w)"
  using assms better_refl by (cases w) (auto simp: tracks_def)

lemma tracks_add:
  assumes "tracks b stale w"
  shows "tracks (if w = [] \<or> better x b then x else b) (\<not> (w = [] \<or> better x b) \<and> stale) (w @ [x])"
proof (cases "w = [] \<or> better x b")
  case True
  then show ?thesis using assms better_refl by (auto simp: tracks_def intro: better_trans)
next
  case False
  then have "better b x" using better_total by blast
  then show ?thesis using assms False by (auto simp: tracks_def)
qed

lemma tracks_fresh: "tracks b stale w \<Longrightarrow> w \<noteq> [] \<Longrightarrow> \<not> stale \<Longrightarrow> b \<in> set w \<and> (\<forall>y\<in>set w. better b y)"
  by (simp add: tracks_def)

end

interpretation mx: extremes "(\<ge>)"
  by unfold_locales auto

interpretation mn: extremes "(\<le>)"
  by unfold_locales auto

subsection \<open>The window\<close>

text \<open>The last \<open>n\<close> of the samples \<open>xs\<close>, oldest first, and the invariant that ties the ring to them.\<close>

definition window :: "nat \<Rightarrow> real list \<Rightarrow> real list" where
  "window n xs = drop (length xs - n) xs"

definition ring :: "nat \<Rightarrow> real list \<Rightarrow> RollingAccumulator \<Rightarrow> bool" where
  "ring n xs r \<longleftrightarrow>
     0 < n \<and> length (ra_samples r) = n \<and> ra_next_index r = length xs mod n \<and>
     stat_size (ra_stats r) = int (length (window n xs)) \<and>
     (\<forall>j < length xs. length xs \<le> j + n \<longrightarrow> ra_samples r ! (j mod n) = xs ! j)"

definition extremes_ok :: "nat \<Rightarrow> real list \<Rightarrow> RollingAccumulator \<Rightarrow> bool" where
  "extremes_ok n xs r \<longleftrightarrow>
     mx.tracks (ra_max r) (ra_max_stale r) (window n xs) \<and>
     mn.tracks (ra_min r) (ra_min_stale r) (window n xs) \<and>
     (ra_max_stale r \<or> ra_min_stale r \<longrightarrow> n \<le> length xs)"

definition stats_ok :: "nat \<Rightarrow> real list \<Rightarrow> RollingAccumulator \<Rightarrow> bool" where
  "stats_ok n xs r \<longleftrightarrow> (2 \<le> n \<or> length xs \<le> 1 \<longrightarrow> stats_of (window n xs) (ra_stats r))"

definition ra_inv :: "nat \<Rightarrow> real list \<Rightarrow> RollingAccumulator \<Rightarrow> bool" where
  "ra_inv n xs r \<longleftrightarrow> ring n xs r \<and> extremes_ok n xs r \<and> stats_ok n xs r"

lemma length_window: "length (window n xs) = min n (length xs)"
  by (auto simp: window_def)

lemma window_full: "n \<le> length xs \<Longrightarrow> length (window n xs) = n"
  by (simp add: window_def)

lemma window_nonempty: "0 < n \<Longrightarrow> xs \<noteq> [] \<Longrightarrow> window n xs \<noteq> []"
  using length_window [of n xs] by (cases xs) auto

lemma window_small: "length xs \<le> n \<Longrightarrow> window n xs = xs"
  by (simp add: window_def)

lemma window_snoc:
  "length xs < n \<Longrightarrow> window n (xs @ [x]) = window n xs @ [x]"
  "0 < n \<Longrightarrow> n \<le> length xs \<Longrightarrow> window n (xs @ [x]) = tl (window n xs) @ [x]"
  by (simp_all add: window_def tl_drop drop_Suc [symmetric] Suc_diff_le)

lemma window_hd: "0 < n \<Longrightarrow> n \<le> length xs \<Longrightarrow> hd (window n xs) = xs ! (length xs - n)"
  by (simp add: window_def hd_drop_conv_nth)

lemma ring_count: "ring n xs r \<Longrightarrow> ra_count r = min n (length xs)"
  by (simp add: ring_def ra_count_def length_window)

lemma ring_max_count: "ring n xs r \<Longrightarrow> ra_max_count r = n"
  by (simp add: ring_def ra_max_count_def)

lemma ring_oldest:
  assumes "ring n xs r" and "n \<le> length xs"
  shows "ra_samples r ! ra_next_index r = hd (window n xs)"
proof -
  have n: "0 < n" using assms(1) by (simp add: ring_def)
  have "(length xs - n) mod n = length xs mod n" using assms(2) by (simp add: mod_if)
  moreover have "ra_samples r ! ((length xs - n) mod n) = xs ! (length xs - n)"
    using assms n by (auto simp: ring_def)
  ultimately show ?thesis using assms n by (simp add: ring_def window_hd)
qed

lemma ring_samples_step:
  assumes "ring n xs r"
  shows "\<forall>j < length (xs @ [x]). length (xs @ [x]) \<le> j + n \<longrightarrow>
    (ra_samples r)[ra_next_index r := x] ! (j mod n) = (xs @ [x]) ! j"
proof (intro allI impI)
  fix j assume j: "j < length (xs @ [x])" "length (xs @ [x]) \<le> j + n"
  have n: "0 < n" "length (ra_samples r) = n" "ra_next_index r = length xs mod n"
    using assms by (simp_all add: ring_def)
  show "(ra_samples r)[ra_next_index r := x] ! (j mod n) = (xs @ [x]) ! j"
  proof (cases "j = length xs")
    case True
    then show ?thesis using n by simp
  next
    case False
    then have k: "j < length xs" "length xs - j < n" "0 < length xs - j" using j by auto
    have "j mod n \<noteq> length xs mod n"
    proof
      assume "j mod n = length xs mod n"
      then have "n dvd length xs - j" using k(1) by (metis less_imp_le mod_eq_dvd_iff_nat)
      then show False using k(2,3) by (meson dvd_imp_le not_le)
    qed
    then show ?thesis using n k(1) j assms by (simp add: ring_def nth_append)
  qed
qed

subsection \<open>Adding a sample\<close>

text \<open>The two halves of \<^verbatim>\<open>AddSample\<close>: forgetting the oldest sample of a full ring, storing the new one.\<close>

definition forget :: "real \<Rightarrow> RunningStatistics \<Rightarrow> RollingAccumulator \<Rightarrow> RollingAccumulator" where
  "forget old st r =
     r\<lparr>ra_stats := st, ra_max_stale := ra_max_stale r \<or> old \<ge> ra_max r,
       ra_min_stale := ra_min_stale r \<or> old \<le> ra_min r\<rparr>"

definition store :: "real \<Rightarrow> RollingAccumulator \<Rightarrow> RollingAccumulator" where
  "store x r =
     r\<lparr>ra_samples := (ra_samples r)[ra_next_index r := x],
       ra_max := (if ra_count r = 0 \<or> x \<ge> ra_max r then x else ra_max r),
       ra_max_stale := \<not> (ra_count r = 0 \<or> x \<ge> ra_max r) \<and> ra_max_stale r,
       ra_min := (if ra_count r = 0 \<or> x \<le> ra_min r then x else ra_min r),
       ra_min_stale := \<not> (ra_count r = 0 \<or> x \<le> ra_min r) \<and> ra_min_stale r,
       ra_stats := stats_AddSample x (ra_stats r),
       ra_next_index := (ra_next_index r + 1) mod length (ra_samples r)\<rparr>"

lemma ra_AddSample_eq:
  "ra_AddSample x r =
     (if ra_count r = ra_max_count r
      then res_bind (stats_RemoveSample (ra_samples r ! ra_next_index r) (ra_stats r))
             (\<lambda>st. Inr (store x (forget (ra_samples r ! ra_next_index r) st r)))
      else Inr (store x r))"
proof -
  have f: "(let r = r\<lparr>ra_stats := st\<rparr>;
           r = (if old \<ge> ra_max r then r\<lparr>ra_max_stale := True\<rparr> else r);
           r = (if old \<le> ra_min r then r\<lparr>ra_min_stale := True\<rparr> else r) in Inr r) = Inr (forget old st r)"
    for old st by (cases r) (simp add: forget_def Let_def)
  have s: "(let r = r\<lparr>ra_samples := (ra_samples r)[ra_next_index r := x]\<rparr>;
             r = (if ra_count r = 0 \<or> x \<ge> ra_max r then r\<lparr>ra_max := x, ra_max_stale := False\<rparr> else r);
             r = (if ra_count r = 0 \<or> x \<le> ra_min r then r\<lparr>ra_min := x, ra_min_stale := False\<rparr> else r);
             r = r\<lparr>ra_stats := stats_AddSample x (ra_stats r)\<rparr>
         in Inr (r\<lparr>ra_next_index := (ra_next_index r + 1) mod ra_max_count r\<rparr>)) = Inr (store x r)"
    for r by (cases r) (simp add: store_def Let_def ra_count_def ra_max_count_def)
  show ?thesis unfolding ra_AddSample_def s f by (simp add: Let_def res_bind_assoc)
qed

lemma stats_size [simp]:
  "stat_size (stats_AddSample x s) = stat_size s + 1"
  by (simp add: stats_AddSample_def Let_def)

lemma RemoveSample_size:
  "0 < stat_size s \<Longrightarrow> \<exists>s'. stats_RemoveSample x s = Inr s' \<and> stat_size s' = stat_size s - 1"
  by (simp add: stats_RemoveSample_def Let_def)

text \<open>What storing a sample does, when the accumulator holds the samples \<open>w\<close> before.\<close>

lemma store_ok:
  assumes "mx.tracks (ra_max r) (ra_max_stale r) w" and "mn.tracks (ra_min r) (ra_min_stale r) w"
    and "stat_size (ra_stats r) = int (length w)"
  shows "mx.tracks (ra_max (store x r)) (ra_max_stale (store x r)) (w @ [x])"
    and "mn.tracks (ra_min (store x r)) (ra_min_stale (store x r)) (w @ [x])"
    and "stat_size (ra_stats (store x r)) = int (length (w @ [x]))"
    and "stats_of w (ra_stats r) \<Longrightarrow> stats_of (w @ [x]) (ra_stats (store x r))"
    and "w = [] \<Longrightarrow> \<not> ra_max_stale (store x r) \<and> \<not> ra_min_stale (store x r)"
proof -
  have c: "ra_count r = 0 \<longleftrightarrow> w = []" using assms(3) by (simp add: ra_count_def)
  show "mx.tracks (ra_max (store x r)) (ra_max_stale (store x r)) (w @ [x])"
    using mx.tracks_add [OF assms(1), of x] by (simp add: store_def c)
  show "mn.tracks (ra_min (store x r)) (ra_min_stale (store x r)) (w @ [x])"
    using mn.tracks_add [OF assms(2), of x] by (simp add: store_def c)
  show "stats_of w (ra_stats r) \<Longrightarrow> stats_of (w @ [x]) (ra_stats (store x r))"
    by (simp add: store_def AddSample_stats)
  show "w = [] \<Longrightarrow> \<not> ra_max_stale (store x r) \<and> \<not> ra_min_stale (store x r)"
    using c by (simp add: store_def)
qed (use assms(3) in \<open>simp add: store_def\<close>)

lemma ring_store:
  assumes "ring n xs r" and "ra_samples r' = ra_samples r" and "ra_next_index r' = ra_next_index r"
    and "stat_size (ra_stats (store x r')) = int (length (window n (xs @ [x])))"
  shows "ring n (xs @ [x]) (store x r')"
  using assms ring_samples_step [OF assms(1), of x]
  by (simp add: ring_def store_def mod_Suc_eq)

lemma AddSample_growing:
  assumes "ra_inv n xs r" and "length xs < n"
  shows "\<exists>r'. ra_AddSample x r = Inr r' \<and> ra_inv n (xs @ [x]) r'"
proof -
  note I = assms(1) [unfolded ra_inv_def]
  have w: "window n (xs @ [x]) = window n xs @ [x]" by (rule window_snoc(1) [OF assms(2)])
  have "ra_count r \<noteq> ra_max_count r" using I assms(2) ring_count [of n xs r] ring_max_count [of n xs r] by simp
  then have e: "ra_AddSample x r = Inr (store x r)" by (simp add: ra_AddSample_eq)
  have t: "mx.tracks (ra_max r) (ra_max_stale r) (window n xs)"
    "mn.tracks (ra_min r) (ra_min_stale r) (window n xs)"
    "stat_size (ra_stats r) = int (length (window n xs))"
    "\<not> ra_max_stale r" "\<not> ra_min_stale r"
    using I assms(2) by (auto simp: extremes_ok_def ring_def)
  note S = store_ok [OF t(1-3), of x, folded w]
  have "extremes_ok n (xs @ [x]) (store x r)"
    using S(1,2) t(4,5) by (simp add: extremes_ok_def store_def)
  moreover have "stats_ok n (xs @ [x]) (store x r)"
    using I S(4) assms(2) by (auto simp: stats_ok_def)
  ultimately show ?thesis using e ring_store [OF _ refl refl S(3)] I by (simp add: ra_inv_def)
qed

lemma AddSample_rolling:
  assumes "ra_inv n xs r" and "n \<le> length xs"
  shows "\<exists>r'. ra_AddSample x r = Inr r' \<and> ra_inv n (xs @ [x]) r'"
proof -
  note I = assms(1) [unfolded ra_inv_def]
  have n: "0 < n" using I by (simp add: ring_def)
  let ?w = "window n xs" and ?old = "ra_samples r ! ra_next_index r"
  have w: "window n (xs @ [x]) = tl ?w @ [x]" by (rule window_snoc(2) [OF n assms(2)])
  have ne: "?w \<noteq> []" using n assms(2) window_full [of n xs] by auto
  have old: "?old = hd ?w" using ring_oldest I assms(2) by blast
  have size: "stat_size (ra_stats r) = int (length ?w)" using I by (simp add: ring_def)
  obtain st where st: "stats_RemoveSample ?old (ra_stats r) = Inr st" "stat_size st = int (length (tl ?w))"
    using RemoveSample_size [of "ra_stats r" ?old] size ne by (auto simp: of_nat_diff Suc_le_eq)
  have c: "ra_count r = ra_max_count r" using I assms(2) ring_count [of n xs r] ring_max_count [of n xs r] by simp
  let ?f = "forget ?old st r"
  have e: "ra_AddSample x r = Inr (store x ?f)" using st c by (simp add: ra_AddSample_eq)
  have t: "mx.tracks (ra_max ?f) (ra_max_stale ?f) (tl ?w)" "mn.tracks (ra_min ?f) (ra_min_stale ?f) (tl ?w)"
    using I mx.tracks_drop [OF _ ne] mn.tracks_drop [OF _ ne]
    by (auto simp: extremes_ok_def forget_def old)
  have s: "stat_size (ra_stats ?f) = int (length (tl ?w))" using st by (simp add: forget_def)
  note S = store_ok [OF t s, of x, folded w]
  have "extremes_ok n (xs @ [x]) (store x ?f)" using S(1,2) assms(2) by (simp add: extremes_ok_def)
  moreover have "stats_ok n (xs @ [x]) (store x ?f)"
    unfolding stats_ok_def
  proof (intro impI S(4))
    assume g: "2 \<le> n \<or> length (xs @ [x]) \<le> 1"
    then have two: "2 \<le> n" using n assms(2) by auto
    then have "tl ?w \<noteq> []" using window_full [OF assms(2)] by (cases ?w) auto
    moreover have "stats_of (hd ?w # tl ?w) (ra_stats r)" using I two ne by (simp add: stats_ok_def)
    ultimately show "stats_of (tl ?w) (ra_stats ?f)"
      using RemoveSample_stats st old by (fastforce simp: forget_def)
  qed
  ultimately show ?thesis using e ring_store [OF _ _ _ S(3)] I by (simp add: ra_inv_def forget_def)
qed

subsection \<open>Queries\<close>

lemma ring_nth:
  assumes "ring n xs r" and "i < length (window n xs)"
  shows "ra_samples r ! ((length xs - length (window n xs) + i) mod n) = window n xs ! i"
proof -
  let ?j = "length xs - length (window n xs) + i"
  have "?j < length xs" "length xs \<le> ?j + n" "window n xs ! i = xs ! ?j"
    using assms(2) by (auto simp: window_def)
  then show ?thesis using assms(1) by (auto simp: ring_def)
qed

lemma ring_nth_next:
  assumes "ring n xs r" and "n \<le> length xs" and "i < n"
  shows "ra_samples r ! ((ra_next_index r + i) mod ra_max_count r) = window n xs ! i"
proof -
  have "(ra_next_index r + i) mod n = (length xs - n + i) mod n"
  proof -
    have "(ra_next_index r + i) mod n = (length xs + i) mod n"
      using assms(1) by (simp add: ring_def mod_add_left_eq)
    also have "length xs + i = (length xs - n + i) + n" using assms(2) by simp
    also have "\<dots> mod n = (length xs - n + i) mod n" by (rule mod_add_self2)
    finally show ?thesis .
  qed
  then show ?thesis
    using ring_nth [OF assms(1), of i] assms window_full [OF assms(2)] by (simp add: ring_max_count)
qed

lemma scan_samples_fold:
  "scan_samples pick r i k best =
     fold (\<lambda>x b. pick b x) (map (\<lambda>j. ra_samples r ! ((ra_next_index r + j) mod ra_max_count r)) [i..<i + k]) best"
  by (induction k arbitrary: i best) (simp_all add: upt_rec)

lemma scan_window:
  assumes "ring n xs r" and "n \<le> length xs"
  shows "scan_samples pick r 1 (ra_count r - 1) (ra_samples r ! ra_next_index r) =
    fold (\<lambda>x b. pick b x) (tl (window n xs)) (hd (window n xs))"
proof -
  have n: "0 < n" "ra_count r = n" using assms ring_count [OF assms(1)] by (simp_all add: ring_def)
  have "map (\<lambda>j. ra_samples r ! ((ra_next_index r + j) mod ra_max_count r)) [1..<n] = tl (window n xs)"
  proof (rule nth_equalityI)
    fix i assume "i < length (map (\<lambda>j. ra_samples r ! ((ra_next_index r + j) mod ra_max_count r)) [1..<n])"
    then have "Suc i < n" "[1..<n] ! i = Suc i" by simp_all
    then show "map (\<lambda>j. ra_samples r ! ((ra_next_index r + j) mod ra_max_count r)) [1..<n] ! i = tl (window n xs) ! i"
      using ring_nth_next [OF assms, of "Suc i"] window_full [OF assms(2)] by (simp add: nth_tl)
  qed (use window_full [OF assms(2)] in simp)
  moreover have "1 + (n - 1) = n" using n by simp
  ultimately show ?thesis unfolding scan_samples_fold n ring_oldest [OF assms] by simp
qed

lemma flip_max_min: "(\<lambda>x b. max b x) = (max :: real \<Rightarrow> _)" "(\<lambda>x b. min b x) = (min :: real \<Rightarrow> _)"
  by (intro ext max.commute min.commute)+

lemma scan_extreme:
  assumes "ring n xs r" and "n \<le> length xs"
  shows "scan_samples max r 1 (ra_count r - 1) (ra_samples r ! ra_next_index r) = Max (set (window n xs))"
    and "scan_samples min r 1 (ra_count r - 1) (ra_samples r ! ra_next_index r) = Min (set (window n xs))"
proof -
  have "window n xs \<noteq> []" using assms window_full [OF assms(2)] by (auto simp: ring_def)
  then obtain y ys where w: "window n xs = y # ys" by (cases "window n xs") auto
  show "scan_samples max r 1 (ra_count r - 1) (ra_samples r ! ra_next_index r) = Max (set (window n xs))"
    unfolding scan_window [OF assms] w flip_max_min by (simp only: Max.set_eq_fold list.sel)
  show "scan_samples min r 1 (ra_count r - 1) (ra_samples r ! ra_next_index r) = Min (set (window n xs))"
    unfolding scan_window [OF assms] w flip_max_min by (simp only: Min.set_eq_fold list.sel)
qed

lemma ComputeMax_ok:
  assumes "ra_inv n xs r"
  shows "\<exists>m r'. ra_ComputeMax r = Inr (m, r') \<and> ra_inv n xs r' \<and> (xs \<noteq> [] \<longrightarrow> m = Max (set (window n xs)))"
proof (cases "ra_max_stale r")
  case True
  with assms have full: "n \<le> length xs" and R: "ring n xs r" by (auto simp: ra_inv_def extremes_ok_def)
  let ?m = "Max (set (window n xs))" and ?r = "r\<lparr>ra_max := Max (set (window n xs)), ra_max_stale := False\<rparr>"
  have n: "0 < n" using R by (simp add: ring_def)
  have ne: "window n xs \<noteq> []" using n window_full [OF full] by auto
  have e: "ra_ComputeMax r = Inr (?m, ?r)"
    unfolding ra_ComputeMax_def scan_extreme [OF R full] Let_def using True n full ring_count [OF R] by simp
  have "mx.tracks ?m False (window n xs)" using ne by (simp add: mx.tracks_def)
  then have "ra_inv n xs ?r"
    using assms by (simp add: ra_inv_def ring_def extremes_ok_def stats_ok_def)
  with e show ?thesis by blast
next
  case False
  have "ra_max r = Max (set (window n xs))" if "xs \<noteq> []"
  proof -
    have "window n xs \<noteq> []" using assms that window_nonempty by (auto simp: ra_inv_def ring_def)
    then show ?thesis
      using assms False mx.tracks_fresh [of "ra_max r" "ra_max_stale r" "window n xs"]
      by (auto simp: ra_inv_def extremes_ok_def intro: Max_eqI [symmetric])
  qed
  then show ?thesis using False assms by (simp add: ra_ComputeMax_def)
qed

lemma ComputeMin_ok:
  assumes "ra_inv n xs r"
  shows "\<exists>m r'. ra_ComputeMin r = Inr (m, r') \<and> ra_inv n xs r' \<and> (xs \<noteq> [] \<longrightarrow> m = Min (set (window n xs)))"
proof (cases "ra_min_stale r")
  case True
  with assms have full: "n \<le> length xs" and R: "ring n xs r" by (auto simp: ra_inv_def extremes_ok_def)
  let ?m = "Min (set (window n xs))" and ?r = "r\<lparr>ra_min := Min (set (window n xs)), ra_min_stale := False\<rparr>"
  have n: "0 < n" using R by (simp add: ring_def)
  have ne: "window n xs \<noteq> []" using n window_full [OF full] by auto
  have e: "ra_ComputeMin r = Inr (?m, ?r)"
    unfolding ra_ComputeMin_def scan_extreme [OF R full] Let_def using True n full ring_count [OF R] by simp
  have "mn.tracks ?m False (window n xs)" using ne by (simp add: mn.tracks_def)
  then have "ra_inv n xs ?r"
    using assms by (simp add: ra_inv_def ring_def extremes_ok_def stats_ok_def)
  with e show ?thesis by blast
next
  case False
  have "ra_min r = Min (set (window n xs))" if "xs \<noteq> []"
  proof -
    have "window n xs \<noteq> []" using assms that window_nonempty by (auto simp: ra_inv_def ring_def)
    then show ?thesis
      using assms False mn.tracks_fresh [of "ra_min r" "ra_min_stale r" "window n xs"]
      by (auto simp: ra_inv_def extremes_ok_def intro: Min_eqI [symmetric])
  qed
  then show ?thesis using False assms by (simp add: ra_ComputeMin_def)
qed

lemma mean_variance_ok:
  assumes "ra_inv n xs r" and "2 \<le> n \<or> length xs \<le> 1"
  shows "ra_ComputeMean r = Some (avg (window n xs))"
    and "ra_ComputeVariance r = Some (sq_dist (window n xs) / real (length (window n xs)))"
proof -
  have s: "stats_of (window n xs) (ra_stats r)" using assms by (auto simp: ra_inv_def stats_ok_def)
  show "ra_ComputeMean r = Some (avg (window n xs))"
    using s by (simp add: ra_ComputeMean_def GetMean_def stats_of_def avg_def)
  show "ra_ComputeVariance r = Some (sq_dist (window n xs) / real (length (window n xs)))"
    using s by (simp add: ra_ComputeVariance_def GetVariance_def stats_of_def sq_dist_def)
qed

text \<open>The loop of the weighted mean, over the samples from the newest to the oldest.\<close>

fun weigh :: "real \<Rightarrow> real list \<Rightarrow> real \<times> real" where
  "weigh rate [] = (0, 0)"
| "weigh rate (x # xs) = (case weigh rate xs of (a, b) \<Rightarrow> (rate * (x + a), rate * (1 + b)))"

lemma weighted_loop_weigh:
  assumes "\<And>j. j < k \<Longrightarrow> ra_samples r ! ((ra_next_index r + ra_max_count r - (i + j) - 1) mod ra_max_count r) = ys ! j"
    and "length ys = k"
  shows "weighted_loop rate r i k a c b = (a + c * fst (weigh rate ys), b + c * snd (weigh rate ys))"
  using assms
proof (induction k arbitrary: i a b c ys)
  case 0
  then show ?case by simp
next
  case (Suc k)
  then obtain y ys' where y: "ys = y # ys'" "length ys' = k" by (cases ys) auto
  have h: "ra_samples r ! ((ra_next_index r + ra_max_count r - i - 1) mod ra_max_count r) = y"
    using Suc.prems(1) [of 0] y by simp
  have t: "ra_samples r ! ((ra_next_index r + ra_max_count r - (Suc i + j) - 1) mod ra_max_count r) = ys' ! j"
    if "j < k" for j using Suc.prems(1) [of "Suc j"] that y by simp
  show ?case
    using Suc.IH [OF t y(2), of "a + c * rate * y" "c * rate" "b + c * rate"] h
    by (simp add: Let_def y split_def algebra_simps)
qed

lemma ring_nth_rev:
  assumes "ring n xs r" and "j < length (window n xs)"
  shows "ra_samples r ! ((ra_next_index r + ra_max_count r - (0 + j) - 1) mod ra_max_count r) = rev (window n xs) ! j"
proof -
  let ?w = "window n xs"
  let ?i = "length ?w - Suc j"
  have n: "ra_max_count r = n" "0 < n" "ra_next_index r = length xs mod n" "length ?w \<le> length xs" "length ?w \<le> n"
    using assms(1) by (auto simp: ring_def ring_max_count length_window)
  have le: "length xs - length ?w + ?i = length xs - Suc j" using assms(2) n by simp
  have "(length xs mod n + n - j - 1) mod n = (length xs - Suc j) mod n"
  proof -
    have "length xs mod n + n - j - 1 = length xs mod n + (n - Suc j)" using assms(2) n by simp
    then have "(length xs mod n + n - j - 1) mod n = (length xs + (n - Suc j)) mod n"
      by (simp add: mod_add_left_eq)
    also have "length xs + (n - Suc j) = (length xs - Suc j) + n" using assms(2) n by simp
    finally show ?thesis by simp
  qed
  moreover have "ra_samples r ! ((length xs - Suc j) mod n) = ?w ! ?i"
    using ring_nth [OF assms(1), of ?i] assms(2) unfolding le by simp
  ultimately show ?thesis using assms(2) n by (simp add: rev_nth)
qed

lemma weigh_pos: "0 < rate \<Longrightarrow> xs \<noteq> [] \<Longrightarrow> 0 < snd (weigh rate xs)"
proof (induction xs)
  case (Cons x xs)
  have "0 \<le> snd (weigh rate xs)" using Cons by (cases "xs = []") auto
  then show ?case using Cons.prems by (simp add: split_def)
qed simp

lemma weighted_mean_ok:
  assumes "ra_inv n xs r" and "xs \<noteq> []" and "0 < rate" and "rate < 1"
  shows "ra_ComputeWeightedMean rate r =
    Some (fst (weigh rate (rev (window n xs))) / snd (weigh rate (rev (window n xs))))"
proof -
  have R: "ring n xs r" and n: "0 < n" using assms(1) by (auto simp: ra_inv_def ring_def)
  have ne: "window n xs \<noteq> []" using window_nonempty [OF n assms(2)] .
  have c: "ra_count r = length (window n xs)" using ring_count [OF R] by (simp add: length_window)
  have "weighted_loop rate r 0 (ra_count r) 0 1 0 =
    (0 + 1 * fst (weigh rate (rev (window n xs))), 0 + 1 * snd (weigh rate (rev (window n xs))))"
    unfolding c by (rule weighted_loop_weigh) (simp_all only: ring_nth_rev [OF R] length_rev)
  moreover have "\<not> ra_count r < 1" using ne c by (simp add: Suc_le_eq not_less)
  moreover have "snd (weigh rate (rev (window n xs))) \<noteq> 0" using weigh_pos [OF assms(3)] ne by fastforce
  ultimately show ?thesis using assms(3,4) unfolding ra_ComputeWeightedMean_def
    by (simp add: split_def)
qed

subsection \<open>Programs over the accumulator\<close>

datatype ra_op = AddOp real | ResetOp | MaxOp | MinOp

fun ra_step :: "ra_op \<Rightarrow> RollingAccumulator \<Rightarrow> RollingAccumulator res" where
  "ra_step (AddOp x) r = ra_AddSample x r"
| "ra_step ResetOp r = Inr (ra_Reset r)"
| "ra_step MaxOp r = res_bind (ra_ComputeMax r) (\<lambda>(_, r). Inr r)"
| "ra_step MinOp r = res_bind (ra_ComputeMin r) (\<lambda>(_, r). Inr r)"

fun ra_run :: "ra_op list \<Rightarrow> RollingAccumulator \<Rightarrow> RollingAccumulator res" where
  "ra_run [] r = Inr r"
| "ra_run (x # xs) r = res_bind (ra_step x r) (ra_run xs)"

text \<open>The samples since the last reset.\<close>

fun since_reset :: "ra_op \<Rightarrow> real list \<Rightarrow> real list" where
  "since_reset (AddOp x) xs = xs @ [x]"
| "since_reset ResetOp xs = []"
| "since_reset _ xs = xs"

lemma ra_Reset_inv: "ra_inv n xs r \<Longrightarrow> ra_inv n [] (ra_Reset r)"
  by (simp add: ra_inv_def ring_def extremes_ok_def stats_ok_def ra_Reset_def window_def mx.tracks_def
      mn.tracks_def stats_of_new) (simp add: RunningStatistics_new_def)

lemma new_inv: "0 < n \<Longrightarrow> \<exists>r. RollingAccumulator_new n = Inr r \<and> ra_inv n [] r"
  by (simp add: RollingAccumulator_new_def ra_inv_def ring_def extremes_ok_def stats_ok_def ra_Reset_def
      window_def mx.tracks_def mn.tracks_def stats_of_new) (simp add: RunningStatistics_new_def)

lemma ra_step_inv:
  assumes "ra_inv n xs r"
  shows "\<exists>r'. ra_step a r = Inr r' \<and> ra_inv n (since_reset a xs) r'"
proof (cases a)
  case (AddOp x)
  then show ?thesis
    using AddSample_growing [OF assms, of x] AddSample_rolling [OF assms, of x] by (cases "length xs < n") auto
next
  case MaxOp
  then show ?thesis using ComputeMax_ok [OF assms] by auto
next
  case MinOp
  then show ?thesis using ComputeMin_ok [OF assms] by auto
qed (use assms in \<open>simp add: ra_Reset_inv\<close>)

lemma ra_run_inv: "ra_inv n xs r \<Longrightarrow> \<exists>r'. ra_run ops r = Inr r' \<and> ra_inv n (fold since_reset ops xs) r'"
proof (induction ops arbitrary: xs r)
  case (Cons a ops)
  then show ?case using ra_step_inv [OF Cons.prems, of a] by fastforce
qed simp

lemma ra_program:
  assumes "0 < n" and "RollingAccumulator_new n = Inr r0"
  shows "\<exists>r. ra_run ops r0 = Inr r \<and> ra_inv n (fold since_reset ops []) r"
  using new_inv [OF assms(1)] assms(2) ra_run_inv by auto

text \<open>
  Whatever is added, reset and queried, an accumulator of capacity \<open>n\<close> reports the greatest and
  the least of the last \<open>n\<close> samples, and the mean of these samples weighted by powers of the learning
  rate, the newest first. For capacities of at least two the mean and the variance that Welford's
  method keeps up to date are exactly those of the window, when the arithmetic does not round.
\<close>

theorem rolling_accumulator_window:
  assumes "0 < n" and "RollingAccumulator_new n = Inr r0" and "fold since_reset ops [] = xs" and "xs \<noteq> []"
  shows "\<exists>r. ra_run ops r0 = Inr r \<and> ra_count r = min n (length xs) \<and>
    (\<exists>r'. ra_ComputeMax r = Inr (Max (set (window n xs)), r')) \<and>
    (\<exists>r'. ra_ComputeMin r = Inr (Min (set (window n xs)), r')) \<and>
    (\<forall>rate. 0 < rate \<and> rate < 1 \<longrightarrow> ra_ComputeWeightedMean rate r =
      Some (fst (weigh rate (rev (window n xs))) / snd (weigh rate (rev (window n xs))))) \<and>
    (2 \<le> n \<longrightarrow> ra_ComputeMean r = Some (avg (window n xs)) \<and>
      ra_ComputeVariance r = Some (sq_dist (window n xs) / real (length (window n xs))))"
proof -
  obtain r where r: "ra_run ops r0 = Inr r" "ra_inv n xs r" using ra_program [OF assms(1,2)] assms(3) by blast
  then have "ra_count r = min n (length xs)" by (simp add: ra_inv_def ring_count)
  then show ?thesis
    using r ComputeMax_ok [OF r(2)] ComputeMin_ok [OF r(2)] weighted_mean_ok [OF r(2) assms(4)]
      mean_variance_ok [OF r(2)] assms(4) by blast
qed

theorem rolling_accumulator_window_witness:
  "\<exists>r0 r. RollingAccumulator_new 2 = Inr r0 \<and>
     ra_run [AddOp 9, MaxOp, AddOp 1, AddOp 3] r0 = Inr r \<and> ra_count r = 2 \<and>
     (\<exists>r'. ra_ComputeMax r = Inr (3, r')) \<and> (\<exists>r'. ra_ComputeMin r = Inr (1, r')) \<and>
     ra_ComputeWeightedMean (1 / 2) r = Some (7 / 3) \<and>
     ra_ComputeMean r = Some 2 \<and> ra_ComputeVariance r = Some 1"
proof -
  let ?ops = "[AddOp 9, MaxOp, AddOp 1, AddOp 3]"
  obtain r0 where r0: "RollingAccumulator_new 2 = Inr r0" using new_inv [of 2] by auto
  have h: "fold since_reset ?ops [] = [9, 1, 3]" by simp
  have w: "window 2 [9, 1, 3] = [1, 3]" by (simp add: window_def)
  have v: "avg [1, 3] = 2" "sq_dist [1, 3] = 2" by (simp_all add: avg_def sq_dist_def)
  have g: "weigh (1 / 2) (rev [1, 3]) = (7 / 4, 3 / 4)" by simp
  obtain r where r: "ra_run ?ops r0 = Inr r" "ra_count r = min 2 (length [9, 1, 3::real])"
    "\<exists>r'. ra_ComputeMax r = Inr (Max (set [1, 3]), r')" "\<exists>r'. ra_ComputeMin r = Inr (Min (set [1, 3]), r')"
    "\<forall>rate. 0 < rate \<and> rate < 1 \<longrightarrow> ra_ComputeWeightedMean rate r =
      Some (fst (weigh rate (rev [1, 3])) / snd (weigh rate (rev [1, 3])))"
    "ra_ComputeMean r = Some (avg [1, 3])"
    "ra_ComputeVariance r = Some (sq_dist [1, 3] / real (length [1, 3::real]))"
    using rolling_accumulator_window [OF _ r0 h, unfolded w] by auto
  have "ra_ComputeWeightedMean (1 / 2) r = Some (7 / 3)" using r(5) g by simp
  then show ?thesis using r0 r v by (intro exI [of _ r0] exI [of _ r]) simp
qed

subsection \<open>Capacity one\<close>

lemma nan_sticky:
  assumes "stat_mean s = None" and "stat_cumul s = None"
  shows "stat_mean (stats_AddSample x s) = None" and "stat_cumul (stats_AddSample x s) = None"
  using assms by (simp_all add: stats_AddSample_def Let_def)

lemma RemoveSample_last:
  assumes "stat_size s = 1"
  shows "\<exists>s'. stats_RemoveSample x s = Inr s' \<and> stat_size s' = 0 \<and> stat_mean s' = None \<and> stat_cumul s' = None"
  using assms by (simp add: stats_RemoveSample_def Let_def)

lemma capacity_one_step:
  assumes "length (ra_samples r) = 1" and "stat_size (ra_stats r) = 1"
  shows "\<exists>r'. ra_AddSample x r = Inr r' \<and> length (ra_samples r') = 1 \<and> stat_size (ra_stats r') = 1 \<and>
    stat_mean (ra_stats r') = None \<and> stat_cumul (ra_stats r') = None"
proof -
  let ?old = "ra_samples r ! ra_next_index r"
  have c: "ra_count r = ra_max_count r" using assms by (simp add: ra_count_def ra_max_count_def)
  obtain s where s: "stats_RemoveSample ?old (ra_stats r) = Inr s" "stat_size s = 0" "stat_mean s = None"
    "stat_cumul s = None" using RemoveSample_last [OF assms(2)] by blast
  show ?thesis
    using assms(1) s nan_sticky [OF s(3,4), of x]
    unfolding ra_AddSample_eq if_P [OF c] by (simp add: store_def forget_def)
qed

lemma capacity_one_run:
  assumes "length (ra_samples r) = 1" and "stat_size (ra_stats r) = 1" and "xs \<noteq> []"
  shows "\<exists>r'. ra_run (map AddOp xs) r = Inr r' \<and> stat_size (ra_stats r') = 1 \<and>
    stat_mean (ra_stats r') = None \<and> stat_cumul (ra_stats r') = None"
  using assms
proof (induction xs arbitrary: r)
  case (Cons x xs)
  then show ?case using capacity_one_step [OF Cons.prems(1,2), of x] by (cases "xs = []") fastforce+
qed simp

text \<open>
  With a capacity of one, every sample after the first makes the mean and the variance invalid:
  removing the only sample divides by a count of zero, and the values never recover.
\<close>

theorem capacity_one_loses_mean:
  assumes "RollingAccumulator_new 1 = Inr r0" and "2 \<le> length xs"
  shows "\<exists>r. ra_run (map AddOp xs) r0 = Inr r \<and> ra_ComputeMean r = None \<and> ra_ComputeVariance r = None"
proof -
  obtain x ys where xs: "xs = x # ys" "ys \<noteq> []" using assms(2) by (cases xs) (auto simp: Suc_le_eq)
  have r0: "length (ra_samples r0) = 1" "stat_size (ra_stats r0) = 0"
    using assms(1) by (auto simp: RollingAccumulator_new_def ra_Reset_def RunningStatistics_new_def)
  have "ra_AddSample x r0 = Inr (store x r0)"
    using r0 by (simp add: ra_AddSample_eq ra_count_def ra_max_count_def)
  moreover have "length (ra_samples (store x r0)) = 1" "stat_size (ra_stats (store x r0)) = 1"
    using r0 by (simp_all add: store_def)
  ultimately show ?thesis
    using capacity_one_run [of "store x r0" ys] xs
    by (fastforce simp: ra_ComputeMean_def ra_ComputeVariance_def GetMean_def GetVariance_def)
qed

theorem capacity_one_loses_mean_witness:
  "\<exists>r0 r. RollingAccumulator_new 1 = Inr r0 \<and> ra_run (map AddOp [5, 5]) r0 = Inr r \<and>
     ra_ComputeMean r = None \<and> ra_ComputeVariance r = None"
proof -
  obtain r0 where r0: "RollingAccumulator_new 1 = Inr r0" using new_inv [of 1] by auto
  have "2 \<le> length [5, 5::real]" by simp
  from capacity_one_loses_mean [OF r0 this] r0 show ?thesis by blast
qed

subsection \<open>Statistics of programs\<close>

text \<open>Statistics built by adding, removing and merging, with the samples they stand for.\<close>

datatype stats_exp = NewStats | AddTo real stats_exp | RemoveFrom real stats_exp | Merge stats_exp stats_exp

fun eval_stats :: "stats_exp \<Rightarrow> RunningStatistics res" where
  "eval_stats NewStats = Inr RunningStatistics_new"
| "eval_stats (AddTo x e) = res_bind (eval_stats e) (\<lambda>s. Inr (stats_AddSample x s))"
| "eval_stats (RemoveFrom x e) = res_bind (eval_stats e) (stats_RemoveSample x)"
| "eval_stats (Merge a b) = res_bind (eval_stats a) (\<lambda>s. res_bind (eval_stats b) (\<lambda>t. Inr (MergeStatistics t s)))"

fun samples_of :: "stats_exp \<Rightarrow> real list" where
  "samples_of NewStats = []"
| "samples_of (AddTo x e) = samples_of e @ [x]"
| "samples_of (RemoveFrom x e) = remove1 x (samples_of e)"
| "samples_of (Merge a b) = samples_of a @ samples_of b"

text \<open>A sample that is removed was added, and another one remains.\<close>

fun proper :: "stats_exp \<Rightarrow> bool" where
  "proper NewStats \<longleftrightarrow> True"
| "proper (AddTo x e) \<longleftrightarrow> proper e"
| "proper (RemoveFrom x e) \<longleftrightarrow> proper e \<and> x \<in> set (samples_of e) \<and> 2 \<le> length (samples_of e)"
| "proper (Merge a b) \<longleftrightarrow> proper a \<and> proper b"

lemma eval_stats_ok: "proper e \<Longrightarrow> \<exists>s. eval_stats e = Inr s \<and> stats_of (samples_of e) s"
proof (induction e)
  case (RemoveFrom x e)
  then obtain s where s: "eval_stats e = Inr s" "stats_of (samples_of e) s" by auto
  have "mset (samples_of e) = mset (x # remove1 x (samples_of e))" using RemoveFrom.prems by simp
  with s(2) have "stats_of (x # remove1 x (samples_of e)) s" by (rule stats_of_mset)
  moreover have "remove1 x (samples_of e) \<noteq> []"
    using RemoveFrom.prems length_remove1 [of x "samples_of e"] by auto
  ultimately show ?case using RemoveSample_stats s(1) by fastforce
next
  case (Merge a b)
  then obtain s t where "eval_stats a = Inr s" "stats_of (samples_of a) s"
    "eval_stats b = Inr t" "stats_of (samples_of b) t" by auto
  then show ?case using MergeStatistics_stats by simp
qed (auto simp: stats_of_new AddSample_stats)



end
