(* ===== verification/ByteOrder.thy ===== *)
theory ByteOrder
  imports ByteIo
begin

section \<open>Byte order of the host\<close>

text \<open>
  \<^verbatim>\<open>rtc_base/byte_order.h\<close>: integers in memory in network or little-endian order, through the order of
  the host. \<open>big\<close> says whether the host is big-endian (\<^verbatim>\<open>WEBRTC_ARCH_BIG_ENDIAN\<close>); a typed access to
  memory uses the order of the host, and the macros \<^verbatim>\<open>htobe16\<close> to \<^verbatim>\<open>le64toh\<close> reverse the bytes when the
  orders differ. The memory is a list of bytes that starts at the given address.
\<close>

subsection \<open>The host\<close>

definition native_load :: "bool \<Rightarrow> nat \<Rightarrow> byte list \<Rightarrow> 'w::len word res" where
  "native_load big B mem = (if big then InternalReadBigEndian B mem else InternalReadLittleEndian B mem)"

definition native_store :: "bool \<Rightarrow> nat \<Rightarrow> 'w::len word \<Rightarrow> byte list \<Rightarrow> byte list res" where
  "native_store big B v mem = (if big then WriteBigEndian_any B v mem else WriteLittleEndian_any B v mem)"

fun bswap :: "nat \<Rightarrow> 'w::len word \<Rightarrow> 'w word" where
  "bswap 0 w = 0"
| "bswap (Suc n) w = push_bit (8 * n) (take_bit 8 w) OR bswap n (drop_bit 8 w)"

definition htobe :: "bool \<Rightarrow> nat \<Rightarrow> 'w::len word \<Rightarrow> 'w word" where
  "htobe big B v = (if big then v else bswap B v)"

definition htole :: "bool \<Rightarrow> nat \<Rightarrow> 'w::len word \<Rightarrow> 'w word" where
  "htole big B v = (if big then bswap B v else v)"

subsection \<open>Access to memory\<close>

definition Set8 :: "byte list \<Rightarrow> nat \<Rightarrow> byte \<Rightarrow> byte list res" where
  "Set8 mem offset v = put_byte offset v mem"

definition Get8 :: "byte list \<Rightarrow> nat \<Rightarrow> byte res" where
  "Get8 mem offset = byte_at mem offset"

definition SetBE16 :: "bool \<Rightarrow> byte list \<Rightarrow> 16 word \<Rightarrow> byte list res" where
  "SetBE16 big mem v = native_store big 2 (htobe big 2 v) mem"

definition SetBE32 :: "bool \<Rightarrow> byte list \<Rightarrow> 32 word \<Rightarrow> byte list res" where
  "SetBE32 big mem v = native_store big 4 (htobe big 4 v) mem"

definition SetBE64 :: "bool \<Rightarrow> byte list \<Rightarrow> 64 word \<Rightarrow> byte list res" where
  "SetBE64 big mem v = native_store big 8 (htobe big 8 v) mem"

definition GetBE16 :: "bool \<Rightarrow> byte list \<Rightarrow> 16 word res" where
  "GetBE16 big mem = res_bind (native_load big 2 mem) (\<lambda>v. Inr (htobe big 2 v))"

definition GetBE32 :: "bool \<Rightarrow> byte list \<Rightarrow> 32 word res" where
  "GetBE32 big mem = res_bind (native_load big 4 mem) (\<lambda>v. Inr (htobe big 4 v))"

definition GetBE64 :: "bool \<Rightarrow> byte list \<Rightarrow> 64 word res" where
  "GetBE64 big mem = res_bind (native_load big 8 mem) (\<lambda>v. Inr (htobe big 8 v))"

definition SetLE16 :: "bool \<Rightarrow> byte list \<Rightarrow> 16 word \<Rightarrow> byte list res" where
  "SetLE16 big mem v = native_store big 2 (htole big 2 v) mem"

definition SetLE32 :: "bool \<Rightarrow> byte list \<Rightarrow> 32 word \<Rightarrow> byte list res" where
  "SetLE32 big mem v = native_store big 4 (htole big 4 v) mem"

definition SetLE64 :: "bool \<Rightarrow> byte list \<Rightarrow> 64 word \<Rightarrow> byte list res" where
  "SetLE64 big mem v = native_store big 8 (htole big 8 v) mem"

definition GetLE16 :: "bool \<Rightarrow> byte list \<Rightarrow> 16 word res" where
  "GetLE16 big mem = res_bind (native_load big 2 mem) (\<lambda>v. Inr (htole big 2 v))"

definition GetLE32 :: "bool \<Rightarrow> byte list \<Rightarrow> 32 word res" where
  "GetLE32 big mem = res_bind (native_load big 4 mem) (\<lambda>v. Inr (htole big 4 v))"

definition GetLE64 :: "bool \<Rightarrow> byte list \<Rightarrow> 64 word res" where
  "GetLE64 big mem = res_bind (native_load big 8 mem) (\<lambda>v. Inr (htole big 8 v))"

definition IsHostBigEndian :: "bool \<Rightarrow> bool" where
  "IsHostBigEndian big = big"

definition HostToNetwork16 :: "bool \<Rightarrow> 16 word \<Rightarrow> 16 word" where
  "HostToNetwork16 big n = htobe big 2 n"

definition HostToNetwork32 :: "bool \<Rightarrow> 32 word \<Rightarrow> 32 word" where
  "HostToNetwork32 big n = htobe big 4 n"

definition HostToNetwork64 :: "bool \<Rightarrow> 64 word \<Rightarrow> 64 word" where
  "HostToNetwork64 big n = htobe big 8 n"

definition NetworkToHost16 :: "bool \<Rightarrow> 16 word \<Rightarrow> 16 word" where
  "NetworkToHost16 big n = htobe big 2 n"

definition NetworkToHost32 :: "bool \<Rightarrow> 32 word \<Rightarrow> 32 word" where
  "NetworkToHost32 big n = htobe big 4 n"

definition NetworkToHost64 :: "bool \<Rightarrow> 64 word \<Rightarrow> 64 word" where
  "NetworkToHost64 big n = htobe big 8 n"

subsection \<open>Reversing bytes\<close>

lemma bit_bswap:
  fixes w :: "'w::len word"
  assumes "8 * n \<le> LENGTH('w)"
  shows "bit (bswap n w) k \<longleftrightarrow> k < 8 * n \<and> bit w (8 * (n - 1 - k div 8) + k mod 8)"
  using assms
proof (induction n arbitrary: w)
  case 0
  then show ?case by simp
next
  case (Suc n)
  have IH: "bit (bswap n (drop_bit 8 w)) k \<longleftrightarrow> k < 8 * n \<and> bit w (8 * (n - 1 - k div 8) + k mod 8 + 8)"
    using Suc by (simp add: bit_simps add.commute)
  consider "k < 8 * n" | "8 * n \<le> k" "k < 8 * Suc n" | "8 * Suc n \<le> k" by linarith
  then show ?case
  proof cases
    case 1
    then have "k div 8 \<le> n - 1" "0 < n" by (auto simp: less_mult_imp_div_less Suc_le_eq div_less_iff_less_mult mult.commute)
    then have e: "8 * (n - 1 - k div 8) + k mod 8 + 8 = 8 * (Suc n - 1 - k div 8) + k mod 8" by simp
    show ?thesis using 1 IH [unfolded e] by (simp add: bit_simps)
  next
    case 2
    then obtain j where j: "k = 8 * n + j" "j < 8" by (metis add_less_cancel_left le_Suc_ex mult_Suc_right add.commute)
    then have "k div 8 = n" "k mod 8 = j" by simp_all
    then show ?thesis using 2 j IH Suc.prems by (simp add: bit_simps)
  next
    case 3
    then show ?thesis using IH by (auto simp: bit_simps)
  qed
qed

lemma bswap_bswap:
  fixes w :: "'w::len word"
  assumes "8 * n = LENGTH('w)"
  shows "bswap n (bswap n w) = w"
proof (rule bit_word_eqI)
  fix k assume "k < LENGTH('w)"
  then have k: "k < 8 * n" using assms by simp
  let ?j = "8 * (n - 1 - k div 8) + k mod 8"
  have d: "k div 8 < n" using k by (simp add: less_mult_imp_div_less mult.commute)
  have "?j div 8 = n - 1 - k div 8" "?j mod 8 = k mod 8" by simp_all
  then have j: "8 * (n - 1 - ?j div 8) + ?j mod 8 = k" using d by simp
  have "?j < 8 * n" using d by (simp add: algebra_simps)
  then show "bit (bswap n (bswap n w)) k = bit w k"
    using k assms by (simp add: bit_bswap j)
qed

lemma bswap_byte:
  fixes w :: "'w::len word"
  assumes "8 * n = LENGTH('w)" and "i < n"
  shows "(ucast (drop_bit (8 * i) (bswap n w)) :: byte) = ucast (drop_bit (8 * (n - 1 - i)) w)"
proof (rule bit_word_eqI)
  fix k assume k: "k < LENGTH(8)"
  then have "(8 * i + k) div 8 = i" "(8 * i + k) mod 8 = k" "8 * i + k < 8 * n" using assms(2) by simp_all
  then show "bit (ucast (drop_bit (8 * i) (bswap n w)) :: byte) k =
    bit (ucast (drop_bit (8 * (n - 1 - i)) w) :: byte) k"
    using k assms(1) by (simp add: bit_simps bit_bswap)
qed

subsection \<open>Independence from the host\<close>

lemma write_loop_cong:
  "(\<And>j. i \<le> j \<Longrightarrow> j < i + n \<Longrightarrow> (ucast (drop_bit (sh j) v) :: byte) = ucast (drop_bit (sh' j) v')) \<Longrightarrow>
     write_loop sh n i v mem = write_loop sh' n i v' mem"
proof (induction n arbitrary: i mem)
  case (Suc n)
  have "write_loop sh n (Suc i) v = write_loop sh' n (Suc i) v'"
    by (rule ext, rule Suc.IH) (use Suc.prems in auto)
  then show ?case using Suc.prems [of i] by simp
qed simp

lemma read_loop_short: "i \<le> length mem \<Longrightarrow> \<not> i + n \<le> length mem \<Longrightarrow> read_loop sh n i mem v = Inl OutOfBounds"
proof (induction n arbitrary: i v)
  case 0
  then show ?case by simp
next
  case (Suc n)
  then show ?case by (cases "i < length mem") (auto simp: byte_at_def)
qed

lemma store_swapped:
  fixes v :: "'w::len word"
  assumes "8 * B = LENGTH('w)"
  shows "WriteLittleEndian_any B (bswap B v) mem = WriteBigEndian_any B v mem"
    and "WriteBigEndian_any B (bswap B v) mem = WriteLittleEndian_any B v mem"
proof -
  have le: "(ucast (drop_bit (le_shift B j) (bswap B v)) :: byte) = ucast (drop_bit (be_shift B j) v)" if "j < B" for j
    using bswap_byte [OF assms that, of v] by (simp add: le_shift_def be_shift_def mult.commute)
  have be: "(ucast (drop_bit (be_shift B j) (bswap B v)) :: byte) = ucast (drop_bit (le_shift B j) v)" if "j < B" for j
    using bswap_byte [OF assms, of "B - 1 - j" v] that by (simp add: le_shift_def be_shift_def mult.commute)
  show "WriteLittleEndian_any B (bswap B v) mem = WriteBigEndian_any B v mem"
    unfolding WriteLittleEndian_any_def WriteBigEndian_any_def by (rule write_loop_cong) (simp add: le)
  show "WriteBigEndian_any B (bswap B v) mem = WriteLittleEndian_any B v mem"
    unfolding WriteLittleEndian_any_def WriteBigEndian_any_def by (rule write_loop_cong) (simp add: be)
qed

lemma store_order:
  fixes v :: "'w::len word"
  assumes "8 * B = LENGTH('w)"
  shows "native_store big B (htobe big B v) mem = WriteBigEndian_any B v mem"
    and "native_store big B (htole big B v) mem = WriteLittleEndian_any B v mem"
  using store_swapped [OF assms] by (simp_all add: native_store_def htobe_def htole_def)

lemma byte_bit:
  fixes x :: byte
  shows "8 * q \<le> k \<and> bit x (k - 8 * q) \<longleftrightarrow> k div 8 = q \<and> bit x (k mod 8)"
proof -
  have k: "k = 8 * (k div 8) + k mod 8" by simp
  have long: "\<not> bit x m" if "8 \<le> m" for m using that bit_imp_le_length [of x m] by auto
  consider "q < k div 8" | "q = k div 8" | "k div 8 < q" by linarith
  then show ?thesis
  proof cases
    case 1
    then have "8 \<le> k - 8 * q" using k by linarith
    then show ?thesis using 1 long by auto
  next
    case 2
    then have "k - 8 * q = k mod 8" "8 * q \<le> k" using k by linarith+
    then show ?thesis using 2 by simp
  next
    case 3
    then have "k < 8 * q" by linarith
    then show ?thesis using 3 by auto
  qed
qed

lemma read_bytes:
  assumes "B \<le> length mem" and "8 * B = LENGTH('w::len)" and "\<And>j. j < B \<Longrightarrow> sh j = 8 * pos j"
    and "\<And>p. p < B \<Longrightarrow> at p < B \<and> pos (at p) = p" and "\<And>j. j < B \<Longrightarrow> at (pos j) = j"
  shows "\<exists>v :: 'w word. read_loop sh B 0 mem 0 = Inr v \<and>
    (\<forall>k < LENGTH('w). bit v k \<longleftrightarrow> bit (mem ! at (k div 8)) (k mod 8))"
proof -
  obtain v :: "'w word" where v: "read_loop sh B 0 mem 0 = Inr v"
    "\<And>k. bit v k \<longleftrightarrow> k < LENGTH('w) \<and> (\<exists>j<B. sh j \<le> k \<and> bit (mem ! j) (k - sh j))"
    using read_loop_ok [of 0 B mem sh "0 :: 'w word"] assms(1) by auto
  have "bit v k \<longleftrightarrow> bit (mem ! at (k div 8)) (k mod 8)" if "k < LENGTH('w)" for k
  proof -
    have d: "k div 8 < B" using that assms(2) by (simp add: less_mult_imp_div_less mult.commute)
    have "sh j \<le> k \<and> bit (mem ! j) (k - sh j) \<longleftrightarrow> k div 8 = pos j \<and> bit (mem ! j) (k mod 8)" if "j < B" for j
      unfolding assms(3) [OF that] by (rule byte_bit)
    then have "(\<exists>j<B. sh j \<le> k \<and> bit (mem ! j) (k - sh j)) \<longleftrightarrow> (\<exists>j<B. k div 8 = pos j \<and> bit (mem ! j) (k mod 8))"
      by blast
    also have "\<dots> \<longleftrightarrow> bit (mem ! at (k div 8)) (k mod 8)" using assms(4) [OF d] assms(5) by auto
    finally show ?thesis using v(2) that by simp
  qed
  with v(1) show ?thesis by blast
qed

lemma read_be_le:
  assumes "8 * B = LENGTH('w::len)"
  shows "(InternalReadBigEndian B mem :: 'w word res) =
    res_bind (InternalReadLittleEndian B mem) (\<lambda>v. Inr (bswap B v))"
proof (cases "B \<le> length mem")
  case True
  obtain b :: "'w word" where b: "InternalReadBigEndian B mem = Inr b"
    "\<And>k. k < LENGTH('w) \<Longrightarrow> bit b k \<longleftrightarrow> bit (mem ! (B - 1 - k div 8)) (k mod 8)"
    using read_bytes [OF True assms, of "be_shift B" "\<lambda>j. B - 1 - j" "\<lambda>p. B - 1 - p"]
    unfolding InternalReadBigEndian_def be_shift_def by auto
  obtain l :: "'w word" where l: "InternalReadLittleEndian B mem = Inr l"
    "\<And>k. k < LENGTH('w) \<Longrightarrow> bit l k \<longleftrightarrow> bit (mem ! (k div 8)) (k mod 8)"
    using read_bytes [OF True assms, of "le_shift B" "\<lambda>j. j" "\<lambda>p. p"]
    unfolding InternalReadLittleEndian_def le_shift_def by auto
  have "b = bswap B l"
  proof (rule bit_word_eqI)
    fix k assume k: "k < LENGTH('w)"
    then have "k div 8 < B" using assms by (simp add: less_mult_imp_div_less mult.commute)
    then have "8 * (B - 1 - k div 8) + k mod 8 < LENGTH('w)" unfolding assms [symmetric] by (simp add: algebra_simps)
    then show "bit b k = bit (bswap B l) k" using k assms b(2) l(2) by (simp add: bit_bswap)
  qed
  then show ?thesis using b(1) l(1) by simp
next
  case False
  then show ?thesis by (simp add: InternalReadBigEndian_def InternalReadLittleEndian_def read_loop_short)
qed

lemma load_order:
  assumes "8 * B = LENGTH('w::len)"
  shows "res_bind (native_load big B mem) (\<lambda>v :: 'w word. Inr (htobe big B v)) = InternalReadBigEndian B mem"
    and "res_bind (native_load big B mem) (\<lambda>v :: 'w word. Inr (htole big B v)) = InternalReadLittleEndian B mem"
  using assms by (cases "InternalReadLittleEndian B mem :: 'w word res";
      simp add: native_load_def htobe_def htole_def read_be_le bswap_bswap)+

lemmas order_defs = SetBE16_def SetBE32_def SetBE64_def GetBE16_def GetBE32_def GetBE64_def
  SetLE16_def SetLE32_def SetLE64_def GetLE16_def GetLE32_def GetLE64_def

text \<open>
  On hosts of either byte order, the functions of \<^verbatim>\<open>byte_order.h\<close> lay integers out in memory, and
  read them, as \<^verbatim>\<open>ByteWriter\<close> and \<^verbatim>\<open>ByteReader\<close> do.
\<close>

theorem byte_order_is_byte_io:
  "SetBE16 big mem v16 = WriteBigEndian 2 v16 mem \<and> GetBE16 big mem = ReadBigEndian 2 mem \<and>
   SetBE32 big mem v32 = WriteBigEndian 4 v32 mem \<and> GetBE32 big mem = ReadBigEndian 4 mem \<and>
   SetBE64 big mem v64 = WriteBigEndian 8 v64 mem \<and> GetBE64 big mem = ReadBigEndian 8 mem \<and>
   SetLE16 big mem v16 = WriteLittleEndian 2 v16 mem \<and> GetLE16 big mem = ReadLittleEndian 2 mem \<and>
   SetLE32 big mem v32 = WriteLittleEndian 4 v32 mem \<and> GetLE32 big mem = ReadLittleEndian 4 mem \<and>
   SetLE64 big mem v64 = WriteLittleEndian 8 v64 mem \<and> GetLE64 big mem = ReadLittleEndian 8 mem"
  unfolding order_defs by (intro conjI) (simp_all add: store_order load_order read_specialised write_specialised)

text \<open>Converting to network order and back is the identity on every host.\<close>

theorem network_order_roundtrip:
  "NetworkToHost16 big (HostToNetwork16 big v16) = v16 \<and>
   NetworkToHost32 big (HostToNetwork32 big v32) = v32 \<and>
   NetworkToHost64 big (HostToNetwork64 big v64) = v64"
  by (simp add: NetworkToHost16_def NetworkToHost32_def NetworkToHost64_def HostToNetwork16_def
      HostToNetwork32_def HostToNetwork64_def htobe_def bswap_bswap)

end
