(* ===== verification/UsedIds.thy ===== *)
theory UsedIds
  imports Prelude
begin

section \<open>Ids of payload types and header extensions\<close>

text \<open>
  \<^verbatim>\<open>pc/used_ids.h\<close>: the class template \<^verbatim>\<open>UsedIds\<close>, which replaces ids that are taken, with its two
  instances: payload types (searched downwards) and ids of RTP header extensions (searched downwards
  among the one-byte ids, then upwards among the two-byte ids). The state of both is the record
  \<open>used_ids\<close>; \<^verbatim>\<open>FindUnusedId\<close> is virtual, so \<open>FindAndSetIdUsed\<close> takes the function as an argument.
\<close>

subsection \<open>UsedIds\<close>

record used_ids =
  min_allowed_id :: int
  max_allowed_id :: int
  next_id :: int
  id_set :: "int list"

definition UsedIds_new :: "int \<Rightarrow> int \<Rightarrow> used_ids" where
  "UsedIds_new mn mx = \<lparr>min_allowed_id = mn, max_allowed_id = mx, next_id = mx, id_set = []\<rparr>"

definition IsIdUsed :: "int \<Rightarrow> 'a used_ids_scheme \<Rightarrow> bool" where
  "IsIdUsed new_id s \<longleftrightarrow> new_id \<in> set (id_set s)"

definition SetIdUsed :: "int \<Rightarrow> 'a used_ids_scheme \<Rightarrow> 'a used_ids_scheme res" where
  "SetIdUsed new_id s =
     (if \<not> new_id \<ge> min_allowed_id s then Inl DcheckFailed
      else if \<not> new_id \<le> max_allowed_id s then Inl DcheckFailed
      else if IsIdUsed new_id s then Inl DcheckFailed
      else Inr (s\<lparr>id_set := new_id # id_set s\<rparr>))"

text \<open>The loop of \<^verbatim>\<open>FindUnusedId\<close>: from \<open>i\<close> down past the ids that are used, not below the least id.\<close>

function down :: "'a used_ids_scheme \<Rightarrow> int \<Rightarrow> int" where
  "down s i = (if IsIdUsed i s \<and> i \<ge> min_allowed_id s then down s (i - 1) else i)"
  by pat_completeness auto

termination down
  by (relation "measure (\<lambda>(s, i). nat (i + 1 - min_allowed_id s))") auto

declare down.simps [simp del]

definition FindUnusedId :: "'a used_ids_scheme \<Rightarrow> (int \<times> 'a used_ids_scheme) res" where
  "FindUnusedId s =
     (let s = s\<lparr>next_id := down s (next_id s)\<rparr>
      in if \<not> next_id s \<ge> min_allowed_id s then Inl DcheckFailed else Inr (next_id s, s))"

text \<open>The result is the id of the structure afterwards.\<close>

definition FindAndSetIdUsed ::
  "('a used_ids_scheme \<Rightarrow> (int \<times> 'a used_ids_scheme) res) \<Rightarrow> int \<Rightarrow> 'a used_ids_scheme \<Rightarrow>
    (int \<times> 'a used_ids_scheme) res" where
  "FindAndSetIdUsed find_unused original_id s =
     (if original_id > max_allowed_id s \<or> original_id < min_allowed_id s then Inr (original_id, s)
      else
        res_bind (if IsIdUsed original_id s then find_unused s else Inr (original_id, s)) (\<lambda>(new_id, s).
        res_bind (SetIdUsed new_id s) (\<lambda>s. Inr (new_id, s))))"

subsection \<open>Payload types\<close>

definition kDynamicPayloadTypeMin :: int where
  "kDynamicPayloadTypeMin = 96"

definition kDynamicPayloadTypeMax :: int where
  "kDynamicPayloadTypeMax = 127"

definition UsedPayloadTypes_new :: used_ids where
  "UsedPayloadTypes_new = UsedIds_new kDynamicPayloadTypeMin kDynamicPayloadTypeMax"

subsection \<open>Header extensions\<close>

datatype IdDomain = kOneByteOnly | kTwoByteAllowed

definition kMinId :: int where
  "kMinId = 1"

definition kMaxId :: int where
  "kMaxId = 255"

definition kOneByteHeaderExtensionMaxId :: int where
  "kOneByteHeaderExtensionMaxId = 14"

record extension_ids = used_ids +
  id_domain :: IdDomain
  next_extension_id :: int

definition UsedRtpHeaderExtensionIds_new :: "IdDomain \<Rightarrow> extension_ids" where
  "UsedRtpHeaderExtensionIds_new d =
     (let mx = (if d = kTwoByteAllowed then kMaxId else kOneByteHeaderExtensionMaxId)
      in \<lparr>min_allowed_id = kMinId, max_allowed_id = mx, next_id = mx, id_set = [], id_domain = d,
          next_extension_id = kOneByteHeaderExtensionMaxId\<rparr>)"

text \<open>The upward loop, not above the greatest id.\<close>

function up :: "'a used_ids_scheme \<Rightarrow> int \<Rightarrow> int" where
  "up s i = (if IsIdUsed i s \<and> i \<le> max_allowed_id s then up s (i + 1) else i)"
  by pat_completeness auto

termination up
  by (relation "measure (\<lambda>(s, i). nat (max_allowed_id s + 1 - i))") auto

declare up.simps [simp del]

definition FindUnusedExtensionId :: "extension_ids \<Rightarrow> (int \<times> extension_ids) res" where
  "FindUnusedExtensionId s =
     (let s = (if next_extension_id s \<le> kOneByteHeaderExtensionMaxId
               then s\<lparr>next_extension_id := down s (next_extension_id s)\<rparr> else s);
          s = (if id_domain s = kTwoByteAllowed
               then
                 let s = (if next_extension_id s < min_allowed_id s
                          then s\<lparr>next_extension_id := kOneByteHeaderExtensionMaxId + 1\<rparr> else s)
                 in if next_extension_id s > kOneByteHeaderExtensionMaxId
                    then s\<lparr>next_extension_id := up s (next_extension_id s)\<rparr> else s
               else s)
      in if \<not> next_extension_id s \<ge> min_allowed_id s then Inl DcheckFailed
         else if \<not> next_extension_id s \<le> max_allowed_id s then Inl DcheckFailed
         else Inr (next_extension_id s, s))"

subsection \<open>The search loops\<close>

definition allowed :: "'a used_ids_scheme \<Rightarrow> int \<Rightarrow> bool" where
  "allowed s i \<longleftrightarrow> min_allowed_id s \<le> i \<and> i \<le> max_allowed_id s"

lemma down_spec:
  "down s i \<le> i \<and> (\<forall>j. down s i < j \<and> j \<le> i \<longrightarrow> IsIdUsed j s) \<and>
   (IsIdUsed (down s i) s \<longrightarrow> down s i < min_allowed_id s)"
proof (induction s i rule: down.induct)
  case (1 s i)
  show ?case
  proof (cases "IsIdUsed i s \<and> i \<ge> min_allowed_id s")
    case True
    then have e: "down s i = down s (i - 1)" by (subst down.simps) simp
    have "j \<le> i \<Longrightarrow> j = i \<or> j \<le> i - 1" for j by auto
    then show ?thesis using 1 [OF True] True unfolding e by fastforce
  next
    case False
    then have "down s i = i" by (subst down.simps) auto
    then show ?thesis using False by auto
  qed
qed

lemma up_spec:
  "i \<le> up s i \<and> (\<forall>j. i \<le> j \<and> j < up s i \<longrightarrow> IsIdUsed j s) \<and>
   (IsIdUsed (up s i) s \<longrightarrow> max_allowed_id s < up s i)"
proof (induction s i rule: up.induct)
  case (1 s i)
  show ?case
  proof (cases "IsIdUsed i s \<and> i \<le> max_allowed_id s")
    case True
    then have e: "up s i = up s (i + 1)" by (subst up.simps) simp
    have "i \<le> j \<Longrightarrow> j = i \<or> i + 1 \<le> j" for j by auto
    then show ?thesis using 1 [OF True] True unfolding e by fastforce
  next
    case False
    then have "up s i = i" by (subst up.simps) auto
    then show ?thesis using False by auto
  qed
qed

subsection \<open>The contract of the search\<close>

text \<open>Assigning ids to a list of structures, one after the other.\<close>

fun assign_ids ::
  "('a used_ids_scheme \<Rightarrow> (int \<times> 'a used_ids_scheme) res) \<Rightarrow> int list \<Rightarrow> 'a used_ids_scheme \<Rightarrow>
    (int list \<times> 'a used_ids_scheme) res" where
  "assign_ids find_unused [] s = Inr ([], s)"
| "assign_ids find_unused (i # is) s =
     res_bind (FindAndSetIdUsed find_unused i s) (\<lambda>(j, s).
     res_bind (assign_ids find_unused is s) (\<lambda>(js, s). Inr (j # js, s)))"

definition free_ids :: "'a used_ids_scheme \<Rightarrow> int set" where
  "free_ids s = {i. allowed s i \<and> \<not> IsIdUsed i s}"

text \<open>
  What \<open>FindAndSetIdUsed\<close> relies on: the search returns an allowed id that is not used and changes
  nothing else it looks at, it succeeds while there is one, and marking ids does not disturb it.
\<close>

locale id_search =
  fixes find_unused :: "'a used_ids_scheme \<Rightarrow> (int \<times> 'a used_ids_scheme) res"
    and ok :: "'a used_ids_scheme \<Rightarrow> bool"
  assumes found: "ok s \<Longrightarrow> find_unused s = Inr (i, s') \<Longrightarrow>
      i \<in> free_ids s \<and> id_set s' = id_set s \<and> min_allowed_id s' = min_allowed_id s \<and>
      max_allowed_id s' = max_allowed_id s \<and> ok s'"
    and finds: "ok s \<Longrightarrow> free_ids s \<noteq> {} \<Longrightarrow> \<exists>r. find_unused s = Inr r"
    and fails: "ok s \<Longrightarrow> find_unused s = Inl f \<Longrightarrow> f = DcheckFailed"
    and marks: "ok s \<Longrightarrow> ok (s\<lparr>id_set := i # id_set s\<rparr>)"
begin

lemma set_one:
  assumes "ok s" and "FindAndSetIdUsed find_unused i s = Inr (j, s')" and "allowed s i"
  shows "j \<in> free_ids s" and "free_ids s' = free_ids s - {j}" and "ok s'" and "allowed s' = allowed s"
    and "i \<in> free_ids s \<Longrightarrow> j = i"
proof -
  from assms(2,3) obtain s1 where s1:
    "(if IsIdUsed i s then find_unused s else Inr (i, s)) = Inr (j, s1)" "SetIdUsed j s1 = Inr s'"
    by (auto simp: FindAndSetIdUsed_def allowed_def res_bind_eq_Inr)
  have c: "j \<in> free_ids s \<and> id_set s1 = id_set s \<and> min_allowed_id s1 = min_allowed_id s \<and>
      max_allowed_id s1 = max_allowed_id s \<and> ok s1"
    using s1(1) found [OF assms(1)] assms(1,3) by (auto simp: free_ids_def split: if_splits)
  have s': "s' = s1\<lparr>id_set := j # id_set s1\<rparr>" using s1(2) by (auto simp: SetIdUsed_def split: if_splits)
  show "j \<in> free_ids s" using c by blast
  show "ok s'" unfolding s' using c by (intro marks) simp
  show "allowed s' = allowed s" using c s' by (auto simp: allowed_def fun_eq_iff)
  show "free_ids s' = free_ids s - {j}" using c s' by (auto simp: free_ids_def allowed_def IsIdUsed_def)
  show "i \<in> free_ids s \<Longrightarrow> j = i" using s1(1) by (auto simp: free_ids_def)
qed

lemma set_other:
  "\<not> allowed s i \<Longrightarrow> FindAndSetIdUsed find_unused i s = Inr (i, s)"
  by (auto simp: FindAndSetIdUsed_def allowed_def)

lemma set_succeeds:
  assumes "ok s" and "free_ids s \<noteq> {}"
  shows "\<exists>r. FindAndSetIdUsed find_unused i s = Inr r"
proof (cases "allowed s i")
  case True
  obtain j s1 where j: "(if IsIdUsed i s then find_unused s else Inr (i, s)) = Inr (j, s1)"
    using finds [OF assms] by (cases "IsIdUsed i s") fastforce+
  then have c: "j \<in> free_ids s \<and> id_set s1 = id_set s \<and> min_allowed_id s1 = min_allowed_id s \<and>
      max_allowed_id s1 = max_allowed_id s"
    using found [OF assms(1)] True by (auto simp: free_ids_def split: if_splits)
  then have "\<exists>s'. SetIdUsed j s1 = Inr s'" by (auto simp: SetIdUsed_def free_ids_def allowed_def IsIdUsed_def)
  then show ?thesis using j True by (auto simp: FindAndSetIdUsed_def allowed_def)
next
  case False
  then show ?thesis by (simp add: set_other)
qed

lemma assign_ok:
  assumes "ok s" and "assign_ids find_unused is s = Inr (js, s')"
  shows "length js = length is" and "free_ids s' = free_ids s - set (filter (allowed s) js)"
    and "set (filter (allowed s) js) \<subseteq> free_ids s" and "distinct (filter (allowed s) js)"
    and "filter (\<lambda>i. \<not> allowed s i) js = filter (\<lambda>i. \<not> allowed s i) is"
    and "distinct (filter (allowed s) is) \<and> set (filter (allowed s) is) \<subseteq> free_ids s \<Longrightarrow> js = is"
  using assms
proof (atomize (full), induction "is" arbitrary: s js)
  case (Cons i "is")
  from Cons.prems(2) obtain j s1 js1 where
    j: "FindAndSetIdUsed find_unused i s = Inr (j, s1)" and r: "assign_ids find_unused is s1 = Inr (js1, s')"
    and js: "js = j # js1"
    by (auto simp: res_bind_eq_Inr)
  show ?case
  proof (cases "allowed s i")
    case True
    note S = set_one [OF Cons.prems(1) j True]
    note IH = Cons.IH [OF S(3) r]
    have "allowed s j" using S(1) by (simp add: free_ids_def)
    moreover have "j = i" if "set (filter (allowed s) (i # is)) \<subseteq> free_ids s" using S(5) that True by auto
    ultimately show ?thesis using IH S(1,2) True unfolding js S(4) by auto
  next
    case False
    then have "j = i" "s1 = s" using set_other j by auto
    then show ?thesis using Cons.IH [OF Cons.prems(1)] r False unfolding js by auto
  qed
qed auto

lemma assign_succeeds:
  assumes "ok s" and "finite (free_ids s)" and "length (filter (allowed s) is) \<le> card (free_ids s)"
  shows "\<exists>r. assign_ids find_unused is s = Inr r"
  using assms
proof (induction "is" arbitrary: s)
  case (Cons i "is")
  show ?case
  proof (cases "allowed s i")
    case True
    then have "0 < card (free_ids s)" using Cons.prems by (cases "card (free_ids s)") auto
    then have "free_ids s \<noteq> {}" by auto
    then obtain j s1 where j: "FindAndSetIdUsed find_unused i s = Inr (j, s1)"
      using set_succeeds [OF Cons.prems(1), of i] by auto
    note S = set_one [OF Cons.prems(1) j True]
    have "card (free_ids s1) = card (free_ids s) - 1" using S(1,2) Cons.prems(2) by simp
    then have "\<exists>r. assign_ids find_unused is s1 = Inr r"
      using Cons.IH [OF S(3)] Cons.prems(2,3) S(2) True unfolding S(4) by auto
    then show ?thesis using j by auto
  next
    case False
    then show ?thesis using Cons.IH [OF Cons.prems(1,2)] Cons.prems(3) set_other [OF False] by auto
  qed
qed simp

end

text \<open>The downward search: every id above \<open>next_id\<close> is used.\<close>

definition down_ok :: "used_ids \<Rightarrow> bool" where
  "down_ok s \<longleftrightarrow>
     next_id s \<le> max_allowed_id s \<and> (\<forall>i. next_id s < i \<and> i \<le> max_allowed_id s \<longrightarrow> IsIdUsed i s)"

interpretation pt: id_search FindUnusedId down_ok
proof
  fix s s' :: used_ids and i f
  let ?d = "down s (next_id s)"
  note D = down_spec [of s "next_id s"]
  assume ok: "down_ok s"
  show "i \<in> free_ids s \<and> id_set s' = id_set s \<and> min_allowed_id s' = min_allowed_id s \<and>
      max_allowed_id s' = max_allowed_id s \<and> down_ok s'" if "FindUnusedId s = Inr (i, s')"
  proof -
    have e: "min_allowed_id s \<le> ?d" "i = ?d" "s' = s\<lparr>next_id := ?d\<rparr>"
      using that by (auto simp: FindUnusedId_def Let_def split: if_splits)
    have "down_ok s'" using ok D unfolding e(3) down_ok_def IsIdUsed_def by simp (meson not_le order_trans)
    moreover have "i \<in> free_ids s" using ok D e by (auto simp: free_ids_def allowed_def down_ok_def)
    ultimately show ?thesis using e by simp
  qed
  show "\<exists>r. FindUnusedId s = Inr r" if ne: "free_ids s \<noteq> {}"
  proof -
    obtain j where j: "allowed s j" "\<not> IsIdUsed j s" using ne by (auto simp: free_ids_def)
    have "j \<le> next_id s" using ok j unfolding down_ok_def allowed_def by (meson not_le)
    then have "min_allowed_id s \<le> ?d" using D j unfolding allowed_def by (meson not_le order_trans)
    then show ?thesis by (simp add: FindUnusedId_def Let_def)
  qed
  show "f = DcheckFailed" if "FindUnusedId s = Inl f"
    using that by (auto simp: FindUnusedId_def Let_def split: if_splits)
  show "down_ok (s\<lparr>id_set := i # id_set s\<rparr>)" using ok by (simp add: down_ok_def IsIdUsed_def)
qed

text \<open>
  The search of header extensions: either it is still among the one-byte ids and those above its
  position are used, or all one-byte ids are used and so are the two-byte ids below its position.
\<close>

definition ext_ok :: "extension_ids \<Rightarrow> bool" where
  "ext_ok s \<longleftrightarrow>
     min_allowed_id s = kMinId \<and>
     max_allowed_id s = (if id_domain s = kTwoByteAllowed then kMaxId else kOneByteHeaderExtensionMaxId) \<and>
     (next_extension_id s \<le> kOneByteHeaderExtensionMaxId \<and>
        (\<forall>i. next_extension_id s < i \<and> i \<le> kOneByteHeaderExtensionMaxId \<longrightarrow> IsIdUsed i s) \<or>
      id_domain s = kTwoByteAllowed \<and> kOneByteHeaderExtensionMaxId < next_extension_id s \<and>
        (\<forall>i. kMinId \<le> i \<and> i < next_extension_id s \<longrightarrow> IsIdUsed i s))"

lemmas ext_consts = kMinId_def kMaxId_def kOneByteHeaderExtensionMaxId_def

text \<open>The position after the search.\<close>

definition ext_next :: "extension_ids \<Rightarrow> int" where
  "ext_next s =
     (let n = (if next_extension_id s \<le> 14 then down s (next_extension_id s) else next_extension_id s)
      in if id_domain s = kTwoByteAllowed \<and> (n < min_allowed_id s \<or> n > 14)
         then up s (if n < min_allowed_id s then 15 else n) else n)"

lemma IsIdUsed_upd [simp]:
  "IsIdUsed i (s\<lparr>next_extension_id := n\<rparr>) = IsIdUsed i s" "IsIdUsed i (t\<lparr>next_id := n\<rparr>) = IsIdUsed i t"
  by (simp_all add: IsIdUsed_def)

lemma up_upd [simp]: "up (s\<lparr>next_extension_id := n\<rparr>) i = up s i"
proof (induction s i rule: up.induct)
  case (1 s i)
  then show ?case by (subst (1 2) up.simps) simp
qed

lemma FindUnusedExtensionId_eq:
  "FindUnusedExtensionId s =
     (if min_allowed_id s \<le> ext_next s \<and> ext_next s \<le> max_allowed_id s
      then Inr (ext_next s, s\<lparr>next_extension_id := ext_next s\<rparr>) else Inl DcheckFailed)"
proof (cases "next_extension_id s \<le> 14")
  case True
  then show ?thesis
    using down_spec [of s "next_extension_id s"]
    by (simp add: FindUnusedExtensionId_def ext_next_def Let_def ext_consts)
next
  case False
  then show ?thesis
    by (simp add: FindUnusedExtensionId_def ext_next_def Let_def ext_consts)
qed

lemma ext_next_cases:
  assumes "ext_ok s"
  obtains (one) "ext_next s = down s (next_extension_id s)" "ext_next s \<le> 14"
      "max_allowed_id s = 14 \<or> 1 \<le> ext_next s \<and> max_allowed_id s = 255"
      "\<forall>i. ext_next s < i \<and> i \<le> 14 \<longrightarrow> IsIdUsed i s"
    | (two) m where "id_domain s = kTwoByteAllowed" "14 < m" "ext_next s = up s m" "max_allowed_id s = 255"
      "\<forall>i. 1 \<le> i \<and> i < m \<longrightarrow> IsIdUsed i s"
proof -
  let ?n = "next_extension_id s" and ?d = "down s (next_extension_id s)"
  note D = down_spec [of s ?n]
  have mx: "max_allowed_id s = (if id_domain s = kTwoByteAllowed then 255 else 14)" "min_allowed_id s = 1"
    using assms by (simp_all add: ext_ok_def ext_consts)
  show thesis
  proof (cases "?n \<le> 14")
    case True
    then have above: "\<forall>i. ?n < i \<and> i \<le> 14 \<longrightarrow> IsIdUsed i s" using assms by (auto simp: ext_ok_def ext_consts)
    have all: "\<forall>i. ?d < i \<and> i \<le> 14 \<longrightarrow> IsIdUsed i s" using D above by (meson not_le)
    show thesis
    proof (cases "id_domain s = kTwoByteAllowed \<and> ?d < 1")
      case True
      show thesis by (rule two [of 15]) (use True all \<open>?n \<le> 14\<close> mx D in \<open>auto simp: ext_next_def\<close>)
    next
      case False
      then have e: "ext_next s = ?d" using True mx D by (auto simp: ext_next_def Let_def)
      show thesis by (rule one) (use e all mx False True D in \<open>auto split: if_splits\<close>)
    qed
  next
    case False
    then have t: "id_domain s = kTwoByteAllowed" "\<forall>i. 1 \<le> i \<and> i < ?n \<longrightarrow> IsIdUsed i s"
      using assms by (auto simp: ext_ok_def ext_consts)
    show thesis by (rule two [of ?n]) (use t False mx in \<open>auto simp: ext_next_def\<close>)
  qed
qed

lemma ext_next_spec:
  assumes "ext_ok s"
  shows "IsIdUsed (ext_next s) s \<Longrightarrow> \<not> allowed s (ext_next s)"
    and "allowed s (ext_next s) \<Longrightarrow> ext_ok (s\<lparr>next_extension_id := ext_next s\<rparr>)"
    and "\<not> allowed s (ext_next s) \<Longrightarrow> allowed s j \<Longrightarrow> IsIdUsed j s"
proof -
  have mx: "max_allowed_id s = (if id_domain s = kTwoByteAllowed then 255 else 14)" "min_allowed_id s = 1"
    using assms by (simp_all add: ext_ok_def ext_consts)
  have "(IsIdUsed (ext_next s) s \<longrightarrow> \<not> allowed s (ext_next s)) \<and>
    (allowed s (ext_next s) \<longrightarrow> ext_ok (s\<lparr>next_extension_id := ext_next s\<rparr>)) \<and>
    (\<not> allowed s (ext_next s) \<longrightarrow> allowed s j \<longrightarrow> IsIdUsed j s)"
    using assms
  proof (cases rule: ext_next_cases)
    case one
    note D = down_spec [of s "next_extension_id s", folded one(1)]
    show ?thesis using one D mx by (auto simp: allowed_def ext_ok_def ext_consts)
  next
    case (two m)
    note U = up_spec [of m s, folded two(3)]
    have "IsIdUsed i s" if "1 \<le> i" "i < ext_next s" for i
      using two(5) U that by (cases "i < m") auto
    then show ?thesis using two U mx by (auto simp: allowed_def ext_ok_def ext_consts)
  qed
  then show "IsIdUsed (ext_next s) s \<Longrightarrow> \<not> allowed s (ext_next s)"
    and "allowed s (ext_next s) \<Longrightarrow> ext_ok (s\<lparr>next_extension_id := ext_next s\<rparr>)"
    and "\<not> allowed s (ext_next s) \<Longrightarrow> allowed s j \<Longrightarrow> IsIdUsed j s" by blast+
qed

interpretation xt: id_search FindUnusedExtensionId ext_ok
proof
  fix s s' :: extension_ids and i f
  assume ok: "ext_ok s"
  note N = ext_next_spec [OF ok]
  show "i \<in> free_ids s \<and> id_set s' = id_set s \<and> min_allowed_id s' = min_allowed_id s \<and>
      max_allowed_id s' = max_allowed_id s \<and> ext_ok s'" if "FindUnusedExtensionId s = Inr (i, s')"
  proof -
    have "allowed s i" "i = ext_next s" "s' = s\<lparr>next_extension_id := ext_next s\<rparr>"
      using that by (auto simp: FindUnusedExtensionId_eq allowed_def split: if_splits)
    then show ?thesis using N(1,2) by (auto simp: free_ids_def)
  qed
  show "\<exists>r. FindUnusedExtensionId s = Inr r" if ne: "free_ids s \<noteq> {}"
  proof -
    have "allowed s (ext_next s)" using ne N(3) by (auto simp: free_ids_def)
    then show ?thesis by (simp add: FindUnusedExtensionId_eq allowed_def)
  qed
  show "f = DcheckFailed" if "FindUnusedExtensionId s = Inl f"
    using that by (auto simp: FindUnusedExtensionId_eq split: if_splits)
  show "ext_ok (s\<lparr>id_set := i # id_set s\<rparr>)" using ok by (auto simp: ext_ok_def IsIdUsed_def)
qed

subsection \<open>Ids are unique\<close>

lemma finite_free: "finite (free_ids s)"
proof -
  have "free_ids s \<subseteq> {min_allowed_id s..max_allowed_id s}" by (auto simp: free_ids_def allowed_def)
  then show ?thesis by (rule finite_subset) simp
qed

lemma down_ok_new: "down_ok (UsedIds_new mn mx)" "ext_ok (UsedRtpHeaderExtensionIds_new d)"
  by (auto simp: down_ok_def UsedIds_new_def ext_ok_def UsedRtpHeaderExtensionIds_new_def Let_def ext_consts)

lemma free_new: "free_ids (UsedIds_new mn mx) = {mn..mx}"
  by (auto simp: free_ids_def allowed_def IsIdUsed_def UsedIds_new_def)

lemma free_new_ext:
  "free_ids (UsedRtpHeaderExtensionIds_new d) = {1..(if d = kTwoByteAllowed then 255 else 14)}"
  by (auto simp: free_ids_def allowed_def IsIdUsed_def UsedRtpHeaderExtensionIds_new_def Let_def ext_consts)

text \<open>What the two classes promise for the ids of a session.\<close>

definition unique_ids :: "(int \<Rightarrow> bool) \<Rightarrow> int list \<Rightarrow> int list \<Rightarrow> bool" where
  "unique_ids dyn is js \<longleftrightarrow>
     length js = length is \<and> distinct (filter dyn js) \<and>
     filter (\<lambda>i. \<not> dyn i) js = filter (\<lambda>i. \<not> dyn i) is \<and>
     (distinct (filter dyn is) \<longrightarrow> js = is)"

context id_search
begin

lemma assign_unique:
  assumes "ok s" and "free_ids s = {i. allowed s i}" and "finite (free_ids s)"
    and "length (filter (allowed s) is) \<le> card (free_ids s)"
  shows "\<exists>js s'. assign_ids find_unused is s = Inr (js, s') \<and> unique_ids (allowed s) is js"
proof -
  obtain js s' where js: "assign_ids find_unused is s = Inr (js, s')" using assign_succeeds [OF assms(1,3,4)] by auto
  note A = assign_ok [OF assms(1) js]
  have "distinct (filter (allowed s) is) \<Longrightarrow> js = is" by (rule A(6)) (auto simp: assms(2))
  then show ?thesis using js A(1,4,5) unfolding unique_ids_def by blast
qed

end

text \<open>
  C29. The ids that can be assigned become unique: as long as there are no more structures than ids, every
  structure in turn gets an id of its own, ids outside the range are left alone, and a list without
  duplicates is not changed. This holds for payload types (96 to 127), for header extensions with
  one-byte ids (1 to 14) and with two-byte ids (1 to 255).
\<close>

theorem used_ids_unique:
  "(length (filter (\<lambda>i. i \<in> {96..127}) is) \<le> 32 \<longrightarrow>
      (\<exists>js s. assign_ids FindUnusedId is UsedPayloadTypes_new = Inr (js, s) \<and> unique_ids (\<lambda>i. i \<in> {96..127}) is js)) \<and>
   (length (filter (\<lambda>i. i \<in> {1..(if d = kTwoByteAllowed then 255 else 14)}) is) \<le>
        (if d = kTwoByteAllowed then 255 else 14) \<longrightarrow>
      (\<exists>js s. assign_ids FindUnusedExtensionId is (UsedRtpHeaderExtensionIds_new d) = Inr (js, s) \<and>
        unique_ids (\<lambda>i. i \<in> {1..(if d = kTwoByteAllowed then 255 else 14)}) is js))"
proof -
  let ?p = "UsedPayloadTypes_new" and ?x = "UsedRtpHeaderExtensionIds_new d"
  have a: "allowed ?p = (\<lambda>i. i \<in> {96..127})"
    "allowed ?x = (\<lambda>i. i \<in> {1..(if d = kTwoByteAllowed then 255 else 14)})"
    by (auto simp: allowed_def fun_eq_iff UsedPayloadTypes_new_def UsedIds_new_def kDynamicPayloadTypeMin_def
        kDynamicPayloadTypeMax_def UsedRtpHeaderExtensionIds_new_def Let_def ext_consts)
  have f: "free_ids ?p = {96..127}" "free_ids ?x = {1..(if d = kTwoByteAllowed then 255 else 14)}"
    by (simp_all add: UsedPayloadTypes_new_def free_new free_new_ext kDynamicPayloadTypeMin_def kDynamicPayloadTypeMax_def)
  have eq: "free_ids ?p = {i. allowed ?p i}" "free_ids ?x = {i. allowed ?x i}" unfolding a f by (rule Collect_mem_eq [symmetric])+
  have card: "card (free_ids ?p) = 32" "card (free_ids ?x) = (if d = kTwoByteAllowed then 255 else 14)"
    by (simp_all add: f)
  have ok: "down_ok ?p" "ext_ok ?x" by (simp_all add: UsedPayloadTypes_new_def down_ok_new)
  have "\<exists>js s. assign_ids FindUnusedId is ?p = Inr (js, s) \<and> unique_ids (\<lambda>i. i \<in> {96..127}) is js"
    if "length (filter (\<lambda>i. i \<in> {96..127}) is) \<le> 32"
    using pt.assign_unique [OF ok(1) eq(1) finite_free, of "is", unfolded card a] that by blast
  moreover have "\<exists>js s. assign_ids FindUnusedExtensionId is ?x = Inr (js, s) \<and>
        unique_ids (\<lambda>i. i \<in> {1..(if d = kTwoByteAllowed then 255 else 14)}) is js"
    if "length (filter (\<lambda>i. i \<in> {1..(if d = kTwoByteAllowed then 255 else 14)}) is) \<le>
        (if d = kTwoByteAllowed then 255 else 14)"
    using xt.assign_unique [OF ok(2) eq(2) finite_free, of "is", unfolded card a] that by blast
  ultimately show ?thesis by blast
qed

theorem used_ids_unique_witness:
  "(\<exists>js s. assign_ids FindUnusedId [111, 96, 111, 0] UsedPayloadTypes_new = Inr (js, s) \<and>
     unique_ids (\<lambda>i. i \<in> {96..127}) [111, 96, 111, 0] js) \<and>
   (\<exists>js s. assign_ids FindUnusedExtensionId [14, 3, 14] (UsedRtpHeaderExtensionIds_new kOneByteOnly) = Inr (js, s) \<and>
     unique_ids (\<lambda>i. i \<in> {1..14}) [14, 3, 14] js)"
proof -
  have "length (filter (\<lambda>i. i \<in> {96..127}) [111, 96, 111, 0 :: int]) \<le> 32" by simp
  moreover have "length (filter (\<lambda>i. i \<in> {1..14}) [14, 3, 14 :: int]) \<le> 14" by simp
  ultimately show ?thesis
    using used_ids_unique [of "[111, 96, 111, 0]"] used_ids_unique [of "[14, 3, 14]" kOneByteOnly] by simp
qed

end
