(* ===== verification/InlineVector.thy ===== *)
theory InlineVector
  imports Prelude
begin

section \<open>Vectors of bounded capacity\<close>

text \<open>
  \<^verbatim>\<open>rtc_base/bounded_inline_vector.h\<close> and \<^verbatim>\<open>bounded_inline_vector_impl.h\<close>. The array of a vector is a list
  of cells: \<open>None\<close> is memory without an object (or, for trivial types, an indeterminate value),
  \<open>Some x\<close> an object with value \<open>x\<close>. The element type is described by the record \<open>elem\<close>: the traits
  the templates ask for, the value of a default-initialised object, and what moving leaves behind.
  Vectors live in a store, so that the two operands of an assignment may be the same object.
\<close>

subsection \<open>Elements\<close>

record 'a elem =
  is_trivial :: bool
  is_small :: bool
  triv_copy :: bool
  triv_move :: bool
  triv_destroy :: bool
  default_value :: "'a option"
  moved_from :: "'a \<Rightarrow> 'a"

type_synonym 'a cells = "'a option list"

definition put_cells :: "nat \<Rightarrow> 'a cells \<Rightarrow> 'a cells \<Rightarrow> 'a cells res" where
  "put_cells i xs data =
     (if i + length xs \<le> length data then Inr (take i data @ xs @ drop (i + length xs) data) else Inl OutOfBounds)"

fun InitializeElements :: "nat \<Rightarrow> 'a list \<Rightarrow> 'a cells \<Rightarrow> 'a cells res" where
  "InitializeElements i [] data = Inr data"
| "InitializeElements i (x # xs) data =
     (if i < length data then InitializeElements (i + 1) xs (data[i := Some x]) else Inl OutOfBounds)"

definition DefaultInitializeElements :: "'a elem \<Rightarrow> nat \<Rightarrow> nat \<Rightarrow> 'a cells \<Rightarrow> 'a cells res" where
  "DefaultInitializeElements E i n data = put_cells i (replicate n (default_value E)) data"

text \<open>Copies and moves return the destination; a move also returns the source.\<close>

definition CopyElements :: "'a elem \<Rightarrow> 'a cells \<Rightarrow> nat \<Rightarrow> 'a cells \<Rightarrow> 'a cells res" where
  "CopyElements E src n dst =
     (if length src < n then Inl OutOfBounds
      else if \<not> triv_copy E \<and> None \<in> set (take n src) then Inl UninitRead
      else put_cells 0 (take n src) dst)"

definition MoveElements :: "'a elem \<Rightarrow> 'a cells \<Rightarrow> nat \<Rightarrow> 'a cells \<Rightarrow> ('a cells \<times> 'a cells) res" where
  "MoveElements E src n dst =
     (if length src < n then Inl OutOfBounds
      else if triv_move E then res_bind (put_cells 0 (take n src) dst) (\<lambda>d. Inr (src, d))
      else if None \<in> set (take n src) then Inl UninitRead
      else res_bind (put_cells 0 (take n src) dst) (\<lambda>d.
             Inr (map (map_option (moved_from E)) (take n src) @ drop n src, d)))"

definition DestroyElements :: "'a elem \<Rightarrow> nat \<Rightarrow> nat \<Rightarrow> 'a cells \<Rightarrow> 'a cells res" where
  "DestroyElements E i n data =
     (if triv_destroy E then Inr data
      else if length data < i + n then Inl OutOfBounds
      else if None \<in> set (take n (drop i data)) then Inl UninitRead
      else put_cells i (replicate n None) data)"

subsection \<open>Storage\<close>

record 'a Storage =
  st_size :: nat
  st_data :: "'a cells"

definition Storage_new :: "nat \<Rightarrow> 'a list \<Rightarrow> 'a Storage res" where
  "Storage_new cap elements =
     res_bind (InitializeElements 0 elements (replicate cap None)) (\<lambda>d.
       Inr \<lparr>st_size = length elements, st_data = d\<rparr>)"

text \<open>
  The three templates: for nontrivial types, for small arrays of a trivial type (everything is copied),
  for other arrays of a trivial type (the elements in use are copied). The latter two have no move
  operations of their own, so a move is a copy.
\<close>

definition Storage_copy :: "'a elem \<Rightarrow> 'a Storage \<Rightarrow> 'a Storage res" where
  "Storage_copy E other =
     (if is_trivial E
      then if is_small E then Inr other
           else res_bind (put_cells 0 (take (st_size other) (st_data other))
                  (replicate (length (st_data other)) None)) (\<lambda>d. Inr \<lparr>st_size = st_size other, st_data = d\<rparr>)
      else res_bind (CopyElements E (st_data other) (st_size other) (replicate (length (st_data other)) None))
             (\<lambda>d. Inr \<lparr>st_size = st_size other, st_data = d\<rparr>))"

definition Storage_move :: "'a elem \<Rightarrow> 'a Storage \<Rightarrow> ('a Storage \<times> 'a Storage) res" where
  "Storage_move E other =
     (if is_trivial E then res_bind (Storage_copy E other) (\<lambda>s. Inr (other, s))
      else res_bind (MoveElements E (st_data other) (st_size other) (replicate (length (st_data other)) None))
             (\<lambda>(src, d). Inr (other\<lparr>st_data := src\<rparr>, \<lparr>st_size = st_size other, st_data = d\<rparr>)))"

type_synonym 'a vecs = "nat \<rightharpoonup> 'a Storage"

definition vec :: "'a vecs \<Rightarrow> nat \<Rightarrow> 'a Storage res" where
  "vec S v = (case S v of None \<Rightarrow> Inl UseAfterFree | Some s \<Rightarrow> Inr s)"

definition Storage_assign :: "'a elem \<Rightarrow> nat \<Rightarrow> nat \<Rightarrow> 'a vecs \<Rightarrow> 'a vecs res" where
  "Storage_assign E this other S =
     res_bind (vec S this) (\<lambda>s. res_bind (vec S other) (\<lambda>t.
       if is_trivial E \<and> is_small E then Inr (S(this \<mapsto> t))
       else if this = other then Inr S
       else if is_trivial E
       then res_bind (put_cells 0 (take (st_size t) (st_data t)) (st_data s)) (\<lambda>d.
              Inr (S(this \<mapsto> \<lparr>st_size = st_size t, st_data = d\<rparr>)))
       else res_bind (DestroyElements E 0 (st_size s) (st_data s)) (\<lambda>d.
            res_bind (CopyElements E (st_data t) (st_size t) d) (\<lambda>d.
              Inr (S(this \<mapsto> \<lparr>st_size = st_size t, st_data = d\<rparr>))))))"

definition Storage_move_assign :: "'a elem \<Rightarrow> nat \<Rightarrow> nat \<Rightarrow> 'a vecs \<Rightarrow> 'a vecs res" where
  "Storage_move_assign E this other S =
     (if is_trivial E then Storage_assign E this other S
      else
        res_bind (vec S this) (\<lambda>s.
        res_bind (DestroyElements E 0 (st_size s) (st_data s)) (\<lambda>d.
          let S = S(this \<mapsto> \<lparr>st_size = 0, st_data = d\<rparr>)
          in res_bind (vec S other) (\<lambda>t.
             res_bind (MoveElements E (st_data t) (st_size t) d) (\<lambda>(src, d).
               let S = S(other \<mapsto> t\<lparr>st_data := src\<rparr>)
               in Inr (S(this \<mapsto> \<lparr>st_size = st_size t, st_data = d\<rparr>)))))))"

definition Storage_destroy :: "'a elem \<Rightarrow> 'a Storage \<Rightarrow> 'a cells res" where
  "Storage_destroy E s =
     (if is_trivial E then Inr (st_data s) else DestroyElements E 0 (st_size s) (st_data s))"

subsection \<open>BoundedInlineVector\<close>

text \<open>Operands of another capacity: the constructors, then the assignments, which destroy first.\<close>

definition bv_copy_other :: "'a elem \<Rightarrow> nat \<Rightarrow> 'a Storage \<Rightarrow> 'a Storage res" where
  "bv_copy_other E cap other =
     (if \<not> st_size other \<le> cap then Inl DcheckFailed
      else res_bind (CopyElements E (st_data other) (st_size other) (replicate cap None)) (\<lambda>d.
             Inr \<lparr>st_size = st_size other, st_data = d\<rparr>))"

definition bv_move_other :: "'a elem \<Rightarrow> nat \<Rightarrow> 'a Storage \<Rightarrow> ('a Storage \<times> 'a Storage) res" where
  "bv_move_other E cap other =
     (if \<not> st_size other \<le> cap then Inl DcheckFailed
      else res_bind (MoveElements E (st_data other) (st_size other) (replicate cap None)) (\<lambda>(src, d).
             Inr (other\<lparr>st_data := src\<rparr>, \<lparr>st_size = st_size other, st_data = d\<rparr>)))"

definition bv_assign_other :: "'a elem \<Rightarrow> 'a Storage \<Rightarrow> 'a Storage \<Rightarrow> 'a Storage res" where
  "bv_assign_other E other this =
     res_bind (DestroyElements E 0 (st_size this) (st_data this)) (\<lambda>d.
       if \<not> st_size other \<le> length d then Inl DcheckFailed
       else res_bind (CopyElements E (st_data other) (st_size other) d) (\<lambda>d.
              Inr \<lparr>st_size = st_size other, st_data = d\<rparr>))"

definition bv_move_assign_other :: "'a elem \<Rightarrow> 'a Storage \<Rightarrow> 'a Storage \<Rightarrow> ('a Storage \<times> 'a Storage) res" where
  "bv_move_assign_other E other this =
     res_bind (DestroyElements E 0 (st_size this) (st_data this)) (\<lambda>d.
       if \<not> st_size other \<le> length d then Inl DcheckFailed
       else res_bind (MoveElements E (st_data other) (st_size other) d) (\<lambda>(src, d).
              Inr (other\<lparr>st_data := src\<rparr>, \<lparr>st_size = st_size other, st_data = d\<rparr>)))"

definition bv_empty :: "'a Storage \<Rightarrow> bool" where
  "bv_empty s \<longleftrightarrow> st_size s = 0"

definition bv_size :: "'a Storage \<Rightarrow> nat" where
  "bv_size s = st_size s"

definition bv_capacity :: "'a Storage \<Rightarrow> nat" where
  "bv_capacity s = length (st_data s)"

definition bv_resize :: "'a elem \<Rightarrow> int \<Rightarrow> 'a Storage \<Rightarrow> 'a Storage res" where
  "bv_resize E new_size s =
     (if \<not> new_size \<ge> 0 then Inl DcheckFailed
      else if \<not> new_size \<le> int (bv_capacity s) then Inl DcheckFailed
      else
        res_bind
          (if new_size > int (st_size s)
           then DefaultInitializeElements E (st_size s) (nat new_size - st_size s) (st_data s)
           else if new_size < int (st_size s)
           then DestroyElements E (nat new_size) (st_size s - nat new_size) (st_data s)
           else Inr (st_data s))
          (\<lambda>d. Inr \<lparr>st_size = nat new_size, st_data = d\<rparr>))"

definition bv_index :: "int \<Rightarrow> 'a Storage \<Rightarrow> 'a res" where
  "bv_index index s =
     (if \<not> index \<ge> 0 then Inl DcheckFailed
      else if \<not> index < int (st_size s) then Inl DcheckFailed
      else case st_data s ! nat index of None \<Rightarrow> Inl UninitRead | Some x \<Rightarrow> Inr x)"

definition bv_put :: "int \<Rightarrow> 'a \<Rightarrow> 'a Storage \<Rightarrow> 'a Storage res" where
  "bv_put index x s =
     (if \<not> index \<ge> 0 then Inl DcheckFailed
      else if \<not> index < int (st_size s) then Inl DcheckFailed
      else Inr (s\<lparr>st_data := (st_data s)[nat index := Some x]\<rparr>))"

subsection \<open>Contents of a vector\<close>

text \<open>
  A vector holds a list: the first cells are its elements; when destruction matters, no cell beyond
  them has an object.
\<close>

definition blank :: "'a elem \<Rightarrow> 'a cells \<Rightarrow> bool" where
  "blank E d \<longleftrightarrow> (\<not> triv_destroy E \<longrightarrow> set d \<subseteq> {None})"

definition holds :: "'a elem \<Rightarrow> 'a list \<Rightarrow> 'a Storage \<Rightarrow> bool" where
  "holds E xs s \<longleftrightarrow> st_size s = length xs \<and> (\<exists>rest. st_data s = map Some xs @ rest \<and> blank E rest)"

text \<open>A trivial type is copied, moved and destroyed trivially, and moving it changes nothing.\<close>

definition elem_ok :: "'a elem \<Rightarrow> bool" where
  "elem_ok E \<longleftrightarrow> (is_trivial E \<longrightarrow> triv_copy E \<and> triv_move E \<and> triv_destroy E)"

definition left_behind :: "'a elem \<Rightarrow> 'a list \<Rightarrow> 'a list" where
  "left_behind E xs = (if triv_move E then xs else map (moved_from E) xs)"

lemma put_cells_start:
  "length xs \<le> length d \<Longrightarrow> put_cells 0 xs d = Inr (xs @ drop (length xs) d)"
  by (simp add: put_cells_def)

lemma blank_drop [simp]: "blank E d \<Longrightarrow> blank E (drop n d)"
  by (auto simp: blank_def dest!: in_set_dropD)

lemma blank_None [simp]: "blank E (replicate n None)"
  by (auto simp: blank_def)

lemma blank_append [simp]: "blank E (a @ b) \<longleftrightarrow> blank E a \<and> blank E b"
  by (auto simp: blank_def)

lemma InitializeElements_ok:
  "i + length xs \<le> length d \<Longrightarrow>
     InitializeElements i xs d = Inr (take i d @ map Some xs @ drop (i + length xs) d)"
proof (induction xs arbitrary: i d)
  case (Cons x xs)
  then have "take (Suc i) (d[i := Some x]) = take i d @ [Some x]" by (simp add: take_Suc_conv_app_nth)
  then show ?case using Cons by simp
qed simp

lemma CopyElements_ok:
  assumes "holds E xs s" and "length xs \<le> length d" and "blank E d"
  shows "\<exists>d'. CopyElements E (st_data s) (st_size s) d = Inr d' \<and> length d' = length d \<and>
    holds E xs \<lparr>st_size = st_size s, st_data = d'\<rparr>"
  using assms by (auto simp: holds_def CopyElements_def put_cells_start)

lemma MoveElements_ok:
  assumes "holds E xs s" and "length xs \<le> length d" and "blank E d"
  shows "\<exists>src d'. MoveElements E (st_data s) (st_size s) d = Inr (src, d') \<and> length d' = length d \<and>
    length src = length (st_data s) \<and> holds E xs \<lparr>st_size = st_size s, st_data = d'\<rparr> \<and>
    holds E (left_behind E xs) (s\<lparr>st_data := src\<rparr>)"
  using assms by (auto simp: holds_def MoveElements_def put_cells_start left_behind_def)

lemma DestroyElements_ok:
  assumes "holds E xs s"
  shows "\<exists>d. DestroyElements E 0 (st_size s) (st_data s) = Inr d \<and> length d = length (st_data s) \<and> blank E d"
  using assms by (auto simp: holds_def DestroyElements_def put_cells_start blank_def)

lemma take_copy_ok:
  assumes "holds E xs s" and "length xs \<le> length d" and "blank E d"
  shows "\<exists>d'. put_cells 0 (take (st_size s) (st_data s)) d = Inr d' \<and> length d' = length d \<and>
    holds E xs \<lparr>st_size = st_size s, st_data = d'\<rparr>"
  using assms by (auto simp: holds_def put_cells_start)

lemma holds_size: "holds E xs s \<Longrightarrow> st_size s = length xs" "holds E xs s \<Longrightarrow> length xs \<le> length (st_data s)"
  by (auto simp: holds_def)

lemma Storage_new_ok:
  assumes "length xs \<le> cap"
  shows "\<exists>s. Storage_new cap xs = Inr s \<and> length (st_data s) = cap \<and> holds E xs s"
  using assms InitializeElements_ok [of 0 xs "replicate cap None"] by (simp add: Storage_new_def holds_def)

lemma Storage_copy_ok:
  assumes "holds E xs s"
  shows "\<exists>t. Storage_copy E s = Inr t \<and> length (st_data t) = length (st_data s) \<and> holds E xs t"
proof -
  let ?d = "replicate (length (st_data s)) None"
  have l: "length xs \<le> length ?d" using assms by (simp add: holds_size)
  show ?thesis
    using assms CopyElements_ok [OF assms l blank_None] take_copy_ok [OF assms l blank_None]
    by (fastforce simp: Storage_copy_def)
qed

lemma Storage_move_ok:
  assumes "holds E xs s" and "elem_ok E"
  shows "\<exists>s' t. Storage_move E s = Inr (s', t) \<and> length (st_data t) = length (st_data s) \<and>
    length (st_data s') = length (st_data s) \<and> holds E xs t \<and> holds E (left_behind E xs) s'"
proof -
  have l: "length xs \<le> length (replicate (length (st_data s)) None)" using assms by (simp add: holds_size)
  show ?thesis
    using Storage_copy_ok [OF assms(1)] MoveElements_ok [OF assms(1) l blank_None] assms
    by (fastforce simp: Storage_move_def elem_ok_def left_behind_def)
qed

lemma bv_other_ok:
  assumes "holds E xs s" and "length xs \<le> cap"
  shows "\<exists>t. bv_copy_other E cap s = Inr t \<and> length (st_data t) = cap \<and> holds E xs t"
    and "\<exists>s' t. bv_move_other E cap s = Inr (s', t) \<and> length (st_data t) = cap \<and>
      length (st_data s') = length (st_data s) \<and> holds E xs t \<and> holds E (left_behind E xs) s'"
proof -
  have l: "length xs \<le> length (replicate cap None)" using assms by simp
  show "\<exists>t. bv_copy_other E cap s = Inr t \<and> length (st_data t) = cap \<and> holds E xs t"
    using CopyElements_ok [OF assms(1) l blank_None] assms(2) holds_size [OF assms(1)] by (fastforce simp: bv_copy_other_def)
  show "\<exists>s' t. bv_move_other E cap s = Inr (s', t) \<and> length (st_data t) = cap \<and>
      length (st_data s') = length (st_data s) \<and> holds E xs t \<and> holds E (left_behind E xs) s'"
    using MoveElements_ok [OF assms(1) l blank_None] assms(2) holds_size [OF assms(1)] by (fastforce simp: bv_move_other_def)
qed

lemma bv_assign_other_ok:
  assumes "holds E xs s" and "holds E ys t" and "length xs \<le> length (st_data t)"
  shows "\<exists>t'. bv_assign_other E s t = Inr t' \<and> length (st_data t') = length (st_data t) \<and> holds E xs t'"
    and "\<exists>s' t'. bv_move_assign_other E s t = Inr (s', t') \<and> length (st_data t') = length (st_data t) \<and>
      length (st_data s') = length (st_data s) \<and> holds E xs t' \<and> holds E (left_behind E xs) s'"
proof -
  obtain d where d: "DestroyElements E 0 (st_size t) (st_data t) = Inr d" "length d = length (st_data t)" "blank E d"
    using DestroyElements_ok [OF assms(2)] by blast
  have l: "length xs \<le> length d" using assms d by simp
  show "\<exists>t'. bv_assign_other E s t = Inr t' \<and> length (st_data t') = length (st_data t) \<and> holds E xs t'"
    using CopyElements_ok [OF assms(1) l d(3)] assms(3) holds_size [OF assms(1)] d by (fastforce simp: bv_assign_other_def)
  show "\<exists>s' t'. bv_move_assign_other E s t = Inr (s', t') \<and> length (st_data t') = length (st_data t) \<and>
      length (st_data s') = length (st_data s) \<and> holds E xs t' \<and> holds E (left_behind E xs) s'"
    using MoveElements_ok [OF assms(1) l d(3)] assms(3) holds_size [OF assms(1)] d by (fastforce simp: bv_move_assign_other_def)
qed

lemma bv_resize_ok:
  assumes "holds E xs s" and "n \<le> length (st_data s)"
    and "n \<le> length xs \<or> default_value E = Some x"
  shows "\<exists>t. bv_resize E (int n) s = Inr t \<and> length (st_data t) = length (st_data s) \<and>
    holds E (take n xs @ replicate (n - length xs) x) t"
proof -
  obtain rest where d: "st_data s = map Some xs @ rest" "blank E rest" and l: "st_size s = length xs"
    using assms(1) by (auto simp: holds_def)
  consider "length xs < n" | "length xs = n" | "n < length xs" by linarith
  then show ?thesis
  proof cases
    case 1
    have "put_cells (length xs) (replicate (n - length xs) (Some x)) (st_data s) =
      Inr (map Some (xs @ replicate (n - length xs) x) @ drop (n - length xs) rest)"
      using assms(2) 1 d by (simp add: put_cells_def)
    then show ?thesis
      using 1 assms(2,3) d l by (auto simp: bv_resize_def bv_capacity_def DefaultInitializeElements_def holds_def)
  next
    case 2
    then show ?thesis using assms(1,2) l by (simp add: bv_resize_def bv_capacity_def holds_def)
  next
    case 3
    have t: "take (length xs - n) (drop n (st_data s)) = map Some (drop n xs)" using 3 d by (simp add: drop_map)
    have p: "put_cells n (replicate (length xs - n) None) (st_data s) =
      Inr (map Some (take n xs) @ replicate (length xs - n) None @ rest)"
      using 3 d by (simp add: put_cells_def take_map)
    have "\<exists>d'. DestroyElements E n (length xs - n) (st_data s) = Inr d' \<and> length d' = length (st_data s) \<and>
      holds E (take n xs) \<lparr>st_size = n, st_data = d'\<rparr>"
    proof (cases "triv_destroy E")
      case True
      have "map Some xs = map Some (take n xs) @ map Some (drop n xs)" by (simp flip: map_append)
      then have "st_data s = map Some (take n xs) @ (map Some (drop n xs) @ rest)" using d(1) by simp
      then show ?thesis using True 3 by (auto simp: DestroyElements_def holds_def blank_def)
    next
      case False
      have "None \<notin> set (take (length xs - n) (drop n (st_data s)))" unfolding t by auto
      then show ?thesis using False 3 d p by (auto simp: DestroyElements_def holds_def)
    qed
    then show ?thesis using 3 assms(2) l by (auto simp: bv_resize_def bv_capacity_def)
  qed
qed

lemma bv_access:
  assumes "holds E xs s" and "i < length xs"
  shows "bv_index (int i) s = Inr (xs ! i)"
    and "\<exists>t. bv_put (int i) x s = Inr t \<and> length (st_data t) = length (st_data s) \<and> holds E (xs[i := x]) t"
  using assms by (auto simp: holds_def bv_index_def bv_put_def nth_append list_update_append map_update)

subsection \<open>Programs over vectors\<close>

datatype 'a bv_op =
    BvNew nat nat "'a list"
  | BvCopy nat nat
  | BvMove nat nat
  | BvAssign nat nat
  | BvMoveAssign nat nat
  | BvCopyOther nat nat nat
  | BvMoveOther nat nat nat
  | BvAssignOther nat nat
  | BvMoveAssignOther nat nat
  | BvResize nat nat
  | BvPut nat nat 'a
  | BvDestroy nat

fun bv_step :: "'a elem \<Rightarrow> 'a bv_op \<Rightarrow> 'a vecs \<Rightarrow> 'a vecs res" where
  "bv_step E (BvNew v cap xs) S = res_bind (Storage_new cap xs) (\<lambda>s. Inr (S(v \<mapsto> s)))"
| "bv_step E (BvCopy v w) S = res_bind (vec S w) (\<lambda>t. res_bind (Storage_copy E t) (\<lambda>s. Inr (S(v \<mapsto> s))))"
| "bv_step E (BvMove v w) S =
     res_bind (vec S w) (\<lambda>t. res_bind (Storage_move E t) (\<lambda>(t, s). Inr (S(w \<mapsto> t, v \<mapsto> s))))"
| "bv_step E (BvAssign v w) S = Storage_assign E v w S"
| "bv_step E (BvMoveAssign v w) S = Storage_move_assign E v w S"
| "bv_step E (BvCopyOther v cap w) S =
     res_bind (vec S w) (\<lambda>t. res_bind (bv_copy_other E cap t) (\<lambda>s. Inr (S(v \<mapsto> s))))"
| "bv_step E (BvMoveOther v cap w) S =
     res_bind (vec S w) (\<lambda>t. res_bind (bv_move_other E cap t) (\<lambda>(t, s). Inr (S(w \<mapsto> t, v \<mapsto> s))))"
| "bv_step E (BvAssignOther v w) S =
     res_bind (vec S w) (\<lambda>t. res_bind (vec S v) (\<lambda>s.
     res_bind (bv_assign_other E t s) (\<lambda>s. Inr (S(v \<mapsto> s)))))"
| "bv_step E (BvMoveAssignOther v w) S =
     res_bind (vec S w) (\<lambda>t. res_bind (vec S v) (\<lambda>s.
     res_bind (bv_move_assign_other E t s) (\<lambda>(t, s). Inr (S(w \<mapsto> t, v \<mapsto> s)))))"
| "bv_step E (BvResize v n) S = res_bind (vec S v) (\<lambda>s. res_bind (bv_resize E (int n) s) (\<lambda>s. Inr (S(v \<mapsto> s))))"
| "bv_step E (BvPut v i x) S = res_bind (vec S v) (\<lambda>s. res_bind (bv_put (int i) x s) (\<lambda>s. Inr (S(v \<mapsto> s))))"
| "bv_step E (BvDestroy v) S = res_bind (vec S v) (\<lambda>s. res_bind (Storage_destroy E s) (\<lambda>_. Inr (S(v := None))))"

fun bv_run :: "'a elem \<Rightarrow> 'a bv_op list \<Rightarrow> 'a vecs \<Rightarrow> 'a vecs res" where
  "bv_run E [] S = Inr S"
| "bv_run E (x # xs) S = res_bind (bv_step E x S) (bv_run E xs)"

text \<open>
  The specification: a vector is a capacity and a list. Moving leaves the moved-from elements behind;
  a move assignment of a vector to itself empties it, unless its elements are trivial.
\<close>

type_synonym 'a lists = "nat \<rightharpoonup> nat \<times> 'a list"

definition cap_of :: "'a lists \<Rightarrow> nat \<Rightarrow> nat" where
  "cap_of A v = fst (the (A v))"

definition list_of :: "'a lists \<Rightarrow> nat \<Rightarrow> 'a list" where
  "list_of A v = snd (the (A v))"

fun bv_spec :: "'a elem \<Rightarrow> 'a bv_op \<Rightarrow> 'a lists \<Rightarrow> 'a lists" where
  "bv_spec E (BvNew v cap xs) A = A(v \<mapsto> (cap, xs))"
| "bv_spec E (BvCopy v w) A = A(v \<mapsto> (cap_of A w, list_of A w))"
| "bv_spec E (BvMove v w) A =
     A(w \<mapsto> (cap_of A w, left_behind E (list_of A w)), v \<mapsto> (cap_of A w, list_of A w))"
| "bv_spec E (BvAssign v w) A = A(v \<mapsto> (cap_of A v, list_of A w))"
| "bv_spec E (BvMoveAssign v w) A =
     (if v = w then if is_trivial E then A else A(v \<mapsto> (cap_of A v, []))
      else A(w \<mapsto> (cap_of A w, left_behind E (list_of A w)), v \<mapsto> (cap_of A v, list_of A w)))"
| "bv_spec E (BvCopyOther v cap w) A = A(v \<mapsto> (cap, list_of A w))"
| "bv_spec E (BvMoveOther v cap w) A =
     A(w \<mapsto> (cap_of A w, left_behind E (list_of A w)), v \<mapsto> (cap, list_of A w))"
| "bv_spec E (BvAssignOther v w) A = A(v \<mapsto> (cap_of A v, list_of A w))"
| "bv_spec E (BvMoveAssignOther v w) A =
     A(w \<mapsto> (cap_of A w, left_behind E (list_of A w)), v \<mapsto> (cap_of A v, list_of A w))"
| "bv_spec E (BvResize v n) A =
     A(v \<mapsto> (cap_of A v, take n (list_of A v) @ replicate (n - length (list_of A v)) (the (default_value E))))"
| "bv_spec E (BvPut v i x) A = A(v \<mapsto> (cap_of A v, (list_of A v)[i := x]))"
| "bv_spec E (BvDestroy v) A = A(v := None)"

text \<open>
  What the types and the checks demand: constructors make new objects, the capacities of the operands
  of a copy or move are equal or the elements fit, new elements have a value.
\<close>

fun bv_allowed :: "'a elem \<Rightarrow> 'a bv_op \<Rightarrow> 'a lists \<Rightarrow> bool" where
  "bv_allowed E (BvNew v cap xs) A \<longleftrightarrow> A v = None \<and> length xs \<le> cap"
| "bv_allowed E (BvCopy v w) A \<longleftrightarrow> A v = None \<and> A w \<noteq> None"
| "bv_allowed E (BvMove v w) A \<longleftrightarrow> A v = None \<and> A w \<noteq> None"
| "bv_allowed E (BvAssign v w) A \<longleftrightarrow> A v \<noteq> None \<and> A w \<noteq> None \<and> cap_of A v = cap_of A w"
| "bv_allowed E (BvMoveAssign v w) A \<longleftrightarrow> A v \<noteq> None \<and> A w \<noteq> None \<and> cap_of A v = cap_of A w"
| "bv_allowed E (BvCopyOther v cap w) A \<longleftrightarrow> A v = None \<and> A w \<noteq> None \<and> length (list_of A w) \<le> cap"
| "bv_allowed E (BvMoveOther v cap w) A \<longleftrightarrow> A v = None \<and> A w \<noteq> None \<and> length (list_of A w) \<le> cap"
| "bv_allowed E (BvAssignOther v w) A \<longleftrightarrow>
     A v \<noteq> None \<and> A w \<noteq> None \<and> v \<noteq> w \<and> length (list_of A w) \<le> cap_of A v"
| "bv_allowed E (BvMoveAssignOther v w) A \<longleftrightarrow>
     A v \<noteq> None \<and> A w \<noteq> None \<and> v \<noteq> w \<and> length (list_of A w) \<le> cap_of A v"
| "bv_allowed E (BvResize v n) A \<longleftrightarrow>
     A v \<noteq> None \<and> n \<le> cap_of A v \<and> (n \<le> length (list_of A v) \<or> default_value E \<noteq> None)"
| "bv_allowed E (BvPut v i x) A \<longleftrightarrow> A v \<noteq> None \<and> i < length (list_of A v)"
| "bv_allowed E (BvDestroy v) A \<longleftrightarrow> A v \<noteq> None"

fun bv_allowed_run :: "'a elem \<Rightarrow> 'a bv_op list \<Rightarrow> 'a lists \<Rightarrow> bool" where
  "bv_allowed_run E [] A \<longleftrightarrow> True"
| "bv_allowed_run E (x # xs) A \<longleftrightarrow> bv_allowed E x A \<and> bv_allowed_run E xs (bv_spec E x A)"

fun rel_at :: "'a elem \<Rightarrow> (nat \<times> 'a list) option \<Rightarrow> 'a Storage option \<Rightarrow> bool" where
  "rel_at E None s \<longleftrightarrow> s = None"
| "rel_at E (Some (c, xs)) s \<longleftrightarrow> (\<exists>t. s = Some t \<and> holds E xs t \<and> length (st_data t) = c)"

definition bv_rel :: "'a elem \<Rightarrow> 'a lists \<Rightarrow> 'a vecs \<Rightarrow> bool" where
  "bv_rel E A S \<longleftrightarrow> (\<forall>v. rel_at E (A v) (S v))"

lemma bv_rel_vec:
  assumes "bv_rel E A S" and "A v \<noteq> None"
  obtains s where "S v = Some s" and "vec S v = Inr s" and "holds E (list_of A v) s" and "length (st_data s) = cap_of A v"
  using assms by (auto simp: bv_rel_def vec_def list_of_def cap_of_def dest!: spec [of _ v])

lemma bv_rel_upd:
  "bv_rel E A S \<Longrightarrow> holds E xs s \<Longrightarrow> length (st_data s) = c \<Longrightarrow> bv_rel E (A(v \<mapsto> (c, xs))) (S(v \<mapsto> s))"
  "bv_rel E A S \<Longrightarrow> bv_rel E (A(v := None)) (S(v := None))"
  by (auto simp: bv_rel_def)

lemma assign_step:
  assumes "bv_rel E A S" and "elem_ok E" and "bv_allowed E (BvAssign v w) A"
  shows "\<exists>S'. Storage_assign E v w S = Inr S' \<and> bv_rel E (bv_spec E (BvAssign v w) A) S'"
proof -
  obtain s where s: "vec S v = Inr s" "S v = Some s" "holds E (list_of A v) s" "length (st_data s) = cap_of A v"
    using bv_rel_vec [OF assms(1)] assms(3) by (metis bv_allowed.simps(4))
  obtain t where t: "vec S w = Inr t" "S w = Some t" "holds E (list_of A w) t" "length (st_data t) = cap_of A w"
    using bv_rel_vec [OF assms(1)] assms(3) by (metis bv_allowed.simps(4))
  obtain d where d: "DestroyElements E 0 (st_size s) (st_data s) = Inr d" "length d = length (st_data s)" "blank E d"
    using DestroyElements_ok [OF s(3)] by blast
  have c: "cap_of A v = cap_of A w" using assms(3) by simp
  have l: "length (list_of A w) \<le> length d" "length (list_of A w) \<le> length (st_data s)"
    using holds_size(2) [OF t(3)] t(4) s(4) d(2) c by simp_all
  have "\<exists>s'. (Storage_assign E v w S = Inr (S(v \<mapsto> s')) \<or> v = w \<and> s' = s \<and> Storage_assign E v w S = Inr S) \<and>
    holds E (list_of A w) s' \<and> length (st_data s') = cap_of A v"
  proof (cases "is_trivial E \<and> is_small E \<or> v = w")
    case True
    then show ?thesis using s t c by (auto simp: Storage_assign_def)
  next
    case False
    have "blank E (st_data s)" if "is_trivial E" using that assms(2) by (simp add: elem_ok_def blank_def)
    then show ?thesis
      using False s t d c CopyElements_ok [OF t(3) l(1) d(3)] take_copy_ok [OF t(3) l(2)]
      by (cases "is_trivial E") (fastforce simp: Storage_assign_def)+
  qed
  then obtain s' where s': "Storage_assign E v w S = Inr (S(v \<mapsto> s')) \<or> v = w \<and> s' = s \<and> Storage_assign E v w S = Inr S"
    "holds E (list_of A w) s'" "length (st_data s') = cap_of A v" by blast
  have "S(v \<mapsto> s) = S" using s(2) by auto
  then have "Storage_assign E v w S = Inr (S(v \<mapsto> s'))" using s'(1) by auto
  then show ?thesis using bv_rel_upd(1) [OF assms(1) s'(2,3)] by simp
qed

lemma move_assign_step:
  assumes "bv_rel E A S" and "elem_ok E" and "bv_allowed E (BvMoveAssign v w) A"
  shows "\<exists>S'. Storage_move_assign E v w S = Inr S' \<and> bv_rel E (bv_spec E (BvMoveAssign v w) A) S'"
proof (cases "is_trivial E")
  case True
  have "list_of A w = left_behind E (list_of A w)" using True assms(2) by (simp add: elem_ok_def left_behind_def)
  moreover have "A(w \<mapsto> (cap_of A w, list_of A w)) = A" using assms(3) by (auto simp: cap_of_def list_of_def)
  ultimately have "bv_spec E (BvMoveAssign v w) A = bv_spec E (BvAssign v w) A"
    using True by (metis bv_spec.simps(4,5))
  then show ?thesis using True assign_step [OF assms(1,2)] assms(3) by (simp add: Storage_move_assign_def)
next
  case False
  obtain s where s: "vec S v = Inr s" "holds E (list_of A v) s" "length (st_data s) = cap_of A v"
    using bv_rel_vec [OF assms(1)] assms(3) by (metis bv_allowed.simps(5))
  obtain d where d: "DestroyElements E 0 (st_size s) (st_data s) = Inr d" "length d = length (st_data s)" "blank E d"
    using DestroyElements_ok [OF s(2)] by blast
  have e: "holds E [] \<lparr>st_size = 0, st_data = d\<rparr>" using d(3) by (simp add: holds_def)
  show ?thesis
  proof (cases "v = w")
    case True
    obtain src d' where M: "MoveElements E d 0 d = Inr (src, d')" "length d' = length d"
      "holds E [] \<lparr>st_size = 0, st_data = d'\<rparr>"
      using MoveElements_ok [OF e, of d] d(3) by auto
    then have "Storage_move_assign E v w S = Inr (S(v \<mapsto> \<lparr>st_size = 0, st_data = d'\<rparr>))"
      using True False s d by (simp add: Storage_move_assign_def vec_def Let_def)
    then show ?thesis using True False bv_rel_upd(1) [OF assms(1) M(3)] M(2) d s by simp
  next
    case ne: False
    obtain t where t: "S w = Some t" "holds E (list_of A w) t" "length (st_data t) = cap_of A w"
      using bv_rel_vec [OF assms(1)] assms(3) by (metis bv_allowed.simps(5))
    have l: "length (list_of A w) \<le> length d" using holds_size(2) [OF t(2)] t(3) s(3) d(2) assms(3) by simp
    obtain src d' where M: "MoveElements E (st_data t) (st_size t) d = Inr (src, d')" "length d' = length d"
      "length src = length (st_data t)" "holds E (list_of A w) \<lparr>st_size = st_size t, st_data = d'\<rparr>"
      "holds E (left_behind E (list_of A w)) (t\<lparr>st_data := src\<rparr>)"
      using MoveElements_ok [OF t(2) l d(3)] by blast
    let ?S = "S(w \<mapsto> t\<lparr>st_data := src\<rparr>, v \<mapsto> \<lparr>st_size = st_size t, st_data = d'\<rparr>)"
    have "Storage_move_assign E v w S = Inr ?S"
      using ne False s d t M(1) by (simp add: Storage_move_assign_def vec_def Let_def fun_upd_twist)
    moreover have "bv_rel E (A(w \<mapsto> (cap_of A w, left_behind E (list_of A w)), v \<mapsto> (cap_of A v, list_of A w))) ?S"
      using M t s d by (intro bv_rel_upd assms(1)) simp_all
    ultimately show ?thesis using ne by simp
  qed
qed

lemma bv_step_other:
  assumes "bv_rel E A S" and "bv_allowed E x A"
    and "x \<in> {BvCopyOther v cap w, BvMoveOther v cap w, BvAssignOther v w, BvMoveAssignOther v w}"
  shows "\<exists>S'. bv_step E x S = Inr S' \<and> bv_rel E (bv_spec E x A) S'"
proof (cases x)
  case (BvCopyOther v cap w)
  then obtain t where t: "vec S w = Inr t" "holds E (list_of A w) t"
    using bv_rel_vec [OF assms(1)] assms(2) by (metis bv_allowed.simps(6))
  then show ?thesis
    using BvCopyOther assms(2) bv_other_ok(1) [OF t(2), of cap] bv_rel_upd(1) [OF assms(1)] by fastforce
next
  case (BvMoveOther v cap w)
  then obtain t where t: "vec S w = Inr t" "holds E (list_of A w) t" "length (st_data t) = cap_of A w"
    using bv_rel_vec [OF assms(1)] assms(2) by (metis bv_allowed.simps(7))
  obtain t' s where M: "bv_move_other E cap t = Inr (t', s)" "length (st_data s) = cap"
    "length (st_data t') = cap_of A w" "holds E (list_of A w) s" "holds E (left_behind E (list_of A w)) t'"
    using bv_other_ok(2) [OF t(2), of cap] t(3) assms(2) BvMoveOther by auto
  then show ?thesis using BvMoveOther t(1) by (auto intro!: bv_rel_upd assms(1))
next
  case (BvAssignOther v w)
  then obtain t where t: "vec S w = Inr t" "holds E (list_of A w) t" "length (st_data t) = cap_of A w"
    using bv_rel_vec [OF assms(1)] assms(2) by (metis bv_allowed.simps(8))
  obtain s where s: "vec S v = Inr s" "holds E (list_of A v) s" "length (st_data s) = cap_of A v"
    using BvAssignOther bv_rel_vec [OF assms(1)] assms(2) by (metis bv_allowed.simps(8))
  show ?thesis
    using BvAssignOther assms(2) bv_assign_other_ok(1) [OF t(2) s(2)] s t bv_rel_upd(1) [OF assms(1)] by fastforce
next
  case (BvMoveAssignOther v w)
  then obtain t where t: "vec S w = Inr t" "holds E (list_of A w) t" "length (st_data t) = cap_of A w"
    using bv_rel_vec [OF assms(1)] assms(2) by (metis bv_allowed.simps(9))
  obtain s where s: "vec S v = Inr s" "holds E (list_of A v) s" "length (st_data s) = cap_of A v"
    using BvMoveAssignOther bv_rel_vec [OF assms(1)] assms(2) by (metis bv_allowed.simps(9))
  obtain t' s' where M: "bv_move_assign_other E t s = Inr (t', s')" "length (st_data s') = cap_of A v"
    "length (st_data t') = cap_of A w" "holds E (list_of A w) s'" "holds E (left_behind E (list_of A w)) t'"
    using bv_assign_other_ok(2) [OF t(2) s(2)] t(3) s(3) assms(2) BvMoveAssignOther by auto
  then show ?thesis using BvMoveAssignOther t(1) s(1) by (auto intro!: bv_rel_upd assms(1))
qed (use assms(3) in auto)

lemma bv_step_ok:
  assumes "bv_rel E A S" and "elem_ok E" and "bv_allowed E x A"
  shows "\<exists>S'. bv_step E x S = Inr S' \<and> bv_rel E (bv_spec E x A) S'"
proof (cases x)
  case (BvNew v cap xs)
  then show ?thesis using Storage_new_ok [of xs cap E] assms(3) bv_rel_upd(1) [OF assms(1)] by fastforce
next
  case (BvCopy v w)
  then obtain t where t: "vec S w = Inr t" "holds E (list_of A w) t" "length (st_data t) = cap_of A w"
    using bv_rel_vec [OF assms(1)] assms(3) by (metis bv_allowed.simps(2))
  then show ?thesis using BvCopy Storage_copy_ok [OF t(2)] bv_rel_upd(1) [OF assms(1)] by fastforce
next
  case (BvMove v w)
  then obtain t where t: "vec S w = Inr t" "holds E (list_of A w) t" "length (st_data t) = cap_of A w"
    using bv_rel_vec [OF assms(1)] assms(3) by (metis bv_allowed.simps(3))
  obtain t' s where M: "Storage_move E t = Inr (t', s)" "length (st_data s) = cap_of A w"
    "length (st_data t') = cap_of A w" "holds E (list_of A w) s" "holds E (left_behind E (list_of A w)) t'"
    using Storage_move_ok [OF t(2) assms(2)] t(3) by auto
  then show ?thesis using BvMove t(1) by (auto intro!: bv_rel_upd assms(1))
next
  case (BvResize v n)
  then obtain s where s: "vec S v = Inr s" "holds E (list_of A v) s" "length (st_data s) = cap_of A v"
    using bv_rel_vec [OF assms(1)] assms(3) by (metis bv_allowed.simps(10))
  then show ?thesis
    using BvResize assms(3) bv_resize_ok [OF s(2), of n "the (default_value E)"] bv_rel_upd(1) [OF assms(1)] by fastforce
next
  case (BvPut v i y)
  then obtain s where s: "vec S v = Inr s" "holds E (list_of A v) s" "length (st_data s) = cap_of A v"
    using bv_rel_vec [OF assms(1)] assms(3) by (metis bv_allowed.simps(11))
  then show ?thesis using BvPut assms(3) bv_access(2) [OF s(2), of i y] bv_rel_upd(1) [OF assms(1)] by fastforce
next
  case (BvDestroy v)
  then obtain s where s: "vec S v = Inr s" "holds E (list_of A v) s"
    using bv_rel_vec [OF assms(1)] assms(3) by (metis bv_allowed.simps(12))
  then show ?thesis
    using BvDestroy DestroyElements_ok [OF s(2)] bv_rel_upd(2) [OF assms(1)] by (auto simp: Storage_destroy_def)
next
  case (BvAssign v w)
  then show ?thesis using assign_step [OF assms(1,2), of v w] assms(3) by simp
next
  case (BvMoveAssign v w)
  then show ?thesis using move_assign_step [OF assms(1,2), of v w] assms(3) by simp
qed (rule bv_step_other [OF assms(1,3)], simp)+

text \<open>
  C30. Vectors of bounded capacity behave as lists: every program of constructions, copies, moves,
  assignments (also to the same object and between capacities), resizes, writes and destructions that
  respects the checks runs without a fault, each vector holds the elements the specification gives it,
  reading an index returns them, and no object is left beyond the elements in use.
\<close>

theorem inline_vectors_are_lists:
  assumes "elem_ok E" and "bv_rel E A S" and "bv_allowed_run E xs A"
  shows "\<exists>S'. bv_run E xs S = Inr S' \<and> bv_rel E (fold (bv_spec E) xs A) S' \<and>
    (\<forall>v c ys i. fold (bv_spec E) xs A v = Some (c, ys) \<longrightarrow> i < length ys \<longrightarrow>
      (\<exists>s. S' v = Some s \<and> bv_size s = length ys \<and> bv_index (int i) s = Inr (ys ! i)))"
proof -
  have "\<exists>S'. bv_run E xs S = Inr S' \<and> bv_rel E (fold (bv_spec E) xs A) S'"
    using assms(2,3)
  proof (induction xs arbitrary: A S)
    case (Cons x xs)
    then show ?case using bv_step_ok [OF Cons.prems(1) assms(1), of x] by fastforce
  qed simp
  then obtain S' where S': "bv_run E xs S = Inr S'" "bv_rel E (fold (bv_spec E) xs A) S'" by blast
  moreover have "\<exists>s. S' v = Some s \<and> bv_size s = length ys \<and> bv_index (int i) s = Inr (ys ! i)"
    if "fold (bv_spec E) xs A v = Some (c, ys)" "i < length ys" for v c ys i
  proof -
    have "rel_at E (Some (c, ys)) (S' v)" using S'(2) that(1) unfolding bv_rel_def by metis
    then show ?thesis using that(2) by (auto simp: bv_size_def holds_size bv_access(1))
  qed
  ultimately show ?thesis by blast
qed

text \<open>Strings, as an element type whose moved-from objects are empty.\<close>

definition string_elem :: "string elem" where
  "string_elem = \<lparr>is_trivial = False, is_small = False, triv_copy = False, triv_move = False,
     triv_destroy = False, default_value = Some [], moved_from = (\<lambda>_. [])\<rparr>"

theorem inline_vectors_are_lists_witness:
  "\<exists>S s t. bv_run string_elem [BvNew 0 3 [''a'', ''b''], BvMoveOther 1 4 0, BvResize 1 3, BvMoveAssign 0 0] Map.empty = Inr S \<and>
     S 1 = Some s \<and> bv_size s = 3 \<and> bv_index 1 s = Inr ''b'' \<and> bv_index 2 s = Inr [] \<and> S 0 = Some t"
proof -
  let ?ops = "[BvNew 0 3 [''a'', ''b''], BvMoveOther 1 4 0, BvResize 1 3, BvMoveAssign 0 0] :: string bv_op list"
  have E: "elem_ok string_elem" by (simp add: elem_ok_def string_elem_def)
  have r: "bv_rel string_elem Map.empty Map.empty" by (simp add: bv_rel_def)
  have a: "bv_allowed_run string_elem ?ops Map.empty"
    by (simp add: list_of_def cap_of_def string_elem_def left_behind_def)
  let ?A = "fold (bv_spec string_elem) ?ops Map.empty"
  have A: "?A 1 = Some (4, [''a'', ''b'', []])" "?A 0 = Some (3, [])"
    by (simp_all add: list_of_def cap_of_def string_elem_def left_behind_def)
  obtain S where S: "bv_run string_elem ?ops Map.empty = Inr S" "bv_rel string_elem ?A S"
    and I: "\<forall>v c ys i. ?A v = Some (c, ys) \<longrightarrow> i < length ys \<longrightarrow>
      (\<exists>s. S v = Some s \<and> bv_size s = length ys \<and> bv_index (int i) s = Inr (ys ! i))"
    using inline_vectors_are_lists [OF E r a] by blast
  obtain s where s: "S 1 = Some s" "bv_size s = 3" "bv_index 1 s = Inr ''b''"
    using I [rule_format, OF A(1), of 1] by auto
  moreover have "bv_index 2 s = Inr []" using I [rule_format, OF A(1), of 2] s(1) by auto
  moreover have "\<exists>t. S 0 = Some t" using S(2) A(2) unfolding bv_rel_def by (metis rel_at.simps(2))
  ultimately show ?thesis using S(1) by blast
qed

end
