(* ===== verification/Streams.thy ===== *)
theory Streams
  imports Prelude
begin

section \<open>Streams: parameters and collections\<close>

text \<open>
  \<^verbatim>\<open>media/base/stream_params.h\<close> (the parameters of a sender and the functions that search and shorten
  vectors of them) and \<^verbatim>\<open>pc/stream_collection.h\<close> (a collection of media streams with different ids).
  Functions of \<^verbatim>\<open>StreamParams\<close> whose bodies are in the compiled library are fields of \<open>params_lib\<close>; the
  methods of the abstract class \<^verbatim>\<open>MediaStreamInterface\<close> are fields of \<open>stream_lib\<close>. SSRCs are 32-bit
  words; a pointer is an option, \<open>None\<close> for null.
\<close>

subsection \<open>Stream parameters\<close>

type_synonym ssrc = "32 word"

record SsrcGroup =
  semantics :: string
  group_ssrcs :: "ssrc list"

definition SsrcGroup_eq :: "SsrcGroup \<Rightarrow> SsrcGroup \<Rightarrow> bool" where
  "SsrcGroup_eq g other \<longleftrightarrow> semantics g = semantics other \<and> group_ssrcs g = group_ssrcs other"

definition SsrcGroup_ne :: "SsrcGroup \<Rightarrow> SsrcGroup \<Rightarrow> bool" where
  "SsrcGroup_ne g other \<longleftrightarrow> \<not> SsrcGroup_eq g other"

text \<open>The descriptions of simulcast layers are only stored: their type is an argument.\<close>

record 'rid StreamParams =
  groupid :: string
  sp_id :: string
  ssrcs :: "ssrc list"
  ssrc_groups :: "SsrcGroup list"
  cname :: string
  stream_ids :: "string list"
  sp_rids :: "'rid list"

record 'rid params_lib =
  StreamParams_default :: "'rid StreamParams"
  has_semantics :: "SsrcGroup \<Rightarrow> string \<Rightarrow> bool"
  kFidSsrcGroupSemantics :: string
  kFecFrSsrcGroupSemantics :: string
  AddSecondarySsrc :: "string \<Rightarrow> ssrc \<Rightarrow> ssrc \<Rightarrow> 'rid StreamParams \<Rightarrow> bool \<times> 'rid StreamParams"
  GetSecondarySsrc :: "string \<Rightarrow> ssrc \<Rightarrow> 'rid StreamParams \<Rightarrow> ssrc option"

definition CreateLegacy :: "'rid params_lib \<Rightarrow> ssrc \<Rightarrow> 'rid StreamParams" where
  "CreateLegacy L s = (StreamParams_default L)\<lparr>ssrcs := ssrcs (StreamParams_default L) @ [s]\<rparr>"

definition first_ssrc :: "'rid StreamParams \<Rightarrow> ssrc" where
  "first_ssrc sp = (if ssrcs sp = [] then 0 else ssrcs sp ! 0)"

definition has_ssrcs :: "'rid StreamParams \<Rightarrow> bool" where
  "has_ssrcs sp \<longleftrightarrow> ssrcs sp \<noteq> []"

definition has_ssrc :: "'rid StreamParams \<Rightarrow> ssrc \<Rightarrow> bool" where
  "has_ssrc sp s \<longleftrightarrow> s \<in> set (ssrcs sp)"

definition add_ssrc :: "ssrc \<Rightarrow> 'rid StreamParams \<Rightarrow> 'rid StreamParams" where
  "add_ssrc s sp = sp\<lparr>ssrcs := ssrcs sp @ [s]\<rparr>"

definition has_ssrc_groups :: "'rid StreamParams \<Rightarrow> bool" where
  "has_ssrc_groups sp \<longleftrightarrow> ssrc_groups sp \<noteq> []"

definition get_ssrc_group :: "'rid params_lib \<Rightarrow> 'rid StreamParams \<Rightarrow> string \<Rightarrow> SsrcGroup option" where
  "get_ssrc_group L sp sem = List.find (\<lambda>g. has_semantics L g sem) (ssrc_groups sp)"

definition has_ssrc_group :: "'rid params_lib \<Rightarrow> 'rid StreamParams \<Rightarrow> string \<Rightarrow> bool" where
  "has_ssrc_group L sp sem \<longleftrightarrow> get_ssrc_group L sp sem \<noteq> None"

definition AddFidSsrc :: "'rid params_lib \<Rightarrow> ssrc \<Rightarrow> ssrc \<Rightarrow> 'rid StreamParams \<Rightarrow> bool \<times> 'rid StreamParams" where
  "AddFidSsrc L primary_ssrc fid_ssrc sp =
     AddSecondarySsrc L (kFidSsrcGroupSemantics L) primary_ssrc fid_ssrc sp"

definition GetFidSsrc :: "'rid params_lib \<Rightarrow> ssrc \<Rightarrow> 'rid StreamParams \<Rightarrow> ssrc option" where
  "GetFidSsrc L primary_ssrc sp = GetSecondarySsrc L (kFidSsrcGroupSemantics L) primary_ssrc sp"

definition AddFecFrSsrc :: "'rid params_lib \<Rightarrow> ssrc \<Rightarrow> ssrc \<Rightarrow> 'rid StreamParams \<Rightarrow> bool \<times> 'rid StreamParams" where
  "AddFecFrSsrc L primary_ssrc fecfr_ssrc sp =
     AddSecondarySsrc L (kFecFrSsrcGroupSemantics L) primary_ssrc fecfr_ssrc sp"

definition GetFecFrSsrc :: "'rid params_lib \<Rightarrow> ssrc \<Rightarrow> 'rid StreamParams \<Rightarrow> ssrc option" where
  "GetFecFrSsrc L primary_ssrc sp = GetSecondarySsrc L (kFecFrSsrcGroupSemantics L) primary_ssrc sp"

definition has_rids :: "'rid StreamParams \<Rightarrow> bool" where
  "has_rids sp \<longleftrightarrow> sp_rids sp \<noteq> []"

definition set_rids :: "'rid list \<Rightarrow> 'rid StreamParams \<Rightarrow> 'rid StreamParams" where
  "set_rids rs sp = sp\<lparr>sp_rids := rs\<rparr>"

record StreamSelector =
  sel_ssrc :: ssrc
  sel_groupid :: string
  sel_streamid :: string

definition StreamSelector_ssrc :: "ssrc \<Rightarrow> StreamSelector" where
  "StreamSelector_ssrc s = \<lparr>sel_ssrc = s, sel_groupid = '''', sel_streamid = ''''\<rparr>"

definition StreamSelector_ids :: "string \<Rightarrow> string \<Rightarrow> StreamSelector" where
  "StreamSelector_ids g i = \<lparr>sel_ssrc = 0, sel_groupid = g, sel_streamid = i\<rparr>"

definition StreamSelector_id :: "string \<Rightarrow> StreamSelector" where
  "StreamSelector_id i = \<lparr>sel_ssrc = 0, sel_groupid = '''', sel_streamid = i\<rparr>"

definition Matches :: "StreamSelector \<Rightarrow> 'rid StreamParams \<Rightarrow> bool" where
  "Matches sel stream =
     (if sel_ssrc sel = 0 then groupid stream = sel_groupid sel \<and> sp_id stream = sel_streamid sel
      else has_ssrc stream (sel_ssrc sel))"

text \<open>A pointer into a vector is the index of the element.\<close>

definition GetStream :: "'rid StreamParams list \<Rightarrow> ('rid StreamParams \<Rightarrow> bool) \<Rightarrow> nat option" where
  "GetStream streams condition = List.find (\<lambda>i. condition (streams ! i)) [0..<length streams]"

definition HasStreamWithNoSsrcs :: "'rid StreamParams list \<Rightarrow> bool" where
  "HasStreamWithNoSsrcs streams \<longleftrightarrow> GetStream streams (\<lambda>sp. \<not> has_ssrcs sp) \<noteq> None"

definition GetStreamBySsrc :: "'rid StreamParams list \<Rightarrow> ssrc \<Rightarrow> nat option" where
  "GetStreamBySsrc streams s = GetStream streams (\<lambda>sp. has_ssrc sp s)"

definition GetStreamByIds :: "'rid StreamParams list \<Rightarrow> string \<Rightarrow> string \<Rightarrow> nat option" where
  "GetStreamByIds streams g i = GetStream streams (\<lambda>sp. groupid sp = g \<and> sp_id sp = i)"

definition GetStream_selector :: "'rid StreamParams list \<Rightarrow> StreamSelector \<Rightarrow> nat option" where
  "GetStream_selector streams sel = GetStream streams (\<lambda>sp. Matches sel sp)"

text \<open>\<^verbatim>\<open>std::remove_if\<close> moves the elements that stay to the front; the rest is erased.\<close>

definition RemoveStream_if ::
  "('rid StreamParams \<Rightarrow> bool) \<Rightarrow> 'rid StreamParams list \<Rightarrow> bool \<times> 'rid StreamParams list" where
  "RemoveStream_if condition streams =
     (let kept = filter (\<lambda>sp. \<not> condition sp) streams
      in if length kept = length streams then (False, streams) else (True, kept))"

definition RemoveStream_selector ::
  "StreamSelector \<Rightarrow> 'rid StreamParams list \<Rightarrow> bool \<times> 'rid StreamParams list" where
  "RemoveStream_selector sel streams = RemoveStream_if (\<lambda>sp. Matches sel sp) streams"

definition RemoveStreamBySsrc :: "ssrc \<Rightarrow> 'rid StreamParams list \<Rightarrow> bool \<times> 'rid StreamParams list" where
  "RemoveStreamBySsrc s streams = RemoveStream_if (\<lambda>sp. has_ssrc sp s) streams"

definition RemoveStreamByIds ::
  "string \<Rightarrow> string \<Rightarrow> 'rid StreamParams list \<Rightarrow> bool \<times> 'rid StreamParams list" where
  "RemoveStreamByIds g i streams = RemoveStream_if (\<lambda>sp. groupid sp = g \<and> sp_id sp = i) streams"

subsection \<open>Collections of streams\<close>

record ('r, 't) stream_lib =
  stream_id :: "'r \<Rightarrow> string"
  stream_FindAudioTrack :: "'r \<Rightarrow> string \<Rightarrow> 't option"
  stream_FindVideoTrack :: "'r \<Rightarrow> string \<Rightarrow> 't option"

type_synonym 'r StreamCollection = "'r option list"

definition the_stream :: "'r option \<Rightarrow> 'r res" where
  "the_stream p = (case p of None \<Rightarrow> Inl NullDeref | Some r \<Rightarrow> Inr r)"

definition sc_Create :: "'r StreamCollection" where
  "sc_Create = []"

definition sc_Create_from :: "'r StreamCollection \<Rightarrow> 'r StreamCollection" where
  "sc_Create_from original = original"

definition sc_count :: "'r StreamCollection \<Rightarrow> nat" where
  "sc_count c = length c"

text \<open>\<^verbatim>\<open>std::vector::at\<close> throws when the index is out of range.\<close>

definition sc_at :: "nat \<Rightarrow> 'r StreamCollection \<Rightarrow> 'r option res" where
  "sc_at i c = (if i < length c then Inr (c ! i) else Inl UncaughtException)"

fun sc_find :: "('r, 't) stream_lib \<Rightarrow> string \<Rightarrow> 'r StreamCollection \<Rightarrow> 'r option res" where
  "sc_find L i [] = Inr None"
| "sc_find L i (p # c) =
     res_bind (the_stream p) (\<lambda>r. if stream_id L r = i then Inr (Some r) else sc_find L i c)"

fun sc_FindAudioTrack :: "('r, 't) stream_lib \<Rightarrow> string \<Rightarrow> 'r StreamCollection \<Rightarrow> 't option res" where
  "sc_FindAudioTrack L i [] = Inr None"
| "sc_FindAudioTrack L i (p # c) =
     res_bind (the_stream p) (\<lambda>r.
       case stream_FindAudioTrack L r i of Some t \<Rightarrow> Inr (Some t) | None \<Rightarrow> sc_FindAudioTrack L i c)"

fun sc_FindVideoTrack :: "('r, 't) stream_lib \<Rightarrow> string \<Rightarrow> 'r StreamCollection \<Rightarrow> 't option res" where
  "sc_FindVideoTrack L i [] = Inr None"
| "sc_FindVideoTrack L i (p # c) =
     res_bind (the_stream p) (\<lambda>r.
       case stream_FindVideoTrack L r i of Some t \<Rightarrow> Inr (Some t) | None \<Rightarrow> sc_FindVideoTrack L i c)"

text \<open>The loop of \<^verbatim>\<open>AddStream\<close>: whether a stream with the id is there.\<close>

fun sc_has :: "('r, 't) stream_lib \<Rightarrow> 'r option \<Rightarrow> 'r StreamCollection \<Rightarrow> bool res" where
  "sc_has L stream [] = Inr False"
| "sc_has L stream (p # c) =
     res_bind (the_stream p) (\<lambda>r. res_bind (the_stream stream) (\<lambda>s.
       if stream_id L r = stream_id L s then Inr True else sc_has L stream c))"

definition sc_AddStream :: "('r, 't) stream_lib \<Rightarrow> 'r option \<Rightarrow> 'r StreamCollection \<Rightarrow> 'r StreamCollection res" where
  "sc_AddStream L stream c =
     res_bind (sc_has L stream c) (\<lambda>there. if there then Inr c else Inr (c @ [stream]))"

fun sc_RemoveStream :: "('r, 't) stream_lib \<Rightarrow> 'r option \<Rightarrow> 'r StreamCollection \<Rightarrow> 'r StreamCollection res" where
  "sc_RemoveStream L remove_stream [] = Inr []"
| "sc_RemoveStream L remove_stream (p # c) =
     res_bind (the_stream p) (\<lambda>r. res_bind (the_stream remove_stream) (\<lambda>s.
       if stream_id L r = stream_id L s then Inr c
       else res_bind (sc_RemoveStream L remove_stream c) (\<lambda>c. Inr (p # c))))"

subsection \<open>A collection is a map from ids to streams\<close>

datatype 'r sc_op = ScAdd 'r | ScRemove 'r

fun sc_step :: "('r, 't) stream_lib \<Rightarrow> 'r sc_op \<Rightarrow> 'r StreamCollection \<Rightarrow> 'r StreamCollection res" where
  "sc_step L (ScAdd r) c = sc_AddStream L (Some r) c"
| "sc_step L (ScRemove r) c = sc_RemoveStream L (Some r) c"

fun sc_run :: "('r, 't) stream_lib \<Rightarrow> 'r sc_op list \<Rightarrow> 'r StreamCollection \<Rightarrow> 'r StreamCollection res" where
  "sc_run L [] c = Inr c"
| "sc_run L (x # xs) c = res_bind (sc_step L x c) (sc_run L xs)"

text \<open>The first stream added under an id is kept until a stream with that id is removed.\<close>

fun sc_spec :: "('r, 't) stream_lib \<Rightarrow> 'r sc_op \<Rightarrow> (string \<rightharpoonup> 'r) \<Rightarrow> (string \<rightharpoonup> 'r)" where
  "sc_spec L (ScAdd r) M = (if M (stream_id L r) = None then M(stream_id L r \<mapsto> r) else M)"
| "sc_spec L (ScRemove r) M = M(stream_id L r := None)"

definition sc_rel :: "('r, 't) stream_lib \<Rightarrow> (string \<rightharpoonup> 'r) \<Rightarrow> 'r StreamCollection \<Rightarrow> bool" where
  "sc_rel L M c \<longleftrightarrow>
     (\<exists>rs. c = map Some rs \<and> distinct (map (stream_id L) rs) \<and> M = map_of (map (\<lambda>r. (stream_id L r, r)) rs))"

lemma sc_find_eq: "sc_find L i (map Some rs) = Inr (map_of (map (\<lambda>r. (stream_id L r, r)) rs) i)"
  by (induction rs) (auto simp: the_stream_def)

lemma sc_has_eq: "sc_has L (Some s) (map Some rs) = Inr (stream_id L s \<in> stream_id L ` set rs)"
  by (induction rs) (auto simp: the_stream_def)

lemma sc_RemoveStream_eq:
  assumes "distinct (map (stream_id L) rs)"
  shows "sc_RemoveStream L (Some s) (map Some rs) = Inr (map Some (filter (\<lambda>r. stream_id L r \<noteq> stream_id L s) rs))"
  using assms
proof (induction rs)
  case (Cons r rs)
  have "filter (\<lambda>x. stream_id L x \<noteq> stream_id L r) rs = rs"
    using Cons.prems by (intro filter_True) (auto simp: image_iff)
  then show ?case using Cons by (auto simp: the_stream_def)
qed simp

lemma map_of_ids_None: "map_of (map (\<lambda>r. (f r, r)) rs) i = None \<longleftrightarrow> i \<notin> f ` set rs"
  by (induction rs) auto

lemma map_of_ids_snoc:
  "f r \<notin> f ` set rs \<Longrightarrow> map_of (map (\<lambda>r. (f r, r)) (rs @ [r])) = (map_of (map (\<lambda>r. (f r, r)) rs))(f r \<mapsto> r)"
  by (induction rs) (auto simp: fun_eq_iff)

lemma map_of_ids_filter:
  "map_of (map (\<lambda>r. (f r, r)) (filter (\<lambda>r. f r \<noteq> k) rs)) = (map_of (map (\<lambda>r. (f r, r)) rs))(k := None)"
  by (induction rs) (auto simp: fun_eq_iff)

lemma sc_step_ok:
  assumes "sc_rel L M c"
  shows "\<exists>c'. sc_step L x c = Inr c' \<and> sc_rel L (sc_spec L x M) c'"
proof -
  obtain rs where rs: "c = map Some rs" "distinct (map (stream_id L) rs)"
    "M = map_of (map (\<lambda>r. (stream_id L r, r)) rs)" using assms by (auto simp: sc_rel_def)
  show ?thesis
  proof (cases x)
    case (ScAdd r)
    have n: "M (stream_id L r) = None \<longleftrightarrow> stream_id L r \<notin> stream_id L ` set rs"
      unfolding rs(3) by (rule map_of_ids_None)
    show ?thesis
    proof (cases "stream_id L r \<in> stream_id L ` set rs")
      case True
      then have "sc_spec L x M = M" using ScAdd n by auto
      then show ?thesis using ScAdd True rs(1) assms by (simp add: sc_AddStream_def sc_has_eq)
    next
      case False
      have "sc_rel L (M(stream_id L r \<mapsto> r)) (map Some (rs @ [r]))"
        unfolding sc_rel_def rs(3) map_of_ids_snoc [OF False, symmetric] using rs(2) False by (intro exI [of _ "rs @ [r]"]) simp
      then show ?thesis using ScAdd rs(1) n False by (simp add: sc_AddStream_def sc_has_eq)
    qed
  next
    case (ScRemove r)
    have "sc_rel L (M(stream_id L r := None)) (map Some (filter (\<lambda>x. stream_id L x \<noteq> stream_id L r) rs))"
      unfolding sc_rel_def rs(3) map_of_ids_filter [symmetric]
      using rs(2) by (intro exI [of _ "filter (\<lambda>x. stream_id L x \<noteq> stream_id L r) rs"]) (simp add: distinct_map_filter)
    then show ?thesis using ScRemove rs by (simp add: sc_RemoveStream_eq)
  qed
qed

lemma sc_run_ok: "sc_rel L M c \<Longrightarrow> \<exists>c'. sc_run L xs c = Inr c' \<and> sc_rel L (fold (sc_spec L) xs M) c'"
proof (induction xs arbitrary: M c)
  case (Cons x xs)
  then show ?case using sc_step_ok [OF Cons.prems, of x] by fastforce
qed simp

lemma sc_rel_count:
  assumes "sc_rel L M c"
  shows "sc_count c = card (dom M)"
proof -
  obtain rs where rs: "c = map Some rs" "distinct (map (stream_id L) rs)"
    "M = map_of (map (\<lambda>r. (stream_id L r, r)) rs)" using assms by (auto simp: sc_rel_def)
  have "dom M = set (map (stream_id L) rs)" unfolding rs(3) by (simp add: dom_map_of_conv_image_fst image_image)
  then show ?thesis using rs(1,2) distinct_card [OF rs(2)] by (simp add: sc_count_def)
qed

text \<open>
  C31. A collection implements a map from ids to streams: whatever streams are added and removed, no
  operation fails, at most one stream is stored per id, \<^verbatim>\<open>find\<close> looks the id up, and \<^verbatim>\<open>count\<close> is the
  number of ids.
\<close>

theorem stream_collection_is_map:
  "\<exists>c. sc_run L xs sc_Create = Inr c \<and> sc_count c = card (dom (fold (sc_spec L) xs Map.empty)) \<and>
     (\<forall>i. sc_find L i c = Inr (fold (sc_spec L) xs Map.empty i))"
proof -
  have "sc_rel L Map.empty sc_Create" by (simp add: sc_rel_def sc_Create_def)
  from sc_run_ok [OF this, of xs] obtain c where
    c: "sc_run L xs sc_Create = Inr c" "sc_rel L (fold (sc_spec L) xs Map.empty) c" by blast
  then show ?thesis using sc_rel_count by (auto simp: sc_rel_def sc_find_eq)
qed

subsection \<open>Selecting streams\<close>

lemma GetStream_Some:
  "GetStream ss P = Some i \<longleftrightarrow> i < length ss \<and> P (ss ! i) \<and> (\<forall>j<i. \<not> P (ss ! j))"
  unfolding GetStream_def find_Some_iff by auto

lemma GetStream_None: "GetStream ss P = None \<longleftrightarrow> (\<forall>sp\<in>set ss. \<not> P sp)"
  unfolding GetStream_def find_None_iff by (auto simp: all_set_conv_all_nth)

text \<open>
  Searching and removing stream parameters: the search returns the first stream that satisfies the
  condition; removal deletes exactly the streams that satisfy it, keeps the order of the others and says
  whether there was one. A selector for an SSRC other than zero selects by SSRC; a selector for the
  SSRC zero silently selects the streams without ids instead.
\<close>

theorem stream_selection:
  "(\<forall>i. GetStream ss P = Some i \<longrightarrow> i < length ss \<and> P (ss ! i) \<and> (\<forall>j<i. \<not> P (ss ! j))) \<and>
   (GetStream ss P = None \<longleftrightarrow> (\<forall>sp\<in>set ss. \<not> P sp)) \<and>
   RemoveStream_if P ss = (GetStream ss P \<noteq> None, filter (\<lambda>sp. \<not> P sp) ss) \<and>
   GetStream_selector ss (StreamSelector_ssrc s) =
     (if s = 0 then GetStreamByIds ss '''' '''' else GetStreamBySsrc ss s) \<and>
   RemoveStream_selector (StreamSelector_ids g i) ss = RemoveStreamByIds g i ss"
proof (intro conjI)
  have "length (filter (\<lambda>sp. \<not> P sp) ss) = length ss \<longleftrightarrow> (\<forall>sp\<in>set ss. \<not> P sp)"
    by (metis filter_True length_filter_less nat_neq_iff)
  then show "RemoveStream_if P ss = (GetStream ss P \<noteq> None, filter (\<lambda>sp. \<not> P sp) ss)"
    by (auto simp: RemoveStream_if_def GetStream_None Let_def filter_id_conv)
qed (auto simp: GetStream_Some GetStream_None GetStream_selector_def StreamSelector_ssrc_def Matches_def [abs_def] GetStreamByIds_def
  GetStreamBySsrc_def RemoveStream_selector_def StreamSelector_ids_def RemoveStreamByIds_def)

definition ex_params :: "string \<Rightarrow> ssrc list \<Rightarrow> unit StreamParams" where
  "ex_params i ss = \<lparr>groupid = '''', sp_id = i, ssrcs = ss, ssrc_groups = [], cname = '''', stream_ids = [], sp_rids = []\<rparr>"

theorem stream_selection_witness:
  "GetStreamBySsrc [ex_params ''a'' [7], ex_params ''b'' [8, 9]] 9 = Some 1 \<and>
   \<not> has_ssrc (ex_params ''a'' [7]) 9 \<and>
   RemoveStreamBySsrc 9 [ex_params ''a'' [7], ex_params ''b'' [8, 9]] = (True, [ex_params ''a'' [7]]) \<and>
   GetStream_selector [ex_params ''a'' [7], ex_params '''' [0]] (StreamSelector_ssrc 0) =
     GetStreamByIds [ex_params ''a'' [7], ex_params '''' [0]] '''' ''''"
proof -
  let ?ss = "[ex_params ''a'' [7], ex_params ''b'' [8, 9]]" and ?P = "\<lambda>sp. has_ssrc sp 9"
  note T = stream_selection [of ?ss ?P 9] and Z = stream_selection [of "[ex_params ''a'' [7], ex_params '''' [0]]" _ 0]
  have e: "GetStream ?ss ?P = Some 1" by (simp add: GetStream_def has_ssrc_def ex_params_def upt_rec)
  have "\<not> ?P (?ss ! 0)" using T e by auto
  moreover have "RemoveStream_if ?P ?ss = (True, filter (\<lambda>sp. \<not> ?P sp) ?ss)" using T e by simp
  moreover have "filter (\<lambda>sp. \<not> ?P sp) ?ss = [ex_params ''a'' [7]]" by (simp add: has_ssrc_def ex_params_def)
  ultimately show ?thesis using e Z by (simp add: GetStreamBySsrc_def RemoveStreamBySsrc_def)
qed

end
