(* ===== verification/Vp9Gof.thy ===== *)
theory Vp9Gof
  imports Prelude
begin

section \<open>Groups of frames of VP9\<close>

text \<open>
  \<^verbatim>\<open>modules/video_coding/codecs/vp9/include/vp9_globals.h\<close>: the description of a group of frames
  (\<^verbatim>\<open>GofInfoVP9\<close>) with its four predefined temporal structures, the copy of a description, and the
  payload descriptor (\<^verbatim>\<open>RTPVideoHeaderVP9\<close>) with its initialisation.

  An array member is a list with as many elements as the array is declared with (\<open>gof_arrays\<close>); what was
  never written is an arbitrary value. Access outside an array is the fault \<open>OutOfBounds\<close>. The type of
  the modes has four values, so that the default branch of \<^verbatim>\<open>SetGofInfoVP9\<close> is never taken.

  The lemmas read a description as a list of frames (\<open>gof_frames\<close>), and a repeated group as an infinite
  stream of frames with their references. They show that the predefined structures are temporally
  scalable, and for which descriptions the copy is one.
\<close>

subsection \<open>Model\<close>

abbreviation kMaxTwoBytePictureId :: "16 word" where "kMaxTwoBytePictureId \<equiv> 0x7FFF"
abbreviation kNoSpatialIdx :: "8 word" where "kNoSpatialIdx \<equiv> 0xFF"
abbreviation kNoGofIdx :: "8 word" where "kNoGofIdx \<equiv> 0xFF"
abbreviation kMaxVp9RefPics :: nat where "kMaxVp9RefPics \<equiv> 3"
abbreviation kMaxVp9FramesInGof :: nat where "kMaxVp9FramesInGof \<equiv> 255"
abbreviation kMaxVp9NumberOfSpatialLayers :: nat where "kMaxVp9NumberOfSpatialLayers \<equiv> 8"
abbreviation kNoPictureId :: "16 word" where "kNoPictureId \<equiv> - 1"
abbreviation kNoTl0PicIdx :: "16 word" where "kNoTl0PicIdx \<equiv> - 1"
abbreviation kNoTemporalIdx :: "8 word" where "kNoTemporalIdx \<equiv> 0xFF"

datatype TemporalStructureMode =
    kTemporalStructureMode1
  | kTemporalStructureMode2
  | kTemporalStructureMode3
  | kTemporalStructureMode4

record GofInfoVP9 =
  num_frames_in_gof :: nat
  temporal_idx :: "8 word list"
  temporal_up_switch :: "bool list"
  num_ref_pics :: "8 word list"
  pid_diff :: "8 word list list"
  pid_start :: "16 word"

text \<open>One group of assignments of \<^verbatim>\<open>SetGofInfoVP9\<close>, and the assignment of a second reference.\<close>

definition set_frame :: "nat \<Rightarrow> 8 word \<Rightarrow> bool \<Rightarrow> 8 word \<Rightarrow> 8 word \<Rightarrow> GofInfoVP9 \<Rightarrow> GofInfoVP9" where
  "set_frame i t u n d g = g\<lparr>
     temporal_idx := (temporal_idx g)[i := t],
     temporal_up_switch := (temporal_up_switch g)[i := u],
     num_ref_pics := (num_ref_pics g)[i := n],
     pid_diff := (pid_diff g)[i := (pid_diff g ! i)[0 := d]]\<rparr>"

definition set_second :: "nat \<Rightarrow> 8 word \<Rightarrow> GofInfoVP9 \<Rightarrow> GofInfoVP9" where
  "set_second i d g = g\<lparr>pid_diff := (pid_diff g)[i := (pid_diff g ! i)[1 := d]]\<rparr>"

fun SetGofInfoVP9 :: "TemporalStructureMode \<Rightarrow> GofInfoVP9 \<Rightarrow> GofInfoVP9" where
  "SetGofInfoVP9 kTemporalStructureMode1 g =
     set_frame 0 0 False 1 1 (g\<lparr>num_frames_in_gof := 1\<rparr>)"
| "SetGofInfoVP9 kTemporalStructureMode2 g =
     (let g = g\<lparr>num_frames_in_gof := 2\<rparr>;
          g = set_frame 0 0 False 1 2 g
      in set_frame 1 1 True 1 1 g)"
| "SetGofInfoVP9 kTemporalStructureMode3 g =
     (let g = g\<lparr>num_frames_in_gof := 4\<rparr>;
          g = set_frame 0 0 False 1 4 g;
          g = set_frame 1 2 True 1 1 g;
          g = set_frame 2 1 True 1 2 g
      in set_frame 3 2 True 1 1 g)"
| "SetGofInfoVP9 kTemporalStructureMode4 g =
     (let g = g\<lparr>num_frames_in_gof := 8\<rparr>;
          g = set_frame 0 0 False 1 4 g;
          g = set_frame 1 2 True 1 1 g;
          g = set_frame 2 1 True 1 2 g;
          g = set_second 3 2 (set_frame 3 2 False 2 1 g);
          g = set_frame 4 0 False 1 4 g;
          g = set_second 5 2 (set_frame 5 2 False 2 1 g);
          g = set_second 6 4 (set_frame 6 1 False 2 2 g)
      in set_second 7 2 (set_frame 7 2 False 2 1 g))"

text \<open>The inner loop of the copy, with the number of rounds that are left.\<close>

fun copy_refs :: "nat \<Rightarrow> nat \<Rightarrow> nat \<Rightarrow> GofInfoVP9 \<Rightarrow> GofInfoVP9 \<Rightarrow> GofInfoVP9 res" where
  "copy_refs 0 i r src this = Inr this"
| "copy_refs (Suc n) i r src this =
     res_bind (arr_at (pid_diff src) i) (\<lambda>from.
     res_bind (arr_at from r) (\<lambda>d.
     res_bind (arr_at (pid_diff this) i) (\<lambda>to.
     res_bind (arr_put to r d) (\<lambda>to.
     copy_refs n i (Suc r) src (this\<lparr>pid_diff := (pid_diff this)[i := to]\<rparr>)))))"

fun copy_frames :: "nat \<Rightarrow> nat \<Rightarrow> GofInfoVP9 \<Rightarrow> GofInfoVP9 \<Rightarrow> GofInfoVP9 res" where
  "copy_frames 0 i src this = Inr this"
| "copy_frames (Suc n) i src this =
     res_bind (arr_at (temporal_idx src) i) (\<lambda>t.
     res_bind (arr_put (temporal_idx this) i t) (\<lambda>ts.
     res_bind (arr_at (temporal_up_switch src) i) (\<lambda>u.
     res_bind (arr_put (temporal_up_switch this) i u) (\<lambda>us.
     res_bind (arr_at (num_ref_pics src) i) (\<lambda>m.
     res_bind (arr_put (num_ref_pics this) i m) (\<lambda>ms.
     let this = this\<lparr>temporal_idx := ts, temporal_up_switch := us, num_ref_pics := ms\<rparr> in
     res_bind (copy_refs (unat (num_ref_pics this ! i)) i 0 src this) (\<lambda>this.
     copy_frames n (Suc i) src this)))))))"

definition CopyGofInfoVP9 :: "GofInfoVP9 \<Rightarrow> GofInfoVP9 \<Rightarrow> GofInfoVP9 res" where
  "CopyGofInfoVP9 src this =
     (let this = this\<lparr>num_frames_in_gof := num_frames_in_gof src\<rparr>
      in copy_frames (num_frames_in_gof this) 0 src this)"

text \<open>
  The payload descriptor. The members that a description has too carry the prefix \<open>hdr\<close>.
\<close>

record RTPVideoHeaderVP9 =
  inter_pic_predicted :: bool
  flexible_mode :: bool
  beginning_of_frame :: bool
  end_of_frame :: bool
  ss_data_available :: bool
  non_ref_for_inter_layer_pred :: bool
  picture_id :: "16 word"
  max_picture_id :: "16 word"
  tl0_pic_idx :: "16 word"
  hdr_temporal_idx :: "8 word"
  spatial_idx :: "8 word"
  hdr_temporal_up_switch :: bool
  inter_layer_predicted :: bool
  gof_idx :: "8 word"
  hdr_num_ref_pics :: "8 word"
  hdr_pid_diff :: "8 word list"
  ref_picture_id :: "16 word list"
  num_spatial_layers :: nat
  first_active_layer :: nat
  spatial_layer_resolution_present :: bool
  width :: "16 word list"
  height :: "16 word list"
  gof :: GofInfoVP9
  end_of_picture :: bool

definition InitRTPVideoHeaderVP9 :: "RTPVideoHeaderVP9 \<Rightarrow> RTPVideoHeaderVP9" where
  "InitRTPVideoHeaderVP9 h = h\<lparr>
     inter_pic_predicted := False,
     flexible_mode := False,
     beginning_of_frame := False,
     end_of_frame := False,
     ss_data_available := False,
     non_ref_for_inter_layer_pred := False,
     picture_id := kNoPictureId,
     max_picture_id := kMaxTwoBytePictureId,
     tl0_pic_idx := kNoTl0PicIdx,
     hdr_temporal_idx := kNoTemporalIdx,
     spatial_idx := kNoSpatialIdx,
     hdr_temporal_up_switch := False,
     inter_layer_predicted := False,
     gof_idx := kNoGofIdx,
     hdr_num_ref_pics := 0,
     num_spatial_layers := 1,
     first_active_layer := 0,
     end_of_picture := True\<rparr>"

subsection \<open>Descriptions as lists of frames\<close>

text \<open>
  The arrays have their declared sizes; a description fits when it stays inside them; its frames are
  the temporal layer, the switching flag and the distances to the references of each frame.
\<close>

type_synonym frame = "8 word \<times> bool \<times> 8 word list"

definition gof_arrays :: "GofInfoVP9 \<Rightarrow> bool" where
  "gof_arrays g \<longleftrightarrow> length (temporal_idx g) = kMaxVp9FramesInGof \<and>
     length (temporal_up_switch g) = kMaxVp9FramesInGof \<and> length (num_ref_pics g) = kMaxVp9FramesInGof \<and>
     length (pid_diff g) = kMaxVp9FramesInGof \<and> list_all (\<lambda>ds. length ds = kMaxVp9RefPics) (pid_diff g)"

definition gof_fits :: "GofInfoVP9 \<Rightarrow> bool" where
  "gof_fits g \<longleftrightarrow> num_frames_in_gof g \<le> kMaxVp9FramesInGof \<and>
     list_all (\<lambda>n. unat n \<le> kMaxVp9RefPics) (take (num_frames_in_gof g) (num_ref_pics g))"

definition frame_at :: "GofInfoVP9 \<Rightarrow> nat \<Rightarrow> frame" where
  "frame_at g i = (temporal_idx g ! i, temporal_up_switch g ! i, take (unat (num_ref_pics g ! i)) (pid_diff g ! i))"

definition gof_frames :: "GofInfoVP9 \<Rightarrow> frame list" where
  "gof_frames g = map (frame_at g) [0..<num_frames_in_gof g]"

lemma gof_arrays_row [simp]:
  "gof_arrays g \<Longrightarrow> i < kMaxVp9FramesInGof \<Longrightarrow> length (pid_diff g ! i) = kMaxVp9RefPics"
  by (simp add: gof_arrays_def list_all_length)

lemma gof_arrays_length [simp]:
  assumes "gof_arrays g"
  shows "length (temporal_idx g) = kMaxVp9FramesInGof" "length (temporal_up_switch g) = kMaxVp9FramesInGof"
    "length (num_ref_pics g) = kMaxVp9FramesInGof" "length (pid_diff g) = kMaxVp9FramesInGof"
  using assms by (simp_all add: gof_arrays_def)

lemma gof_arrays_set_frame [simp]:
  assumes "gof_arrays g" and "i < kMaxVp9FramesInGof"
  shows "gof_arrays (set_frame i t u n d g)" and "gof_arrays (set_second i d g)"
proof -
  have "list_all (\<lambda>ds. length ds = kMaxVp9RefPics) (pid_diff g)" using assms(1) by (simp only: gof_arrays_def)
  then have "list_all (\<lambda>ds. length ds = kMaxVp9RefPics) ((pid_diff g)[i := (pid_diff g ! i)[k := d]])" for k
    by (rule list_all_update) (simp add: assms)
  then show "gof_arrays (set_frame i t u n d g)" "gof_arrays (set_second i d g)"
    unfolding gof_arrays_def set_frame_def set_second_def using assms(1) by simp_all
qed

lemma num_frames_set_frame [simp]:
  "num_frames_in_gof (set_frame i t u n d g) = num_frames_in_gof g" "num_frames_in_gof (set_second i d g) = num_frames_in_gof g"
  "pid_start (set_frame i t u n d g) = pid_start g" "pid_start (set_second i d g) = pid_start g"
  by (simp_all add: set_frame_def set_second_def)

lemma gof_arrays_num_frames [simp]: "gof_arrays (g\<lparr>num_frames_in_gof := n\<rparr>) = gof_arrays g"
  unfolding gof_arrays_def by simp

lemma take_update_three:
  assumes "length ds = 3"
  shows "take (Suc 0) (ds[0 := d]) = [d]" "take 2 (ds[0 := d, Suc 0 := e]) = [d, e]"
proof -
  obtain a b c where "ds = [a, b, c]"
    using assms by (auto simp: numeral_3_eq_3 length_Suc_conv)
  then show "take (Suc 0) (ds[0 := d]) = [d]" "take 2 (ds[0 := d, Suc 0 := e]) = [d, e]" by simp_all
qed

lemma frame_at_set_frame [simp]:
  assumes "gof_arrays g" and "i < kMaxVp9FramesInGof"
  shows "frame_at (set_frame i t u 1 d g) j = (if j = i then (t, u, [d]) else frame_at g j)"
    and "frame_at (set_second i e (set_frame i t u 2 d g)) j = (if j = i then (t, u, [d, e]) else frame_at g j)"
  using assms take_update_three [OF gof_arrays_row [OF assms]]
  by (simp_all add: frame_at_def set_frame_def set_second_def)

fun mode_frames :: "TemporalStructureMode \<Rightarrow> frame list" where
  "mode_frames kTemporalStructureMode1 = [(0, False, [1])]"
| "mode_frames kTemporalStructureMode2 = [(0, False, [2]), (1, True, [1])]"
| "mode_frames kTemporalStructureMode3 = [(0, False, [4]), (2, True, [1]), (1, True, [2]), (2, True, [1])]"
| "mode_frames kTemporalStructureMode4 =
     [(0, False, [4]), (2, True, [1]), (1, True, [2]), (2, False, [1, 2]),
      (0, False, [4]), (2, False, [1, 2]), (1, False, [2, 4]), (2, False, [1, 2])]"

lemma gof_frames_SetGofInfoVP9:
  assumes "gof_arrays g"
  shows "gof_frames (SetGofInfoVP9 tm g) = mode_frames tm"
  using assms by (cases tm) (simp_all add: gof_frames_def Let_def upt_rec)

lemma SetGofInfoVP9_arrays:
  assumes "gof_arrays g"
  shows "gof_arrays (SetGofInfoVP9 tm g)" "pid_start (SetGofInfoVP9 tm g) = pid_start g"
  using assms by (cases tm; simp add: Let_def)+

subsection \<open>A repeated group as a stream\<close>

text \<open>
  Frame \<open>k\<close> of the stream is frame \<open>k mod n\<close> of the group. It refers to the frames that lie its
  distances back, and needs those and what they need.
\<close>

definition layer :: "frame list \<Rightarrow> nat \<Rightarrow> nat" where
  "layer fs k = unat (fst (fs ! (k mod length fs)))"

definition up_switch :: "frame list \<Rightarrow> nat \<Rightarrow> bool" where
  "up_switch fs k = fst (snd (fs ! (k mod length fs)))"

definition diffs :: "frame list \<Rightarrow> nat \<Rightarrow> nat list" where
  "diffs fs k = map unat (snd (snd (fs ! (k mod length fs))))"

inductive needs :: "frame list \<Rightarrow> nat \<Rightarrow> nat \<Rightarrow> bool" for fs where
  direct: "d \<in> set (diffs fs k) \<Longrightarrow> d \<le> k \<Longrightarrow> needs fs k (k - d)"
| further: "d \<in> set (diffs fs k) \<Longrightarrow> d \<le> k \<Longrightarrow> needs fs (k - d) j \<Longrightarrow> needs fs k j"

text \<open>
  What is checked within one group: distances are positive and no longer than the group, references go
  to the same or to a lower layer, and the flag says that they all go to lower layers.
\<close>

definition scalable_frame :: "frame list \<Rightarrow> nat \<Rightarrow> bool" where
  "scalable_frame fs i \<longleftrightarrow>
     list_all (\<lambda>d. 0 < d \<and> d \<le> length fs \<and> layer fs (i + (length fs - d)) \<le> layer fs i) (diffs fs i) \<and>
     up_switch fs i = list_all (\<lambda>d. layer fs (i + (length fs - d)) < layer fs i) (diffs fs i)"

definition scalable :: "frame list \<Rightarrow> bool" where
  "scalable fs \<longleftrightarrow> fs \<noteq> [] \<and> list_all (scalable_frame fs) [0..<length fs]"

lemma scalable_mode_frames: "scalable (mode_frames tm)"
  by (cases tm) (simp_all add: scalable_def scalable_frame_def layer_def up_switch_def diffs_def upt_rec)

lemma stream_periodic [simp]:
  "layer fs (k mod length fs) = layer fs k" "up_switch fs (k mod length fs) = up_switch fs k"
  "diffs fs (k mod length fs) = diffs fs k" "layer fs (k mod length fs + m) = layer fs (k + m)"
  by (simp_all add: layer_def up_switch_def diffs_def mod_add_left_eq)

lemma layer_back:
  assumes "d \<le> k" and "d \<le> length fs"
  shows "layer fs (k + (length fs - d)) = layer fs (k - d)"
proof -
  have "k + (length fs - d) = (k - d) + length fs" using assms by arith
  then show ?thesis by (simp add: layer_def)
qed

lemma scalable_direct:
  assumes "scalable fs" and "d \<in> set (diffs fs k)"
  shows "0 < d" and "d \<le> length fs" and "d \<le> k \<Longrightarrow> layer fs (k - d) \<le> layer fs k"
    and "d \<le> k \<Longrightarrow> up_switch fs k \<Longrightarrow> layer fs (k - d) < layer fs k"
proof -
  have "scalable_frame fs (k mod length fs)"
    using assms(1) by (simp add: scalable_def list_all_iff)
  then have f: "list_all (\<lambda>d. 0 < d \<and> d \<le> length fs \<and> layer fs (k + (length fs - d)) \<le> layer fs k) (diffs fs k)"
    "up_switch fs k = list_all (\<lambda>d. layer fs (k + (length fs - d)) < layer fs k) (diffs fs k)"
    by (simp_all add: scalable_frame_def)
  then show d: "0 < d" "d \<le> length fs" using assms(2) by (auto simp: list_all_iff)
  show "layer fs (k - d) \<le> layer fs k" if "d \<le> k"
    using f(1) assms(2) layer_back [OF that d(2)] by (auto simp: list_all_iff)
  show "layer fs (k - d) < layer fs k" if "d \<le> k" "up_switch fs k"
    using f(2) assms(2) that(2) layer_back [OF that(1) d(2)] by (auto simp: list_all_iff)
qed

lemma scalable_no_switch:
  assumes "scalable fs" and "\<not> up_switch fs k" and "length fs \<le> k"
  shows "\<exists>d\<in>set (diffs fs k). d \<le> k \<and> layer fs (k - d) = layer fs k"
proof -
  have "scalable_frame fs (k mod length fs)"
    using assms(1) by (simp add: scalable_def list_all_iff)
  then have "\<not> list_all (\<lambda>d. layer fs (k + (length fs - d)) < layer fs k) (diffs fs k)"
    using assms(2) by (simp add: scalable_frame_def)
  then obtain d where d: "d \<in> set (diffs fs k)" "\<not> layer fs (k + (length fs - d)) < layer fs k"
    by (auto simp: list_all_iff)
  have "d \<le> length fs" by (rule scalable_direct(2) [OF assms(1) d(1)])
  then have "d \<le> k" using assms(3) by simp
  then have "layer fs (k - d) = layer fs k"
    using d(2) layer_back [OF \<open>d \<le> k\<close> \<open>d \<le> length fs\<close>] scalable_direct(3) [OF assms(1) d(1)] by simp
  then show ?thesis using d(1) \<open>d \<le> k\<close> by blast
qed

lemma scalable_needs:
  assumes "scalable fs" and "needs fs k j"
  shows "j < k \<and> layer fs j \<le> layer fs k \<and> (up_switch fs k \<longrightarrow> layer fs j < layer fs k)"
  using assms(2)
proof (induction rule: needs.induct)
  case (direct d k)
  then show ?case using scalable_direct [OF assms(1) direct(1)] by simp
next
  case (further d k j)
  then show ?case using scalable_direct [OF assms(1) further(1)] by fastforce
qed

subsection \<open>The copy\<close>

lemma gof_arrays_pid_diff:
  assumes "gof_arrays g" and "length ds = kMaxVp9RefPics"
  shows "gof_arrays (g\<lparr>pid_diff := (pid_diff g)[i := ds]\<rparr>)"
  using assms list_all_update [of "\<lambda>ds. length ds = kMaxVp9RefPics" "pid_diff g" ds i]
  unfolding gof_arrays_def by simp

lemma copy_refs_ok:
  assumes "gof_arrays src" and "gof_arrays this" and "i < kMaxVp9FramesInGof" and "r + n \<le> kMaxVp9RefPics"
  shows "\<exists>ds. copy_refs n i r src this = Inr (this\<lparr>pid_diff := (pid_diff this)[i := ds]\<rparr>) \<and>
    length ds = kMaxVp9RefPics \<and> (\<forall>q. q < r + n \<longrightarrow> ds ! q = (if q < r then pid_diff this ! i ! q else pid_diff src ! i ! q))"
  using assms(2,4)
proof (induction n arbitrary: r this)
  case 0
  then show ?case using assms(3) by (intro exI [of _ "pid_diff this ! i"]) simp
next
  case (Suc n)
  define to where "to = (pid_diff this ! i)[r := pid_diff src ! i ! r]"
  define that where "that = this\<lparr>pid_diff := (pid_diff this)[i := to]\<rparr>"
  have len: "length (pid_diff src ! i) = 3" "length (pid_diff this ! i) = 3" "length to = 3"
    using assms(1,3) Suc.prems(1) by (simp_all add: to_def)
  have run: "copy_refs (Suc n) i r src this = copy_refs n i (Suc r) src that"
    using assms(1,3) Suc.prems len by (simp add: to_def that_def)
  have "gof_arrays that" unfolding that_def using Suc.prems(1) len(3) by (rule gof_arrays_pid_diff)
  from Suc.IH [OF this, of "Suc r"] Suc.prems(2) obtain ds
    where ds: "copy_refs n i (Suc r) src that = Inr (that\<lparr>pid_diff := (pid_diff that)[i := ds]\<rparr>)" "length ds = 3"
      "\<And>q. q < Suc r + n \<Longrightarrow> ds ! q = (if q < Suc r then pid_diff that ! i ! q else pid_diff src ! i ! q)"
    by auto
  have row: "pid_diff that ! i = to" using assms(3) Suc.prems(1) by (simp add: that_def)
  have "ds ! q = (if q < r then pid_diff this ! i ! q else pid_diff src ! i ! q)" if "q < r + Suc n" for q
    using ds(3) [of q] that Suc.prems(2) len unfolding row to_def by (cases "q = r") auto
  then show ?case
    using ds(2) by (intro exI [of _ ds]) (simp add: run ds(1) del: copy_refs.simps, simp add: that_def)
qed

lemma copy_refs_overrun:
  assumes "gof_arrays src" and "gof_arrays this" and "i < kMaxVp9FramesInGof" and "r \<le> kMaxVp9RefPics" and "kMaxVp9RefPics < r + n"
  shows "copy_refs n i r src this = Inl OutOfBounds"
  using assms(2,4,5)
proof (induction n arbitrary: r this)
  case (Suc n)
  show ?case
  proof (cases "r = kMaxVp9RefPics")
    case True
    then show ?thesis using assms(1,3) by simp
  next
    case False
    define that where "that = this\<lparr>pid_diff := (pid_diff this)[i := (pid_diff this ! i)[r := pid_diff src ! i ! r]]\<rparr>"
    have "gof_arrays that"
      unfolding that_def by (rule gof_arrays_pid_diff [OF Suc.prems(1)]) (simp add: Suc.prems(1) assms(3))
    then have "copy_refs n i (Suc r) src that = Inl OutOfBounds" using Suc.IH [of that "Suc r"] Suc.prems False by simp
    then show ?thesis using assms(1,3) Suc.prems False by (simp add: that_def)
  qed
qed simp

text \<open>The cells that belong to one frame, and what one round of the outer loop does.\<close>

definition cells :: "GofInfoVP9 \<Rightarrow> nat \<Rightarrow> 8 word \<times> bool \<times> 8 word \<times> 8 word list" where
  "cells g j = (temporal_idx g ! j, temporal_up_switch g ! j, num_ref_pics g ! j, pid_diff g ! j)"

lemma copy_round:
  assumes "gof_arrays src" and "gof_arrays this" and "i < kMaxVp9FramesInGof"
    and "unat (num_ref_pics src ! i) \<le> kMaxVp9RefPics"
  shows "\<exists>that. copy_frames (Suc n) i src this = copy_frames n (Suc i) src that \<and> gof_arrays that \<and>
    num_frames_in_gof that = num_frames_in_gof this \<and> pid_start that = pid_start this \<and>
    frame_at that i = frame_at src i \<and> (\<forall>j. j \<noteq> i \<longrightarrow> cells that j = cells this j)"
proof -
  define mid where "mid = this\<lparr>temporal_idx := (temporal_idx this)[i := temporal_idx src ! i],
    temporal_up_switch := (temporal_up_switch this)[i := temporal_up_switch src ! i],
    num_ref_pics := (num_ref_pics this)[i := num_ref_pics src ! i]\<rparr>"
  have mid: "gof_arrays mid" using assms(2) unfolding mid_def gof_arrays_def by simp
  obtain ds where ds: "copy_refs (unat (num_ref_pics src ! i)) i 0 src mid = Inr (mid\<lparr>pid_diff := (pid_diff mid)[i := ds]\<rparr>)"
    "length ds = 3" "\<And>q. q < unat (num_ref_pics src ! i) \<Longrightarrow> ds ! q = pid_diff src ! i ! q"
    using copy_refs_ok [OF assms(1) mid assms(3), of 0] assms(4) by auto
  define that where "that = mid\<lparr>pid_diff := (pid_diff mid)[i := ds]\<rparr>"
  have "copy_frames (Suc n) i src this = copy_frames n (Suc i) src that"
    using assms(1-3) ds(1) by (simp add: mid_def that_def Let_def)
  moreover have "gof_arrays that" unfolding that_def using mid ds(2) by (rule gof_arrays_pid_diff)
  moreover have "take (unat (num_ref_pics src ! i)) ds = take (unat (num_ref_pics src ! i)) (pid_diff src ! i)"
    using ds(2,3) assms(1,3,4) by (intro nth_equalityI) auto
  ultimately show ?thesis
    using assms(2,3) by (intro exI [of _ that]) (simp add: that_def mid_def frame_at_def cells_def)
qed

lemma frame_at_cells: "cells g j = cells h j \<Longrightarrow> frame_at g j = frame_at h j"
  by (simp add: cells_def frame_at_def)

lemma copy_frames_ok:
  assumes "gof_arrays src" and "gof_arrays this" and "i + n \<le> kMaxVp9FramesInGof"
    and "\<And>j. i \<le> j \<Longrightarrow> j < i + n \<Longrightarrow> unat (num_ref_pics src ! j) \<le> kMaxVp9RefPics"
  shows "\<exists>that. copy_frames n i src this = Inr that \<and> gof_arrays that \<and>
    num_frames_in_gof that = num_frames_in_gof this \<and> pid_start that = pid_start this \<and>
    (\<forall>j. i \<le> j \<and> j < i + n \<longrightarrow> frame_at that j = frame_at src j) \<and>
    (\<forall>j. \<not> (i \<le> j \<and> j < i + n) \<longrightarrow> cells that j = cells this j)"
  using assms(2-4)
proof (induction n arbitrary: i this)
  case (Suc n)
  from Suc.prems obtain mid where mid: "copy_frames (Suc n) i src this = copy_frames n (Suc i) src mid" "gof_arrays mid"
    "num_frames_in_gof mid = num_frames_in_gof this" "pid_start mid = pid_start this"
    "frame_at mid i = frame_at src i" "\<And>j. j \<noteq> i \<Longrightarrow> cells mid j = cells this j"
    using copy_round [OF assms(1), of this i n] by auto
  from Suc.IH [OF mid(2), of "Suc i"] Suc.prems(2,3) obtain out where out: "copy_frames n (Suc i) src mid = Inr out"
    "gof_arrays out" "num_frames_in_gof out = num_frames_in_gof mid" "pid_start out = pid_start mid"
    "\<And>j. Suc i \<le> j \<Longrightarrow> j < Suc i + n \<Longrightarrow> frame_at out j = frame_at src j"
    "\<And>j. \<not> (Suc i \<le> j \<and> j < Suc i + n) \<Longrightarrow> cells out j = cells mid j"
    by auto
  have "frame_at out i = frame_at src i" using frame_at_cells [OF out(6) [of i]] mid(5) by simp
  then have "frame_at out j = frame_at src j" if "i \<le> j" "j < i + Suc n" for j
    using that out(5) [of j] by (cases "j = i") auto
  moreover have "cells out j = cells this j" if "\<not> (i \<le> j \<and> j < i + Suc n)" for j
    using that out(6) [of j] mid(6) [of j] by auto
  ultimately show ?case using mid(1,3,4) out(1-4) by auto
qed auto

lemma copy_frames_overrun:
  assumes "gof_arrays src" and "gof_arrays this" and "i \<le> kMaxVp9FramesInGof"
    and "kMaxVp9FramesInGof < i + n \<or>
      (\<exists>j. i \<le> j \<and> j < i + n \<and> j < kMaxVp9FramesInGof \<and> kMaxVp9RefPics < unat (num_ref_pics src ! j))"
  shows "copy_frames n i src this = Inl OutOfBounds"
  using assms(2-4)
proof (induction n arbitrary: i this)
  case (Suc n)
  consider "i = kMaxVp9FramesInGof" | "i < kMaxVp9FramesInGof" "kMaxVp9RefPics < unat (num_ref_pics src ! i)"
    | "i < kMaxVp9FramesInGof" "unat (num_ref_pics src ! i) \<le> kMaxVp9RefPics"
    using Suc.prems(2) by linarith
  then show ?case
  proof cases
    case 1
    then show ?thesis using assms(1) by simp
  next
    case 2
    have "gof_arrays (this\<lparr>temporal_idx := (temporal_idx this)[i := temporal_idx src ! i],
      temporal_up_switch := (temporal_up_switch this)[i := temporal_up_switch src ! i],
      num_ref_pics := (num_ref_pics this)[i := num_ref_pics src ! i]\<rparr>)"
      using Suc.prems(1) unfolding gof_arrays_def by simp
    from copy_refs_overrun [OF assms(1) this 2(1), of 0 "unat (num_ref_pics src ! i)"] 2 show ?thesis
      using assms(1) Suc.prems(1) by (simp add: Let_def)
  next
    case 3
    obtain mid where mid: "copy_frames (Suc n) i src this = copy_frames n (Suc i) src mid" "gof_arrays mid"
      using copy_round [OF assms(1) Suc.prems(1) 3, of n] by blast
    have "kMaxVp9FramesInGof < Suc i + n \<or>
      (\<exists>j. Suc i \<le> j \<and> j < Suc i + n \<and> j < kMaxVp9FramesInGof \<and> kMaxVp9RefPics < unat (num_ref_pics src ! j))"
      using Suc.prems(3)
    proof
      assume "\<exists>j. i \<le> j \<and> j < i + Suc n \<and> j < kMaxVp9FramesInGof \<and> kMaxVp9RefPics < unat (num_ref_pics src ! j)"
      then obtain j where j: "i \<le> j" "j < i + Suc n" "j < kMaxVp9FramesInGof" "kMaxVp9RefPics < unat (num_ref_pics src ! j)"
        by blast
      then have "j \<noteq> i" using 3(2) by auto
      then show ?thesis using j by auto
    qed simp
    then show ?thesis using Suc.IH [OF mid(2), of "Suc i"] 3(1) mid(1) by simp
  qed
qed auto

lemma gof_fits_iff:
  assumes "gof_arrays g"
  shows "gof_fits g \<longleftrightarrow> num_frames_in_gof g \<le> kMaxVp9FramesInGof \<and>
    (\<forall>j. j < num_frames_in_gof g \<longrightarrow> unat (num_ref_pics g ! j) \<le> kMaxVp9RefPics)"
  using assms by (auto simp: gof_fits_def list_all_length)

lemma less_group:
  "j < (1 :: nat) \<longleftrightarrow> j = 0" "j < (2 :: nat) \<longleftrightarrow> j = 0 \<or> j = 1"
  "j < (4 :: nat) \<longleftrightarrow> j = 0 \<or> j = 1 \<or> j = 2 \<or> j = 3"
  "j < (8 :: nat) \<longleftrightarrow> j = 0 \<or> j = 1 \<or> j = 2 \<or> j = 3 \<or> j = 4 \<or> j = 5 \<or> j = 6 \<or> j = 7"
  by arith+

lemma SetGofInfoVP9_fits:
  assumes "gof_arrays g"
  shows "gof_fits (SetGofInfoVP9 tm g)"
proof -
  have "num_frames_in_gof (SetGofInfoVP9 tm g) \<le> kMaxVp9FramesInGof"
    by (cases tm) (simp_all add: Let_def)
  moreover have "unat (num_ref_pics (SetGofInfoVP9 tm g) ! j) \<le> kMaxVp9RefPics"
    if "j < num_frames_in_gof (SetGofInfoVP9 tm g)" for j
    using that assms
    by (cases tm) (auto simp: Let_def set_frame_def set_second_def less_group nth_list_update)
  ultimately show ?thesis
    using gof_fits_iff [OF SetGofInfoVP9_arrays(1) [OF assms]] by blast
qed

subsection \<open>Properties\<close>

text \<open>
  C32. Whatever a description held before, \<^verbatim>\<open>SetGofInfoVP9\<close> makes it a temporally scalable one for every
  mode. In the stream that repeats the group, a frame needs only earlier frames of its own or of lower
  temporal layers, so that any number of upper layers can be dropped; and the flag for switching up is
  set for exactly those frames that need nothing but strictly lower layers. The number of frames and of
  references fits the arrays, and the start of the picture identifiers is left alone.
\<close>

theorem vp9_modes_are_scalable:
  assumes "gof_arrays g"
  shows "gof_arrays (SetGofInfoVP9 tm g) \<and> gof_fits (SetGofInfoVP9 tm g) \<and>
    pid_start (SetGofInfoVP9 tm g) = pid_start g \<and>
    (\<forall>k j. needs (gof_frames (SetGofInfoVP9 tm g)) k j \<longrightarrow>
       j < k \<and> layer (gof_frames (SetGofInfoVP9 tm g)) j \<le> layer (gof_frames (SetGofInfoVP9 tm g)) k) \<and>
    (\<forall>k. num_frames_in_gof (SetGofInfoVP9 tm g) \<le> k \<longrightarrow>
       (up_switch (gof_frames (SetGofInfoVP9 tm g)) k \<longleftrightarrow>
        (\<forall>j. needs (gof_frames (SetGofInfoVP9 tm g)) k j \<longrightarrow>
           layer (gof_frames (SetGofInfoVP9 tm g)) j < layer (gof_frames (SetGofInfoVP9 tm g)) k)))"
proof -
  define fs where "fs = gof_frames (SetGofInfoVP9 tm g)"
  have fs: "scalable fs" "length fs = num_frames_in_gof (SetGofInfoVP9 tm g)"
    unfolding fs_def using scalable_mode_frames [of tm]
    by (simp only: gof_frames_SetGofInfoVP9 [OF assms], simp add: gof_frames_def)
  have "up_switch fs k" if "length fs \<le> k" "\<forall>j. needs fs k j \<longrightarrow> layer fs j < layer fs k" for k
    using scalable_no_switch [OF fs(1) _ that(1)] that(2) needs.direct [of _ fs k] by fastforce
  then have "up_switch fs k \<longleftrightarrow> (\<forall>j. needs fs k j \<longrightarrow> layer fs j < layer fs k)" if "length fs \<le> k" for k
    using scalable_needs [OF fs(1)] that by blast
  then show ?thesis
    using SetGofInfoVP9_arrays [OF assms] SetGofInfoVP9_fits [OF assms] scalable_needs [OF fs(1)] fs(2)
    unfolding fs_def by simp
qed

definition blank_gof :: GofInfoVP9 where
  "blank_gof = \<lparr>num_frames_in_gof = 0, temporal_idx = replicate 255 0, temporal_up_switch = replicate 255 False,
     num_ref_pics = replicate 255 0, pid_diff = replicate 255 (replicate 3 0), pid_start = 7\<rparr>"

lemma gof_arrays_blank: "gof_arrays blank_gof"
  unfolding gof_arrays_def blank_gof_def by (simp add: list_all_iff)

theorem vp9_modes_are_scalable_witness:
  "up_switch (gof_frames (SetGofInfoVP9 kTemporalStructureMode4 blank_gof)) 10 \<and>
   Collect (needs (gof_frames (SetGofInfoVP9 kTemporalStructureMode4 blank_gof)) 10) \<subseteq>
     {j. layer (gof_frames (SetGofInfoVP9 kTemporalStructureMode4 blank_gof)) j < 1}"
proof -
  have "layer (mode_frames kTemporalStructureMode4) 10 = 1" "up_switch (mode_frames kTemporalStructureMode4) 10"
    by (simp_all add: layer_def up_switch_def)
  moreover have "num_frames_in_gof (SetGofInfoVP9 kTemporalStructureMode4 blank_gof) \<le> 10" by (simp add: Let_def)
  ultimately show ?thesis
    using vp9_modes_are_scalable [OF gof_arrays_blank, of kTemporalStructureMode4]
    unfolding gof_frames_SetGofInfoVP9 [OF gof_arrays_blank] subset_iff mem_Collect_eq by metis
qed

text \<open>
  C33. \<^verbatim>\<open>CopyGofInfoVP9\<close> takes over the frames of a description that fits the arrays, whatever the
  target held; it leaves the target's cells behind the last frame and its start of the picture
  identifiers as they were. With a description that does not fit, more than 255 frames or more than 3
  references, it leaves the arrays.
\<close>

theorem CopyGofInfoVP9_copies_frames:
  assumes "gof_arrays src" and "gof_arrays this"
  shows "(gof_fits src \<longrightarrow> (\<exists>that. CopyGofInfoVP9 src this = Inr that \<and> gof_arrays that \<and>
      gof_frames that = gof_frames src \<and> pid_start that = pid_start this \<and>
      (\<forall>j. num_frames_in_gof src \<le> j \<longrightarrow> cells that j = cells this j))) \<and>
    (\<not> gof_fits src \<longrightarrow> CopyGofInfoVP9 src this = Inl OutOfBounds)"
proof (intro conjI impI)
  define start where "start = this\<lparr>num_frames_in_gof := num_frames_in_gof src\<rparr>"
  have start: "gof_arrays start" "CopyGofInfoVP9 src this = copy_frames (num_frames_in_gof src) 0 src start"
    "cells start j = cells this j" for j
    using assms(2) by (simp_all add: start_def CopyGofInfoVP9_def cells_def)
  show "CopyGofInfoVP9 src this = Inl OutOfBounds" if "\<not> gof_fits src"
    unfolding start(2)
    by (rule copy_frames_overrun [OF assms(1) start(1)]) (use that gof_fits_iff [OF assms(1)] in fastforce)+
  assume "gof_fits src"
  then obtain that where that: "copy_frames (num_frames_in_gof src) 0 src start = Inr that" "gof_arrays that"
    "num_frames_in_gof that = num_frames_in_gof start" "pid_start that = pid_start start"
    "\<And>j. j < num_frames_in_gof src \<Longrightarrow> frame_at that j = frame_at src j"
    "\<And>j. num_frames_in_gof src \<le> j \<Longrightarrow> cells that j = cells start j"
    using copy_frames_ok [OF assms(1) start(1), of 0 "num_frames_in_gof src"] gof_fits_iff [OF assms(1)] by auto
  then show "\<exists>that. CopyGofInfoVP9 src this = Inr that \<and> gof_arrays that \<and>
      gof_frames that = gof_frames src \<and> pid_start that = pid_start this \<and>
      (\<forall>j. num_frames_in_gof src \<le> j \<longrightarrow> cells that j = cells this j)"
    using start(2,3) by (intro exI [of _ that]) (simp add: gof_frames_def start_def)
qed

theorem CopyGofInfoVP9_copies_frames_witness:
  "\<exists>that. CopyGofInfoVP9 (SetGofInfoVP9 kTemporalStructureMode2 (blank_gof\<lparr>pid_start := 9\<rparr>)) blank_gof = Inr that \<and>
     gof_frames that = [(0, False, [2]), (1, True, [1])] \<and> pid_start that = 7"
proof -
  have b: "gof_arrays (blank_gof\<lparr>pid_start := 9\<rparr>)" "pid_start blank_gof = 7"
    using gof_arrays_blank unfolding gof_arrays_def by (simp_all add: blank_gof_def)
  show ?thesis
    using CopyGofInfoVP9_copies_frames [OF SetGofInfoVP9_arrays(1) [OF b(1)] gof_arrays_blank, of kTemporalStructureMode2]
      SetGofInfoVP9_fits [OF b(1), of kTemporalStructureMode2]
    unfolding gof_frames_SetGofInfoVP9 [OF b(1)] b(2) mode_frames.simps by blast
qed

text \<open>
  The values that stand for absence are never values: an index into a description that fits differs
  from \<^verbatim>\<open>kNoGofIdx\<close>, and after \<^verbatim>\<open>InitRTPVideoHeaderVP9\<close> the spatial index is beyond the layers and the
  picture identifier is outside the range that the header declares. The description and the references
  of the header are not touched.
\<close>

lemma InitRTPVideoHeaderVP9_absent:
  "gof_fits g \<Longrightarrow> i < num_frames_in_gof g \<Longrightarrow> i \<noteq> unat (gof_idx (InitRTPVideoHeaderVP9 h))"
  "kMaxVp9NumberOfSpatialLayers \<le> unat (spatial_idx (InitRTPVideoHeaderVP9 h))"
  "sint (picture_id (InitRTPVideoHeaderVP9 h)) < 0"
  "0 < sint (max_picture_id (InitRTPVideoHeaderVP9 h))"
  "gof (InitRTPVideoHeaderVP9 h) = gof h" "hdr_pid_diff (InitRTPVideoHeaderVP9 h) = hdr_pid_diff h"
  by (simp_all add: InitRTPVideoHeaderVP9_def gof_fits_def)

end
