(* ===== verification/SafeNumerics.thy ===== *)
theory SafeNumerics
  imports Prelude
begin

section \<open>Safe comparison, minimum, clamping and conversion of integers\<close>

text \<open>
  \<^verbatim>\<open>rtc_base/numerics/safe_compare.h\<close>, \<^verbatim>\<open>safe_minmax.h\<close>, \<^verbatim>\<open>safe_conversions.h\<close> and \<^verbatim>\<open>safe_conversions_impl.h\<close>
  for the eight integer types of fixed width. A C++ value is an integer together with its type. The
  templates compute with types: a type is a value of the model, \<^verbatim>\<open>std::conditional\<close> is \<open>if\<close>, and the
  conditions of the \<^verbatim>\<open>static_assert\<close>s are predicates of their own, which are proved to hold. Enumerations
  count as their underlying types; floating point is left out, so that \<^verbatim>\<open>is_iec559\<close> is false.

  What C++ does with \<^verbatim>\<open>a < b\<close> for operands of different types is part of the model: operands are promoted
  and converted to a common type (\<open>common_type\<close>), which turns a negative number into a large unsigned one.
\<close>

subsection \<open>Integer types\<close>

datatype ctype = Int8 | Int16 | Int32 | Int64 | UInt8 | UInt16 | UInt32 | UInt64

fun is_signed :: "ctype \<Rightarrow> bool" where
  "is_signed Int8 = True" | "is_signed Int16 = True" | "is_signed Int32 = True" | "is_signed Int64 = True"
| "is_signed _ = False"

fun size_of :: "ctype \<Rightarrow> nat" where
  "size_of Int8 = 1" | "size_of UInt8 = 1" | "size_of Int16 = 2" | "size_of UInt16 = 2"
| "size_of Int32 = 4" | "size_of UInt32 = 4" | "size_of Int64 = 8" | "size_of UInt64 = 8"

definition lowest :: "ctype \<Rightarrow> int" where
  "lowest t = (if is_signed t then - (2 ^ (8 * size_of t - 1)) else 0)"

definition max_val :: "ctype \<Rightarrow> int" where
  "max_val t = (if is_signed t then 2 ^ (8 * size_of t - 1) - 1 else 2 ^ (8 * size_of t) - 1)"

definition static_cast :: "ctype \<Rightarrow> int \<Rightarrow> int" where
  "static_cast t x = (x - lowest t) mod 2 ^ (8 * size_of t) + lowest t"

text \<open>Integral promotion and the usual arithmetic conversions.\<close>

definition promote :: "ctype \<Rightarrow> ctype" where
  "promote t = (if size_of t < 4 then Int32 else t)"

definition common_type :: "ctype \<Rightarrow> ctype \<Rightarrow> ctype" where
  "common_type t1 t2 =
     (let p = promote t1; q = promote t2
      in if is_signed p = is_signed q then if size_of p \<ge> size_of q then p else q
         else if is_signed p then if size_of q \<ge> size_of p then q else p
         else if size_of p \<ge> size_of q then p else q)"

fun make_unsigned :: "ctype \<Rightarrow> ctype" where
  "make_unsigned Int8 = UInt8" | "make_unsigned Int16 = UInt16"
| "make_unsigned Int32 = UInt32" | "make_unsigned Int64 = UInt64" | "make_unsigned t = t"

subsection \<open>Comparison\<close>

datatype cmp_op = EqOp | NeOp | LtOp | LeOp | GtOp | GeOp

fun holds :: "cmp_op \<Rightarrow> int \<Rightarrow> int \<Rightarrow> bool" where
  "holds EqOp a b = (a = b)"
| "holds NeOp a b = (a \<noteq> b)"
| "holds LtOp a b = (a < b)"
| "holds LeOp a b = (a \<le> b)"
| "holds GtOp a b = (a > b)"
| "holds GeOp a b = (a \<ge> b)"

definition Op :: "cmp_op \<Rightarrow> ctype \<Rightarrow> ctype \<Rightarrow> int \<Rightarrow> int \<Rightarrow> bool" where
  "Op f t1 t2 a b = holds f (static_cast (common_type t1 t2) a) (static_cast (common_type t1 t2) b)"

definition LargerIntImpl :: "nat \<Rightarrow> ctype option" where
  "LargerIntImpl n =
     (if n = 1 then Some Int16 else if n = 2 then Some Int32 else if n = 4 then Some Int64 else None)"

text \<open>A pointer has 8 bytes.\<close>

definition LargerInt :: "ctype \<Rightarrow> ctype \<Rightarrow> ctype option" where
  "LargerInt t1 t2 = LargerIntImpl (if size_of t1 < size_of t2 \<or> size_of t1 < 8 then size_of t1 else 0)"

definition MakeUnsigned :: "ctype \<Rightarrow> int \<Rightarrow> int" where
  "MakeUnsigned t a = static_cast (make_unsigned t) a"

definition Cmp :: "cmp_op \<Rightarrow> ctype \<Rightarrow> ctype \<Rightarrow> int \<Rightarrow> int \<Rightarrow> bool" where
  "Cmp f t1 t2 a b =
     (if is_signed t1 = is_signed t2 then Op f t1 t2 a b
      else if is_signed t1 then
        (case LargerInt t2 t1 of
           Some l \<Rightarrow> Op f t1 l a (static_cast l b)
         | None \<Rightarrow> if a < 0 then Op f Int32 Int32 (- 1) 0
                   else Op f (make_unsigned t1) t2 (MakeUnsigned t1 a) b)
      else
        (case LargerInt t1 t2 of
           Some l \<Rightarrow> Op f l t2 (static_cast l a) b
         | None \<Rightarrow> if b < 0 then Op f Int32 Int32 0 (- 1)
                   else Op f t1 (make_unsigned t2) a (MakeUnsigned t2 b)))"

text \<open>\<^verbatim>\<open>SafeEq\<close>, \<^verbatim>\<open>SafeNe\<close>, \<^verbatim>\<open>SafeLt\<close>, \<^verbatim>\<open>SafeLe\<close>, \<^verbatim>\<open>SafeGt\<close>, \<^verbatim>\<open>SafeGe\<close>: unary plus promotes the arguments.\<close>

definition SafeCmp :: "cmp_op \<Rightarrow> ctype \<Rightarrow> ctype \<Rightarrow> int \<Rightarrow> int \<Rightarrow> bool" where
  "SafeCmp f t1 t2 a b = Cmp f (promote t1) (promote t2) (static_cast (promote t1) a) (static_cast (promote t2) b)"

subsection \<open>Minimum, maximum, clamping\<close>

definition MType_min :: "ctype \<Rightarrow> ctype \<Rightarrow> ctype" where
  "MType_min t1 t2 =
     (if SafeCmp LtOp t1 t2 (lowest t1) (lowest t2) then t1
      else if SafeCmp GtOp t1 t2 (lowest t1) (lowest t2) then t2
      else if SafeCmp LeOp t1 t2 (max_val t1) (max_val t2) then t1 else t2)"

definition MType_max :: "ctype \<Rightarrow> ctype \<Rightarrow> ctype" where
  "MType_max t1 t2 = (if SafeCmp GeOp t1 t2 (max_val t1) (max_val t2) then t1 else t2)"

definition MType_asserts :: "ctype \<Rightarrow> ctype \<Rightarrow> bool" where
  "MType_asserts t1 t2 \<longleftrightarrow>
     (MType_min t1 t2 = t1 \<or> MType_min t1 t2 = t2) \<and>
     (SafeCmp NeOp t1 t2 (max_val t1) (max_val t2) \<or> SafeCmp EqOp t1 t2 (lowest t1) (lowest t2)) \<and>
     (MType_max t1 t2 = t1 \<or> MType_max t1 t2 = t2)"

text \<open>\<open>None\<close> is \<^verbatim>\<open>DefaultType\<close>.\<close>

definition TypeOr :: "ctype option \<Rightarrow> ctype \<Rightarrow> ctype" where
  "TypeOr A B = (case A of None \<Rightarrow> B | Some t \<Rightarrow> t)"

definition TypeOr_asserts :: "ctype option \<Rightarrow> ctype \<Rightarrow> bool" where
  "TypeOr_asserts A B \<longleftrightarrow>
     SafeCmp LeOp (TypeOr A B) B (lowest (TypeOr A B)) (lowest B) \<and>
     SafeCmp GeOp (TypeOr A B) B (max_val (TypeOr A B)) (max_val B)"

definition SafeMin :: "ctype option \<Rightarrow> ctype \<Rightarrow> ctype \<Rightarrow> int \<Rightarrow> int \<Rightarrow> int" where
  "SafeMin R t1 t2 a b =
     (let R2 = TypeOr R (MType_min t1 t2)
      in if SafeCmp LtOp t1 t2 a b then static_cast R2 a else static_cast R2 b)"

definition SafeMax :: "ctype option \<Rightarrow> ctype \<Rightarrow> ctype \<Rightarrow> int \<Rightarrow> int \<Rightarrow> int" where
  "SafeMax R t1 t2 a b =
     (let R2 = TypeOr R (MType_max t1 t2)
      in if SafeCmp GtOp t1 t2 a b then static_cast R2 a else static_cast R2 b)"

text \<open>The range of the result of \<^verbatim>\<open>SafeClamp\<close>: values with the types that \<^verbatim>\<open>auto\<close> gives them.\<close>

definition r_min :: "ctype \<Rightarrow> ctype \<Rightarrow> ctype \<Rightarrow> ctype \<times> int" where
  "r_min T L H =
     (let m = MType_min H T
      in (MType_max L m, SafeMax None L m (lowest L) (SafeMin None H T (lowest H) (lowest T))))"

definition r_max :: "ctype \<Rightarrow> ctype \<Rightarrow> ctype \<Rightarrow> ctype \<times> int" where
  "r_max T L H =
     (let m = MType_max L T
      in (MType_min H m, SafeMin None H m (max_val H) (SafeMax None L T (max_val L) (max_val T))))"

definition AcceptableType :: "ctype \<Rightarrow> ctype \<Rightarrow> ctype \<Rightarrow> ctype \<Rightarrow> bool" where
  "AcceptableType T L H A \<longleftrightarrow>
     (size_of A \<le> size_of L \<or> size_of A \<le> size_of H \<or> size_of A \<le> size_of T) \<and>
     SafeCmp LeOp A (fst (r_min T L H)) (lowest A) (snd (r_min T L H)) \<and>
     SafeCmp LeOp (fst (r_max T L H)) A (snd (r_max T L H)) (max_val A)"

definition best_signed_type :: "ctype \<Rightarrow> ctype \<Rightarrow> ctype \<Rightarrow> ctype" where
  "best_signed_type T L H =
     (if AcceptableType T L H Int8 then Int8 else if AcceptableType T L H Int16 then Int16
      else if AcceptableType T L H Int32 then Int32 else Int64)"

definition best_unsigned_type :: "ctype \<Rightarrow> ctype \<Rightarrow> ctype \<Rightarrow> ctype" where
  "best_unsigned_type T L H =
     (if AcceptableType T L H UInt8 then UInt8 else if AcceptableType T L H UInt16 then UInt16
      else if AcceptableType T L H UInt32 then UInt32 else UInt64)"

definition ClampType :: "ctype \<Rightarrow> ctype \<Rightarrow> ctype \<Rightarrow> ctype" where
  "ClampType T L H =
     (if is_signed T
      then if AcceptableType T L H (best_signed_type T L H) then best_signed_type T L H else best_unsigned_type T L H
      else if AcceptableType T L H (best_unsigned_type T L H) then best_unsigned_type T L H else best_signed_type T L H)"

text \<open>\<^verbatim>\<open>RTC_DCHECK_LE\<close> compares with \<^verbatim>\<open>SafeLe\<close>.\<close>

definition SafeClamp :: "ctype option \<Rightarrow> ctype \<Rightarrow> ctype \<Rightarrow> ctype \<Rightarrow> int \<Rightarrow> int \<Rightarrow> int \<Rightarrow> int res" where
  "SafeClamp R T L H x lo hi =
     (let R2 = TypeOr R (ClampType T L H)
      in if \<not> SafeCmp LeOp L H lo hi then Inl DcheckFailed
         else if SafeCmp LeOp T L x lo then Inr (static_cast R2 lo)
         else if SafeCmp GeOp T H x hi then Inr (static_cast R2 hi) else Inr (static_cast R2 x))"

subsection \<open>Conversion\<close>

datatype DstRange = OVERLAPS_RANGE | CONTAINS_RANGE

definition StaticRangeCheck :: "ctype \<Rightarrow> ctype \<Rightarrow> DstRange" where
  "StaticRangeCheck Dst Src =
     (if is_signed Dst \<and> is_signed Src then
        let kDstMaxExponent = size_of Dst * 8 - 1; kSrcMaxExponent = size_of Src * 8 - 1
        in if kDstMaxExponent \<ge> kSrcMaxExponent then CONTAINS_RANGE else OVERLAPS_RANGE
      else if \<not> is_signed Dst \<and> \<not> is_signed Src then
        if size_of Dst \<ge> size_of Src then CONTAINS_RANGE else OVERLAPS_RANGE
      else if is_signed Dst then
        let kDstMaxExponent = size_of Dst * 8 - 1; kSrcMaxExponent = size_of Src * 8
        in if kDstMaxExponent \<ge> kSrcMaxExponent then CONTAINS_RANGE else OVERLAPS_RANGE
      else OVERLAPS_RANGE)"

datatype RangeCheckResult = TYPE_VALID | TYPE_UNDERFLOW | TYPE_OVERFLOW | TYPE_INVALID

definition RANGE_CHECK_RESULT :: "bool \<Rightarrow> bool \<Rightarrow> RangeCheckResult" where
  "RANGE_CHECK_RESULT is_in_upper_bound is_in_lower_bound =
     (if is_in_upper_bound then if is_in_lower_bound then TYPE_VALID else TYPE_UNDERFLOW
      else if is_in_lower_bound then TYPE_OVERFLOW else TYPE_INVALID)"

text \<open>The comparisons have operands of type \<^verbatim>\<open>Src\<close>; promotion keeps their values.\<close>

definition RangeCheckImpl :: "ctype \<Rightarrow> ctype \<Rightarrow> int \<Rightarrow> RangeCheckResult" where
  "RangeCheckImpl Dst Src v =
     (if StaticRangeCheck Dst Src = CONTAINS_RANGE then TYPE_VALID
      else if is_signed Dst \<and> is_signed Src then
        RANGE_CHECK_RESULT (v \<le> static_cast Src (max_val Dst)) (v \<ge> static_cast Src (lowest Dst))
      else if \<not> is_signed Dst \<and> \<not> is_signed Src then
        RANGE_CHECK_RESULT (v \<le> static_cast Src (max_val Dst)) True
      else if is_signed Dst then
        if size_of Dst > size_of Src then TYPE_VALID
        else RANGE_CHECK_RESULT (v \<le> static_cast Src (max_val Dst)) True
      else if size_of Dst * 8 \<ge> size_of Src * 8 - 1 then
        RANGE_CHECK_RESULT True (v \<ge> static_cast Src 0)
      else RANGE_CHECK_RESULT (v \<le> static_cast Src (max_val Dst)) (v \<ge> static_cast Src 0))"

definition IsValueInRangeForNumericType :: "ctype \<Rightarrow> ctype \<Rightarrow> int \<Rightarrow> bool" where
  "IsValueInRangeForNumericType Dst Src v \<longleftrightarrow> RangeCheckImpl Dst Src v = TYPE_VALID"

definition checked_cast :: "ctype \<Rightarrow> ctype \<Rightarrow> int \<Rightarrow> int res" where
  "checked_cast Dst Src v =
     (if \<not> IsValueInRangeForNumericType Dst Src v then Inl DcheckFailed else Inr (static_cast Dst v))"

definition saturated_cast :: "ctype \<Rightarrow> ctype \<Rightarrow> int \<Rightarrow> int res" where
  "saturated_cast Dst Src v =
     (case RangeCheckImpl Dst Src v of
        TYPE_VALID \<Rightarrow> Inr (static_cast Dst v)
      | TYPE_UNDERFLOW \<Rightarrow> Inr (lowest Dst)
      | TYPE_OVERFLOW \<Rightarrow> Inr (max_val Dst)
      | TYPE_INVALID \<Rightarrow> Inl DcheckFailed)"

subsection \<open>Lemmas: ranges of types\<close>

definition in_type :: "ctype \<Rightarrow> int \<Rightarrow> bool" where
  "in_type t x \<longleftrightarrow> lowest t \<le> x \<and> x \<le> max_val t"

lemma static_cast_id: "in_type t x \<Longrightarrow> static_cast t x = x"
  by (cases t) (simp_all add: in_type_def static_cast_def lowest_def max_val_def)

lemma in_type_limits: "in_type t (lowest t)" "in_type t (max_val t)"
  by (cases t; simp add: in_type_def lowest_def max_val_def)+

lemma in_type_promote: "in_type t x \<Longrightarrow> in_type (promote t) x"
  by (cases t) (simp_all add: in_type_def promote_def lowest_def max_val_def)

lemma Op_exact:
  assumes "in_type (common_type t1 t2) a" and "in_type (common_type t1 t2) b"
  shows "Op f t1 t2 a b = holds f a b"
  using assms by (simp add: Op_def static_cast_id)

lemma in_common_type:
  assumes "is_signed t1 = is_signed t2" "size_of t1 \<ge> 4" "size_of t2 \<ge> 4" "in_type t1 a" "in_type t2 b"
  shows "in_type (common_type t1 t2) a" and "in_type (common_type t1 t2) b"
  using assms
  by (cases t1; cases t2; simp add: in_type_def common_type_def promote_def lowest_def max_val_def)+

subsection \<open>Lemmas: comparison\<close>

lemma holds_negative: "a < 0 \<Longrightarrow> 0 \<le> b \<Longrightarrow> holds f (- 1) 0 = holds f a b" "b < 0 \<Longrightarrow> 0 \<le> a \<Longrightarrow> holds f 0 (- 1) = holds f a b"
  by (cases f; simp)+

text \<open>Where a larger signed type exists it holds all values of the unsigned type; where none exists the type has 64 bits.\<close>

lemma LargerInt_Some:
  assumes "LargerInt u s = Some l" and "\<not> is_signed u"
  shows "is_signed l" and "size_of l \<ge> 2" and "in_type u b \<Longrightarrow> in_type l b"
  using assms by (cases u; simp add: LargerInt_def LargerIntImpl_def in_type_def lowest_def max_val_def split: if_splits)+

lemma LargerInt_None: "LargerInt u s = None \<Longrightarrow> size_of u = 8"
  by (cases u) (simp_all add: LargerInt_def LargerIntImpl_def split: if_splits)

lemma in_make_unsigned:
  assumes "in_type t a" and "0 \<le> a"
  shows "in_type (make_unsigned t) a" and "\<not> is_signed (make_unsigned t)" and "size_of (make_unsigned t) = size_of t"
  using assms by (cases t; simp add: in_type_def lowest_def max_val_def)+

lemma in_unsigned: "\<not> is_signed t \<Longrightarrow> in_type t b \<Longrightarrow> 0 \<le> b"
  by (simp add: in_type_def lowest_def)

lemma size_promote: "size_of (promote t) \<ge> 4"
  by (cases t) (simp_all add: promote_def)

lemma Op_same_sign:
  assumes "is_signed t1 = is_signed t2" "size_of t1 \<ge> 4" "size_of t2 \<ge> 4" "in_type t1 a" "in_type t2 b"
  shows "Op f t1 t2 a b = holds f a b"
  using in_common_type [OF assms] by (rule Op_exact)

lemma Op_minus_one: "Op f Int32 Int32 (- 1) 0 = holds f (- 1) 0" "Op f Int32 Int32 0 (- 1) = holds f 0 (- 1)"
  by (rule Op_same_sign; simp add: in_type_def lowest_def max_val_def)+

lemma Cmp_exact:
  assumes "size_of t1 \<ge> 4" "size_of t2 \<ge> 4" "in_type t1 a" "in_type t2 b"
  shows "Cmp f t1 t2 a b = holds f a b"
proof -
  have larger: "size_of l \<ge> 4" if "LargerInt u s = Some l" "size_of u \<ge> 4" for u s l
    using that by (cases u) (auto simp: LargerInt_def LargerIntImpl_def split: if_splits)
  consider "is_signed t1 = is_signed t2" | "is_signed t1" "\<not> is_signed t2" | "\<not> is_signed t1" "is_signed t2" by blast
  then show ?thesis
  proof cases
    case 1
    then show ?thesis using Op_same_sign [OF 1 assms] by (simp add: Cmp_def)
  next
    case 2
    show ?thesis
    proof (cases "LargerInt t2 t1")
      case None
      then show ?thesis
        using 2 assms in_unsigned [OF 2(2) assms(4)] in_make_unsigned [OF assms(3)] holds_negative(1) [of a b f]
        by (auto simp: Cmp_def Op_minus_one MakeUnsigned_def static_cast_id not_less Op_same_sign)
    next
      case (Some l)
      have "in_type l b" "is_signed l" "size_of l \<ge> 4"
        using LargerInt_Some [OF Some 2(2)] assms(4) larger [OF Some assms(2)] by blast+
      then show ?thesis
        using 2 Some assms by (auto simp: Cmp_def static_cast_id Op_same_sign)
    qed
  next
    case 3
    show ?thesis
    proof (cases "LargerInt t1 t2")
      case None
      then show ?thesis
        using 3 assms in_unsigned [OF 3(1) assms(3)] in_make_unsigned [OF assms(4)] holds_negative(2) [of b a f]
        by (auto simp: Cmp_def Op_minus_one MakeUnsigned_def static_cast_id not_less Op_same_sign)
    next
      case (Some l)
      have "in_type l a" "is_signed l" "size_of l \<ge> 4"
        using LargerInt_Some [OF Some 3(1)] assms(3) larger [OF Some assms(1)] by blast+
      then show ?thesis
        using 3 Some assms by (auto simp: Cmp_def static_cast_id Op_same_sign)
    qed
  qed
qed

lemma SafeCmp_exact:
  assumes "in_type t1 a" and "in_type t2 b"
  shows "SafeCmp f t1 t2 a b = holds f a b"
  unfolding SafeCmp_def using in_type_promote [OF assms(1)] in_type_promote [OF assms(2)]
  by (simp add: static_cast_id Cmp_exact size_promote)

subsection \<open>Lemmas: types of minima and maxima\<close>

lemmas limits_exact = SafeCmp_exact [OF in_type_limits(1) in_type_limits(1)] SafeCmp_exact [OF in_type_limits(2) in_type_limits(2)]

lemma MType_asserts_hold: "MType_asserts t1 t2"
  unfolding MType_asserts_def MType_min_def MType_max_def limits_exact
  by (cases t1; cases t2) (simp_all add: lowest_def max_val_def)

lemma MType_min_value:
  assumes "in_type t1 a" and "in_type t2 b"
  shows "in_type (MType_min t1 t2) (min a b)"
  using assms unfolding MType_min_def limits_exact
  by (cases t1; cases t2) (auto simp: in_type_def lowest_def max_val_def min_def)

lemma MType_max_value:
  assumes "in_type t1 a" and "in_type t2 b"
  shows "in_type (MType_max t1 t2) (max a b)"
  using assms unfolding MType_max_def limits_exact
  by (cases t1; cases t2) (auto simp: in_type_def lowest_def max_val_def max_def)

lemma SafeMin_exact:
  assumes "in_type t1 a" and "in_type t2 b"
  shows "SafeMin None t1 t2 a b = min a b"
  using MType_min_value [OF assms] SafeCmp_exact [OF assms, of LtOp]
  by (auto simp: SafeMin_def TypeOr_def Let_def min_def static_cast_id split: if_splits)

lemma SafeMax_exact:
  assumes "in_type t1 a" and "in_type t2 b"
  shows "SafeMax None t1 t2 a b = max a b"
  using MType_max_value [OF assms] SafeCmp_exact [OF assms, of GtOp]
  by (auto simp: SafeMax_def TypeOr_def Let_def max_def static_cast_id split: if_splits)

text \<open>A requested type that is large enough gives the same results.\<close>

lemma TypeOr_asserts_in_type:
  assumes "TypeOr_asserts (Some R) B" and "in_type B x"
  shows "in_type R x"
  using assms unfolding TypeOr_asserts_def by (auto simp: TypeOr_def limits_exact in_type_def)

lemma SafeMin_requested:
  assumes "in_type t1 a" and "in_type t2 b" and "TypeOr_asserts (Some R) (MType_min t1 t2)"
  shows "SafeMin (Some R) t1 t2 a b = min a b"
  using TypeOr_asserts_in_type [OF assms(3) MType_min_value [OF assms(1,2)]] SafeCmp_exact [OF assms(1,2), of LtOp]
  by (auto simp: SafeMin_def TypeOr_def Let_def min_def static_cast_id split: if_splits)

lemma SafeMax_requested:
  assumes "in_type t1 a" and "in_type t2 b" and "TypeOr_asserts (Some R) (MType_max t1 t2)"
  shows "SafeMax (Some R) t1 t2 a b = max a b"
  using TypeOr_asserts_in_type [OF assms(3) MType_max_value [OF assms(1,2)]] SafeCmp_exact [OF assms(1,2), of GtOp]
  by (auto simp: SafeMax_def TypeOr_def Let_def max_def static_cast_id split: if_splits)

text \<open>The range of a clamped value.\<close>

lemma r_min_eq: "snd (r_min T L H) = max (lowest L) (min (lowest H) (lowest T))" "in_type (fst (r_min T L H)) (snd (r_min T L H))"
proof -
  have m: "SafeMin None H T (lowest H) (lowest T) = min (lowest H) (lowest T)"
    "in_type (MType_min H T) (min (lowest H) (lowest T))"
    by (simp_all add: SafeMin_exact MType_min_value in_type_limits)
  then show eq: "snd (r_min T L H) = max (lowest L) (min (lowest H) (lowest T))"
    by (simp add: r_min_def Let_def SafeMax_exact in_type_limits)
  show "in_type (fst (r_min T L H)) (snd (r_min T L H))"
    unfolding eq using MType_max_value [OF in_type_limits(1) m(2), of L] by (simp add: r_min_def Let_def)
qed

lemma r_max_eq: "snd (r_max T L H) = min (max_val H) (max (max_val L) (max_val T))" "in_type (fst (r_max T L H)) (snd (r_max T L H))"
proof -
  have m: "SafeMax None L T (max_val L) (max_val T) = max (max_val L) (max_val T)"
    "in_type (MType_max L T) (max (max_val L) (max_val T))"
    by (simp_all add: SafeMax_exact MType_max_value in_type_limits)
  then show eq: "snd (r_max T L H) = min (max_val H) (max (max_val L) (max_val T))"
    by (simp add: r_max_def Let_def SafeMin_exact in_type_limits)
  show "in_type (fst (r_max T L H)) (snd (r_max T L H))"
    unfolding eq using MType_min_value [OF in_type_limits(2) m(2), of H] by (simp add: r_max_def Let_def)
qed

lemma AcceptableType_iff:
  "AcceptableType T L H A \<longleftrightarrow> (size_of A \<le> size_of L \<or> size_of A \<le> size_of H \<or> size_of A \<le> size_of T) \<and>
     lowest A \<le> max (lowest L) (min (lowest H) (lowest T)) \<and> min (max_val H) (max (max_val L) (max_val T)) \<le> max_val A"
  unfolding AcceptableType_def
  using SafeCmp_exact [OF in_type_limits(1) r_min_eq(2), of LeOp A T L H]
    SafeCmp_exact [OF r_max_eq(2) in_type_limits(2), of LeOp T L H A] r_min_eq(1) [of T L H] r_max_eq(1) [of T L H]
  by auto

lemma AcceptableType_holds:
  assumes "AcceptableType T L H A" and "in_type T x" and "in_type L lo" and "in_type H hi" and "lo \<le> hi"
  shows "in_type A (max lo (min x hi))"
  using assms unfolding AcceptableType_iff in_type_def by (auto simp: max_def min_def split: if_splits)

lemma limits_table:
  "lowest Int8 = - 128" "lowest Int16 = - 32768" "lowest Int32 = - 2147483648" "lowest Int64 = - 9223372036854775808"
  "lowest UInt8 = 0" "lowest UInt16 = 0" "lowest UInt32 = 0" "lowest UInt64 = 0"
  "max_val Int8 = 127" "max_val Int16 = 32767" "max_val Int32 = 2147483647" "max_val Int64 = 9223372036854775807"
  "max_val UInt8 = 255" "max_val UInt16 = 65535" "max_val UInt32 = 4294967295" "max_val UInt64 = 18446744073709551615"
  by (simp_all add: lowest_def max_val_def)

text \<open>One of the three types is always acceptable, and the search finds an acceptable type if there is one.\<close>

lemma some_acceptable: "AcceptableType T L H T \<or> AcceptableType T L H L \<or> AcceptableType T L H H"
  unfolding AcceptableType_iff by (cases T; cases L; cases H) (simp_all add: limits_table)

lemma ClampType_finds: "AcceptableType T L H A \<Longrightarrow> AcceptableType T L H (ClampType T L H)"
  unfolding ClampType_def best_signed_type_def best_unsigned_type_def by (cases A) auto

lemma ClampType_acceptable: "AcceptableType T L H (ClampType T L H)"
  using some_acceptable ClampType_finds by blast

lemma SafeClamp_exact:
  assumes "in_type T x" and "in_type L lo" and "in_type H hi"
  shows "SafeClamp None T L H x lo hi = (if lo \<le> hi then Inr (max lo (min x hi)) else Inl DcheckFailed)"
proof -
  have "in_type (ClampType T L H) (max lo (min x hi))" if "lo \<le> hi"
    using AcceptableType_holds [OF ClampType_acceptable assms that] .
  then show ?thesis
    using SafeCmp_exact [OF assms(2,3), of LeOp] SafeCmp_exact [OF assms(1,2), of LeOp] SafeCmp_exact [OF assms(1,3), of GeOp]
    by (auto simp: SafeClamp_def TypeOr_def Let_def max_def min_def static_cast_id split: if_splits)
qed

subsection \<open>Lemmas: conversion\<close>

lemma RangeCheck_exact:
  assumes "in_type Src v"
  shows "RangeCheckImpl Dst Src v =
    (if v < lowest Dst then TYPE_UNDERFLOW else if max_val Dst < v then TYPE_OVERFLOW else TYPE_VALID)"
  using assms
  by (cases Dst; cases Src)
    (simp_all add: RangeCheckImpl_def StaticRangeCheck_def RANGE_CHECK_RESULT_def in_type_def limits_table static_cast_def)

subsection \<open>Properties\<close>

text \<open>
  C34. The safe comparisons compare the numbers, for all six operators and all pairs of integer types, signed
  and unsigned, whatever the conversions of the language would do to the operands.
\<close>

theorem safe_compare_exact:
  assumes "in_type t1 a" and "in_type t2 b"
  shows "SafeCmp f t1 t2 a b = holds f a b"
  using assms by (rule SafeCmp_exact)

theorem safe_compare_exact_witness:
  "SafeCmp LtOp Int32 UInt64 (- 1) 5 \<and> \<not> Op LtOp Int32 UInt64 (- 1) 5"
proof -
  have "in_type Int32 (- 1)" "in_type UInt64 5" by (simp_all add: in_type_def limits_table)
  from safe_compare_exact [OF this, of LtOp] show ?thesis
    by (simp add: Op_def common_type_def promote_def static_cast_def limits_table)
qed

text \<open>
  C35. The types that the templates compute are sound: for all argument types the static assertions of
  \<^verbatim>\<open>MType\<close> and of \<^verbatim>\<open>ClampType\<close> hold, the result of \<^verbatim>\<open>SafeMin\<close>, \<^verbatim>\<open>SafeMax\<close> and \<^verbatim>\<open>SafeClamp\<close> is the
  minimum, the maximum and the clamped number, and it is a value of the computed type. A requested type
  that passes the static assertion of \<^verbatim>\<open>TypeOr\<close> gives the same numbers. \<^verbatim>\<open>SafeClamp\<close> fails exactly if the
  bounds are the wrong way round.
\<close>

theorem safe_minmax_sound:
  assumes "in_type T x" and "in_type L lo" and "in_type H hi"
  shows "MType_asserts L H \<and> AcceptableType T L H (ClampType T L H) \<and>
    SafeMin None L H lo hi = min lo hi \<and> in_type (MType_min L H) (min lo hi) \<and>
    SafeMax None L H lo hi = max lo hi \<and> in_type (MType_max L H) (max lo hi) \<and>
    (TypeOr_asserts (Some R) (MType_min L H) \<longrightarrow> SafeMin (Some R) L H lo hi = min lo hi) \<and>
    (TypeOr_asserts (Some R) (MType_max L H) \<longrightarrow> SafeMax (Some R) L H lo hi = max lo hi) \<and>
    SafeClamp None T L H x lo hi = (if lo \<le> hi then Inr (max lo (min x hi)) else Inl DcheckFailed) \<and>
    (lo \<le> hi \<longrightarrow> in_type (ClampType T L H) (max lo (min x hi)))"
  by (simp add: assms MType_asserts_hold ClampType_acceptable SafeMin_exact SafeMax_exact SafeClamp_exact
      MType_min_value MType_max_value SafeMin_requested SafeMax_requested
      AcceptableType_holds [OF ClampType_acceptable assms])

theorem safe_minmax_sound_witness:
  "SafeClamp None UInt32 Int8 Int16 4000000000 (- 5) 1000 = Inr 1000 \<and> in_type (ClampType UInt32 Int8 Int16) 1000"
proof -
  have "in_type UInt32 4000000000" "in_type Int8 (- 5)" "in_type Int16 1000" by (simp_all add: in_type_def limits_table)
  from safe_minmax_sound [OF this] show ?thesis by simp
qed



end
