(* ===== verification/AudioUtil.thy ===== *)
theory AudioUtil
  imports Prelude
begin

section \<open>Channels of audio samples\<close>

text \<open>
  The templates of \<^verbatim>\<open>common_audio/include/audio_util.h\<close> that move samples between one buffer per channel and
  one interleaved buffer, and that mix channels. A buffer is a list; the buffers that are passed to one
  call do not overlap, except in \<^verbatim>\<open>CopyAudioIfNeeded\<close>, where buffers have addresses and the same buffer may be
  source and destination. Access outside a buffer is the fault \<open>OutOfBounds\<close>.

  Mixing down is the instance for \<^verbatim>\<open>int16_t\<close> samples with \<^verbatim>\<open>int32_t\<close> sums: samples are integers
  (\<open>sample\<close> gives their range), a sum that leaves 32 bits is the fault \<open>SignedOverflow\<close>, the quotient is
  truncated. The conversions from and to floating point are left out.
\<close>

subsection \<open>Model\<close>

definition CopyAudioIfNeeded ::
  "nat list \<Rightarrow> nat \<Rightarrow> nat \<Rightarrow> nat list \<Rightarrow> (nat \<Rightarrow> 'a list) \<Rightarrow> (nat \<Rightarrow> 'a list) res" where
  "CopyAudioIfNeeded src num_frames num_channels dest =
     for_range num_channels 0 (\<lambda>i mem.
       res_bind (arr_at src i) (\<lambda>p.
       res_bind (arr_at dest i) (\<lambda>q.
       if p \<noteq> q
       then if num_frames \<le> length (mem p) \<and> num_frames \<le> length (mem q)
            then Inr (mem(q := take num_frames (mem p) @ drop num_frames (mem q)))
            else Inl OutOfBounds
       else Inr mem)))"

definition Deinterleave :: "'a list \<Rightarrow> nat \<Rightarrow> nat \<Rightarrow> 'a list list \<Rightarrow> 'a list list res" where
  "Deinterleave interleaved samples_per_channel num_channels =
     for_range num_channels 0 (\<lambda>i deinterleaved.
       res_bind (arr_at deinterleaved i) (\<lambda>channel.
       res_bind (for_range samples_per_channel 0 (\<lambda>j (interleaved_idx, channel).
           res_bind (arr_at interleaved interleaved_idx) (\<lambda>x.
           res_bind (arr_put channel j x) (\<lambda>channel.
           Inr (interleaved_idx + num_channels, channel)))) (i, channel)) (\<lambda>(_, channel).
       arr_put deinterleaved i channel)))"

definition Interleave :: "'a list list \<Rightarrow> nat \<Rightarrow> nat \<Rightarrow> 'a list \<Rightarrow> 'a list res" where
  "Interleave deinterleaved samples_per_channel num_channels =
     for_range num_channels 0 (\<lambda>i interleaved.
       res_bind (arr_at deinterleaved i) (\<lambda>channel.
       res_bind (for_range samples_per_channel 0 (\<lambda>j (interleaved_idx, interleaved).
           res_bind (arr_at channel j) (\<lambda>x.
           res_bind (arr_put interleaved interleaved_idx x) (\<lambda>interleaved.
           Inr (interleaved_idx + num_channels, interleaved)))) (i, interleaved)) (\<lambda>(_, interleaved).
       Inr interleaved)))"

text \<open>\<^verbatim>\<open>interleaved_idx\<close> is an \<^verbatim>\<open>int\<close>.\<close>

definition UpmixMonoToInterleaved :: "'a list \<Rightarrow> int \<Rightarrow> int \<Rightarrow> 'a list \<Rightarrow> 'a list res" where
  "UpmixMonoToInterleaved mono_samples num_frames num_channels interleaved =
     res_bind (for_range (nat num_frames) 0 (\<lambda>i. for_range (nat num_channels) 0 (\<lambda>j (interleaved_idx, interleaved).
       res_bind (arr_at mono_samples i) (\<lambda>x.
       res_bind (arr_put interleaved interleaved_idx x) (\<lambda>interleaved.
       if int interleaved_idx + 1 < 2 ^ 31 then Inr (interleaved_idx + 1, interleaved) else Inl SignedOverflow))))
       (0, interleaved)) (\<lambda>(_, interleaved). Inr interleaved)"

definition add32 :: "int \<Rightarrow> int \<Rightarrow> int res" where
  "add32 v x = (if - (2 ^ 31) \<le> v + x \<and> v + x < 2 ^ 31 then Inr (v + x) else Inl SignedOverflow)"

definition div32 :: "int \<Rightarrow> int \<Rightarrow> int res" where
  "div32 v n = (if n = 0 then Inl DivisionByZero
     else if v = - (2 ^ 31) \<and> n = - 1 then Inl SignedOverflow else Inr (c_div v n))"

definition to_int16 :: "int \<Rightarrow> int" where
  "to_int16 x = (x + 2 ^ 15) mod 2 ^ 16 - 2 ^ 15"

definition DownmixToMono :: "int list list \<Rightarrow> nat \<Rightarrow> int \<Rightarrow> int list \<Rightarrow> int list res" where
  "DownmixToMono input_channels num_frames num_channels =
     for_range num_frames 0 (\<lambda>i out.
       res_bind (res_bind (arr_at input_channels 0) (\<lambda>channel. arr_at channel i)) (\<lambda>value.
       res_bind (for_range (nat (num_channels - 1)) 1 (\<lambda>j value.
         res_bind (res_bind (arr_at input_channels j) (\<lambda>channel. arr_at channel i)) (add32 value)) value) (\<lambda>value.
       res_bind (div32 value num_channels) (\<lambda>q.
       arr_put out i (to_int16 q)))))"

text \<open>
  The two pointers are indices: \<open>pos\<close> into the interleaved samples, \<open>k\<close> into the result. The inner loop
  ends with \<open>pos\<close> at the end of the frame.
\<close>

function downmix_frames :: "int list \<Rightarrow> nat \<Rightarrow> nat \<Rightarrow> nat \<Rightarrow> nat \<Rightarrow> int list \<Rightarrow> int list res" where
  "downmix_frames interleaved end_pos num_channels pos k deinterleaved =
     (if pos < end_pos then
        res_bind (arr_at interleaved pos) (\<lambda>value.
        res_bind (for_range (num_channels - 1) (pos + 1) (\<lambda>p value.
          res_bind (arr_at interleaved p) (add32 value)) value) (\<lambda>value.
        res_bind (div32 value (int num_channels)) (\<lambda>q.
        res_bind (arr_put deinterleaved k (to_int16 q)) (\<lambda>deinterleaved.
        downmix_frames interleaved end_pos num_channels (pos + max 1 num_channels) (Suc k) deinterleaved))))
      else Inr deinterleaved)"
  by pat_completeness auto

termination
  by (relation "measure (\<lambda>(_, end_pos, _, pos, _). end_pos - pos)") auto

declare downmix_frames.simps [simp del]

definition DownmixInterleavedToMonoImpl :: "int list \<Rightarrow> nat \<Rightarrow> int \<Rightarrow> int list \<Rightarrow> int list res" where
  "DownmixInterleavedToMonoImpl interleaved num_frames num_channels deinterleaved =
     (if \<not> num_channels > 0 \<or> \<not> num_frames > 0 then Inl DcheckFailed
      else downmix_frames interleaved (num_frames * nat num_channels) (nat num_channels) 0 0 deinterleaved)"

subsection \<open>Lemmas: positions\<close>

lemma pos_less: "i < n \<Longrightarrow> j < m \<Longrightarrow> i + j * n < m * n" for i j m n :: nat
proof -
  assume "i < n" "j < m"
  then have "i + j * n < Suc j * n" by simp
  also have "\<dots> \<le> m * n" using \<open>j < m\<close> by (intro mult_le_mono1) simp
  finally show ?thesis .
qed

lemma pos_eq_iff: "i < n \<Longrightarrow> p = i + j * n \<longleftrightarrow> p mod n = i \<and> p div n = j" for i j n p :: nat
  by auto

lemma append_drop_update:
  "length xs < length ys \<Longrightarrow> (xs @ drop (length xs) ys)[length xs := x] = (xs @ [x]) @ drop (Suc (length xs)) ys"
  by (simp add: list_update_append Cons_nth_drop_Suc [symmetric])

lemma map_upt_update:
  assumes "k < length ys"
  shows "(map f [0..<k] @ drop k ys)[k := f k] = map f [0..<Suc k] @ drop (Suc k) ys"
  using append_drop_update [of "map f [0..<k]" ys "f k"] assms by simp

lemma nth_map_upt_drop: "k < length ys \<Longrightarrow> (map f [0..<k] @ drop k ys) ! k = ys ! k"
  by (simp add: nth_append)

subsection \<open>Lemmas: interleaving\<close>

definition gather :: "'a list \<Rightarrow> nat \<Rightarrow> nat \<Rightarrow> nat \<Rightarrow> 'a list" where
  "gather interleaved m n i = map (\<lambda>j. interleaved ! (i + j * n)) [0..<m]"

lemma Deinterleave_eq:
  assumes "m * n \<le> length il" and "n \<le> length ds" and "\<And>i. i < n \<Longrightarrow> m \<le> length (ds ! i)"
  shows "Deinterleave il m n ds = Inr (map (\<lambda>i. gather il m n i @ drop m (ds ! i)) [0..<n] @ drop n ds)"
proof -
  let ?row = "\<lambda>i. gather il m n i @ drop m (ds ! i)"
  have inner: "\<exists>s'. for_range m 0 (\<lambda>j (idx, ch). res_bind (arr_at il idx) (\<lambda>x.
      res_bind (arr_put ch j x) (\<lambda>ch. Inr (idx + n, ch)))) (i, ds ! i) = Inr s' \<and> s' = (i + m * n, ?row i)"
    if "i < n" for i
  proof -
    let ?P = "\<lambda>j s. s = (i + j * n, map (\<lambda>j. il ! (i + j * n)) [0..<j] @ drop j (ds ! i))"
    have "\<exists>s'. for_range m 0 (\<lambda>j (idx, ch). res_bind (arr_at il idx) (\<lambda>x.
      res_bind (arr_put ch j x) (\<lambda>ch. Inr (idx + n, ch)))) (i, ds ! i) = Inr s' \<and> ?P (0 + m) s'"
    proof (rule for_range_inv [where P = ?P])
      fix k s assume "k < 0 + m" and s: "?P k s"
      then have k: "k < m" "k < length (ds ! i)" "i + k * n < length il"
        using assms(3) [OF that] pos_less [OF that, of k m] assms(1) by simp_all
      then show "\<exists>s'. (case s of (idx, ch) \<Rightarrow> res_bind (arr_at il idx) (\<lambda>x.
          res_bind (arr_put ch k x) (\<lambda>ch. Inr (idx + n, ch)))) = Inr s' \<and> ?P (Suc k) s'"
        unfolding s using map_upt_update [OF k(2), of "\<lambda>j. il ! (i + j * n)"] by simp
    qed simp
    then show ?thesis by (simp add: gather_def)
  qed
  let ?Q = "\<lambda>k s. s = map ?row [0..<k] @ drop k ds"
  have "\<exists>s'. Deinterleave il m n ds = Inr s' \<and> ?Q (0 + n) s'"
    unfolding Deinterleave_def
  proof (rule for_range_inv [where P = ?Q])
    fix k s assume "k < 0 + n" and s: "?Q k s"
    then have k: "k < n" "k < length ds" using assms(2) by simp_all
    then show "\<exists>s'. res_bind (arr_at s k) (\<lambda>channel. res_bind (for_range m 0 (\<lambda>j (idx, ch). res_bind (arr_at il idx) (\<lambda>x.
        res_bind (arr_put ch j x) (\<lambda>ch. Inr (idx + n, ch)))) (k, channel)) (\<lambda>(_, ch). arr_put s k ch)) = Inr s' \<and> ?Q (Suc k) s'"
      unfolding s using inner [OF k(1)] map_upt_update [OF k(2), of ?row] nth_map_upt_drop [OF k(2), of ?row] by simp
  qed simp
  then show ?thesis by simp
qed

lemma div_less_iff_pos: "p div n < m \<longleftrightarrow> p < m * n" if "0 < n" for p m n :: nat
  using that by (rule div_less_iff_less_mult)

lemma Interleave_eq:
  assumes "m * n \<le> length il" and "n \<le> length ds" and "\<And>i. i < n \<Longrightarrow> m \<le> length (ds ! i)"
  shows "Interleave ds m n il = Inr (map (\<lambda>p. ds ! (p mod n) ! (p div n)) [0..<m * n] @ drop (m * n) il)"
proof -
  let ?f = "\<lambda>channel j (idx, out). res_bind (arr_at channel j) (\<lambda>x.
    res_bind (arr_put out idx x) (\<lambda>out. Inr (idx + n, out)))"
  have inner: "\<exists>s'. for_range m 0 (?f (ds ! i)) (i, out) = Inr s' \<and> length (snd s') = length out \<and>
      (\<forall>p<length out. snd s' ! p = (if p mod n = i \<and> p div n < m then ds ! i ! (p div n) else out ! p))"
    if i: "i < n" and out: "length out = length il" for i out
  proof -
    let ?P = "\<lambda>j s. fst s = i + j * n \<and> length (snd s) = length out \<and>
      (\<forall>p<length out. snd s ! p = (if p mod n = i \<and> p div n < j then ds ! i ! (p div n) else out ! p))"
    have "\<exists>s'. for_range m 0 (?f (ds ! i)) (i, out) = Inr s' \<and> ?P (0 + m) s'"
    proof (rule for_range_inv [where P = ?P])
      fix k s assume "k < 0 + m" and s: "?P k s"
      then have k: "k < m" "k < length (ds ! i)" "i + k * n < length out"
        using assms(3) [OF i] pos_less [OF i, of k m] assms(1) out by simp_all
      then have "?f (ds ! i) k s = Inr (i + Suc k * n, (snd s)[i + k * n := ds ! i ! k])"
        using s by (cases s) simp
      moreover have "(snd s)[i + k * n := ds ! i ! k] ! p = (if p mod n = i \<and> p div n < Suc k then ds ! i ! (p div n) else out ! p)"
        if "p < length out" for p
        using s that k(3) pos_eq_iff [OF i, of p k] by (cases "p = i + k * n") (auto simp: less_Suc_eq)
      then have "?P (Suc k) (i + Suc k * n, (snd s)[i + k * n := ds ! i ! k])" using s by simp
      ultimately show "\<exists>s'. ?f (ds ! i) k s = Inr s' \<and> ?P (Suc k) s'" by blast
    qed simp
    then show ?thesis by auto
  qed
  let ?Q = "\<lambda>k out. length out = length il \<and>
    (\<forall>p<length il. out ! p = (if p mod n < k \<and> p div n < m then ds ! (p mod n) ! (p div n) else il ! p))"
  have "\<exists>s'. Interleave ds m n il = Inr s' \<and> ?Q (0 + n) s'"
    unfolding Interleave_def
  proof (rule for_range_inv [where P = ?Q])
    fix k out assume "k < 0 + n" and q: "?Q k out"
    then have k: "k < n" "k < length ds" "length out = length il" using assms(2) by simp_all
    obtain s' where s': "for_range m 0 (?f (ds ! k)) (k, out) = Inr s'" "length (snd s') = length out"
      "\<forall>p<length out. snd s' ! p = (if p mod n = k \<and> p div n < m then ds ! k ! (p div n) else out ! p)"
      using inner [OF k(1,3)] by blast
    have "?Q (Suc k) (snd s')" using s'(2,3) q by (auto simp: less_Suc_eq)
    then show "\<exists>s'. res_bind (arr_at ds k) (\<lambda>channel. res_bind (for_range m 0 (?f channel) (k, out))
        (\<lambda>(_, out). Inr out)) = Inr s' \<and> ?Q (Suc k) s'"
      using s'(1) k(2) by (cases s') simp
  qed simp
  then obtain out where out: "Interleave ds m n il = Inr out" "?Q n out" by auto
  have "out = map (\<lambda>p. ds ! (p mod n) ! (p div n)) [0..<m * n] @ drop (m * n) il"
  proof (rule nth_equalityI)
    fix p assume "p < length out"
    then show "out ! p = (map (\<lambda>p. ds ! (p mod n) ! (p div n)) [0..<m * n] @ drop (m * n) il) ! p"
      using out(2) assms(1) by (cases "n = 0") (auto simp: nth_append div_less_iff_pos not_less)
  qed (use out(2) assms(1) in simp)
  then show ?thesis using out(1) by simp
qed

lemma gather_interleaved:
  assumes "i < n" and "m \<le> length (ds ! i)"
  shows "gather (map (\<lambda>p. ds ! (p mod n) ! (p div n)) [0..<m * n] @ ys) m n i = take m (ds ! i)"
proof (rule nth_equalityI)
  fix j assume "j < length (gather (map (\<lambda>p. ds ! (p mod n) ! (p div n)) [0..<m * n] @ ys) m n i)"
  then have "j < m" by (simp add: gather_def)
  then show "gather (map (\<lambda>p. ds ! (p mod n) ! (p div n)) [0..<m * n] @ ys) m n i ! j = take m (ds ! i) ! j"
    using assms pos_less [OF assms(1), of j m] by (simp add: gather_def nth_append)
qed (use assms in \<open>simp add: gather_def\<close>)

lemma interleave_gathered:
  assumes "m * n \<le> length il"
  shows "map (\<lambda>p. (map (\<lambda>i. gather il m n i @ zs i) [0..<n] @ rest) ! (p mod n) ! (p div n)) [0..<m * n] = take (m * n) il"
proof (rule nth_equalityI)
  fix p assume "p < length (map (\<lambda>p. (map (\<lambda>i. gather il m n i @ zs i) [0..<n] @ rest) ! (p mod n) ! (p div n)) [0..<m * n])"
  then have p: "p < m * n" by simp
  then have n: "0 < n" "p mod n < n" "p div n < m" by (cases n; simp add: div_less_iff_pos)+
  then show "map (\<lambda>p. (map (\<lambda>i. gather il m n i @ zs i) [0..<n] @ rest) ! (p mod n) ! (p div n)) [0..<m * n] ! p = take (m * n) il ! p"
    using p by (simp add: nth_append gather_def)
qed (use assms in simp)

lemma UpmixMonoToInterleaved_eq:
  assumes "m \<le> length xs" and "m * n \<le> length il" and "m * n < 2 ^ 31"
  shows "UpmixMonoToInterleaved xs (int m) (int n) il = Inr (map (\<lambda>p. xs ! (p div n)) [0..<m * n] @ drop (m * n) il)"
proof -
  let ?f = "\<lambda>p. xs ! (p div n)"
  let ?g = "\<lambda>i (j :: nat) (idx, out). res_bind (arr_at xs i) (\<lambda>x. res_bind (arr_put out idx x) (\<lambda>out.
    if int idx + 1 < 2 ^ 31 then Inr (idx + 1, out) else Inl SignedOverflow))"
  let ?R = "\<lambda>k s. s = (k, map ?f [0..<k] @ drop k il)"
  have inner: "\<exists>s'. for_range n 0 (?g i) s = Inr s' \<and> ?R (Suc i * n) s'" if i: "i < m" and s: "?R (i * n) s" for i s
  proof -
    have "\<exists>s'. for_range n 0 (?g i) s = Inr s' \<and> ?R (i * n + (0 + n)) s'"
    proof (rule for_range_inv [where P = "\<lambda>j. ?R (i * n + j)"])
      fix j s assume "j < 0 + n" and s: "?R (i * n + j) s"
      then have j: "j < n" "i * n + j < m * n" using pos_less [of j n i m] i by (simp_all add: add.commute)
      then have k: "i * n + j < length il" "(i * n + j) div n = i" using assms(2) by simp_all
      have "i * n + j < 2147483647" using Suc_leI [OF j(2)] assms(3) by simp
      with k show "\<exists>s'. ?g i j s = Inr s' \<and> ?R (i * n + Suc j) s'"
        unfolding s using map_upt_update [OF k(1), of ?f] i assms(1) by simp
    qed (use s in simp)
    then show ?thesis by (simp add: add.commute)
  qed
  have "\<exists>s'. for_range m 0 (\<lambda>i. for_range n 0 (?g i)) (0, il) = Inr s' \<and> ?R ((0 + m) * n) s'"
    by (rule for_range_inv [where P = "\<lambda>i. ?R (i * n)"]) (use inner in simp_all)
  then show ?thesis by (simp add: UpmixMonoToInterleaved_def)
qed

subsection \<open>Lemmas: mixing down\<close>

definition sample :: "int \<Rightarrow> bool" where
  "sample x \<longleftrightarrow> - 32768 \<le> x \<and> x \<le> 32767"

definition mean :: "int list \<Rightarrow> int" where
  "mean xs = c_div (sum_list xs) (int (length xs))"

lemma c_div_between:
  assumes "0 < n" and "a * n \<le> s" and "s \<le> b * n"
  shows "a \<le> c_div s n \<and> c_div s n \<le> b"
proof (cases "s < 0")
  case True
  have "(- b * n) div n \<le> (- s) div n" "(- s) div n \<le> (- a * n) div n"
    by (rule zdiv_mono1; use assms in simp)+
  moreover have "(- b * n) div n = - b" "(- a * n) div n = - a"
    by (rule nonzero_mult_div_cancel_right; use assms(1) in simp)+
  ultimately show ?thesis unfolding c_div_neg [OF True assms(1)] by simp
next
  case False
  have "(a * n) div n \<le> s div n" "s div n \<le> (b * n) div n" by (rule zdiv_mono1; use assms in simp)+
  then show ?thesis using assms(1) False by (simp add: c_div_nonneg)
qed

lemma sum_list_between:
  "(\<And>x. x \<in> set xs \<Longrightarrow> a \<le> x \<and> x \<le> b) \<Longrightarrow> a * int (length xs) \<le> sum_list xs \<and> sum_list xs \<le> b * int (length xs)"
  by (induction xs) (auto simp: algebra_simps intro: add_mono)

lemma mean_between:
  assumes "xs \<noteq> []" and "\<And>x. x \<in> set xs \<Longrightarrow> a \<le> x \<and> x \<le> b"
  shows "a \<le> mean xs \<and> mean xs \<le> b"
  unfolding mean_def using assms sum_list_between [of xs a b] by (intro c_div_between) simp_all

lemma to_int16_sample [simp]: "sample x \<Longrightarrow> to_int16 x = x"
  by (simp add: sample_def to_int16_def)

lemma div32_ok: "0 < n \<Longrightarrow> div32 v n = Inr (c_div v n)"
  by (simp add: div32_def)

lemma sum_loop:
  assumes "\<And>p. i \<le> p \<Longrightarrow> p < i + n \<Longrightarrow> get p = Inr (x p) \<and> sample (x p)" and "sample v" and "n < 65536"
  shows "for_range n i (\<lambda>p v. res_bind (get p) (add32 v)) v = Inr (v + sum_list (map x [i..<i + n]))"
proof -
  let ?P = "\<lambda>k w. w = v + sum_list (map x [i..<k])"
  have "\<exists>w. for_range n i (\<lambda>p v. res_bind (get p) (add32 v)) v = Inr w \<and> ?P (i + n) w"
  proof (rule for_range_inv [where P = ?P])
    fix k w assume k: "i \<le> k" "k < i + n" and w: "?P k w"
    let ?xs = "v # map x [i..<Suc k]"
    have "- 32768 \<le> y \<and> y \<le> 32767" if "y \<in> set ?xs" for y
      using that assms(1,2) k by (auto simp: sample_def)
    then have "- 32768 * int (length ?xs) \<le> sum_list ?xs \<and> sum_list ?xs \<le> 32767 * int (length ?xs)"
      by (rule sum_list_between)
    moreover have "w + x k = sum_list ?xs" using k(1) w by simp
    moreover have "int (length ?xs) \<le> 65536" using k assms(3) by simp
    ultimately have "add32 w (x k) = Inr (w + x k)" by (simp add: add32_def)
    then show "\<exists>w'. res_bind (get k) (add32 w) = Inr w' \<and> ?P (Suc k) w'"
      using assms(1) [OF k] k(1) w by simp
  qed simp
  then show ?thesis by simp
qed

text \<open>The sum and the mean of one frame, whose first sample is read before the loop.\<close>

lemma frame_mean:
  assumes "0 < n" and "n \<le> 65536" and "\<And>p. i \<le> p \<Longrightarrow> p < i + n \<Longrightarrow> get p = Inr (x p) \<and> sample (x p)"
  shows "res_bind (get i) (\<lambda>v. res_bind (for_range (n - 1) (Suc i) (\<lambda>p v. res_bind (get p) (add32 v)) v) (\<lambda>v.
     res_bind (div32 v (int n)) (\<lambda>q. f (to_int16 q)))) = f (mean (map x [i..<i + n]))"
proof -
  have i: "get i = Inr (x i)" "sample (x i)" using assms(1,3) by simp_all
  have "for_range (n - 1) (Suc i) (\<lambda>p v. res_bind (get p) (add32 v)) (x i) =
      Inr (x i + sum_list (map x [Suc i..<Suc i + (n - 1)]))"
    by (rule sum_loop) (use assms i in simp_all)
  moreover have "x i + sum_list (map x [Suc i..<Suc i + (n - 1)]) = sum_list (map x [i..<i + n])"
    using assms(1) by (simp add: upt_rec [of i "i + n"])
  moreover have "sample (mean (map x [i..<i + n]))"
    unfolding sample_def by (rule mean_between) (use assms(1,3) in \<open>auto simp: sample_def\<close>)
  ultimately show ?thesis using i(1) assms(1) by (simp add: div32_ok mean_def)
qed

text \<open>Channels hold enough samples, all of them in range.\<close>

definition channels_ok :: "nat \<Rightarrow> nat \<Rightarrow> int list list \<Rightarrow> bool" where
  "channels_ok m n ds \<longleftrightarrow> n \<le> length ds \<and> (\<forall>i<n. m \<le> length (ds ! i) \<and> (\<forall>j<m. sample (ds ! i ! j)))"

lemma DownmixToMono_eq:
  assumes "0 < n" and "n \<le> 65536" and "channels_ok m n ds" and "m \<le> length out"
  shows "DownmixToMono ds m (int n) out = Inr (map (\<lambda>i. mean (map (\<lambda>j. ds ! j ! i) [0..<n])) [0..<m] @ drop m out)"
proof -
  let ?f = "\<lambda>i. mean (map (\<lambda>j. ds ! j ! i) [0..<n])"
  let ?get = "\<lambda>i j. res_bind (arr_at ds j) (\<lambda>channel. arr_at channel i)"
  let ?P = "\<lambda>k s. s = map ?f [0..<k] @ drop k out"
  have round: "res_bind (?get i 0) (\<lambda>v. res_bind (for_range (nat (int n - 1)) 1 (\<lambda>j v. res_bind (?get i j) (add32 v)) v) (\<lambda>v.
      res_bind (div32 v (int n)) (\<lambda>q. g (to_int16 q)))) = g (?f i)" if "i < m" for i and g :: "int \<Rightarrow> int list res"
  proof -
    have "?get i j = Inr (ds ! j ! i) \<and> sample (ds ! j ! i)" if "j < n" for j
      using assms(3) \<open>i < m\<close> that by (auto simp: channels_ok_def)
    then show ?thesis
      using frame_mean [OF assms(1,2), of 0 "?get i" "\<lambda>j. ds ! j ! i" g] by (simp add: nat_diff_distrib')
  qed
  have "\<exists>s'. DownmixToMono ds m (int n) out = Inr s' \<and> ?P (0 + m) s'"
    unfolding DownmixToMono_def
  proof (rule for_range_inv [where P = ?P])
    fix k s assume "k < 0 + m" and s: "?P k s"
    then have k: "k < m" "k < length out" using assms(4) by simp_all
    show "\<exists>s'. res_bind (?get k 0) (\<lambda>v. res_bind (for_range (nat (int n - 1)) 1 (\<lambda>j v. res_bind (?get k j) (add32 v)) v) (\<lambda>v.
        res_bind (div32 v (int n)) (\<lambda>q. arr_put s k (to_int16 q)))) = Inr s' \<and> ?P (Suc k) s'"
      unfolding round [OF k(1)] s using map_upt_update [OF k(2), of ?f] k(2) by simp
  qed simp
  then show ?thesis by simp
qed

lemma downmix_frames_eq:
  assumes "0 < n" and "n \<le> 65536" and "m * n \<le> length il" and "\<And>p. p < m * n \<Longrightarrow> sample (il ! p)"
    and "m \<le> length out" and "k \<le> m"
  shows "downmix_frames il (m * n) n (k * n) k (map (\<lambda>i. mean (map ((!) il) [i * n..<i * n + n])) [0..<k] @ drop k out) =
    Inr (map (\<lambda>i. mean (map ((!) il) [i * n..<i * n + n])) [0..<m] @ drop m out)"
  using assms(6)
proof (induction k rule: inc_induct)
  case base
  show ?case by (subst downmix_frames.simps) simp
next
  case (step k)
  let ?f = "\<lambda>i. mean (map ((!) il) [i * n..<i * n + n])"
  let ?out = "map ?f [0..<k] @ drop k out"
  have less: "k * n < m * n" using step.hyps assms(1) by simp
  have "k * n + n \<le> m * n" using mult_le_mono1 [of "Suc k" m n] step.hyps by simp
  then have get: "arr_at il p = Inr (il ! p) \<and> sample (il ! p)" if "p < k * n + n" for p
    using that assms(3,4) by simp
  have k: "k < length out" using step.hyps assms(5) by simp
  have "downmix_frames il (m * n) n (k * n) k ?out =
      res_bind (arr_put ?out k (?f k)) (downmix_frames il (m * n) n (Suc k * n) (Suc k))"
    using less assms(1) frame_mean [OF assms(1,2), of "k * n" "arr_at il" "(!) il"
        "\<lambda>q. res_bind (arr_put ?out k q) (downmix_frames il (m * n) n (Suc k * n) (Suc k))"] get
    by (subst downmix_frames.simps) (simp add: max_def add.commute)
  also have "\<dots> = downmix_frames il (m * n) n (Suc k * n) (Suc k) (map ?f [0..<Suc k] @ drop (Suc k) out)"
    using map_upt_update [OF k, of ?f] k by simp
  finally show ?case using step.IH by simp
qed

lemma DownmixInterleavedToMonoImpl_eq:
  assumes "0 < n" and "n \<le> 65536" and "0 < m" and "m * n \<le> length il" and "\<And>p. p < m * n \<Longrightarrow> sample (il ! p)"
    and "m \<le> length out"
  shows "DownmixInterleavedToMonoImpl il m (int n) out =
    Inr (map (\<lambda>i. mean (map ((!) il) [i * n..<i * n + n])) [0..<m] @ drop m out)"
  using downmix_frames_eq [OF assms(1,2,4-6), of 0] assms(1,3) by (simp add: DownmixInterleavedToMonoImpl_def)

text \<open>Mixing down a buffer whose samples are given by their positions.\<close>

lemma DownmixInterleaved_map:
  assumes "0 < n" and "n \<le> 65536" and "0 < m" and "\<And>p. p < m * n \<Longrightarrow> sample (g p)" and "m \<le> length out"
  shows "DownmixInterleavedToMonoImpl (map g [0..<m * n] @ ys) m (int n) out =
    Inr (map (\<lambda>i. mean (map (\<lambda>j. g (i * n + j)) [0..<n])) [0..<m] @ drop m out)"
proof -
  let ?il = "map g [0..<m * n] @ ys"
  have "DownmixInterleavedToMonoImpl ?il m (int n) out =
      Inr (map (\<lambda>i. mean (map ((!) ?il) [i * n..<i * n + n])) [0..<m] @ drop m out)"
    by (rule DownmixInterleavedToMonoImpl_eq [OF assms(1-3)]) (use assms(4,5) in \<open>simp_all add: nth_append\<close>)
  moreover have "map ((!) ?il) [i * n..<i * n + n] = map (\<lambda>j. g (i * n + j)) [0..<n]" if "i < m" for i
    using pos_less [OF _ that, of _ n] by (intro nth_equalityI) (simp_all add: nth_append add.commute)
  ultimately show ?thesis by (simp cong: map_cong)
qed

lemma mean_replicate: "xs \<noteq> [] \<Longrightarrow> (\<And>x. x \<in> set xs \<Longrightarrow> x = a) \<Longrightarrow> mean xs = a"
  using mean_between [of xs a a] by (simp add: order_antisym)

lemma downmix_upmixed:
  assumes "0 < n" and "n \<le> 65536" and "0 < m" and "m \<le> length xs" and "\<And>i. i < m \<Longrightarrow> sample (xs ! i)"
    and "m * n \<le> length il" and "m \<le> length out" and "m * n < 2 ^ 31"
  shows "res_bind (UpmixMonoToInterleaved xs (int m) (int n) il) (\<lambda>il. DownmixInterleavedToMonoImpl il m (int n) out) =
    Inr (take m xs @ drop m out)"
proof -
  have "mean (map (\<lambda>j. xs ! ((i * n + j) div n)) [0..<n]) = xs ! i" for i
    by (rule mean_replicate) (use assms(1) in auto)
  moreover have "map ((!) xs) [0..<m] = take m xs" using assms(4) by (intro nth_equalityI) simp_all
  ultimately show ?thesis
    unfolding UpmixMonoToInterleaved_eq [OF assms(4,6,8)]
    using DownmixInterleaved_map [OF assms(1-3) _ assms(7)] assms(1,5) by (simp add: div_less_iff_pos)
qed

text \<open>
  \<^verbatim>\<open>CopyAudioIfNeeded\<close> copies every channel whose buffers differ, and nothing else, when no buffer is the
  destination of one channel and used by another.
\<close>

theorem CopyAudioIfNeeded_copies:
  assumes "n \<le> length src" and "n \<le> length dest" and "distinct (take n dest)"
    and "\<And>i j. i < n \<Longrightarrow> j < n \<Longrightarrow> i \<noteq> j \<Longrightarrow> src ! i \<noteq> dest ! j"
    and "\<And>i. i < n \<Longrightarrow> m \<le> length (mem (src ! i)) \<and> m \<le> length (mem (dest ! i))"
  shows "\<exists>mem'. CopyAudioIfNeeded src m n dest mem = Inr mem' \<and>
    (\<forall>i<n. mem' (dest ! i) = take m (mem (src ! i)) @ drop m (mem (dest ! i))) \<and>
    (\<forall>q. q \<notin> set (take n dest) \<longrightarrow> mem' q = mem q)"
proof -
  let ?P = "\<lambda>k mem'. (\<forall>i<k. mem' (dest ! i) = take m (mem (src ! i)) @ drop m (mem (dest ! i))) \<and>
    (\<forall>q. q \<notin> set (take k dest) \<longrightarrow> mem' q = mem q)"
  have "\<exists>mem'. CopyAudioIfNeeded src m n dest mem = Inr mem' \<and> ?P (0 + n) mem'"
    unfolding CopyAudioIfNeeded_def
  proof (rule for_range_inv [where P = ?P])
    fix k mem' assume "k < 0 + n" and P: "?P k mem'"
    then have k: "k < n" "k < length src" "k < length dest" using assms(1,2) by simp_all
    have dest: "dest ! i \<noteq> dest ! k" if "i < k" for i
      using nth_eq_iff_index_eq [OF assms(3), of i k] that k by simp
    moreover have "dest ! i \<noteq> src ! k" if "i < k" for i using assms(4) [OF k(1), of i] that k(1) by simp
    ultimately have fresh: "dest ! k \<notin> set (take k dest)" "src ! k \<notin> set (take k dest)"
      using k by (auto simp: in_set_conv_nth)
    define new where "new = (if src ! k \<noteq> dest ! k
      then mem'(dest ! k := take m (mem (src ! k)) @ drop m (mem (dest ! k))) else mem')"
    have same: "mem' (dest ! k) = mem (dest ! k)" "mem' (src ! k) = mem (src ! k)" using P fresh by blast+
    have "new (dest ! k) = take m (mem (src ! k)) @ drop m (mem (dest ! k))"
      using same by (auto simp: new_def)
    then have "new (dest ! i) = take m (mem (src ! i)) @ drop m (mem (dest ! i))" if "i < Suc k" for i
      using that P dest by (cases "i = k") (auto simp: new_def)
    moreover have "new q = mem q" if "q \<notin> set (take (Suc k) dest)" for q
      using that P k(3) by (auto simp: new_def take_Suc_conv_app_nth)
    ultimately have "?P (Suc k) new" by blast
    then show "\<exists>s'. res_bind (arr_at src k) (\<lambda>p. res_bind (arr_at dest k) (\<lambda>q. if p \<noteq> q
       then if m \<le> length (mem' p) \<and> m \<le> length (mem' q) then Inr (mem'(q := take m (mem' p) @ drop m (mem' q))) else Inl OutOfBounds
       else Inr mem')) = Inr s' \<and> ?P (Suc k) s'"
      using k(2,3) assms(5) [OF k(1)] same by (intro exI [of _ new]) (simp add: new_def)
  qed simp
  then show ?thesis by simp
qed

subsection \<open>Properties\<close>

text \<open>
  C37. Interleaving and deinterleaving are inverse to each other: the samples of the channels come back from
  the interleaved buffer, and an interleaved buffer comes back from its channels; what lies behind the
  samples in the target buffers stays. Nothing is read or written outside the buffers.
\<close>

theorem interleave_roundtrip:
  assumes "m * n \<le> length il" and "n \<le> length ds" and "\<And>i. i < n \<Longrightarrow> m \<le> length (ds ! i)"
    and "n \<le> length es" and "\<And>i. i < n \<Longrightarrow> m \<le> length (es ! i)" and "m * n \<le> length jl"
  shows "res_bind (Interleave ds m n il) (\<lambda>il. Deinterleave il m n es) =
      Inr (map (\<lambda>i. take m (ds ! i) @ drop m (es ! i)) [0..<n] @ drop n es) \<and>
    res_bind (Deinterleave il m n es) (\<lambda>es. Interleave es m n jl) = Inr (take (m * n) il @ drop (m * n) jl)"
proof
  let ?il = "map (\<lambda>p. ds ! (p mod n) ! (p div n)) [0..<m * n] @ drop (m * n) il"
  have "Deinterleave ?il m n es = Inr (map (\<lambda>i. gather ?il m n i @ drop m (es ! i)) [0..<n] @ drop n es)"
    by (rule Deinterleave_eq [OF _ assms(4,5)]) simp_all
  also have "map (\<lambda>i. gather ?il m n i @ drop m (es ! i)) [0..<n] = map (\<lambda>i. take m (ds ! i) @ drop m (es ! i)) [0..<n]"
    using gather_interleaved [OF _ assms(3)] by simp
  finally have "Deinterleave ?il m n es = Inr (map (\<lambda>i. take m (ds ! i) @ drop m (es ! i)) [0..<n] @ drop n es)" .
  moreover have "Interleave ds m n il = Inr ?il" by (rule Interleave_eq [OF assms(1-3)])
  ultimately show "res_bind (Interleave ds m n il) (\<lambda>il. Deinterleave il m n es) =
      Inr (map (\<lambda>i. take m (ds ! i) @ drop m (es ! i)) [0..<n] @ drop n es)"
    by (simp only: res_bind_Inr)
next
  let ?es = "map (\<lambda>i. gather il m n i @ drop m (es ! i)) [0..<n] @ drop n es"
  have "Interleave ?es m n jl = Inr (map (\<lambda>p. ?es ! (p mod n) ! (p div n)) [0..<m * n] @ drop (m * n) jl)"
    by (rule Interleave_eq [OF assms(6)]) (use assms(4) in \<open>simp_all add: nth_append gather_def\<close>)
  then have "Interleave ?es m n jl = Inr (take (m * n) il @ drop (m * n) jl)"
    by (simp only: interleave_gathered [OF assms(1)])
  moreover have "Deinterleave il m n es = Inr ?es" by (rule Deinterleave_eq [OF assms(1,4,5)])
  ultimately show "res_bind (Deinterleave il m n es) (\<lambda>es. Interleave es m n jl) = Inr (take (m * n) il @ drop (m * n) jl)"
    by (simp only: res_bind_Inr)
qed

theorem interleave_roundtrip_witness:
  "res_bind (Interleave [[1 :: int, 2, 3], [4, 5, 6]] 3 2 [0, 0, 0, 0, 0, 0, 9]) (\<lambda>il. Deinterleave il 3 2 [[0, 0, 0], [0, 0, 0, 7]]) =
     Inr [[1, 2, 3], [4, 5, 6, 7]]"
  using interleave_roundtrip [of 3 2 "[0 :: int, 0, 0, 0, 0, 0, 9]" "[[1, 2, 3], [4, 5, 6]]" "[[0, 0, 0], [0, 0, 0, 7]]" "[0, 0, 0, 0, 0, 0]"]
  by (simp add: nth_Cons' upt_rec)

text \<open>
  C38. The two ways of mixing down agree: mixing channels directly is the same as interleaving them and mixing
  the interleaved buffer. With at most 65536 channels no sum overflows, and every mixed sample lies between
  the least and the greatest sample of its frame. Mixing down what was mixed up gives the signal back.
\<close>

theorem downmix_agrees:
  assumes "0 < n" and "n \<le> 65536" and "0 < m" and "channels_ok m n ds" and "m * n \<le> length il" and "m \<le> length out"
  shows "\<exists>res. DownmixToMono ds m (int n) out = Inr res \<and>
    res_bind (Interleave ds m n il) (\<lambda>il. DownmixInterleavedToMonoImpl il m (int n) out) = Inr res \<and>
    (\<forall>i<m. \<forall>a b. (\<forall>j<n. a \<le> ds ! j ! i \<and> ds ! j ! i \<le> b) \<longrightarrow> a \<le> res ! i \<and> res ! i \<le> b) \<and>
    (m * n < 2 ^ 31 \<longrightarrow>
       res_bind (UpmixMonoToInterleaved (hd ds) (int m) (int n) il) (\<lambda>il. DownmixInterleavedToMonoImpl il m (int n) out) =
         Inr (take m (hd ds) @ drop m out))"
proof -
  let ?res = "map (\<lambda>i. mean (map (\<lambda>j. ds ! j ! i) [0..<n])) [0..<m] @ drop m out"
  have ds: "n \<le> length ds" "\<And>i. i < n \<Longrightarrow> m \<le> length (ds ! i)" "\<And>i j. i < n \<Longrightarrow> j < m \<Longrightarrow> sample (ds ! i ! j)"
    using assms(4) by (auto simp: channels_ok_def)
  have pos: "(i * n + j) mod n = j \<and> (i * n + j) div n = i" if "j < n" for i j using that by simp
  have eq: "map (\<lambda>j. ds ! ((i * n + j) mod n) ! ((i * n + j) div n)) [0..<n] = map (\<lambda>j. ds ! j ! i) [0..<n]" for i
    by (rule map_cong [OF refl]) (simp add: pos)
  have "DownmixInterleavedToMonoImpl (map (\<lambda>p. ds ! (p mod n) ! (p div n)) [0..<m * n] @ drop (m * n) il) m (int n) out = Inr ?res"
    unfolding eq [symmetric]
    by (rule DownmixInterleaved_map [OF assms(1-3) _ assms(6)]) (use ds(3) assms(1) in \<open>simp add: div_less_iff_pos\<close>)
  moreover have "Interleave ds m n il = Inr (map (\<lambda>p. ds ! (p mod n) ! (p div n)) [0..<m * n] @ drop (m * n) il)"
    by (rule Interleave_eq [OF assms(5) ds(1,2)])
  ultimately have il: "res_bind (Interleave ds m n il) (\<lambda>il. DownmixInterleavedToMonoImpl il m (int n) out) = Inr ?res"
    by (simp only: res_bind_Inr)
  have between: "a \<le> ?res ! i \<and> ?res ! i \<le> b" if "i < m" "\<forall>j<n. a \<le> ds ! j ! i \<and> ds ! j ! i \<le> b" for i a b
  proof -
    have "a \<le> mean (map (\<lambda>j. ds ! j ! i) [0..<n]) \<and> mean (map (\<lambda>j. ds ! j ! i) [0..<n]) \<le> b"
      by (rule mean_between) (use that(2) assms(1) in auto)
    then show ?thesis using that(1) by (simp add: nth_append)
  qed
  have hd: "hd ds = ds ! 0" using ds(1) assms(1) by (intro hd_conv_nth) auto
  show ?thesis
    using DownmixToMono_eq [OF assms(1,2,4,6)] il between
      downmix_upmixed [OF assms(1-3) ds(2) [OF assms(1), folded hd] _ assms(5,6)] ds(3) [OF assms(1), folded hd] by blast
qed

theorem downmix_agrees_witness:
  "\<exists>res. DownmixToMono [[100, - 7], [50, 32767]] 2 2 [0, 0, 5] = Inr res \<and> 50 \<le> res ! 0 \<and> res ! 0 \<le> 100"
proof -
  have "channels_ok 2 2 [[100, - 7], [50, 32767]]"
    by (simp add: channels_ok_def sample_def less_2_cases_iff)
  from downmix_agrees [OF _ _ _ this, of "[0, 0, 0, 0]" "[0, 0, 5]"]
  obtain res where res: "DownmixToMono [[100, - 7], [50, 32767]] 2 2 [0, 0, 5] = Inr res"
    "\<forall>i<2. \<forall>a b. (\<forall>j<2. a \<le> [[100, - 7], [50, 32767]] ! j ! i \<and> [[100, - 7], [50, 32767]] ! j ! i \<le> b) \<longrightarrow>
       a \<le> res ! i \<and> res ! i \<le> b"
    by auto
  have "\<forall>j<2. 50 \<le> [[100, - 7], [50, 32767 :: int]] ! j ! 0 \<and> [[100, - 7], [50, 32767 :: int]] ! j ! 0 \<le> 100"
    by (simp add: less_2_cases_iff)
  with res(2) [rule_format, of 0 50 100] res(1) show ?thesis by simp
qed

end
