(* ===== verification/Counters.thy ===== *)
theory Counters
  imports Prelude "HOL-Library.Multiset"
begin

section \<open>Packet counters\<close>

text \<open>
  The counters of RTP and RTCP streams: \<^verbatim>\<open>RtpPacketCounter\<close> and \<^verbatim>\<open>StreamDataCounters\<close> of
  \<^verbatim>\<open>modules/rtp_rtcp/include/rtp_rtcp_defines.h\<close> and \<^verbatim>\<open>RtcpPacketTypeCounter\<close> of
  \<^verbatim>\<open>modules/rtp_rtcp/include/rtcp_statistics.h\<close>. Counts are unsigned words that wrap around; times are
  64-bit signed milliseconds, with -1 for none. Debug checks are on. \<^verbatim>\<open>AddPacket\<close> and the constructor of
  \<^verbatim>\<open>StreamDataCounters\<close> are compiled elsewhere, and \<^verbatim>\<open>UniqueNackRequestsInPercent\<close> computes with floating
  point; they are left out.

  The lemmas show that adding counters is the sum in every field and the earliest time, in whatever order
  the counters are added, and when subtracting undoes adding.
\<close>

subsection \<open>RtpPacketCounter\<close>

record RtpPacketCounter =
  header_bytes :: "64 word"
  payload_bytes :: "64 word"
  padding_bytes :: "64 word"
  packets :: "32 word"

definition RtpPacketCounter_new :: RtpPacketCounter where
  "RtpPacketCounter_new = \<lparr>header_bytes = 0, payload_bytes = 0, padding_bytes = 0, packets = 0\<rparr>"

definition rpc_Add :: "RtpPacketCounter \<Rightarrow> RtpPacketCounter \<Rightarrow> RtpPacketCounter" where
  "rpc_Add other this = this\<lparr>
     header_bytes := header_bytes this + header_bytes other,
     payload_bytes := payload_bytes this + payload_bytes other,
     padding_bytes := padding_bytes this + padding_bytes other,
     packets := packets this + packets other\<rparr>"

definition rpc_Subtract :: "RtpPacketCounter \<Rightarrow> RtpPacketCounter \<Rightarrow> RtpPacketCounter res" where
  "rpc_Subtract other this =
     (if \<not> header_bytes this \<ge> header_bytes other then Inl DcheckFailed else
      let this = this\<lparr>header_bytes := header_bytes this - header_bytes other\<rparr> in
      if \<not> payload_bytes this \<ge> payload_bytes other then Inl DcheckFailed else
      let this = this\<lparr>payload_bytes := payload_bytes this - payload_bytes other\<rparr> in
      if \<not> padding_bytes this \<ge> padding_bytes other then Inl DcheckFailed else
      let this = this\<lparr>padding_bytes := padding_bytes this - padding_bytes other\<rparr> in
      if \<not> packets this \<ge> packets other then Inl DcheckFailed else
      Inr (this\<lparr>packets := packets this - packets other\<rparr>))"

definition rpc_eq :: "RtpPacketCounter \<Rightarrow> RtpPacketCounter \<Rightarrow> bool" where
  "rpc_eq this other \<longleftrightarrow> header_bytes this = header_bytes other \<and> payload_bytes this = payload_bytes other \<and>
     padding_bytes this = padding_bytes other \<and> packets this = packets other"

definition TotalBytes :: "RtpPacketCounter \<Rightarrow> 64 word" where
  "TotalBytes this = header_bytes this + payload_bytes this + padding_bytes this"

subsection \<open>StreamDataCounters\<close>

text \<open>
  The two rules for the time of the first packet, which \<^verbatim>\<open>StreamDataCounters\<close> and \<^verbatim>\<open>RtcpPacketTypeCounter\<close>
  have in the same words: \<^verbatim>\<open>Add\<close> uses the oldest time, \<^verbatim>\<open>Subtract\<close> the youngest.
\<close>

definition oldest_time :: "int \<Rightarrow> int \<Rightarrow> int" where
  "oldest_time other this = (if other \<noteq> - 1 \<and> (other < this \<or> this = - 1) then other else this)"

definition youngest_time :: "int \<Rightarrow> int \<Rightarrow> int" where
  "youngest_time other this = (if other \<noteq> - 1 \<and> (other > this \<or> this = - 1) then other else this)"

definition in_int64 :: "int \<Rightarrow> bool" where
  "in_int64 x \<longleftrightarrow> - (2 ^ 63) \<le> x \<and> x < 2 ^ 63"

definition time_since :: "int \<Rightarrow> int \<Rightarrow> int res" where
  "time_since now_ms first_ms =
     (if first_ms = - 1 then Inr (- 1)
      else if in_int64 (now_ms - first_ms) then Inr (now_ms - first_ms) else Inl SignedOverflow)"

record StreamDataCounters =
  first_packet_time_ms :: int
  last_packet_received_timestamp_ms :: "int option"
  transmitted :: RtpPacketCounter
  retransmitted :: RtpPacketCounter
  fec :: RtpPacketCounter

definition sdc_Add :: "StreamDataCounters \<Rightarrow> StreamDataCounters \<Rightarrow> StreamDataCounters" where
  "sdc_Add other this = this\<lparr>
     transmitted := rpc_Add (transmitted other) (transmitted this),
     retransmitted := rpc_Add (retransmitted other) (retransmitted this),
     fec := rpc_Add (fec other) (fec this),
     first_packet_time_ms := oldest_time (first_packet_time_ms other) (first_packet_time_ms this)\<rparr>"

definition sdc_Subtract :: "StreamDataCounters \<Rightarrow> StreamDataCounters \<Rightarrow> StreamDataCounters res" where
  "sdc_Subtract other this =
     res_bind (rpc_Subtract (transmitted other) (transmitted this)) (\<lambda>t.
     res_bind (rpc_Subtract (retransmitted other) (retransmitted this)) (\<lambda>r.
     res_bind (rpc_Subtract (fec other) (fec this)) (\<lambda>f.
     Inr (this\<lparr>transmitted := t, retransmitted := r, fec := f,
       first_packet_time_ms := youngest_time (first_packet_time_ms other) (first_packet_time_ms this)\<rparr>))))"

definition sdc_TimeSinceFirstPacketInMs :: "int \<Rightarrow> StreamDataCounters \<Rightarrow> int res" where
  "sdc_TimeSinceFirstPacketInMs now_ms this = time_since now_ms (first_packet_time_ms this)"

definition MediaPayloadBytes :: "StreamDataCounters \<Rightarrow> 64 word" where
  "MediaPayloadBytes this =
     payload_bytes (transmitted this) - payload_bytes (retransmitted this) - payload_bytes (fec this)"

subsection \<open>RtcpPacketTypeCounter\<close>

record RtcpPacketTypeCounter =
  rtcp_first_packet_time_ms :: int
  nack_packets :: "32 word"
  fir_packets :: "32 word"
  pli_packets :: "32 word"
  nack_requests :: "32 word"
  unique_nack_requests :: "32 word"

definition RtcpPacketTypeCounter_new :: RtcpPacketTypeCounter where
  "RtcpPacketTypeCounter_new = \<lparr>rtcp_first_packet_time_ms = - 1, nack_packets = 0, fir_packets = 0,
     pli_packets = 0, nack_requests = 0, unique_nack_requests = 0\<rparr>"

definition rtcp_Add :: "RtcpPacketTypeCounter \<Rightarrow> RtcpPacketTypeCounter \<Rightarrow> RtcpPacketTypeCounter" where
  "rtcp_Add other this = this\<lparr>
     nack_packets := nack_packets this + nack_packets other,
     fir_packets := fir_packets this + fir_packets other,
     pli_packets := pli_packets this + pli_packets other,
     nack_requests := nack_requests this + nack_requests other,
     unique_nack_requests := unique_nack_requests this + unique_nack_requests other,
     rtcp_first_packet_time_ms := oldest_time (rtcp_first_packet_time_ms other) (rtcp_first_packet_time_ms this)\<rparr>"

definition rtcp_Subtract :: "RtcpPacketTypeCounter \<Rightarrow> RtcpPacketTypeCounter \<Rightarrow> RtcpPacketTypeCounter" where
  "rtcp_Subtract other this = this\<lparr>
     nack_packets := nack_packets this - nack_packets other,
     fir_packets := fir_packets this - fir_packets other,
     pli_packets := pli_packets this - pli_packets other,
     nack_requests := nack_requests this - nack_requests other,
     unique_nack_requests := unique_nack_requests this - unique_nack_requests other,
     rtcp_first_packet_time_ms := youngest_time (rtcp_first_packet_time_ms other) (rtcp_first_packet_time_ms this)\<rparr>"

definition rtcp_TimeSinceFirstPacketInMs :: "int \<Rightarrow> RtcpPacketTypeCounter \<Rightarrow> int res" where
  "rtcp_TimeSinceFirstPacketInMs now_ms this = time_since now_ms (rtcp_first_packet_time_ms this)"

subsection \<open>Accumulation\<close>

text \<open>
  What is common to the three classes: a type of counters with an operation that adds one to another. When
  the operation is commutative and associative, a total does not depend on the order of the additions.
\<close>

locale accumulator =
  fixes add :: "'c \<Rightarrow> 'c \<Rightarrow> 'c"
  assumes add_assoc: "add a (add b c) = add (add a b) c"
    and add_swap: "add a (add b c) = add b (add a c)"
begin

lemma total_any_order:
  assumes "mset cs = mset ds"
  shows "fold add cs c = fold add ds c"
proof -
  have "fold add cs = fold add ds"
  proof (rule fold_multiset_equiv [OF _ assms])
    show "add a \<circ> add b = add b \<circ> add a" for a b by (rule ext) (simp add: add_swap [of a b])
  qed
  then show ?thesis by simp
qed

text \<open>Adding a subtotal is adding what it is made of.\<close>

lemma add_subtotal: "add (fold add cs c) d = fold add cs (add c d)"
proof (induction cs arbitrary: c)
  case (Cons b cs)
  have "fold add cs (add (add b c) d) = fold add cs (add b (add c d))" by (simp only: add_assoc)
  then show ?case using Cons.IH [of "add b c"] by simp
qed simp

end

subsection \<open>Lemmas\<close>

lemmas rpc_simps = rpc_Add_def rpc_Subtract_def TotalBytes_def

lemma oldest_assoc: "oldest_time a (oldest_time b c) = oldest_time (oldest_time a b) c"
  by (auto simp: oldest_time_def)

lemma oldest_commute: "oldest_time a b = oldest_time b a"
  by (auto simp: oldest_time_def)

lemma youngest_oldest: "youngest_time b (oldest_time b a) = (if b = - 1 then a else b)"
  by (simp add: youngest_time_def oldest_time_def)

lemma rpc_Add_assoc: "rpc_Add a (rpc_Add b c) = rpc_Add (rpc_Add a b) c"
  by (simp add: rpc_Add_def ac_simps)

lemma rpc_Add_commute: "rpc_Add a b = rpc_Add b a"
  by (cases a; cases b) (simp add: rpc_Add_def ac_simps)

interpretation stream_counters: accumulator sdc_Add
proof unfold_locales
  show "sdc_Add a (sdc_Add b c) = sdc_Add (sdc_Add a b) c" for a b c
    by (simp add: sdc_Add_def rpc_Add_assoc oldest_assoc)
  show "sdc_Add a (sdc_Add b c) = sdc_Add b (sdc_Add a c)" for a b c
    unfolding sdc_Add_def by (simp add: rpc_Add_assoc oldest_assoc)
      (simp only: rpc_Add_commute [of "_ a" "_ b"] oldest_commute [of "_ a" "_ b"])
qed

interpretation rtcp_counters: accumulator rtcp_Add
proof unfold_locales
  show "rtcp_Add a (rtcp_Add b c) = rtcp_Add (rtcp_Add a b) c" for a b c
    by (simp add: rtcp_Add_def oldest_assoc ac_simps)
  show "rtcp_Add a (rtcp_Add b c) = rtcp_Add b (rtcp_Add a c)" for a b c
    unfolding rtcp_Add_def by (simp add: oldest_assoc ac_simps) (simp only: oldest_commute [of "_ a" "_ b"])
qed

text \<open>The checks of \<^verbatim>\<open>Subtract\<close> pass after \<^verbatim>\<open>Add\<close> exactly when no sum has wrapped around.\<close>

lemma wraps_once: "a < n \<Longrightarrow> b < n \<Longrightarrow> n \<le> a + b \<Longrightarrow> (a + b) mod n < b" for a b n :: nat
  by (simp add: le_mod_geq less_diff_conv2)

lemma sum_ge_iff: "y \<le> x + y \<longleftrightarrow> unat x + unat y < 2 ^ LENGTH('a)" for x y :: "'a::len word"
proof (cases "unat x + unat y < 2 ^ LENGTH('a)")
  case True
  then have "unat (x + y) = unat x + unat y" by (simp add: unat_add_lem)
  then show ?thesis using True by (simp add: word_le_nat_alt)
next
  case False
  have "unat (x + y) = (unat x + unat y) mod 2 ^ LENGTH('a)" by (simp add: unat_word_ariths)
  moreover have "(unat x + unat y) mod 2 ^ LENGTH('a) < unat y"
    by (rule wraps_once) (use False in \<open>simp_all add: unsigned_less\<close>)
  ultimately show ?thesis using False by (simp add: word_le_nat_alt)
qed

definition rpc_fits :: "RtpPacketCounter \<Rightarrow> RtpPacketCounter \<Rightarrow> bool" where
  "rpc_fits a b \<longleftrightarrow> unat (header_bytes a) + unat (header_bytes b) < 2 ^ 64 \<and>
     unat (payload_bytes a) + unat (payload_bytes b) < 2 ^ 64 \<and>
     unat (padding_bytes a) + unat (padding_bytes b) < 2 ^ 64 \<and> unat (packets a) + unat (packets b) < 2 ^ 32"

lemma rpc_Subtract_Add: "rpc_Subtract b (rpc_Add b a) = (if rpc_fits a b then Inr a else Inl DcheckFailed)"
  by (simp add: rpc_Subtract_def rpc_Add_def rpc_fits_def sum_ge_iff Let_def)

lemma total_bytes:
  "TotalBytes (transmitted (fold sdc_Add cs c)) = TotalBytes (transmitted c) + (\<Sum>x\<leftarrow>cs. TotalBytes (transmitted x))"
  "packets (transmitted (fold sdc_Add cs c)) = packets (transmitted c) + (\<Sum>x\<leftarrow>cs. packets (transmitted x))"
  by (induction cs arbitrary: c) (simp_all add: sdc_Add_def rpc_Add_def TotalBytes_def)

lemma total_media:
  "MediaPayloadBytes (fold sdc_Add cs c) = MediaPayloadBytes c + (\<Sum>x\<leftarrow>cs. MediaPayloadBytes x)"
  by (induction cs arbitrary: c) (simp_all add: sdc_Add_def rpc_Add_def MediaPayloadBytes_def)

text \<open>The time of a total: none if no counter has one, otherwise the earliest.\<close>

definition earliest :: "int \<Rightarrow> int set \<Rightarrow> bool" where
  "earliest t T \<longleftrightarrow> (if T = {} then t = - 1 else t \<in> T \<and> (\<forall>u\<in>T. t \<le> u))"

lemma earliest_oldest:
  assumes "earliest t T" and "- 1 \<notin> T"
  shows "earliest (oldest_time a t) (T \<union> ({a} - {- 1}))"
  using assms by (auto simp: earliest_def oldest_time_def split: if_splits)

lemma earliest_fold:
  "earliest t T \<Longrightarrow> - 1 \<notin> T \<Longrightarrow> earliest (fold oldest_time ts t) (T \<union> (set ts - {- 1}))"
proof (induction ts arbitrary: t T)
  case (Cons a ts)
  have "earliest (fold oldest_time ts (oldest_time a t)) ((T \<union> ({a} - {- 1})) \<union> (set ts - {- 1}))"
    by (rule Cons.IH [OF earliest_oldest [OF Cons.prems]]) (use Cons.prems(2) in simp)
  moreover have "(T \<union> ({a} - {- 1})) \<union> (set ts - {- 1}) = T \<union> (set (a # ts) - {- 1})" by auto
  ultimately show ?case by simp
qed simp

lemma total_time:
  "first_packet_time_ms (fold sdc_Add cs c) = fold oldest_time (map first_packet_time_ms cs) (first_packet_time_ms c)"
  by (induction cs arbitrary: c) (simp_all add: sdc_Add_def)

lemma total_earliest:
  "earliest (first_packet_time_ms (fold sdc_Add cs c)) (first_packet_time_ms ` set (c # cs) - {- 1})"
proof -
  have "earliest (fold oldest_time (map first_packet_time_ms (c # cs)) (- 1))
    ({} \<union> (set (map first_packet_time_ms (c # cs)) - {- 1}))"
    by (rule earliest_fold) (simp_all add: earliest_def)
  moreover have "oldest_time t (- 1) = t" for t by (simp add: oldest_time_def)
  ultimately show ?thesis by (simp add: total_time)
qed

subsection \<open>Properties\<close>

text \<open>
  C39. A total of stream counters does not depend on the order in which the counters are added, and adding a
  subtotal is the same as adding its parts. Bytes, packets and media bytes of the total are the sums, modulo
  the width; its first packet is the earliest one any of the counters has seen, and there is none exactly if
  no counter has seen one.
\<close>

theorem stream_counter_totals:
  shows "(mset cs = mset ds \<longrightarrow> fold sdc_Add cs c = fold sdc_Add ds c) \<and>
    sdc_Add (fold sdc_Add cs c) d = fold sdc_Add cs (sdc_Add c d) \<and>
    TotalBytes (transmitted (fold sdc_Add cs c)) = TotalBytes (transmitted c) + (\<Sum>x\<leftarrow>cs. TotalBytes (transmitted x)) \<and>
    packets (transmitted (fold sdc_Add cs c)) = packets (transmitted c) + (\<Sum>x\<leftarrow>cs. packets (transmitted x)) \<and>
    MediaPayloadBytes (fold sdc_Add cs c) = MediaPayloadBytes c + (\<Sum>x\<leftarrow>cs. MediaPayloadBytes x) \<and>
    earliest (first_packet_time_ms (fold sdc_Add cs c)) (first_packet_time_ms ` set (c # cs) - {- 1})"
  using stream_counters.total_any_order stream_counters.add_subtotal total_bytes total_media total_earliest by blast

definition ex_counter :: "int \<Rightarrow> 64 word \<Rightarrow> StreamDataCounters" where
  "ex_counter t n = \<lparr>first_packet_time_ms = t, last_packet_received_timestamp_ms = None,
     transmitted = RtpPacketCounter_new\<lparr>payload_bytes := n, packets := 1\<rparr>,
     retransmitted = RtpPacketCounter_new, fec = RtpPacketCounter_new\<rparr>"

theorem stream_counter_totals_witness:
  "fold sdc_Add [ex_counter 9 100, ex_counter (- 1) 20] (ex_counter 7 3) =
     fold sdc_Add [ex_counter (- 1) 20, ex_counter 9 100] (ex_counter 7 3) \<and>
   TotalBytes (transmitted (fold sdc_Add [ex_counter 9 100, ex_counter (- 1) 20] (ex_counter 7 3))) = 123"
  using stream_counter_totals [of "[ex_counter 9 100, ex_counter (- 1) 20]" "[ex_counter (- 1) 20, ex_counter 9 100]" "ex_counter 7 3"]
  by (simp add: ex_counter_def RtpPacketCounter_new_def TotalBytes_def sdc_Add_def rpc_Add_def)

text \<open>
  Subtracting what was added. For stream counters the checks pass exactly if none of the twelve sums has
  wrapped around, and then the counts are the old ones; for RTCP counters, which have no checks, the counts
  are always the old ones. The time is not restored: it is the time of the counter that was added and
  subtracted, if it has one.
\<close>

theorem subtract_undoes_add:
  "sdc_Subtract b (sdc_Add b a) =
     (if rpc_fits (transmitted a) (transmitted b) \<and> rpc_fits (retransmitted a) (retransmitted b) \<and> rpc_fits (fec a) (fec b)
      then Inr (if first_packet_time_ms b = - 1 then a else a\<lparr>first_packet_time_ms := first_packet_time_ms b\<rparr>)
      else Inl DcheckFailed) \<and>
   rtcp_Subtract y (rtcp_Add y x) =
     (if rtcp_first_packet_time_ms y = - 1 then x else x\<lparr>rtcp_first_packet_time_ms := rtcp_first_packet_time_ms y\<rparr>)"
  by (simp add: sdc_Subtract_def sdc_Add_def rpc_Subtract_Add rtcp_Subtract_def rtcp_Add_def youngest_oldest)

text \<open>
  With times that are not negative the duration since the first packet never overflows.
\<close>

lemma time_since_ok:
  assumes "0 \<le> now" and "in_int64 now" and "0 \<le> first_packet_time_ms c" and "in_int64 (first_packet_time_ms c)"
  shows "sdc_TimeSinceFirstPacketInMs now c = Inr (now - first_packet_time_ms c)"
  using assms by (simp add: sdc_TimeSinceFirstPacketInMs_def time_since_def in_int64_def)

end
