(* ===== verification/VideoFormats.thy ===== *)
theory VideoFormats
  imports Prelude "HOL-Library.Product_Lexorder"
begin

section \<open>Video formats and rotation\<close>

text \<open>
  \<^verbatim>\<open>media/base/video_common.h\<close>: FourCC codes, their names, and \<^verbatim>\<open>VideoFormat\<close>; \<^verbatim>\<open>api/video/video_rotation.h\<close>
  and \<^verbatim>\<open>modules/rtp_rtcp/include/rtp_cvo.h\<close>: the rotation of a frame and its byte in an RTP packet;
  \<^verbatim>\<open>audio_decoder_multi_channel_opus_config.h\<close> with its check. \<^verbatim>\<open>int\<close> has 32 bits; an operation that leaves
  them is the fault \<open>SignedOverflow\<close>. \<^verbatim>\<open>IntervalToFpsFloat\<close> computes with floating point and is left out.
\<close>

unbundle bit_operations_syntax

subsection \<open>FourCC codes\<close>

definition CRICKET_FOURCC :: "32 word \<Rightarrow> 32 word \<Rightarrow> 32 word \<Rightarrow> 32 word \<Rightarrow> 32 word" where
  "CRICKET_FOURCC a b c d = a OR push_bit 8 b OR push_bit 16 c OR push_bit 24 d"

text \<open>A code that is written with four characters.\<close>

definition fourcc :: "string \<Rightarrow> 32 word" where
  "fourcc s = CRICKET_FOURCC (word_of_nat (of_char (s ! 0))) (word_of_nat (of_char (s ! 1)))
     (word_of_nat (of_char (s ! 2))) (word_of_nat (of_char (s ! 3)))"

definition FourCC :: "(string \<times> 32 word) list" where
  "FourCC =
     [(''FOURCC_I420'', fourcc ''I420''), (''FOURCC_I422'', fourcc ''I422''), (''FOURCC_I444'', fourcc ''I444''),
      (''FOURCC_I411'', fourcc ''I411''), (''FOURCC_I400'', fourcc ''I400''), (''FOURCC_NV21'', fourcc ''NV21''),
      (''FOURCC_NV12'', fourcc ''NV12''), (''FOURCC_YUY2'', fourcc ''YUY2''), (''FOURCC_UYVY'', fourcc ''UYVY''),
      (''FOURCC_M420'', fourcc ''M420''), (''FOURCC_ARGB'', fourcc ''ARGB''), (''FOURCC_BGRA'', fourcc ''BGRA''),
      (''FOURCC_ABGR'', fourcc ''ABGR''), (''FOURCC_24BG'', fourcc ''24BG''), (''FOURCC_RAW'', fourcc ''raw ''),
      (''FOURCC_RGBA'', fourcc ''RGBA''), (''FOURCC_RGBP'', fourcc ''RGBP''), (''FOURCC_RGBO'', fourcc ''RGBO''),
      (''FOURCC_R444'', fourcc ''R444''), (''FOURCC_RGGB'', fourcc ''RGGB''), (''FOURCC_BGGR'', fourcc ''BGGR''),
      (''FOURCC_GRBG'', fourcc ''GRBG''), (''FOURCC_GBRG'', fourcc ''GBRG''), (''FOURCC_MJPG'', fourcc ''MJPG''),
      (''FOURCC_YV12'', fourcc ''YV12''), (''FOURCC_YV16'', fourcc ''YV16''), (''FOURCC_YV24'', fourcc ''YV24''),
      (''FOURCC_YU12'', fourcc ''YU12''), (''FOURCC_J420'', fourcc ''J420''), (''FOURCC_J400'', fourcc ''J400''),
      (''FOURCC_IYUV'', fourcc ''IYUV''), (''FOURCC_YU16'', fourcc ''YU16''), (''FOURCC_YU24'', fourcc ''YU24''),
      (''FOURCC_YUYV'', fourcc ''YUYV''), (''FOURCC_YUVS'', fourcc ''yuvs''), (''FOURCC_HDYC'', fourcc ''HDYC''),
      (''FOURCC_2VUY'', fourcc ''2vuy''), (''FOURCC_JPEG'', fourcc ''JPEG''), (''FOURCC_DMB1'', fourcc ''dmb1''),
      (''FOURCC_BA81'', fourcc ''BA81''), (''FOURCC_RGB3'', fourcc ''RGB3''), (''FOURCC_BGR3'', fourcc ''BGR3''),
      (''FOURCC_CM32'', CRICKET_FOURCC 0 0 0 32), (''FOURCC_CM24'', CRICKET_FOURCC 0 0 0 24),
      (''FOURCC_H264'', fourcc ''H264'')]"

definition GetFourccName :: "32 word \<Rightarrow> string" where
  "GetFourccName cc =
     [char_of (unat (cc AND 0xFF)), char_of (unat (drop_bit 8 cc AND 0xFF)),
      char_of (unat (drop_bit 16 cc AND 0xFF)), char_of (unat (drop_bit 24 cc AND 0xFF))]"

subsection \<open>VideoFormat\<close>

record VideoFormat =
  width :: int
  height :: int
  interval :: int
  format_fourcc :: "32 word"

definition Construct :: "int \<Rightarrow> int \<Rightarrow> int \<Rightarrow> 32 word \<Rightarrow> VideoFormat" where
  "Construct w h interval_ns cc = \<lparr>width = w, height = h, interval = interval_ns, format_fourcc = cc\<rparr>"

abbreviation kNumNanosecsPerSec :: int where "kNumNanosecsPerSec \<equiv> 1000000000"

definition kMinimumInterval :: int where
  "kMinimumInterval = c_div kNumNanosecsPerSec 10000"

definition FpsToInterval :: "int \<Rightarrow> int" where
  "FpsToInterval fps = (if fps \<noteq> 0 then c_div kNumNanosecsPerSec fps else kMinimumInterval)"

text \<open>The quotient is at most a thousand million, so that the conversion to \<^verbatim>\<open>int\<close> keeps it.\<close>

definition IntervalToFps :: "int \<Rightarrow> int" where
  "IntervalToFps iv = (if iv = 0 then 0 else c_div kNumNanosecsPerSec iv)"

definition vf_eq :: "VideoFormat \<Rightarrow> VideoFormat \<Rightarrow> bool" where
  "vf_eq this format \<longleftrightarrow> width this = width format \<and> height this = height format \<and>
     interval this = interval format \<and> format_fourcc this = format_fourcc format"

definition vf_less :: "VideoFormat \<Rightarrow> VideoFormat \<Rightarrow> bool" where
  "vf_less this format \<longleftrightarrow>
     format_fourcc this < format_fourcc format \<or>
     (format_fourcc this = format_fourcc format \<and> width this < width format) \<or>
     (format_fourcc this = format_fourcc format \<and> width this = width format \<and> height this < height format) \<or>
     (format_fourcc this = format_fourcc format \<and> width this = width format \<and> height this = height format \<and>
      interval this > interval format)"

definition mul_int :: "int \<Rightarrow> int \<Rightarrow> int res" where
  "mul_int a b = (if - (2 ^ 31) \<le> a * b \<and> a * b < 2 ^ 31 then Inr (a * b) else Inl SignedOverflow)"

definition IsPixelRateLess :: "VideoFormat \<Rightarrow> VideoFormat \<Rightarrow> bool res" where
  "IsPixelRateLess this format =
     res_bind (res_bind (mul_int (width this) (height this)) (\<lambda>p. mul_int p (IntervalToFps (interval this)))) (\<lambda>l.
     res_bind (res_bind (mul_int (width format) (height format)) (\<lambda>p. mul_int p (IntervalToFps (interval format)))) (\<lambda>r.
     Inr (l < r)))"

subsection \<open>Rotation\<close>

datatype VideoRotation = kVideoRotation_0 | kVideoRotation_90 | kVideoRotation_180 | kVideoRotation_270

fun ConvertVideoRotationToCVOByte :: "VideoRotation \<Rightarrow> 8 word" where
  "ConvertVideoRotationToCVOByte kVideoRotation_0 = 0"
| "ConvertVideoRotationToCVOByte kVideoRotation_90 = 1"
| "ConvertVideoRotationToCVOByte kVideoRotation_180 = 2"
| "ConvertVideoRotationToCVOByte kVideoRotation_270 = 3"

definition ConvertCVOByteToVideoRotation :: "8 word \<Rightarrow> VideoRotation res" where
  "ConvertCVOByteToVideoRotation cvo_byte =
     (let rotation_bits = cvo_byte AND 0x3
      in if rotation_bits = 0 then Inr kVideoRotation_0
         else if rotation_bits = 1 then Inr kVideoRotation_90
         else if rotation_bits = 2 then Inr kVideoRotation_180
         else if rotation_bits = 3 then Inr kVideoRotation_270
         else Inl DcheckFailed)"

subsection \<open>Channels of a multi-channel Opus decoder\<close>

record AudioDecoderMultiChannelOpusConfig =
  num_channels :: int
  num_streams :: int
  coupled_streams :: int
  channel_mapping :: "8 word list"

definition opus_IsOk :: "AudioDecoderMultiChannelOpusConfig \<Rightarrow> bool res" where
  "opus_IsOk c =
     (if num_channels c < 0 \<or> num_streams c < 0 \<or> coupled_streams c < 0 then Inr False
      else if num_streams c < coupled_streams c then Inr False
      else if int (length (channel_mapping c)) \<noteq> num_channels c then Inr False
      else if num_streams c + coupled_streams c \<ge> 2 ^ 31 then Inl SignedOverflow
      else
        let max_coded_channel = num_streams c + coupled_streams c
        in if list_ex (\<lambda>x. uint x \<ge> max_coded_channel \<and> x \<noteq> 255) (channel_mapping c) then Inr False
           else if num_channels c > 255 \<or> max_coded_channel \<ge> 255 then Inr False
           else Inr True)"

subsection \<open>Lemmas\<close>

lemma and_mask_byte: "w AND 0xFF = take_bit 8 w" for w :: "32 word"
proof -
  have "(0xFF :: 32 word) = mask 8" by (simp add: mask_eq_exp_minus_1)
  then show ?thesis by (simp only: take_bit_eq_mask)
qed

definition is_byte :: "32 word \<Rightarrow> bool" where
  "is_byte w \<longleftrightarrow> take_bit 8 w = w"

lemma is_byte_bit: "is_byte w \<Longrightarrow> 8 \<le> n \<Longrightarrow> \<not> bit w n"
  unfolding is_byte_def by (metis bit_take_bit_iff not_less)

lemma bit_fourcc:
  assumes "is_byte a" "is_byte b" "is_byte c" "is_byte d"
  shows "bit (CRICKET_FOURCC a b c d) n \<longleftrightarrow>
    (if n < 8 then bit a n else if n < 16 then bit b (n - 8) else if n < 24 then bit c (n - 16) else bit d (n - 24))"
proof -
  have "\<not> bit a n" if "8 \<le> n" using is_byte_bit [OF assms(1) that] .
  moreover have "\<not> bit b (n - 8)" if "16 \<le> n" using is_byte_bit [OF assms(2), of "n - 8"] that by simp
  moreover have "\<not> bit c (n - 16)" if "24 \<le> n" using is_byte_bit [OF assms(3), of "n - 16"] that by simp
  moreover have "\<not> bit d (n - 24)" if "32 \<le> n" using is_byte_bit [OF assms(4), of "n - 24"] that by simp
  ultimately show ?thesis by (cases "32 \<le> n") (auto simp: CRICKET_FOURCC_def bit_simps not_less)
qed

lemma byte_eqI:
  assumes "is_byte x" and "\<And>n. n < 8 \<Longrightarrow> bit y n = bit x n"
  shows "take_bit 8 y = x"
proof (rule bit_eqI)
  show "bit (take_bit 8 y) n = bit x n" for n
    using is_byte_bit [OF assms(1), of n] assms(2) [of n] by (cases "n < 8") (simp_all add: bit_take_bit_iff)
qed

lemma byte_of_fourcc:
  assumes "is_byte a" "is_byte b" "is_byte c" "is_byte d"
  shows "take_bit 8 (CRICKET_FOURCC a b c d) = a" "take_bit 8 (drop_bit 8 (CRICKET_FOURCC a b c d)) = b"
    "take_bit 8 (drop_bit 16 (CRICKET_FOURCC a b c d)) = c" "take_bit 8 (drop_bit 24 (CRICKET_FOURCC a b c d)) = d"
  by (rule byte_eqI, fact, simp add: bit_drop_bit_eq bit_fourcc [OF assms])+

lemma is_byte_take_bit: "is_byte (take_bit 8 w)"
  by (simp add: is_byte_def)

lemma fourcc_of_bytes:
  "CRICKET_FOURCC (take_bit 8 w) (take_bit 8 (drop_bit 8 w)) (take_bit 8 (drop_bit 16 w)) (take_bit 8 (drop_bit 24 w)) = w"
proof (rule bit_eqI)
  fix n assume "possible_bit TYPE(32 word) n"
  then have "n < 32" by simp
  then have "n - 24 < 8" by simp
  then show "bit (CRICKET_FOURCC (take_bit 8 w) (take_bit 8 (drop_bit 8 w)) (take_bit 8 (drop_bit 16 w)) (take_bit 8 (drop_bit 24 w))) n = bit w n"
    unfolding bit_fourcc [OF is_byte_take_bit is_byte_take_bit is_byte_take_bit is_byte_take_bit]
    by (auto simp: bit_take_bit_iff bit_drop_bit_eq not_less)
qed

text \<open>Characters as bytes and back.\<close>

lemma is_byte_char: "is_byte (word_of_nat (of_char c))"
proof -
  have "(of_char c :: nat) < 256" by simp
  then have "take_bit 8 (of_char c :: nat) = of_char c" by (simp add: take_bit_nat_eq_self)
  then show ?thesis unfolding is_byte_def by (metis of_nat_take_bit)
qed

lemma char_of_byte: "char_of (unat (word_of_nat (of_char c) :: 32 word)) = c"
proof -
  have "(of_char c :: nat) < 2 ^ 32" by (rule less_trans [of _ 256]) simp_all
  then have "unat (word_of_nat (of_char c) :: 32 word) = of_char c"
    by (simp add: unsigned_of_nat take_bit_nat_eq_self)
  then show ?thesis by simp
qed

lemma byte_of_char: "is_byte w \<Longrightarrow> word_of_nat (unat w mod 256) = w"
proof -
  assume "is_byte w"
  then have "unat w = take_bit 8 (unat w)" by (metis is_byte_def unsigned_take_bit_eq)
  moreover have "take_bit 8 (unat w) < 2 ^ 8" by (rule take_bit_nat_less_exp)
  ultimately have "unat w < 256" by simp
  then show ?thesis by simp
qed

lemma GetFourccName_of_fourcc:
  assumes "length s = 4"
  shows "GetFourccName (fourcc s) = s"
proof -
  obtain a b c d where "s = [a, b, c, d]"
    using assms by (auto simp: numeral_eq_Suc length_Suc_conv)
  then show ?thesis
    by (simp add: GetFourccName_def fourcc_def and_mask_byte byte_of_fourcc [OF is_byte_char is_byte_char is_byte_char is_byte_char]
        char_of_byte)
qed

lemma fourcc_of_GetFourccName: "fourcc (GetFourccName w) = w"
  by (simp add: GetFourccName_def fourcc_def and_mask_byte byte_of_char is_byte_take_bit fourcc_of_bytes)

definition fourcc_names :: "string list" where
  "fourcc_names =
     [''I420'', ''I422'', ''I444'', ''I411'', ''I400'', ''NV21'', ''NV12'', ''YUY2'', ''UYVY'', ''M420'', ''ARGB'', ''BGRA'',
      ''ABGR'', ''24BG'', ''raw '', ''RGBA'', ''RGBP'', ''RGBO'', ''R444'', ''RGGB'', ''BGGR'', ''GRBG'', ''GBRG'', ''MJPG'',
      ''YV12'', ''YV16'', ''YV24'', ''YU12'', ''J420'', ''J400'', ''IYUV'', ''YU16'', ''YU24'', ''YUYV'', ''yuvs'', ''HDYC'',
      ''2vuy'', ''JPEG'', ''dmb1'', ''BA81'', ''RGB3'', ''BGR3'', [CHR 0x00, CHR 0x00, CHR 0x00, CHR 0x20],
      [CHR 0x00, CHR 0x00, CHR 0x00, CHR 0x18], ''H264'']"

lemma FourCC_distinct: "distinct (map snd FourCC)"
proof -
  have "map snd FourCC = map fourcc fourcc_names"
    by (simp add: FourCC_def fourcc_names_def) (simp add: fourcc_def)
  moreover have "distinct fourcc_names" "list_all (\<lambda>s. length s = 4) fourcc_names"
    by (simp_all add: fourcc_names_def)
  moreover have "inj_on fourcc {s. length s = 4}"
    by (rule inj_on_inverseI [of _ GetFourccName]) (simp add: GetFourccName_of_fourcc)
  ultimately show ?thesis
    unfolding distinct_map list_all_iff by (metis (mono_tags, lifting) distinct_map inj_on_subset mem_Collect_eq subsetI)
qed

text \<open>Frame rates: the interval of a rate determines the rate, up to about 31622 frames per second.\<close>

lemma div_div_recovers:
  fixes N f :: int
  assumes "0 < f" and "f * (f + 1) \<le> N"
  shows "N div (N div f) = f"
proof -
  define q where "q = N div f"
  define r where "r = N mod f"
  have N: "N = f * q + r" "0 \<le> r" "r < f" using assms(1) by (simp_all add: q_def r_def)
  have "f + 1 \<le> q" unfolding q_def using zdiv_mono1 [OF assms(2) assms(1)] assms(1) by simp
  then have q: "r < q" "0 < q" using N(3) assms(1) by simp_all
  then show ?thesis unfolding q_def [symmetric] using N(1,2) by (simp add: add.commute)
qed

lemma fps_recovered:
  assumes "0 < fps" and "fps * (fps + 1) \<le> kNumNanosecsPerSec"
  shows "IntervalToFps (FpsToInterval fps) = fps"
proof -
  have "1 * (fps + 1) \<le> fps * (fps + 1)" using assms(1) by (intro mult_right_mono) simp_all
  then have "fps \<le> kNumNanosecsPerSec" using assms(2) by simp
  then have "0 < kNumNanosecsPerSec div fps" using assms(1) by (simp add: pos_imp_zdiv_pos_iff)
  then show ?thesis
    using assms div_div_recovers [OF assms] by (simp add: FpsToInterval_def IntervalToFps_def c_div_nonneg)
qed

text \<open>The comparison of formats is the lexicographic order of code, width, height and, reversed, interval.\<close>

lemma vf_less_key:
  "vf_less a b \<longleftrightarrow> (format_fourcc a, width a, height a, - interval a) < (format_fourcc b, width b, height b, - interval b)"
  by (auto simp: vf_less_def order_le_less)

lemma vf_eq_key:
  "vf_eq a b \<longleftrightarrow> (format_fourcc a, width a, height a, - interval a) = (format_fourcc b, width b, height b, - interval b)"
  by (auto simp: vf_eq_def)

lemma vf_less_linear:
  "\<not> vf_less a a" "vf_less a b \<Longrightarrow> vf_less b c \<Longrightarrow> vf_less a c" "vf_less a b \<or> vf_eq a b \<or> vf_less b a"
  unfolding vf_less_key vf_eq_key by (rule less_irrefl, rule less_trans, assumption+, rule less_linear)

text \<open>The byte of a rotation.\<close>

lemma CVO_roundtrip:
  "ConvertCVOByteToVideoRotation (ConvertVideoRotationToCVOByte r) = Inr r"
  "\<exists>r. ConvertCVOByteToVideoRotation b = Inr r \<and> ConvertVideoRotationToCVOByte r = b AND 3"
proof -
  show "ConvertCVOByteToVideoRotation (ConvertVideoRotationToCVOByte r) = Inr r"
    by (cases r) (simp_all add: ConvertCVOByteToVideoRotation_def)
  have "(3 :: 8 word) = mask 2" by (simp add: mask_eq_exp_minus_1)
  then have "b AND 3 = take_bit 2 b" by (simp only: take_bit_eq_mask)
  then have "unat (b AND 3) = take_bit 2 (unat b)" by (simp add: unsigned_take_bit_eq)
  moreover have "take_bit 2 (unat b) < 2 ^ 2" by (rule take_bit_nat_less_exp)
  ultimately have "unat (b AND 3) < 4" by simp
  then have "unat (b AND 3) \<in> {0, 1, 2, 3}" by auto
  then have "b AND 3 = 0 \<or> b AND 3 = 1 \<or> b AND 3 = 2 \<or> b AND 3 = 3"
    by (auto simp: word_unat_eq_iff)
  then show "\<exists>r. ConvertCVOByteToVideoRotation b = Inr r \<and> ConvertVideoRotationToCVOByte r = b AND 3"
    by (elim disjE) (force simp: ConvertCVOByteToVideoRotation_def intro: ConvertVideoRotationToCVOByte.simps [symmetric])+
qed

subsection \<open>Properties\<close>



text \<open>
  The check of a multi-channel Opus configuration accepts exactly the configurations whose mapping has
  one entry per channel, each a coded channel or silence, with at most 255 channels, fewer than 255 coded
  channels and no more coupled streams than streams. It is not safe for all inputs: the sum of the streams
  is taken before it is tested, and overflows for large numbers.
\<close>

theorem opus_config_check:
  "(opus_IsOk c = Inr True \<longleftrightarrow>
      0 \<le> coupled_streams c \<and> coupled_streams c \<le> num_streams c \<and> num_streams c + coupled_streams c < 255 \<and>
      int (length (channel_mapping c)) = num_channels c \<and> num_channels c \<le> 255 \<and>
      list_all (\<lambda>x. uint x < num_streams c + coupled_streams c \<or> x = 255) (channel_mapping c)) \<and>
    (opus_IsOk c = Inl SignedOverflow \<longleftrightarrow>
      0 \<le> coupled_streams c \<and> coupled_streams c \<le> num_streams c \<and> int (length (channel_mapping c)) = num_channels c \<and>
      2 ^ 31 \<le> num_streams c + coupled_streams c)"
proof -
  have ex: "list_ex (\<lambda>x. uint x \<ge> m \<and> x \<noteq> 255) xs \<longleftrightarrow> \<not> list_all (\<lambda>x. uint x < m \<or> x = 255) xs" for m and xs :: "8 word list"
    by (induction xs) auto
  show ?thesis unfolding opus_IsOk_def Let_def ex by (auto split: if_splits)
qed

theorem opus_config_check_witness:
  "opus_IsOk \<lparr>num_channels = 3, num_streams = 2, coupled_streams = 1, channel_mapping = [0, 255, 2]\<rparr> = Inr True \<and>
   opus_IsOk \<lparr>num_channels = 0, num_streams = 2147483647, coupled_streams = 1, channel_mapping = []\<rparr> = Inl SignedOverflow"
  using opus_config_check [of "\<lparr>num_channels = 3, num_streams = 2, coupled_streams = 1, channel_mapping = [0, 255, 2]\<rparr>"]
    opus_config_check [of "\<lparr>num_channels = 0, num_streams = 2147483647, coupled_streams = 1, channel_mapping = []\<rparr>"]
  by simp

end
