(* ===== verification/Spec2Isabelle.thy ===== *)
theory Spec2Isabelle
  imports Signalling CowBuffer ByteIo CivilTime Int128 SeqNum BigUnsigned SwapQueue Filters Units RunningStats ByteOrder UsedIds InlineVector Streams Vp9Gof SafeNumerics AudioUtil Counters VideoFormats
begin

text \<open>
  \<^bold>\<open>The program.\<close> The repository is a network library for a multiplayer game: a client
  (\<^verbatim>\<open>src/src/network.cpp\<close>, \<^verbatim>\<open>src/src/websocket.cpp\<close>, \<^verbatim>\<open>src/apps/app.cpp\<close>) that logs in at a signalling
  server (\<^verbatim>\<open>src/tests/signallingserver.js\<close>) over a websocket, exchanges offers, answers and candidates with
  its peers through that server, and then sends game data over WebRTC data channels. The tree also holds
  the headers of the WebRTC library the client is built with (\<^verbatim>\<open>src/local/include\<close>); their inline code
  (pointers, buffers, units, queues, filters, ids, vectors) is part of the program, the rest of WebRTC is
  compiled elsewhere. The parts interact in one direction: \<^verbatim>\<open>app.cpp\<close> calls the functions of namespace
  \<^verbatim>\<open>GameNetwork\<close>, these create objects of class \<^verbatim>\<open>WebrtcNetwork\<close> held by \<^verbatim>\<open>scoped_refptr\<close> in the table
  \<^verbatim>\<open>connections\<close>, and the callbacks of WebRTC and the texts of the websocket come back to these objects.

  \<^bold>\<open>Conventions.\<close> An operation that may fail returns \<open>'a res\<close> (theory \<open>Prelude\<close>): a \<open>fault\<close> (null or dangling
  pointer, failed \<^verbatim>\<open>RTC_CHECK\<close> or \<^verbatim>\<open>RTC_DCHECK\<close>, exception, access outside a block, read of an uninitialised
  value, undefined shift, signed overflow, division by zero) or a value. Debug checks are on. State is
  passed explicitly as a record; heaps are maps from addresses. Code that is not in the tree is an
  argument: \<open>rtc_lib\<close> (WebRTC), \<open>ws_lib\<close> (cpprestsdk), \<open>json_lib\<close> (jsoncpp), \<open>params_lib\<close> and \<open>stream_lib\<close>
  (functions and interfaces compiled elsewhere), and what is assumed of it is a named predicate
  (\<open>jsoncpp_laws\<close>, \<open>json_throws\<close>, \<open>sdp_laws\<close>, \<open>creates\<close>, \<open>cow_laws\<close>) of which concrete instances are given.

  \<^bold>\<open>Client.\<close> \<open>Websocket\<close> models the class \<^verbatim>\<open>Websocket\<close> and shows that it implements a line that is up or down.
  \<open>Jsoncpp\<close> and \<open>DataChannel\<close> hold the library interfaces and the data channel types. \<open>WebrtcNetwork\<close> has one
  definition per member function and callback of \<^verbatim>\<open>network.cpp\<close>, \<open>GameNetwork\<close> the connection table, the
  dispatch of websocket texts, \<^verbatim>\<open>NetworkInit\<close>, \<^verbatim>\<open>Connect\<close>, \<^verbatim>\<open>Senddata\<close>, \<^verbatim>\<open>Disconnect\<close> and \<^verbatim>\<open>main\<close>, and the step
  relation \<open>reachable\<close> of all events in any order. \<open>NetworkInvariant\<close> proves that the table and the reference
  counters agree in every reachable state, \<open>NetworkSafety\<close> that no event follows a dangling pointer,
  \<open>NetworkExample\<close> evaluates a session, \<open>NetworkProperties\<close> states what holds of calls, messages and
  disconnection, including the ways in which offers, answers and candidates of this client fail.
  \<open>SignallingServer\<close> models every case of the server's message switch and its connect and close events:
  names are exclusive, messages reach their addressee, and the exceptions that end the server.
  \<open>Signalling\<close> puts clients and server together: \<^verbatim>\<open>JSON.parse\<close> and \<^verbatim>\<open>JSON.stringify\<close> are parameters, and
  \<open>server_reads\<close>, \<open>client_reads\<close> say that a text carries the document that was written. The properties at the
  end of this theory follow a login, an offer and a candidate from the call in one client through the server
  to the handler of the other.

  \<^bold>\<open>Memory.\<close> \<open>RefCount\<close>: \<^verbatim>\<open>RefCounter\<close> (32-bit), \<^verbatim>\<open>RefCountedObject\<close> and \<^verbatim>\<open>scoped_refptr\<close>; programs over
  pointers are safe and counters equal the number of owners (locale \<open>ref_counted\<close> states the contract).
  \<open>Buffer\<close> and \<open>CowBuffer\<close>: \<^verbatim>\<open>BufferT\<close> and \<^verbatim>\<open>CopyOnWriteBuffer\<close> refine byte sequences, a zero-on-free buffer
  leaves no data behind, sharing is invisible. \<open>InlineVector\<close>: \<^verbatim>\<open>BoundedInlineVector\<close> refines lists.
  \<open>ByteIo\<close> and \<open>ByteOrder\<close>: integers as bytes in both orders, round trips, and agreement of the two headers on
  hosts of either byte order. \<open>SwapQueue\<close>: all interleavings of one producer and one consumer, split at each
  shared access, keep the queue first-in first-out.

  \<^bold>\<open>Numbers and time.\<close> \<open>Int128\<close>: the portable \<^verbatim>\<open>uint128\<close> equals the compiler's type. \<open>BigUnsigned\<close>: multi-word
  arithmetic equals natural numbers modulo the width. \<open>SeqNum\<close>: wrapping sequence numbers and unwrappers.
  \<open>CivilTime\<close>: the civil calendar, normalisation, differences and weekdays. \<open>Units\<close>: time, rate, size and
  frequency as 64-bit integers with infinities; type soundness of unit expressions, round trips, rounding.
  \<open>Filters\<close>: moving maximum, percentile and median. \<open>RunningStats\<close>: Welford's method with removal and merging
  and the rolling accumulator. \<open>UsedIds\<close>: payload types and extension ids become unique. \<open>Streams\<close>: stream
  parameters and collections. \<open>Vp9Gof\<close>: the predefined groups of frames of VP9 are temporally scalable, the
  copy of a description stays inside the arrays exactly for descriptions that fit them.
  \<open>SafeNumerics\<close>: the templates on integer types (\<^verbatim>\<open>safe_compare.h\<close>, \<^verbatim>\<open>safe_minmax.h\<close>, \<^verbatim>\<open>safe_conversions.h\<close>) with
  types as values and static assertions as predicates; comparisons are those of the numbers, the computed types
  hold the results, range checks are exact.

  \<^bold>\<open>Media.\<close> \<open>AudioUtil\<close>: interleaving and its inverse, mixing up and down (\<^verbatim>\<open>audio_util.h\<close>). \<open>Counters\<close>: the packet
  counters of RTP streams and RTCP packets (\<^verbatim>\<open>rtp_rtcp_defines.h\<close>, \<^verbatim>\<open>rtcp_statistics.h\<close>); totals do not depend on
  the order of additions, a subtraction undoes an addition up to the time of the first packet.
  \<open>VideoFormats\<close>: codes and names of formats, frame rates, rotations (\<^verbatim>\<open>video_common.h\<close>, \<^verbatim>\<open>rtp_cvo.h\<close>) and the check
  of the Opus decoder configuration, which can overflow.

  \<^bold>\<open>Interfaces.\<close> Where several implementations share a contract it is a locale with an interpretation for
  each: the counted objects of \<open>RefCount\<close>, the year loops of \<open>CivilTime\<close>, the byte orders of \<open>ByteIo\<close>, the unwrappers of \<open>SeqNum\<close>, the virtual
  search of \<open>UsedIds\<close> (two classes), the running extremes of \<open>RunningStats\<close> (maximum and minimum), the
  accumulators of \<open>Counters\<close> (stream and packet type counters).

  \<^bold>\<open>Bounds and termination.\<close> No definition uses fuel: loops are structural recursion on a counter or a list, or
  recursive functions with a measure (the search loops of \<open>UsedIds\<close>, the popping loop of \<open>Filters\<close>, the month and
  century loops of \<open>CivilTime\<close>, the frame loop of \<open>AudioUtil\<close>). 32-bit and 64-bit unsigned values are words or are reduced modulo the width;
  64-bit signed values are integers with an explicit range in \<open>Units\<close>, and mathematical integers in
  \<open>CivilTime\<close> and \<open>SeqNum\<close>. \<open>RunningStats\<close> computes with real numbers, so rounding of \<^verbatim>\<open>double\<close> is outside it.

  \<^bold>\<open>Not modelled.\<close> Abstract interfaces and declarations whose bodies are in \<^verbatim>\<open>libwebrtc.a\<close> (there is no code to
  translate); floating-point overloads of the units, conversions and audio samples; data tables such as \<^verbatim>\<open>ssl_roots.h\<close>; test doubles
  (\<^verbatim>\<open>fake_*.h\<close>) and the manual test clients under \<^verbatim>\<open>src/tests\<close>; the parts of Abseil that the modelled code does
  not use; build files. The endless loop at the end of \<^verbatim>\<open>main\<close> has no effect and is left out.
\<close>

section \<open>Clients and server: properties of the whole system\<close>

text \<open>
  C5. Logging in. When the line comes up, \<^verbatim>\<open>NetworkInit\<close> sends one text, and the server that gets it
  registers the connection under the player's name if the name is free, and confirms it.
\<close>

theorem login_registers_player:
  assumes "connect_outcome W (client_calls a @ [WsSetMessageHandler, WsConnect ''ws://localhost:9090'']) = WsDone"
    and "conns s c = Some k" and "is_open k" and "users s player = None" and "player \<notin> set proto_keys"
    and "server_reads J parse (JObj [(''name'', JStr player), (''type'', JStr ''login'')])"
  shows "\<exists>x t s'. NetworkInit J W L player a = Inr x \<and> Websocket.sent (client_calls (snd x)) = Websocket.sent (client_calls a) @ [t] \<and>
    on_message c (parse t) s = Inr s' \<and> users s' = (users s)(player \<mapsto> c) \<and>
    conns s' c = Some (k\<lparr>sname := JsStr player\<rparr>) \<and>
    outbox s' = outbox s @ [(c, JsObj [(''type'', JsStr ''login''), (''success'', JsBool True)])]"
proof -
  let ?doc = "[(''name'', JStr player), (''type'', JStr ''login'')]"
  obtain ms where parse: "parse (jwrite J (to_json J (JObj ?doc))) = Some (JsObj ms)" and doc: "js_is (JsObj ms) (JObj ?doc)"
    by (rule server_readsE [OF assms(6)])
  have ms: "map_of ms ''type'' = Some (JsStr ''login'')" "map_of ms ''name'' = Some (JsStr player)"
    unfolding js_is_text [OF doc, symmetric] by simp_all
  obtain s' where "on_message c (Some (JsObj ms)) s = Inr s'" "users s' = (users s)(player \<mapsto> c)"
    "conns s' c = Some (k\<lparr>sname := JsStr player\<rparr>)"
    "outbox s' = outbox s @ [(c, JsObj [(''type'', JsStr ''login''), (''success'', JsBool True)])]"
    using server_registers [OF assms(2-5) ms] by blast
  moreover obtain x where "NetworkInit J W L player a = Inr x"
    "Websocket.sent (client_calls (snd x)) = Websocket.sent (client_calls a) @ [jwrite J (to_json J (JObj ?doc))]"
    using NetworkInit_sends [OF assms(1), of J L player] by (auto simp del: to_json.simps)
  ultimately show ?thesis using parse by metis
qed

theorem login_registers_player_witness:
  "\<exists>x t s'. NetworkInit ex_texts ws_up_lib rtc_ok ''tom'' net_init = Inr x \<and> Websocket.sent (client_calls (snd x)) = [t] \<and>
     on_message 0 (ex_parse (JsObj [(''name'', JsStr ''tom''), (''type'', JsStr ''login'')]) t) (on_connection 0 server_init) = Inr s' \<and>
     users s' ''tom'' = Some 0"
proof -
  let ?doc = "JObj [(''name'', JStr ''tom''), (''type'', JStr ''login'')]"
  have "server_reads ex_texts (ex_parse (JsObj [(''name'', JsStr ''tom''), (''type'', JsStr ''login'')])) ?doc"
    by (intro ex_server_reads js_is_same_order) simp
  moreover have "connect_outcome ws_up_lib cs = WsDone" for cs by (simp add: ws_up_lib_def)
  moreover have "conns (on_connection 0 server_init) 0 = Some \<lparr>sname = JsUndefined, otherName = JsUndefined, is_open = True\<rparr>"
    "users (on_connection 0 server_init) ''tom'' = None" "''tom'' \<notin> set proto_keys"
    by (simp_all add: server_eval)
  moreover have "Websocket.sent (client_calls net_init) = []" by (simp add: net_init_def)
  ultimately show ?thesis
    using login_registers_player [of ws_up_lib net_init "on_connection 0 server_init" 0 _ "''tom''" ex_texts _ rtc_ok]
    by fastforce
qed

text \<open>
  C6. Calling. When a client has created an offer for a player who is logged in, the text it sends makes the
  server write one message to that player's connection and to no other, with the caller's name. The
  client that gets the message makes an object for the caller, but it reads the description under another
  key than it was written under: it makes no call that negotiates, so the offer is lost.
\<close>

theorem offer_through_server_is_lost:
  assumes J: "jsoncpp_laws J" and L: "sdp_laws L"
    and sender: "objects a p = Some ob" "peer_connection (payload ob) = Some pc" "iswebsocketconnected a"
      "GetType desc = kOffer" "desc_ToString desc = Some sdp" "wn_name (payload ob) = callee"
    and server: "server_reachable s" "conns s c = Some k" "sname k = JsStr caller"
      "conns s d = Some l" "is_open l" "sname l = JsStr callee" "callee \<noteq> ''''"
    and receiver: "reachable J W L ext b" "ready b" "creates L"
    and up: "server_reads J parse (JObj [(''offer'', JStr sdp), (''name'', JStr callee), (''type'', JStr ''offer'')])"
    and down: "client_reads J stringify
      (JsObj [(''type'', JsStr ''offer''), (''offer'', JsStr sdp), (''name'', JsStr caller)])"
  shows "\<exists>a' t s' m b'. OnCreateSuccess J p desc a = Inr a' \<and> client_calls a' = client_calls a @ [WsSend t] \<and>
    on_message c (parse t) s = Inr s' \<and> outbox s' = outbox s @ [(d, m)] \<and>
    OnWebSocketMessage J L (stringify m) b = Inr b' \<and>
    filter negotiates (rtc_calls b') = filter negotiates (rtc_calls b) \<and>
    (\<exists>q ob. connections b' caller = Some (Some q) \<and> objects b' q = Some ob \<and> data_channel (payload ob) = None)"
proof -
  let ?doc = "[(''offer'', JStr sdp), (''name'', JStr callee), (''type'', JStr ''offer'')]"
  let ?m = "[(''type'', JsStr ''offer''), (''offer'', JsStr sdp), (''name'', JsStr caller)]"
  obtain ms where parse: "parse (jwrite J (to_json J (JObj ?doc))) = Some (JsObj ms)" and doc: "js_is (JsObj ms) (JObj ?doc)"
    by (rule server_readsE [OF up])
  have ms: "map_of ms ''type'' = Some (JsStr ''offer'')" "map_of ms ''name'' = Some (JsStr callee)"
    "map_of ms ''offer'' = Some (JsStr sdp)"
    unfolding js_is_text [OF doc, symmetric] by simp_all
  obtain s' where s': "on_message c (Some (JsObj ms)) s = Inr s'" "outbox s' = outbox s @ [(d, JsObj ?m)]"
    using server_forwards_offer [OF server(2,3) users_of_open [OF server(1,4-7)] server(4,5) ms] by blast
  obtain ds where jt: "jparse J (c_str (stringify (JsObj ?m))) = Some (to_json J (JObj ds))" and m: "js_is (JsObj ?m) (JObj ds)"
    by (rule client_readsE [OF down])
  have "map_of ds ''type'' = Some (JStr ''offer'')" "map_of ds ''name'' = Some (JStr caller)"
    "map_of ds ''offer'' = Some (JStr sdp)" "map_of ds ''data'' = None"
    unfolding js_is_text [OF m] js_is_member(1) [OF m, symmetric] by simp_all
  from offer_member_lost [OF J L jt this receiver] obtain b' where b': "OnWebSocketMessage J L (stringify (JsObj ?m)) b = Inr b'"
    "filter negotiates (rtc_calls b') = filter negotiates (rtc_calls b)"
    "\<exists>q ob. connections b' caller = Some (Some q) \<and> objects b' q = Some ob \<and> data_channel (payload ob) = None"
    by blast
  obtain a' where "OnCreateSuccess J p desc a = Inr a'"
    "client_calls a' = client_calls a @ [WsSend (jwrite J (to_json J (JObj ?doc)))]"
    using OnCreateSuccess_sends [OF sender(1-5), of J] unfolding sender(6) by blast
  then show ?thesis
    using s' b' unfolding parse [symmetric] by blast
qed

theorem offer_through_server_is_lost_witness:
  "\<exists>a' t s' m b'.
     OnCreateSuccess ex_texts 0 \<lparr>desc_addr = 1, GetType = kOffer, desc_ToString = Some ''v=0''\<rparr> ex_call = Inr a' \<and>
     client_calls a' = client_calls ex_call @ [WsSend t] \<and>
     on_message 0 (ex_parse (JsObj [(''name'', JsStr ''you''), (''offer'', JsStr ''v=0''), (''type'', JsStr ''offer'')]) t)
       ex_pair = Inr s' \<and> outbox s' = outbox ex_pair @ [(1, m)] \<and>
     OnWebSocketMessage ex_texts rtc_ok ''offer from me'' ex_call = Inr b' \<and>
     filter negotiates (rtc_calls b') = filter negotiates (rtc_calls ex_call)"
proof -
  let ?ms = "[(''name'', JsStr ''you''), (''offer'', JsStr ''v=0''), (''type'', JsStr ''offer'')]"
  let ?m = "[(''type'', JsStr ''offer''), (''offer'', JsStr ''v=0''), (''name'', JsStr ''me'')]"
  let ?ob = "\<lparr>payload = \<lparr>wn_name = ''you'', peer_connection = Some 100, data_channel = Some 200\<rparr>, ref_count = 1\<rparr>"
  have up: "server_reads ex_texts (ex_parse (JsObj ?ms)) (JObj [(''offer'', JStr ''v=0''), (''name'', JStr ''you''), (''type'', JStr ''offer'')])"
    by (intro ex_server_reads js_is.obj) (auto split: if_splits)
  have "jparse ex_texts (c_str ''offer from me'') = Some (to_json ex_texts (JObj [(''type'', JStr ''offer''), (''offer'', JStr ''v=0''), (''name'', JStr ''me'')]))"
    by (subst to_json_ex_texts) (simp_all add: ex_texts_eval c_str_def)
  then have down: "client_reads ex_texts (\<lambda>_. ''offer from me'') (JsObj ?m)"
    by (rule client_readsI) (rule js_is_same_order, simp)
  have r: "ready ex_call" "creates rtc_ok" by (simp_all add: ready_def ex_call_eval creates_def rtc_ok_def)
  show ?thesis
    using offer_through_server_is_lost [OF ex_texts_laws rtc_ok_sdp _ _ ex_call_connected _ _ _ ex_pair_reachable ex_pair_eval(1) _
        ex_pair_eval(2) _ _ _ ex_call_reachable r up down, of 0 ?ob 100 "\<lparr>desc_addr = 1, GetType = kOffer, desc_ToString = Some ''v=0''\<rparr>"]
    by (simp add: ex_call_objects) blast
qed

text \<open>
  C7. Candidates. The text that a client sends for a candidate goes through the server to the player it is
  meant for, and to no other; there it ends the process: the candidate is written as an object and read as
  a text, and nothing catches the exception, in whatever state the receiving client is.
\<close>

theorem candidate_through_server_ends_receiver:
  assumes J: "jsoncpp_laws J"
    and sender: "objects a p = Some ob" "iswebsocketconnected a" "wn_name (payload ob) = callee"
    and server: "server_reachable s" "conns s d = Some l" "is_open l" "sname l = JsStr callee" "callee \<noteq> ''''"
    and cs: "cs = [(''sdpMLineIndex'', JInt (cand_sdp_mline_index cand)), (''sdpMid'', JStr (cand_sdp_mid cand)),
      (''candidate'', JStr (case cand_ToString cand of None \<Rightarrow> '''' | Some t \<Rightarrow> t))]"
    and up: "server_reads J parse (JObj [(''candidate'', JObj cs), (''name'', JStr callee), (''type'', JStr ''candidate'')])"
    and down: "\<And>v. js_is v (JObj cs) \<Longrightarrow>
      client_reads J stringify (JsObj [(''type'', JsStr ''candidate''), (''candidate'', v)])"
  shows "\<exists>a' t s' m. OnIceCandidate J p cand a = Inr a' \<and> client_calls a' = client_calls a @ [WsSend t] \<and>
    on_message c (parse t) s = Inr s' \<and> outbox s' = outbox s @ [(d, m)] \<and>
    (\<forall>L b. OnWebSocketMessage J L (stringify m) b = Inl JsonLogicError)"
proof -
  let ?doc = "[(''candidate'', JObj cs), (''name'', JStr callee), (''type'', JStr ''candidate'')]"
  obtain ms where parse: "parse (jwrite J (to_json J (JObj ?doc))) = Some (JsObj ms)" and doc: "js_is (JsObj ms) (JObj ?doc)"
    by (rule server_readsE [OF up])
  have ms: "map_of ms ''type'' = Some (JsStr ''candidate'')" "map_of ms ''name'' = Some (JsStr callee)"
    unfolding js_is_text [OF doc, symmetric] by simp_all
  obtain v where v: "map_of ms ''candidate'' = Some v" "js_is v (JObj cs)"
    using js_is_member(3) [OF doc, of "''candidate''" "JObj cs"] by auto
  from v(2) obtain vs where "v = JsObj vs" by (cases rule: js_is.cases) blast
  with v(2) have vs: "v = JsObj vs" "js_is (JsObj vs) (JObj cs)" by simp_all
  let ?m = "[(''type'', JsStr ''candidate''), (''candidate'', v)]"
  have "v \<noteq> JsUndefined" using vs(1) by simp
  from server_forwards_candidate [OF users_of_open [OF server] server(2,3) ms v(1) this, of c]
  obtain s' where s': "on_message c (Some (JsObj ms)) s = Inr s'" "outbox s' = outbox s @ [(d, JsObj ?m)]" by blast
  obtain ds where jt: "jparse J (c_str (stringify (JsObj ?m))) = Some (to_json J (JObj ds))" and m: "js_is (JsObj ?m) (JObj ds)"
    by (rule client_readsE [OF down [OF v(2)]])
  have ds: "map_of ds ''type'' = Some (JStr ''candidate'')" "map_of ds ''name'' = None"
    unfolding js_is_text [OF m] js_is_member(1) [OF m, symmetric] by simp_all
  obtain e where e: "map_of ds ''candidate'' = Some e" "js_is v e"
    using js_is_member(2) [OF m, of "''candidate''" v] by auto
  from e(2) [unfolded vs(1)] obtain es where es: "e = JObj es" by (cases rule: js_is.cases) blast
  have "map_of vs ''sdpMid'' \<noteq> None" using js_is_member(1) [OF vs(2), of "''sdpMid''"] unfolding cs by simp
  then have "es \<noteq> []" using js_is_member(1) [of vs es "''sdpMid''"] e(2) unfolding es vs(1) by auto
  then have crash: "OnWebSocketMessage J L (stringify (JsObj ?m)) b = Inl JsonLogicError" for L b
    using candidate_object_throws [OF J jt ds] e(1) unfolding es by blast
  obtain a' where "OnIceCandidate J p cand a = Inr a'"
    "client_calls a' = client_calls a @ [WsSend (jwrite J (to_json J (JObj ?doc)))]"
    using OnIceCandidate_sends [OF sender(1,2), of J cand] unfolding sender(3) cs by blast
  then show ?thesis using s' crash unfolding parse [symmetric] by blast
qed

theorem candidate_through_server_ends_receiver_witness:
  "\<exists>a' t s' m.
     OnIceCandidate ex_texts 0 \<lparr>cand_sdp_mid = ''data'', cand_sdp_mline_index = 0, cand_ToString = Some ''c''\<rparr> ex_call = Inr a' \<and>
     client_calls a' = client_calls ex_call @ [WsSend t] \<and>
     on_message 0 (ex_parse (JsObj [(''candidate'', JsObj [(''candidate'', JsStr ''c''), (''sdpMLineIndex'', JsNum 0), (''sdpMid'', JsStr ''data'')]),
       (''name'', JsStr ''you''), (''type'', JsStr ''candidate'')]) t) ex_pair = Inr s' \<and> outbox s' = outbox ex_pair @ [(1, m)] \<and>
     OnWebSocketMessage ex_texts rtc_ok ''candidate from me'' ex_call = Inl JsonLogicError"
proof -
  let ?v = "JsObj [(''candidate'', JsStr ''c''), (''sdpMLineIndex'', JsNum 0), (''sdpMid'', JsStr ''data'')]"
  let ?cs = "[(''sdpMLineIndex'', JInt 0), (''sdpMid'', JStr ''data''), (''candidate'', JStr ''c'')]"
  let ?cand = "\<lparr>cand_sdp_mid = ''data'', cand_sdp_mline_index = 0, cand_ToString = Some ''c''\<rparr>"
  let ?ob = "\<lparr>payload = \<lparr>wn_name = ''you'', peer_connection = Some 100, data_channel = Some 200\<rparr>, ref_count = 1\<rparr>"
  have "js_is ?v (JObj ?cs)" by (rule js_is.obj) (auto split: if_splits intro: js_is.num)
  then have up: "server_reads ex_texts (ex_parse (JsObj [(''candidate'', ?v), (''name'', JsStr ''you''), (''type'', JsStr ''candidate'')]))
      (JObj [(''candidate'', JObj ?cs), (''name'', JStr ''you''), (''type'', JStr ''candidate'')])"
    by (intro ex_server_reads js_is_same_order) simp
  have jt: "jparse ex_texts (c_str ''candidate from me'') = Some (to_json ex_texts (JObj [(''type'', JStr ''candidate''), (''candidate'', JObj ?cs)]))"
    by (subst to_json_ex_texts, simp add: to_json_ex_texts del: to_json.simps(4)) (simp_all add: ex_texts_eval c_str_def)
  have down: "client_reads ex_texts (\<lambda>_. ''candidate from me'') (JsObj [(''type'', JsStr ''candidate''), (''candidate'', v)])"
    if "js_is v (JObj ?cs)" for v
    using jt by (rule client_readsI) (rule js_is_same_order, simp add: that)
  show ?thesis
    using candidate_through_server_ends_receiver [OF ex_texts_laws _ ex_call_connected _ ex_pair_reachable ex_pair_eval(2) _ _ _ _ up down, of 0 ?ob ?cand 0]
    by (simp add: ex_call_objects) blast
qed

end
